(* ===== verification/Prelude.thy ===== *)
theory Prelude
  imports Main "HOL-Library.Word" "HOL-Library.Signed_Division"
begin

text \<open>
  Shared vocabulary of the development.

  \<^item> Addresses are integers and \<open>NULL\<close> is 0.
  \<^item> A C function that may hit undefined behaviour returns \<open>fault + 'a\<close>: \<open>Inl\<close> names
    what went wrong (a dereference of \<open>NULL\<close>, a failed \<open>assert\<close>, a signed overflow, an
    index outside an array, a loop that never ends), \<open>Inr\<close> carries the result.
  \<^item> \<open>andthen\<close> sequences two such computations, \<open>deref p r\<close> is \<open>r\<close> guarded
    by the check that \<open>p\<close> is not \<open>NULL\<close>, \<open>c_int\<close> checks that a result fits the
    32-bit \<open>int\<close> of C and \<open>int_of_long\<close> is the narrowing conversion from \<open>long\<close>.
  \<^item> \<open>loop\<close> turns the result of a \<open>partial_function (option)\<close> into a result of this
    kind: a loop that does not return is the fault \<open>Diverges\<close>.
\<close>

section \<open>Addresses, faults and results\<close>

type_synonym addr = int

abbreviation (input) NULL :: addr where
  "NULL \<equiv> 0"

datatype fault =
    Null_deref
  | Assert_failed
  | Signed_overflow
  | Div_by_zero
  | Out_of_bounds
  | Diverges

type_synonym 'a res = "fault + 'a"

named_theorems res_simps \<open>unfolding and inversion of fallible computations\<close>

definition andthen :: "'a res \<Rightarrow> ('a \<Rightarrow> 'b res) \<Rightarrow> 'b res" where
  "andthen r f = (case r of Inl e \<Rightarrow> Inl e | Inr x \<Rightarrow> f x)"

definition deref :: "addr \<Rightarrow> 'a res \<Rightarrow> 'a res" where
  "deref p r = (if p = NULL then Inl Null_deref else r)"

definition c_assert :: "bool \<Rightarrow> 'a res \<Rightarrow> 'a res" where
  "c_assert b r = (if b then r else Inl Assert_failed)"

definition in_int_range :: "int \<Rightarrow> bool" where
  "in_int_range v \<longleftrightarrow> - (2 ^ 31) \<le> v \<and> v < 2 ^ 31"

definition c_int :: "int \<Rightarrow> int res" where
  "c_int v = (if in_int_range v then Inr v else Inl Signed_overflow)"

definition int_of_long :: "int \<Rightarrow> int" where
  "int_of_long v = signed_take_bit 31 v"

definition loop :: "'a option \<Rightarrow> 'a res" where
  "loop r = (case r of None \<Rightarrow> Inl Diverges | Some x \<Rightarrow> Inr x)"

definition loop_res :: "'a res option \<Rightarrow> 'a res" where
  "loop_res r = (case r of None \<Rightarrow> Inl Diverges | Some x \<Rightarrow> x)"

lemma andthen_Inl [simp]: "andthen (Inl e) f = Inl e"
  by (simp add: andthen_def)

lemma andthen_Inr [simp]: "andthen (Inr x) f = f x"
  by (simp add: andthen_def)

lemma andthen_eq_Inr: "andthen r f = Inr y \<longleftrightarrow> (\<exists>x. r = Inr x \<and> f x = Inr y)"
  by (cases r) auto

lemma andthen_assoc: "andthen (andthen r f) g = andthen r (\<lambda>x. andthen (f x) g)"
  by (cases r) auto

lemma andthen_cong [fundef_cong]:
  "r = r' \<Longrightarrow> (\<And>x. r' = Inr x \<Longrightarrow> f x = g x) \<Longrightarrow> andthen r f = andthen r' g"
  by (cases r') auto

lemma deref_nonnull [simp]: "p \<noteq> NULL \<Longrightarrow> deref p r = r"
  by (simp add: deref_def)

lemma deref_NULL [simp]: "deref NULL r = Inl Null_deref"
  by (simp add: deref_def)

lemma deref_eq_Inr: "deref p r = Inr x \<longleftrightarrow> p \<noteq> NULL \<and> r = Inr x"
  by (simp add: deref_def)

lemma c_assert_simps [simp]:
  "c_assert True r = r" "c_assert False r = Inl Assert_failed"
  by (simp_all add: c_assert_def)

lemma c_assert_eq_Inr: "c_assert b r = Inr x \<longleftrightarrow> b \<and> r = Inr x"
  by (simp add: c_assert_def)

lemma c_int_in_range [simp]: "in_int_range v \<Longrightarrow> c_int v = Inr v"
  by (simp add: c_int_def)

lemma c_int_eq_Inr: "c_int v = Inr w \<longleftrightarrow> in_int_range v \<and> w = v"
  by (auto simp: c_int_def)

lemma c_int_overflow [simp]: "\<not> in_int_range v \<Longrightarrow> c_int v = Inl Signed_overflow"
  by (simp add: c_int_def)

lemma loop_simps [simp]: "loop None = Inl Diverges" "loop (Some x) = Inr x"
  by (simp_all add: loop_def)

lemma loop_eq_Inr: "loop r = Inr x \<longleftrightarrow> r = Some x"
  by (cases r) auto

lemma loop_res_simps [simp]: "loop_res None = Inl Diverges" "loop_res (Some x) = x"
  by (simp_all add: loop_res_def)

lemma loop_res_eq_Inr: "loop_res r = Inr x \<longleftrightarrow> r = Some (Inr x)"
  by (cases r) auto

lemmas res_inversions [res_simps] =
  andthen_eq_Inr deref_eq_Inr c_assert_eq_Inr c_int_eq_Inr loop_eq_Inr loop_res_eq_Inr

section \<open>Narrowing conversions\<close>

lemma int_of_long_id: "in_int_range v \<Longrightarrow> int_of_long v = v"
  unfolding int_of_long_def in_int_range_def
  by (simp add: signed_take_bit_int_eq_self)

lemma int_of_long_range: "in_int_range (int_of_long v)"
  unfolding int_of_long_def in_int_range_def
  using signed_take_bit_int_greater_eq_minus_exp [of 31 v] signed_take_bit_int_less_exp [of 31 v]
  by simp

section \<open>First and last elements with a default\<close>

text \<open>
  The ends of a list, with the value that stands for the missing element of an empty list:
  the pointer fields of a linked list hold exactly these values.
\<close>

definition first_of :: "'a list \<Rightarrow> 'a \<Rightarrow> 'a" where
  "first_of xs d = (case xs of [] \<Rightarrow> d | x # _ \<Rightarrow> x)"

definition last_of :: "'a \<Rightarrow> 'a list \<Rightarrow> 'a" where
  "last_of d xs = (if xs = [] then d else last xs)"

lemma first_of_simps [simp]: "first_of [] d = d" "first_of (x # xs) d = x"
  by (simp_all add: first_of_def)

lemma last_of_simps [simp]:
  "last_of d [] = d" "last_of d (x # xs) = last_of x xs" "last_of d (xs @ [x]) = x"
  by (simp_all add: last_of_def)

lemma first_of_append [simp]: "first_of (xs @ ys) d = first_of xs (first_of ys d)"
  by (cases xs) simp_all

lemma last_of_append [simp]: "last_of d (xs @ ys) = last_of (last_of d xs) ys"
  by (induction xs arbitrary: d) simp_all

lemma last_of_in: "xs \<noteq> [] \<Longrightarrow> last_of d xs \<in> set xs"
  by (simp add: last_of_def)

lemma first_of_in: "xs \<noteq> [] \<Longrightarrow> first_of xs d \<in> set xs"
  by (cases xs) simp_all

section \<open>Removing one element of a duplicate-free list\<close>

lemma remove1_middle: "x \<notin> set us \<Longrightarrow> remove1 x (us @ x # vs) = us @ vs"
  by (simp add: remove1_append)

lemma in_set_remove1_distinct [simp]:
  "distinct xs \<Longrightarrow> y \<in> set (remove1 x xs) \<longleftrightarrow> y \<in> set xs \<and> y \<noteq> x"
  by (metis set_remove1_eq DiffD1 DiffD2 DiffI insertI1 singletonD)

lemma in_set_remove1D: "y \<in> set (remove1 x xs) \<Longrightarrow> y \<in> set xs"
  by (rule ccontr) (simp add: notin_set_remove1)

lemma split_distinct:
  assumes "x \<in> set xs" and "distinct xs"
  obtains us vs where "xs = us @ x # vs" and "x \<notin> set us" and "x \<notin> set vs"
  using assms by (metis distinct.simps(2) distinct_append split_list_first)

end
