(* ===== verification/Linked_List.thy ===== *)
theory Linked_List
  imports Prelude
begin

text \<open>
  The intrusive doubly linked list of \<^verbatim>\<open>linked_list.h\<close> and \<^verbatim>\<open>linked_list.c\<close>,
  at the level of its pointers.

  Every list item of the program is embedded at offset 0 of an object, so an item and its
  object have the same address: \<open>links\<close> maps an address to the \<open>prev\<close> and
  \<open>next\<close> fields found there. A \<open>ListHead*\<close> is a location of type \<open>'h\<close> (a global
  variable or a field of some object) and \<open>heads\<close> maps it to its three fields. The
  operations are the C functions on this store, statement by statement.

  \<open>list_rep lk hd L\<close> says that, for every location \<open>h\<close>, the head and the links found
  there represent the HOL list \<open>L h\<close> of addresses, and that no item is in two lists. The
  theorems show that under it the pointer code inserts, detaches and finds as the list
  functions do, and leaves every other list alone.
\<close>

section \<open>The store and the operations\<close>

record ListItem =
  li_prev :: addr
  li_next :: addr

record ListHead =
  lh_first :: addr
  lh_last :: addr
  lh_size :: int

record 'h lmem =
  links :: "addr \<Rightarrow> ListItem"
  heads :: "'h \<Rightarrow> ListHead"

definition set_prev :: "(addr \<Rightarrow> ListItem) \<Rightarrow> addr \<Rightarrow> addr \<Rightarrow> (addr \<Rightarrow> ListItem)" where
  "set_prev lk a v = lk(a := (lk a)\<lparr>li_prev := v\<rparr>)"

definition set_next :: "(addr \<Rightarrow> ListItem) \<Rightarrow> addr \<Rightarrow> addr \<Rightarrow> (addr \<Rightarrow> ListItem)" where
  "set_next lk a v = lk(a := (lk a)\<lparr>li_next := v\<rparr>)"

definition List_init :: "('h, 'z) lmem_scheme \<Rightarrow> 'h \<Rightarrow> ('h, 'z) lmem_scheme" where
  "List_init m h =
     m\<lparr>heads := (heads m)(h := \<lparr>lh_first = NULL, lh_last = NULL, lh_size = 0\<rparr>)\<rparr>"

text \<open>
  The scan every search of the program performs: follow \<open>next\<close> from \<open>aux\<close> until the
  test holds or the list ends. The test may read an object that the item points to:
  \<open>obj\<close> is the pointer it dereferences. On a cyclic chain the scan need not return.
\<close>

partial_function (option) List_scan ::
    "(addr \<Rightarrow> ListItem) \<Rightarrow> (addr \<Rightarrow> addr) \<Rightarrow> (addr \<Rightarrow> bool) \<Rightarrow> addr \<Rightarrow> addr res option" where
  "List_scan lk obj test aux =
     (if aux = NULL then Some (Inr NULL)
      else if obj aux = NULL then Some (Inl Null_deref)
      else if test aux then Some (Inr aux)
      else List_scan lk obj test (li_next (lk aux)))"

declare List_scan.simps [code]

definition List_search ::
    "('h, 'z) lmem_scheme \<Rightarrow> 'h \<Rightarrow> (addr \<Rightarrow> addr) \<Rightarrow> (addr \<Rightarrow> bool) \<Rightarrow> addr res" where
  "List_search m h obj test = loop_res (List_scan (links m) obj test (lh_first (heads m h)))"

definition List_find :: "('h, 'z) lmem_scheme \<Rightarrow> 'h \<Rightarrow> addr \<Rightarrow> addr res" where
  "List_find m h item = List_search m h (\<lambda>aux. aux) (\<lambda>aux. aux = item)"

definition List_insert ::
    "('h, 'z) lmem_scheme \<Rightarrow> 'h \<Rightarrow> addr \<Rightarrow> addr \<Rightarrow> (addr \<times> ('h, 'z) lmem_scheme) res" where
  "List_insert m h prev item =
     deref item
       (if li_next (links m item) \<noteq> NULL \<or> li_prev (links m item) \<noteq> NULL then Inr (NULL, m)
        else
          let nxt = (if prev \<noteq> NULL then li_next (links m prev) else lh_first (heads m h));
              lk1 = (if prev \<noteq> NULL then set_next (set_prev (links m) item prev) prev item
                     else links m);
              lk2 = (if nxt \<noteq> NULL then set_prev (set_next lk1 item nxt) nxt item else lk1);
              hd0 = heads m h;
              hd1 = (if prev = NULL then hd0\<lparr>lh_first := item\<rparr> else hd0);
              hd2 = (if nxt = NULL then hd1\<lparr>lh_last := item\<rparr> else hd1);
              hd3 = hd2\<lparr>lh_size := lh_size hd2 + 1\<rparr>
          in Inr (item, m\<lparr>links := lk2, heads := (heads m)(h := hd3)\<rparr>))"

definition List_detach ::
    "('h, 'z) lmem_scheme \<Rightarrow> 'h \<Rightarrow> addr \<Rightarrow> (addr \<times> ('h, 'z) lmem_scheme) res" where
  "List_detach m h item =
     deref item
       (let prv = li_prev (links m item);
            nxt = li_next (links m item);
            lk1 = (if prv \<noteq> NULL then set_next (links m) prv nxt else links m);
            lk2 = (if nxt \<noteq> NULL then set_prev lk1 nxt prv else lk1);
            hd0 = heads m h;
            hd1 = (if item = lh_first hd0 then hd0\<lparr>lh_first := nxt\<rparr> else hd0);
            hd2 = (if item = lh_last hd1 then hd1\<lparr>lh_last := prv\<rparr> else hd1);
            hd3 = hd2\<lparr>lh_size := lh_size hd2 - 1\<rparr>;
            lk3 = set_next (set_prev lk2 item NULL) item NULL
        in Inr (item, m\<lparr>links := lk3, heads := (heads m)(h := hd3)\<rparr>))"

section \<open>Representation of lists by the store\<close>

text \<open>\<open>seg lk p xs n\<close>: the items \<open>xs\<close> are chained both ways, \<open>p\<close> before and \<open>n\<close> after.\<close>

fun seg :: "(addr \<Rightarrow> ListItem) \<Rightarrow> addr \<Rightarrow> addr list \<Rightarrow> addr \<Rightarrow> bool" where
  "seg lk p [] n = True"
| "seg lk p (x # xs) n =
     (x \<noteq> NULL \<and> li_prev (lk x) = p \<and> li_next (lk x) = first_of xs n \<and> seg lk x xs n)"

definition dll :: "(addr \<Rightarrow> ListItem) \<Rightarrow> ListHead \<Rightarrow> addr list \<Rightarrow> bool" where
  "dll lk head xs \<longleftrightarrow>
     distinct xs \<and> seg lk NULL xs NULL \<and>
     head = \<lparr>lh_first = first_of xs NULL, lh_last = last_of NULL xs, lh_size = int (length xs)\<rparr>"

definition list_rep ::
    "(addr \<Rightarrow> ListItem) \<Rightarrow> ('h \<Rightarrow> ListHead) \<Rightarrow> ('h \<Rightarrow> addr list) \<Rightarrow> bool" where
  "list_rep lk hds L \<longleftrightarrow>
     (\<forall>h. dll lk (hds h) (L h)) \<and> (\<forall>h g. h \<noteq> g \<longrightarrow> set (L h) \<inter> set (L g) = {})"

text \<open>An item in no list whose links are null: what \<open>List_insert\<close> accepts.\<close>

definition loose :: "(addr \<Rightarrow> ListItem) \<Rightarrow> ('h \<Rightarrow> addr list) \<Rightarrow> addr \<Rightarrow> bool" where
  "loose lk L x \<longleftrightarrow>
     x \<noteq> NULL \<and> lk x = \<lparr>li_prev = NULL, li_next = NULL\<rparr> \<and> (\<forall>h. x \<notin> set (L h))"

text \<open>Where \<open>List_insert\<close> puts the item: after \<open>p\<close>, or in front when \<open>p\<close> is \<open>NULL\<close>.\<close>

fun insert_after :: "addr \<Rightarrow> addr \<Rightarrow> addr list \<Rightarrow> addr list" where
  "insert_after p x [] = [x]"
| "insert_after p x (y # ys) =
     (if p = NULL then x # y # ys
      else if y = p then y # x # ys
      else y # insert_after p x ys)"

lemma seg_append:
  "seg lk p (xs @ ys) n \<longleftrightarrow> seg lk p xs (first_of ys n) \<and> seg lk (last_of p xs) ys n"
  by (induction xs arbitrary: p) auto

lemma seg_cong:
  "(\<And>x. x \<in> set xs \<Longrightarrow> lk' x = lk x) \<Longrightarrow> seg lk' p xs n = seg lk p xs n"
  by (induction xs arbitrary: p) auto

lemma seg_nonnull: "seg lk p xs n \<Longrightarrow> NULL \<notin> set xs"
  by (induction xs arbitrary: p) auto

lemma insert_after_NULL [simp]: "insert_after NULL x xs = x # xs"
  by (cases xs) simp_all

lemma insert_after_middle:
  "p \<noteq> NULL \<Longrightarrow> p \<notin> set us \<Longrightarrow> insert_after p x (us @ p # vs) = us @ p # x # vs"
  by (induction us) auto

lemma set_insert_after:
  "p = NULL \<or> p \<in> set xs \<Longrightarrow> set (insert_after p x xs) = insert x (set xs)"
  by (induction xs) auto

lemma insert_after_last_of:
  assumes "distinct (us @ vs)" and "NULL \<notin> set (us @ vs)"
  shows "insert_after (last_of NULL us) x (us @ vs) = us @ x # vs"
proof (cases us rule: rev_cases)
  case (snoc us' u)
  with assms show ?thesis by (simp add: insert_after_middle)
qed simp

lemma insert_after_last:
  assumes "distinct xs" and "NULL \<notin> set xs"
  shows "insert_after (last_of NULL xs) x xs = xs @ [x]"
proof (cases xs rule: rev_cases)
  case Nil
  then show ?thesis by simp
next
  case (snoc ys y)
  with assms show ?thesis by (auto simp: insert_after_middle)
qed


section \<open>The effect of the link updates on a chain\<close>

definition link_in :: "(addr \<Rightarrow> ListItem) \<Rightarrow> addr \<Rightarrow> addr \<Rightarrow> addr \<Rightarrow> (addr \<Rightarrow> ListItem)" where
  "link_in lk p n x =
     (let lk1 = (if p \<noteq> NULL then set_next (set_prev lk x p) p x else lk)
      in if n \<noteq> NULL then set_prev (set_next lk1 x n) n x else lk1)"

definition link_out :: "(addr \<Rightarrow> ListItem) \<Rightarrow> addr \<Rightarrow> addr \<Rightarrow> addr \<Rightarrow> (addr \<Rightarrow> ListItem)" where
  "link_out lk p n x =
     (let lk1 = (if p \<noteq> NULL then set_next lk p n else lk);
          lk2 = (if n \<noteq> NULL then set_prev lk1 n p else lk1)
      in set_next (set_prev lk2 x NULL) x NULL)"

lemma set_prev_apply [simp]:
  "li_prev (set_prev lk a v b) = (if b = a then v else li_prev (lk b))"
  "li_next (set_prev lk a v b) = li_next (lk b)"
  by (simp_all add: set_prev_def)

lemma set_next_apply [simp]:
  "li_prev (set_next lk a v b) = li_prev (lk b)"
  "li_next (set_next lk a v b) = (if b = a then v else li_next (lk b))"
  by (simp_all add: set_next_def)

lemma set_links_other [simp]:
  "b \<noteq> a \<Longrightarrow> set_prev lk a v b = lk b" "b \<noteq> a \<Longrightarrow> set_next lk a v b = lk b"
  by (simp_all add: set_prev_def set_next_def)

lemma seg_set_prev [simp]: "a \<notin> set xs \<Longrightarrow> seg (set_prev lk a v) p xs n = seg lk p xs n"
  by (rule seg_cong) (metis set_links_other(1))

lemma seg_set_next [simp]: "a \<notin> set xs \<Longrightarrow> seg (set_next lk a v) p xs n = seg lk p xs n"
  by (rule seg_cong) (metis set_links_other(2))

lemma link_in_other: "a \<noteq> p \<Longrightarrow> a \<noteq> n \<Longrightarrow> a \<noteq> x \<Longrightarrow> link_in lk p n x a = lk a"
  by (simp add: link_in_def Let_def)

lemma link_out_other: "a \<noteq> p \<Longrightarrow> a \<noteq> n \<Longrightarrow> a \<noteq> x \<Longrightarrow> link_out lk p n x a = lk a"
  by (simp add: link_out_def Let_def)

lemma link_out_self [simp]: "link_out lk p n x x = \<lparr>li_prev = NULL, li_next = NULL\<rparr>"
  by (simp add: link_out_def Let_def set_prev_def set_next_def)

lemma seg_link_in:
  assumes "seg lk NULL (us @ vs) NULL" and "distinct (us @ vs)" and "x \<notin> set (us @ vs)"
    and "x \<noteq> NULL" and "lk x = \<lparr>li_prev = NULL, li_next = NULL\<rparr>"
  shows "seg (link_in lk (last_of NULL us) (first_of vs NULL) x) NULL (us @ x # vs) NULL"
proof -
  have nn: "NULL \<notin> set (us @ vs)" using assms(1) by (rule seg_nonnull)
  show ?thesis
  proof (cases us rule: rev_cases)
    case Nil
    then show ?thesis using assms nn
      by (cases vs) (auto simp: link_in_def Let_def)
  next
    case (snoc us' p)
    then show ?thesis using assms nn
      by (cases vs) (auto simp: link_in_def Let_def seg_append)
  qed
qed

lemma seg_link_out:
  assumes "seg lk NULL (us @ x # vs) NULL" and "distinct (us @ x # vs)"
  shows "seg (link_out lk (last_of NULL us) (first_of vs NULL) x) NULL (us @ vs) NULL"
proof -
  have nn: "NULL \<notin> set (us @ x # vs)" using assms(1) by (rule seg_nonnull)
  show ?thesis
  proof (cases us rule: rev_cases)
    case Nil
    then show ?thesis using assms nn
      by (cases vs) (auto simp: link_out_def Let_def)
  next
    case (snoc us' p)
    then show ?thesis using assms nn
      by (cases vs) (auto simp: link_out_def Let_def seg_append)
  qed
qed


section \<open>Insertion and detachment on a represented store\<close>

text \<open>
  \<open>list_put\<close> and \<open>list_cut\<close> are the stores \<open>List_insert\<close> and \<open>List_detach\<close> leave, as
  total functions: the lemmas rewrite a call to them where it cannot fault.
\<close>

definition list_put :: "('h, 'z) lmem_scheme \<Rightarrow> 'h \<Rightarrow> addr \<Rightarrow> addr \<Rightarrow> ('h, 'z) lmem_scheme" where
  "list_put m h p x = (case List_insert m h p x of Inl _ \<Rightarrow> m | Inr (_, m') \<Rightarrow> m')"

definition list_cut :: "('h, 'z) lmem_scheme \<Rightarrow> 'h \<Rightarrow> addr \<Rightarrow> ('h, 'z) lmem_scheme" where
  "list_cut m h x = (case List_detach m h x of Inl _ \<Rightarrow> m | Inr (_, m') \<Rightarrow> m')"

lemma dllD:
  assumes "dll lk head xs"
  shows "distinct xs" "seg lk NULL xs NULL" "lh_first head = first_of xs NULL"
    "lh_last head = last_of NULL xs" "lh_size head = int (length xs)" "NULL \<notin> set xs"
  using assms by (auto simp: dll_def dest: seg_nonnull)

lemma dllI:
  assumes "distinct xs" "seg lk NULL xs NULL" "lh_first head = first_of xs NULL"
    "lh_last head = last_of NULL xs" "lh_size head = int (length xs)"
  shows "dll lk head xs"
  using assms by (auto simp: dll_def)

lemma dll_cong: "(\<And>x. x \<in> set xs \<Longrightarrow> lk' x = lk x) \<Longrightarrow> dll lk' head xs = dll lk head xs"
  unfolding dll_def by (auto cong: seg_cong)

lemma seg_next: "seg lk p (us @ x # vs) n \<Longrightarrow> li_next (lk x) = first_of vs n"
  by (simp add: seg_append)

lemma seg_prev: "seg lk p (us @ x # vs) n \<Longrightarrow> li_prev (lk x) = last_of p us"
  by (simp add: seg_append)

lemma dll_insert:
  assumes d: "dll (links m) (heads m h) (us @ vs)" and x: "x \<notin> set (us @ vs)" "x \<noteq> NULL"
    and null: "links m x = \<lparr>li_prev = NULL, li_next = NULL\<rparr>"
    and p: "p = last_of NULL us"
  shows "List_insert m h p x = Inr (x, list_put m h p x)"
    and "links (list_put m h p x) = link_in (links m) p (first_of vs NULL) x"
    and "\<And>g. g \<noteq> h \<Longrightarrow> heads (list_put m h p x) g = heads m g"
    and "dll (links (list_put m h p x)) (heads (list_put m h p x) h) (us @ x # vs)"
proof -
  note D = dllD [OF d]
  have nxt: "(if p \<noteq> NULL then li_next (links m p) else lh_first (heads m h)) = first_of vs NULL"
  proof (cases us rule: rev_cases)
    case Nil
    with p D(3) show ?thesis by simp
  next
    case (snoc us' q)
    with p D(2,6) show ?thesis by (auto simp: seg_append)
  qed
  have pz: "p = NULL \<longleftrightarrow> us = []"
    using p D(6) by (cases us rule: rev_cases) auto
  have vz: "first_of vs NULL = NULL \<longleftrightarrow> vs = []"
    using D(6) by (cases vs) auto
  define h1 where "h1 = (if p = NULL then (heads m h)\<lparr>lh_first := x\<rparr> else heads m h)"
  define h2 where "h2 = (if first_of vs NULL = NULL then h1\<lparr>lh_last := x\<rparr> else h1)"
  have ins: "List_insert m h p x =
    Inr (x, m\<lparr>links := link_in (links m) p (first_of vs NULL) x,
              heads := (heads m)(h := h2\<lparr>lh_size := lh_size h2 + 1\<rparr>)\<rparr>)"
    using x null nxt by (simp add: List_insert_def link_in_def Let_def h1_def h2_def)
  then have put: "list_put m h p x = m\<lparr>links := link_in (links m) p (first_of vs NULL) x,
              heads := (heads m)(h := h2\<lparr>lh_size := lh_size h2 + 1\<rparr>)\<rparr>"
    by (simp add: list_put_def)
  show "List_insert m h p x = Inr (x, list_put m h p x)"
    and "links (list_put m h p x) = link_in (links m) p (first_of vs NULL) x"
    and "\<And>g. g \<noteq> h \<Longrightarrow> heads (list_put m h p x) g = heads m g"
    using ins by (simp_all add: put)
  have "seg (link_in (links m) p (first_of vs NULL) x) NULL (us @ x # vs) NULL"
    unfolding p by (rule seg_link_in) (use D x null in auto)
  then show "dll (links (list_put m h p x)) (heads (list_put m h p x) h) (us @ x # vs)"
    using D x pz vz
    by (intro dllI) (auto simp: put h1_def h2_def last_of_def first_of_def split: list.splits)
qed

lemma dll_detach:
  assumes d: "dll (links m) (heads m h) (us @ x # vs)"
  shows "List_detach m h x = Inr (x, list_cut m h x)"
    and "links (list_cut m h x) = link_out (links m) (last_of NULL us) (first_of vs NULL) x"
    and "\<And>g. g \<noteq> h \<Longrightarrow> heads (list_cut m h x) g = heads m g"
    and "dll (links (list_cut m h x)) (heads (list_cut m h x) h) (us @ vs)"
proof -
  note D = dllD [OF d]
  have nx: "li_next (links m x) = first_of vs NULL" "li_prev (links m x) = last_of NULL us"
    using seg_next [OF D(2)] seg_prev [OF D(2)] by simp_all
  have fz: "x = lh_first (heads m h) \<longleftrightarrow> us = []"
    using D(1,3) by (cases us) auto
  have lz: "x = lh_last (heads m h) \<longleftrightarrow> vs = []"
    using D(1,4) by (cases vs rule: rev_cases) auto
  define h1 where "h1 = (if us = [] then (heads m h)\<lparr>lh_first := first_of vs NULL\<rparr> else heads m h)"
  define h2 where "h2 = (if vs = [] then h1\<lparr>lh_last := last_of NULL us\<rparr> else h1)"
  have lz1: "x = lh_last h1 \<longleftrightarrow> vs = []"
    using lz by (simp add: h1_def)
  have del: "List_detach m h x =
    Inr (x, m\<lparr>links := link_out (links m) (last_of NULL us) (first_of vs NULL) x,
              heads := (heads m)(h := h2\<lparr>lh_size := lh_size h2 - 1\<rparr>)\<rparr>)"
    using D(6) nx fz lz1 by (simp add: List_detach_def link_out_def Let_def h1_def h2_def)
  then have cut: "list_cut m h x = m\<lparr>links := link_out (links m) (last_of NULL us) (first_of vs NULL) x,
              heads := (heads m)(h := h2\<lparr>lh_size := lh_size h2 - 1\<rparr>)\<rparr>"
    by (simp add: list_cut_def)
  show "List_detach m h x = Inr (x, list_cut m h x)"
    and "links (list_cut m h x) = link_out (links m) (last_of NULL us) (first_of vs NULL) x"
    and "\<And>g. g \<noteq> h \<Longrightarrow> heads (list_cut m h x) g = heads m g"
    using del by (simp_all add: cut)
  have "seg (link_out (links m) (last_of NULL us) (first_of vs NULL) x) NULL (us @ vs) NULL"
    by (rule seg_link_out) (use D in auto)
  then show "dll (links (list_cut m h x)) (heads (list_cut m h x) h) (us @ vs)"
    using D
    by (intro dllI) (auto simp: cut h1_def h2_def last_of_def first_of_def split: list.splits)
qed


lemma list_put_shape:
  "list_put m h p x = m\<lparr>links := links (list_put m h p x), heads := heads (list_put m h p x)\<rparr>"
  by (simp add: list_put_def List_insert_def deref_def Let_def)

lemma list_cut_shape:
  "list_cut m h x = m\<lparr>links := links (list_cut m h x), heads := heads (list_cut m h x)\<rparr>"
  by (simp add: list_cut_def List_detach_def deref_def Let_def)

lemma list_repD:
  assumes "list_rep lk hds L"
  shows "dll lk (hds h) (L h)" and "h \<noteq> g \<Longrightarrow> x \<in> set (L h) \<Longrightarrow> x \<notin> set (L g)"
    and "distinct (L h)" and "NULL \<notin> set (L h)"
    and "lh_first (hds h) = first_of (L h) NULL" and "lh_last (hds h) = last_of NULL (L h)"
    and "lh_size (hds h) = int (length (L h))"
proof -
  show d: "dll lk (hds h) (L h)" using assms by (simp add: list_rep_def)
  show "h \<noteq> g \<Longrightarrow> x \<in> set (L h) \<Longrightarrow> x \<notin> set (L g)"
    using assms by (auto simp: list_rep_def)
  show "distinct (L h)" "NULL \<notin> set (L h)" "lh_first (hds h) = first_of (L h) NULL"
    "lh_last (hds h) = last_of NULL (L h)" "lh_size (hds h) = int (length (L h))"
    using dllD [OF d] by auto
qed

text \<open>What a change at one location must do to keep the representation of all of them.\<close>

lemma list_rep_change:
  assumes rep: "list_rep lk hds L" and new: "dll lk' (hds' h) xs"
    and hds: "\<And>g. g \<noteq> h \<Longrightarrow> hds' g = hds g"
    and lk: "\<And>g a. g \<noteq> h \<Longrightarrow> a \<in> set (L g) \<Longrightarrow> lk' a = lk a"
    and xs: "\<And>g. g \<noteq> h \<Longrightarrow> set xs \<inter> set (L g) = {}"
  shows "list_rep lk' hds' (L(h := xs))"
proof -
  have "dll lk' (hds' g) ((L(h := xs)) g)" for g
  proof (cases "g = h")
    case True
    with new show ?thesis by simp
  next
    case False
    have "dll lk' (hds g) (L g) = dll lk (hds g) (L g)"
      by (rule dll_cong) (use lk False in auto)
    with False hds list_repD(1) [OF rep] show ?thesis by simp
  qed
  moreover have "set ((L(h := xs)) g) \<inter> set ((L(h := xs)) g') = {}" if "g \<noteq> g'" for g g'
    using that xs rep by (auto simp: list_rep_def)
  ultimately show ?thesis by (auto simp: list_rep_def)
qed

lemma split_at_prev:
  assumes "p = NULL \<or> p \<in> set xs" and "distinct xs" and "NULL \<notin> set xs"
  obtains us vs where "xs = us @ vs" and "p = last_of NULL us"
    and "\<And>x. insert_after p x xs = us @ x # vs"
proof (cases "p = NULL")
  case True
  then show thesis using that [of "[]" xs] by simp
next
  case False
  with assms have "p \<in> set xs" by simp
  from this \<open>distinct xs\<close> obtain us vs where
    "xs = us @ p # vs" "p \<notin> set us" by (rule split_distinct)
  then show thesis using that [of "us @ [p]" vs] False by (simp add: insert_after_middle)
qed

lemma list_rep_insert:
  assumes rep: "list_rep (links m) (heads m) L" and x: "loose (links m) L x"
    and p: "p = NULL \<or> p \<in> set (L h)"
  shows "List_insert m h p x = Inr (x, list_put m h p x)"
    and "list_rep (links (list_put m h p x)) (heads (list_put m h p x))
           (L(h := insert_after p x (L h)))"
    and "\<And>a. a \<noteq> NULL \<Longrightarrow> a \<noteq> x \<Longrightarrow> a \<notin> set (L h) \<Longrightarrow> links (list_put m h p x) a = links m a"
proof -
  note R = list_repD [OF rep, of h]
  obtain us vs where s: "L h = us @ vs" and pu: "p = last_of NULL us"
    and ia: "\<And>x. insert_after p x (L h) = us @ x # vs"
    using p R(3,4) by (rule split_at_prev) blast
  have X: "x \<notin> set (us @ vs)" "x \<noteq> NULL" "links m x = \<lparr>li_prev = NULL, li_next = NULL\<rparr>"
    using x s unfolding loose_def by (metis, simp_all)
  note I = dll_insert [OF R(1) [unfolded s] X pu]
  show "List_insert m h p x = Inr (x, list_put m h p x)" by (rule I(1))
  show frame: "links (list_put m h p x) a = links m a"
    if "a \<noteq> NULL" "a \<noteq> x" "a \<notin> set (L h)" for a
  proof -
    have "a \<noteq> p" using p that by auto
    moreover have "a \<noteq> first_of vs NULL" using s that by (cases vs) auto
    ultimately show ?thesis using that(2) by (simp add: I(2) link_in_other)
  qed
  show "list_rep (links (list_put m h p x)) (heads (list_put m h p x))
          (L(h := insert_after p x (L h)))"
    unfolding ia
  proof (rule list_rep_change [OF rep])
    show "dll (links (list_put m h p x)) (heads (list_put m h p x) h) (us @ x # vs)" by (rule I(4))
    show "heads (list_put m h p x) g = heads m g" if "g \<noteq> h" for g using that by (rule I(3))
    show "links (list_put m h p x) a = links m a" if "g \<noteq> h" "a \<in> set (L g)" for g a
    proof (rule frame)
      show "a \<noteq> NULL" using that list_repD(4) [OF rep, of g] by metis
      show "a \<noteq> x" using that x by (auto simp: loose_def)
      show "a \<notin> set (L h)" using that list_repD(2) [OF rep] by metis
    qed
    show "set (us @ x # vs) \<inter> set (L g) = {}" if "g \<noteq> h" for g
      using that x s list_repD(2) [OF rep, of h g] by (auto simp: loose_def)
  qed
qed

lemma list_rep_detach:
  assumes rep: "list_rep (links m) (heads m) L" and x: "x \<in> set (L h)"
  shows "List_detach m h x = Inr (x, list_cut m h x)"
    and "list_rep (links (list_cut m h x)) (heads (list_cut m h x)) (L(h := remove1 x (L h)))"
    and "\<And>a. a \<noteq> NULL \<Longrightarrow> a \<notin> set (L h) \<Longrightarrow> links (list_cut m h x) a = links m a"
    and "loose (links (list_cut m h x)) (L(h := remove1 x (L h))) x"
proof -
  note R = list_repD [OF rep, of h]
  obtain us vs where s: "L h = us @ x # vs" and nu: "x \<notin> set us" "x \<notin> set vs"
    using x R(3) by (rule split_distinct)
  have rm: "remove1 x (L h) = us @ vs" by (simp add: s remove1_middle nu)
  note I = dll_detach [OF R(1) [unfolded s]]
  show "List_detach m h x = Inr (x, list_cut m h x)" by (rule I(1))
  show frame: "links (list_cut m h x) a = links m a" if "a \<noteq> NULL" "a \<notin> set (L h)" for a
  proof -
    have "a \<noteq> last_of NULL us" using s that by (cases us rule: rev_cases) auto
    moreover have "a \<noteq> first_of vs NULL" using s that by (cases vs) auto
    moreover have "a \<noteq> x" using x that by auto
    ultimately show ?thesis by (simp add: I(2) link_out_other)
  qed
  show "list_rep (links (list_cut m h x)) (heads (list_cut m h x)) (L(h := remove1 x (L h)))"
    unfolding rm
  proof (rule list_rep_change [OF rep])
    show "dll (links (list_cut m h x)) (heads (list_cut m h x) h) (us @ vs)" by (rule I(4))
    show "heads (list_cut m h x) g = heads m g" if "g \<noteq> h" for g using that by (rule I(3))
    show "links (list_cut m h x) a = links m a" if "g \<noteq> h" "a \<in> set (L g)" for g a
    proof (rule frame)
      show "a \<noteq> NULL" using that list_repD(4) [OF rep, of g] by metis
      show "a \<notin> set (L h)" using that list_repD(2) [OF rep] by metis
    qed
    show "set (us @ vs) \<inter> set (L g) = {}" if "g \<noteq> h" for g
      using that s list_repD(2) [OF rep, of h g] by auto
  qed
  have "x \<notin> set (L g)" if "g \<noteq> h" for g using x that list_repD(2) [OF rep] by metis
  then show "loose (links (list_cut m h x)) (L(h := remove1 x (L h))) x"
    using x R(4) rm nu by (auto simp: loose_def I(2))
qed

lemma loose_insert:
  assumes "list_rep (links m) (heads m) L" "loose (links m) L x" "p = NULL \<or> p \<in> set (L h)"
    and "loose (links m) L y" "y \<noteq> x"
  shows "loose (links (list_put m h p x)) (L(h := insert_after p x (L h))) y"
  using list_rep_insert(3) [OF assms(1-3), of y] assms(3-5)
  by (auto simp: loose_def set_insert_after)

lemma loose_detach:
  assumes "list_rep (links m) (heads m) L" "x \<in> set (L h)" "loose (links m) L y"
  shows "loose (links (list_cut m h x)) (L(h := remove1 x (L h))) y"
  using list_rep_detach(3) [OF assms(1,2), of y] assms(3)
  by (auto simp: loose_def dest: notin_set_remove1)

text \<open>Appending after the last item, as most call sites do.\<close>

lemma list_rep_append:
  assumes rep: "list_rep (links m) (heads m) L" and x: "loose (links m) L x"
  shows "List_insert m h (lh_last (heads m h)) x = Inr (x, list_put m h (lh_last (heads m h)) x)"
    and "list_rep (links (list_put m h (lh_last (heads m h)) x))
           (heads (list_put m h (lh_last (heads m h)) x)) (L(h := L h @ [x]))"
    and "\<And>a. a \<noteq> NULL \<Longrightarrow> a \<noteq> x \<Longrightarrow> a \<notin> set (L h) \<Longrightarrow>
           links (list_put m h (lh_last (heads m h)) x) a = links m a"
    and "\<And>y. loose (links m) L y \<Longrightarrow> y \<noteq> x \<Longrightarrow>
           loose (links (list_put m h (lh_last (heads m h)) x)) (L(h := L h @ [x])) y"
proof -
  note R = list_repD [OF rep, of h]
  have p: "lh_last (heads m h) = NULL \<or> lh_last (heads m h) \<in> set (L h)"
    by (auto simp: R(6) last_of_def)
  have ia: "insert_after (lh_last (heads m h)) y (L h) = L h @ [y]" for y
    unfolding R(6) by (rule insert_after_last [OF R(3,4)])
  show "List_insert m h (lh_last (heads m h)) x = Inr (x, list_put m h (lh_last (heads m h)) x)"
    by (rule list_rep_insert(1) [OF rep x p])
  show "list_rep (links (list_put m h (lh_last (heads m h)) x))
           (heads (list_put m h (lh_last (heads m h)) x)) (L(h := L h @ [x]))"
    using list_rep_insert(2) [OF rep x p] by (simp add: ia)
  show "links (list_put m h (lh_last (heads m h)) x) a = links m a"
    if "a \<noteq> NULL" "a \<noteq> x" "a \<notin> set (L h)" for a
    by (rule list_rep_insert(3) [OF rep x p that])
  show "loose (links (list_put m h (lh_last (heads m h)) x)) (L(h := L h @ [x])) y"
    if "loose (links m) L y" "y \<noteq> x" for y
    using loose_insert [OF rep x p that] by (simp add: ia)
qed

lemma list_rep_init:
  assumes "list_rep (links m) (heads m) L"
  shows "list_rep (links (List_init m h)) (heads (List_init m h)) (L(h := []))"
  using assms by (auto simp: list_rep_def List_init_def dll_def)

section \<open>Searching\<close>

definition scan_result :: "(addr \<Rightarrow> bool) \<Rightarrow> addr list \<Rightarrow> addr" where
  "scan_result test xs = (case List.find test xs of None \<Rightarrow> NULL | Some x \<Rightarrow> x)"

lemma List_scan_seg:
  assumes "seg lk p xs NULL" and "\<And>x. x \<in> set xs \<Longrightarrow> obj x \<noteq> NULL"
  shows "List_scan lk obj test (first_of xs NULL) = Some (Inr (scan_result test xs))"
  using assms
proof (induction xs arbitrary: p)
  case Nil
  then show ?case by (simp add: List_scan.simps scan_result_def)
next
  case (Cons x xs)
  then have "List_scan lk obj test (first_of xs NULL) = Some (Inr (scan_result test xs))"
    using Cons.IH [of x] by simp
  with Cons.prems show ?case by (simp add: List_scan.simps [of lk obj test x] scan_result_def)
qed

lemma list_rep_search:
  assumes "list_rep (links m) (heads m) L" and "\<And>x. x \<in> set (L h) \<Longrightarrow> obj x \<noteq> NULL"
  shows "List_search m h obj test = Inr (scan_result test (L h))"
  by (simp add: List_search_def list_repD(5) [OF assms(1)]
      List_scan_seg [OF dllD(2) [OF list_repD(1) [OF assms(1)]]] assms(2))

lemma list_rep_search_self:
  assumes "list_rep (links m) (heads m) L"
  shows "List_search m h (\<lambda>aux. aux) test = Inr (scan_result test (L h))"
  by (rule list_rep_search [OF assms]) (use list_repD(4) [OF assms, of h] in metis)

lemma scan_result_NULL:
  "NULL \<notin> set xs \<Longrightarrow> scan_result test xs = NULL \<longleftrightarrow> (\<forall>x \<in> set xs. \<not> test x)"
  by (induction xs) (auto simp: scan_result_def split: option.splits if_splits)

lemma scan_result_nonnull:
  "scan_result test xs \<noteq> NULL \<Longrightarrow>
     scan_result test xs \<in> set xs \<and> test (scan_result test xs)"
  by (induction xs) (auto simp: scan_result_def)

lemma scan_result_unique:
  "x \<in> set xs \<Longrightarrow> test x \<Longrightarrow> (\<And>y. y \<in> set xs \<Longrightarrow> test y \<Longrightarrow> y = x) \<Longrightarrow> scan_result test xs = x"
proof -
  assume x: "x \<in> set xs" "test x" and unique: "\<And>y. y \<in> set xs \<Longrightarrow> test y \<Longrightarrow> y = x"
  then obtain z where z: "List.find test xs = Some z"
    by (metis find_None_iff not_None_eq)
  then have "z \<in> set xs" "test z" by (auto simp: find_Some_iff)
  with unique z show ?thesis by (simp add: scan_result_def)
qed

section \<open>Pointers for given lists\<close>

text \<open>
  \<open>links_of\<close> and \<open>heads_of\<close> compute pointers that represent given disjoint lists: every
  assignment of disjoint lists to locations has a representation.
\<close>

fun chain_links :: "addr \<Rightarrow> addr list \<Rightarrow> (addr \<Rightarrow> ListItem) \<Rightarrow> (addr \<Rightarrow> ListItem)" where
  "chain_links p [] lk = lk"
| "chain_links p (x # xs) lk =
     (chain_links x xs lk)(x := \<lparr>li_prev = p, li_next = first_of xs NULL\<rparr>)"

fun links_of :: "'h list \<Rightarrow> ('h \<Rightarrow> addr list) \<Rightarrow> (addr \<Rightarrow> ListItem)" where
  "links_of [] L = (\<lambda>_. \<lparr>li_prev = NULL, li_next = NULL\<rparr>)"
| "links_of (h # hs) L = chain_links NULL (L h) (links_of hs L)"

definition heads_of :: "('h \<Rightarrow> addr list) \<Rightarrow> 'h \<Rightarrow> ListHead" where
  "heads_of L h =
     \<lparr>lh_first = first_of (L h) NULL, lh_last = last_of NULL (L h), lh_size = int (length (L h))\<rparr>"

lemma chain_links_other: "y \<notin> set xs \<Longrightarrow> chain_links p xs lk y = lk y"
  by (induction xs arbitrary: p) auto

lemma chain_links_seg: "distinct xs \<Longrightarrow> NULL \<notin> set xs \<Longrightarrow> seg (chain_links p xs lk) p xs NULL"
proof (induction xs arbitrary: p)
  case (Cons x xs)
  then have "seg (chain_links x xs lk) x xs NULL" by simp
  moreover have "seg ((chain_links x xs lk)(x := v)) x xs NULL = seg (chain_links x xs lk) x xs NULL"
    for v by (rule seg_cong) (use Cons.prems in auto)
  ultimately show ?case using Cons.prems by (simp add: fun_upd_same del: fun_upd_apply)
qed simp

lemma links_of_other: "\<forall>h \<in> set hs. y \<notin> set (L h) \<Longrightarrow>
    links_of hs L y = \<lparr>li_prev = NULL, li_next = NULL\<rparr>"
  by (induction hs) (auto simp: chain_links_other)

lemma links_of_seg:
  assumes "distinct (concat (map L hs))" and "h \<in> set hs" and "NULL \<notin> set (L h)"
  shows "seg (links_of hs L) NULL (L h) NULL"
  using assms
proof (induction hs)
  case (Cons g hs)
  show ?case
  proof (cases "h = g")
    case True
    with Cons.prems show ?thesis by (simp add: chain_links_seg)
  next
    case False
    have "seg (chain_links NULL (L g) (links_of hs L)) NULL (L h) NULL =
        seg (links_of hs L) NULL (L h) NULL"
      by (rule seg_cong, rule chain_links_other) (use Cons.prems False in auto)
    with Cons False show ?thesis by simp
  qed
qed simp

lemma list_rep_of:
  assumes d: "distinct (concat (map L hs))" and nn: "\<forall>h \<in> set hs. NULL \<notin> set (L h)"
    and out: "\<And>h. h \<notin> set hs \<Longrightarrow> L h = []" and dj: "distinct hs"
  shows "list_rep (links_of hs L) (heads_of L) L"
  unfolding list_rep_def
proof (intro conjI allI impI)
  fix h
  show "dll (links_of hs L) (heads_of L h) (L h)"
  proof (cases "h \<in> set hs")
    case True
    with d have "distinct (L h)" by (induction hs) auto
    with True links_of_seg [OF d True] nn show ?thesis by (simp add: dll_def heads_of_def)
  next
    case False
    then show ?thesis using out by (simp add: dll_def heads_of_def)
  qed
next
  fix h g :: 'a
  assume "h \<noteq> g"
  show "set (L h) \<inter> set (L g) = {}"
  proof (cases "h \<in> set hs \<and> g \<in> set hs")
    case True
    with d dj \<open>h \<noteq> g\<close> show ?thesis
      by (induction hs) auto
  next
    case False
    then show ?thesis using out by auto
  qed
qed

lemma loose_of:
  assumes "x \<noteq> NULL" and "\<forall>h \<in> set hs. x \<notin> set (L h)" and out: "\<And>h. h \<notin> set hs \<Longrightarrow> L h = []"
  shows "loose (links_of hs L) L x"
  using assms links_of_other [of hs x L] unfolding loose_def by (metis empty_iff empty_set)

section \<open>Properties\<close>

text \<open>A small store: two items, 1 and 2, at location 0 and one, 3, at location 1.\<close>

definition demo_mem_lists :: "nat \<Rightarrow> addr list" where
  "demo_mem_lists h = (if h = 0 then [1, 2] else if h = 1 then [3] else [])"

definition demo_mem :: "nat lmem" where
  "demo_mem = \<lparr>links = links_of [0, 1] demo_mem_lists, heads = heads_of demo_mem_lists\<rparr>"

lemma demo_mem_rep: "list_rep (links demo_mem) (heads demo_mem) demo_mem_lists"
  unfolding demo_mem_def lmem.simps by (rule list_rep_of) (auto simp: demo_mem_lists_def)

lemma demo_mem_loose: "loose (links demo_mem) demo_mem_lists 9"
  unfolding demo_mem_def lmem.simps by (rule loose_of) (auto simp: demo_mem_lists_def)

text \<open>
  C25: inserting a free item after an item of a list (or in front, when the given item is
  \<open>NULL\<close>) returns the item and changes that list accordingly; every other list of the program
  is untouched, and so is the freedom of every other free item.
\<close>

theorem List_insert_correct:
  assumes "list_rep (links m) (heads m) L" and "loose (links m) L x"
    and "p = NULL \<or> p \<in> set (L h)"
  shows "\<exists>m'. List_insert m h p x = Inr (x, m') \<and>
    list_rep (links m') (heads m') (L(h := insert_after p x (L h))) \<and>
    (\<forall>y. loose (links m) L y \<longrightarrow> y \<noteq> x \<longrightarrow>
       loose (links m') (L(h := insert_after p x (L h))) y)"
  using list_rep_insert(1,2) [OF assms] loose_insert [OF assms] by blast

theorem List_insert_correct_witness:
  "\<exists>m'. List_insert demo_mem 0 1 9 = Inr (9, m') \<and>
     list_rep (links m') (heads m') (demo_mem_lists(0 := [1, 9, 2]))"
  using List_insert_correct [OF demo_mem_rep demo_mem_loose, of 1 0]
  by (auto simp: demo_mem_lists_def)

text \<open>
  C26: detaching an item of a list returns it, removes exactly that item, leaves it free, and
  changes no other list.
\<close>

theorem List_detach_correct:
  assumes "list_rep (links m) (heads m) L" and "x \<in> set (L h)"
  shows "\<exists>m'. List_detach m h x = Inr (x, m') \<and>
    list_rep (links m') (heads m') (L(h := remove1 x (L h))) \<and>
    loose (links m') (L(h := remove1 x (L h))) x"
  using list_rep_detach [OF assms] by blast

theorem List_detach_correct_witness:
  "\<exists>m'. List_detach demo_mem 0 2 = Inr (2, m') \<and>
     list_rep (links m') (heads m') (demo_mem_lists(0 := [1]))"
  using List_detach_correct [OF demo_mem_rep, of 2 0] by (auto simp: demo_mem_lists_def)

text \<open>
  \<open>List_find\<close> returns the item when it is in the list and \<open>NULL\<close> when it is not; it always
  returns.
\<close>

theorem List_find_correct:
  assumes "list_rep (links m) (heads m) L"
  shows "List_find m h x = Inr (if x \<in> set (L h) then x else NULL)"
proof -
  have "scan_result (\<lambda>aux. aux = x) (L h) = (if x \<in> set (L h) then x else NULL)"
    using list_repD(4) [OF assms, of h]
    by (auto intro: scan_result_unique simp: scan_result_NULL)
  then show ?thesis by (simp add: List_find_def list_rep_search_self [OF assms])
qed

theorem List_find_correct_witness:
  "List_find demo_mem 0 2 = Inr 2 \<and> List_find demo_mem 0 3 = Inr NULL"
  using List_find_correct [OF demo_mem_rep, of 0] by (simp add: demo_mem_lists_def)

text \<open>
  Detaching undoes inserting: after both, all lists are as before and the item is free
  again.
\<close>

theorem List_insert_detach:
  assumes "list_rep (links m) (heads m) L" and "loose (links m) L x"
    and "p = NULL \<or> p \<in> set (L h)"
  shows "\<exists>m1 m2. List_insert m h p x = Inr (x, m1) \<and> List_detach m1 h x = Inr (x, m2) \<and>
    list_rep (links m2) (heads m2) L \<and> loose (links m2) L x"
proof -
  let ?m1 = "list_put m h p x" and ?L1 = "L(h := insert_after p x (L h))"
  note I = list_rep_insert [OF assms]
  have x: "x \<notin> set (L h)" using assms(2) by (simp add: loose_def)
  have "x \<in> set (?L1 h)" using set_insert_after [OF assms(3)] by simp
  note D = list_rep_detach [OF I(2) this]
  have "remove1 x (insert_after p x ys) = ys" if "x \<notin> set ys" for ys
    using that by (induction ys) auto
  then have eq: "?L1(h := remove1 x (?L1 h)) = L" using x by (simp add: fun_eq_iff)
  from I(1) D(1) D(2,4) [unfolded eq] show ?thesis by blast
qed

theorem List_insert_detach_witness:
  "\<exists>m1 m2. List_insert demo_mem 0 1 9 = Inr (9, m1) \<and> List_detach m1 0 9 = Inr (9, m2) \<and>
     list_rep (links m2) (heads m2) demo_mem_lists"
  using List_insert_detach [OF demo_mem_rep demo_mem_loose, of 1 0]
  by (auto simp: demo_mem_lists_def)

text \<open>
  An item that is in a list with another one is refused by \<open>List_insert\<close>, and nothing
  changes.
\<close>

theorem List_insert_refuses_linked:
  assumes "list_rep (links m) (heads m) L" and "x \<in> set (L g)" and "L g \<noteq> [x]"
  shows "List_insert m h p x = Inr (NULL, m)"
proof -
  note R = list_repD [OF assms(1), of g]
  note D = dllD [OF R(1)]
  obtain us vs where s: "L g = us @ x # vs" using assms(2) split_list by fast
  have "li_next (links m x) = first_of vs NULL" "li_prev (links m x) = last_of NULL us"
    using seg_next seg_prev D(2) s by metis+
  moreover have "first_of vs NULL \<noteq> NULL" if "vs \<noteq> []"
    using first_of_in [OF that] D(6) s by (metis in_set_conv_decomp Un_iff set_append list.set_intros(2))
  moreover have "last_of NULL us \<noteq> NULL" if "us \<noteq> []"
    using last_of_in [OF that] D(6) s by (metis Un_iff set_append)
  moreover have "us \<noteq> [] \<or> vs \<noteq> []" "x \<noteq> NULL" using assms(2,3) s D(6) by auto
  ultimately show ?thesis by (auto simp: List_insert_def)
qed

theorem List_insert_refuses_linked_witness:
  "List_insert demo_mem 5 NULL 2 = Inr (NULL, demo_mem)"
  using List_insert_refuses_linked [OF demo_mem_rep, of 2 0] by (simp add: demo_mem_lists_def)

text \<open>
  C38: the guard of \<open>List_insert\<close> does not see an item that is alone in its list, since such
  an item has null links: inserting it into another list succeeds, and afterwards no lists at
  all are represented (the item is the first of two of them).
\<close>

theorem List_insert_accepts_lone_item:
  assumes "list_rep (links m) (heads m) L" and "L g = [x]" and "h \<noteq> g"
  shows "\<exists>m'. List_insert m h NULL x = Inr (x, m') \<and>
    (\<forall>L'. \<not> list_rep (links m') (heads m') L')"
proof -
  note D = dllD [OF list_repD(1) [OF assms(1), of g]]
  have x: "x \<noteq> NULL" "li_next (links m x) = NULL" "li_prev (links m x) = NULL"
    "lh_first (heads m g) = x"
    using D assms(2) by auto
  then obtain m' where m': "List_insert m h NULL x = Inr (x, m')"
    "lh_first (heads m' h) = x" "heads m' g = heads m g"
    using assms(3) by (simp add: List_insert_def Let_def)
  have "\<not> list_rep (links m') (heads m') L'" for L'
  proof
    assume rep: "list_rep (links m') (heads m') L'"
    have "first_of (L' g) NULL = x" "first_of (L' h) NULL = x"
      using list_repD(5) [OF rep, of g] list_repD(5) [OF rep, of h] m' x(4) by simp_all
    with x(1) have "x \<in> set (L' g)" "x \<in> set (L' h)"
      by (metis first_of_in first_of_simps(1))+
    with list_repD(2) [OF rep assms(3)] show False by blast
  qed
  with m'(1) show ?thesis by blast
qed

theorem List_insert_accepts_lone_item_witness:
  "\<exists>m'. List_insert demo_mem 0 NULL 3 = Inr (3, m') \<and>
     (\<forall>L'. \<not> list_rep (links m') (heads m') L')"
  using List_insert_accepts_lone_item [OF demo_mem_rep, of 1 3 0] by (simp add: demo_mem_lists_def)

end
