(* ===== verification/Pool_Allocator.thy ===== *)
theory Pool_Allocator
  imports Prelude
begin

text \<open>
  The fixed-size block allocator of \<^verbatim>\<open>pool_allocator.h\<close> and
  \<^verbatim>\<open>pool_allocator.c\<close>.

  The record has the fields of the C struct. \<open>free_list\<close> is the \<open>int\<close> array at the end
  of the managed memory: the C field is a pointer to it, the model keeps its contents, since
  nothing else is ever stored there. A block is the address of its first byte.

  \<open>free_chain\<close> collects the free list by following its indices; \<open>pool_wf a is\<close> says that the
  free blocks are exactly the indices \<open>is\<close>, in this order, and that every other entry is
  marked as detached. The theorems show that initialisation establishes it, that taking and
  releasing a block move one index and keep it, and that every misuse is reported and changes
  nothing. The locale \<open>block_store\<close> states the interface an allocation client relies on.
\<close>

section \<open>The allocator\<close>

datatype PoolAllocatorResult =
    Success
  | NotEnoughMemory
  | UnalignedFree
  | OutOfRange
  | DoubleFree

fun result_code :: "PoolAllocatorResult \<Rightarrow> int" where
  "result_code Success = 0"
| "result_code NotEnoughMemory = -1"
| "result_code UnalignedFree = -2"
| "result_code OutOfRange = -3"
| "result_code DoubleFree = -4"

definition PoolAllocator_strerrors :: "string list" where
  "PoolAllocator_strerrors =
     [''Success'', ''NotEnoughMemory'', ''UnalignedFree'', ''OutOfRange'', ''DoubleFree'']"

definition PoolAllocator_strerror :: "PoolAllocatorResult \<Rightarrow> string" where
  "PoolAllocator_strerror r = PoolAllocator_strerrors ! nat (- result_code r)"

record PoolAllocator =
  buffer :: addr
  free_list :: "int list"
  buffer_size :: int
  pool_size :: int
  size_max :: int
  item_size :: int
  first_idx :: int
  bucket_size :: int

definition NullIdx :: int where
  "NullIdx = -1"

definition DetachedIdx :: int where
  "DetachedIdx = -2"

text \<open>Reading and writing an \<open>int\<close> array at an \<open>int\<close> index.\<close>

definition arr_get :: "int list \<Rightarrow> int \<Rightarrow> int res" where
  "arr_get xs i = (if 0 \<le> i \<and> i < int (length xs) then Inr (xs ! nat i) else Inl Out_of_bounds)"

definition arr_set :: "int list \<Rightarrow> int \<Rightarrow> int \<Rightarrow> int list res" where
  "arr_set xs i v =
     (if 0 \<le> i \<and> i < int (length xs) then Inr (xs[nat i := v]) else Inl Out_of_bounds)"

text \<open>
  \<open>requested_size\<close> is computed in \<open>size_t\<close> and narrowed to \<open>int\<close>. The array of
  bookkeeping entries has \<open>num_items\<close> places, which the size check has paid for.
\<close>

definition SIZEOF_INT :: int where
  "SIZEOF_INT = 4"

fun link_free :: "nat \<Rightarrow> int \<Rightarrow> int list \<Rightarrow> int list res" where
  "link_free 0 i fl = Inr fl"
| "link_free (Suc n) i fl = andthen (arr_set fl i (i + 1)) (link_free n (i + 1))"

definition PoolAllocator_init ::
    "PoolAllocator \<Rightarrow> int \<Rightarrow> int \<Rightarrow> addr \<Rightarrow> int \<Rightarrow> (PoolAllocatorResult \<times> PoolAllocator) res" where
  "PoolAllocator_init a itemsz num_items memory_block memory_size =
     (let requested_size = int_of_long ((num_items * ((itemsz + SIZEOF_INT) mod 2 ^ 64)) mod 2 ^ 64)
      in if memory_size < requested_size then Inr (NotEnoughMemory, a)
         else andthen (c_int (itemsz * num_items)) (\<lambda>bsz.
              andthen (link_free (nat (num_items - 1)) 0 (replicate (nat num_items) 0)) (\<lambda>fl.
              andthen (arr_set fl (num_items - 1) NullIdx) (\<lambda>fl.
              Inr (Success,
                   a\<lparr>item_size := itemsz, pool_size := num_items, buffer_size := bsz,
                     size_max := num_items, buffer := memory_block, free_list := fl,
                     first_idx := 0\<rparr>)))))"

definition PoolAllocator_getBlock :: "PoolAllocator \<Rightarrow> (addr \<times> PoolAllocator) res" where
  "PoolAllocator_getBlock a =
     (if first_idx a = -1 then Inr (NULL, a)
      else let detached_idx = first_idx a in
        andthen (arr_get (free_list a) (first_idx a)) (\<lambda>nxt.
        andthen (arr_set (free_list a) detached_idx DetachedIdx) (\<lambda>fl.
        Inr (buffer a + detached_idx * item_size a,
             a\<lparr>first_idx := nxt, pool_size := pool_size a - 1, free_list := fl\<rparr>))))"

definition PoolAllocator_releaseBlock ::
    "PoolAllocator \<Rightarrow> addr \<Rightarrow> (PoolAllocatorResult \<times> PoolAllocator) res" where
  "PoolAllocator_releaseBlock a block =
     (let offset = int_of_long (block - buffer a) in
      if item_size a = 0 then Inl Div_by_zero
      else if offset smod item_size a \<noteq> 0 then Inr (UnalignedFree, a)
      else let idx = offset sdiv item_size a in
        if idx < 0 \<or> size_max a \<le> idx then Inr (OutOfRange, a)
        else andthen (arr_get (free_list a) idx) (\<lambda>entry.
          if entry \<noteq> DetachedIdx then Inr (DoubleFree, a)
          else andthen (arr_set (free_list a) idx (first_idx a)) (\<lambda>fl.
            Inr (Success,
                 a\<lparr>free_list := fl, first_idx := idx, pool_size := pool_size a + 1\<rparr>))))"

section \<open>Well-formed pools\<close>

text \<open>\<open>chained fl i is\<close>: following \<open>fl\<close> from \<open>i\<close> visits \<open>is\<close> and ends at \<open>NullIdx\<close>.\<close>

fun chained :: "int list \<Rightarrow> int \<Rightarrow> int list \<Rightarrow> bool" where
  "chained fl i [] \<longleftrightarrow> i = NullIdx"
| "chained fl i (j # js) \<longleftrightarrow>
     i = j \<and> 0 \<le> j \<and> j < int (length fl) \<and> chained fl (fl ! nat j) js"

definition pool_wf :: "PoolAllocator \<Rightarrow> int list \<Rightarrow> bool" where
  "pool_wf a is \<longleftrightarrow>
     0 < item_size a \<and> 0 < buffer a \<and> item_size a * size_max a < 2 ^ 31 \<and>
     size_max a = int (length (free_list a)) \<and> pool_size a = int (length is) \<and>
     distinct is \<and> chained (free_list a) (first_idx a) is \<and>
     (\<forall>j. 0 \<le> j \<and> j < size_max a \<and> j \<notin> set is \<longrightarrow> free_list a ! nat j = DetachedIdx)"

text \<open>The block of an index, and the blocks in use.\<close>

definition block_at :: "PoolAllocator \<Rightarrow> int \<Rightarrow> addr" where
  "block_at a i = buffer a + i * item_size a"

definition live_blocks :: "PoolAllocator \<Rightarrow> addr set" where
  "live_blocks a =
     block_at a ` {i. 0 \<le> i \<and> i < size_max a \<and> free_list a ! nat i = DetachedIdx}"

lemma chained_in_range: "chained fl i js \<Longrightarrow> j \<in> set js \<Longrightarrow> 0 \<le> j \<and> j < int (length fl)"
  by (induction js arbitrary: i) auto

lemma chained_update:
  "chained fl i js \<Longrightarrow> k \<notin> set js \<Longrightarrow> 0 \<le> k \<Longrightarrow> chained (fl[nat k := v]) i js"
  by (induction js arbitrary: i) (auto simp: nth_list_update)

lemma chained_not_detached:
  assumes "chained fl i js" and "j \<in> set js"
  shows "fl ! nat j \<noteq> DetachedIdx"
  using assms
proof (induction js arbitrary: i)
  case (Cons k ks)
  show ?case
  proof (cases "j = k")
    case True
    with Cons.prems(1) show ?thesis
      by (cases ks) (auto simp: NullIdx_def DetachedIdx_def)
  next
    case False
    with Cons show ?thesis by auto
  qed
qed simp


section \<open>Initialisation\<close>

lemma arr_set_nat: "i < length xs \<Longrightarrow> arr_set xs (int i) v = Inr (xs[i := v])"
  by (simp add: arr_set_def)

lemma link_free_result:
  assumes "i + n \<le> length fl"
  shows "\<exists>fl'. link_free n (int i) fl = Inr fl' \<and> length fl' = length fl \<and>
           (\<forall>j < length fl. fl' ! j = (if i \<le> j \<and> j < i + n then int j + 1 else fl ! j))"
  using assms
proof (induction n arbitrary: i fl)
  case 0
  then show ?case by simp
next
  case (Suc n)
  from Suc.IH [of "Suc i" "fl[i := int i + 1]"] Suc.prems obtain fl' where
    "link_free n (int (Suc i)) (fl[i := int i + 1]) = Inr fl'" "length fl' = length fl"
    and e: "\<forall>j < length fl. fl' ! j =
       (if Suc i \<le> j \<and> j < Suc i + n then int j + 1 else fl[i := int i + 1] ! j)"
    by auto
  moreover have "fl' ! j = (if i \<le> j \<and> j < i + Suc n then int j + 1 else fl ! j)"
    if "j < length fl" for j
    using e that by (auto simp: nth_list_update)
  ultimately show ?case using Suc.prems by (auto simp: arr_set_nat algebra_simps)
qed

lemma chained_upt:
  assumes "\<And>j. i \<le> j \<Longrightarrow> j < i + n \<Longrightarrow> fl ! j = int j + 1"
    and "fl ! (i + n) = NullIdx" and "i + n < length fl"
  shows "chained fl (int i) (map int [i..<Suc (i + n)])"
  using assms
proof (induction n arbitrary: i)
  case 0
  then show ?case by simp
next
  case (Suc n)
  have "chained fl (int (Suc i)) (map int [Suc i..<Suc (Suc i + n)])"
    by (rule Suc.IH) (use Suc.prems in auto)
  moreover have "fl ! i = int (Suc i)" using Suc.prems(1) [of i] by simp
  moreover have "[i..<Suc (i + Suc n)] = i # [Suc i..<Suc (Suc i + n)]"
    by (simp add: upt_conv_Cons)
  ultimately show ?case using Suc.prems(3) by (auto simp del: upt_Suc)
qed

lemma init_pool_wf:
  assumes n: "0 < n" and sz: "0 < itemsz" and mem: "0 < mem"
    and fits: "int n * (itemsz + SIZEOF_INT) < 2 ^ 31" "int n * (itemsz + SIZEOF_INT) \<le> msz"
  shows "\<exists>a'. PoolAllocator_init a itemsz (int n) mem msz = Inr (Success, a') \<and>
           pool_wf a' (map int [0..<n]) \<and> size_max a' = int n \<and> item_size a' = itemsz \<and>
           buffer a' = mem \<and> buffer_size a' = itemsz * int n"
proof -
  have pos: "0 \<le> int n * (itemsz + 4)" "itemsz + 4 \<le> int n * (itemsz + 4)"
    using n sz by (auto simp: mult_le_cancel_right1)
  have le: "itemsz * int n < 2 ^ 31" "0 \<le> itemsz * int n"
    using fits(1) n sz by (auto simp: SIZEOF_INT_def algebra_simps)
  have "itemsz + 4 < 2 ^ 31"
    using pos(2) fits(1) unfolding SIZEOF_INT_def by linarith
  then have s1: "(itemsz + 4) mod 2 ^ 64 = itemsz + 4"
    using sz by (intro mod_pos_pos_trivial) auto
  have s2: "(int n * (itemsz + 4)) mod 2 ^ 64 = int n * (itemsz + 4)"
    using pos fits(1) by (intro mod_pos_pos_trivial) (auto simp: SIZEOF_INT_def)
  have req: "int_of_long ((int n * ((itemsz + SIZEOF_INT) mod 2 ^ 64)) mod 2 ^ 64)
      = int n * (itemsz + 4)"
    using pos fits(1) unfolding SIZEOF_INT_def s1 s2
    by (intro int_of_long_id) (auto simp: in_int_range_def)
  from link_free_result [of 0 "n - 1" "replicate n 0"] obtain fl where
    fl: "link_free (n - 1) 0 (replicate n 0) = Inr fl" "length fl = n"
      "\<forall>j < n. fl ! j = (if j < n - 1 then int j + 1 else replicate n 0 ! j)"
    by auto
  define fl' where "fl' = fl[n - 1 := NullIdx]"
  define a' where "a' = a\<lparr>item_size := itemsz, pool_size := int n, buffer_size := itemsz * int n,
       size_max := int n, buffer := mem, free_list := fl', first_idx := 0\<rparr>"
  have nat1: "nat (int n - 1) = n - 1" by simp
  have last: "arr_set fl (int n - 1) NullIdx = Inr fl'"
    using n fl(2) by (simp add: arr_set_def fl'_def nat1)
  have "PoolAllocator_init a itemsz (int n) mem msz = Inr (Success, a')"
    using fits le fl(1) last nat1 req
    by (simp add: PoolAllocator_init_def Let_def in_int_range_def a'_def SIZEOF_INT_def)
  moreover have "chained fl' 0 (map int [0..<n])"
    using chained_upt [of 0 "n - 1" fl'] fl(2,3) n
    by (simp add: fl'_def nth_list_update del: upt_Suc)
  then have "pool_wf a' (map int [0..<n])"
    using n sz mem le fl(2)
    by (auto simp: pool_wf_def a'_def fl'_def distinct_map image_int_atLeastLessThan algebra_simps)
  ultimately show ?thesis by (auto simp: a'_def)
qed

section \<open>Taking and releasing blocks\<close>

lemma pool_wfD:
  assumes "pool_wf a is"
  shows "0 < item_size a" "0 < buffer a" "distinct is" "chained (free_list a) (first_idx a) is"
    "pool_size a = int (length is)" "size_max a = int (length (free_list a))"
    "item_size a * size_max a < 2 ^ 31"
    "\<And>j. 0 \<le> j \<Longrightarrow> j < size_max a \<Longrightarrow> free_list a ! nat j = DetachedIdx \<longleftrightarrow> j \<notin> set is"
proof -
  show "0 < item_size a" "0 < buffer a" "distinct is" "chained (free_list a) (first_idx a) is"
    "pool_size a = int (length is)" "size_max a = int (length (free_list a))"
    "item_size a * size_max a < 2 ^ 31"
    using assms unfolding pool_wf_def by blast+
  show "free_list a ! nat j = DetachedIdx \<longleftrightarrow> j \<notin> set is" if "0 \<le> j" "j < size_max a" for j
    using assms that chained_not_detached [of "free_list a" "first_idx a" "is" j]
    by (auto simp: pool_wf_def)
qed

lemma live_blocks_wf:
  "pool_wf a is \<Longrightarrow> live_blocks a = block_at a ` {i. 0 \<le> i \<and> i < size_max a \<and> i \<notin> set is}"
  using pool_wfD(8) unfolding live_blocks_def by (intro image_cong) auto

lemma block_at_inj: "0 < item_size a \<Longrightarrow> block_at a i = block_at a j \<longleftrightarrow> i = j"
  by (auto simp: block_at_def)

lemma block_at_pos: "pool_wf a is \<Longrightarrow> 0 \<le> i \<Longrightarrow> 0 < block_at a i"
  using pool_wfD(1,2) [of a "is"] by (simp add: block_at_def add_pos_nonneg)

lemma getBlock_empty: "pool_wf a [] \<Longrightarrow> PoolAllocator_getBlock a = Inr (NULL, a)"
  by (simp add: pool_wf_def PoolAllocator_getBlock_def NullIdx_def)

lemma getBlock_step:
  assumes wf: "pool_wf a (i # is)"
  shows "\<exists>a'. PoolAllocator_getBlock a = Inr (block_at a i, a') \<and> pool_wf a' is \<and>
           size_max a' = size_max a \<and> item_size a' = item_size a \<and> buffer a' = buffer a"
proof -
  note W = pool_wfD [OF wf]
  have i: "first_idx a = i" "0 \<le> i" "i < int (length (free_list a))"
    "chained (free_list a) (free_list a ! nat i) is" "i \<notin> set is"
    using W(3,4) by auto
  have "chained ((free_list a)[nat i := DetachedIdx]) (free_list a ! nat i) is"
    using i by (intro chained_update) auto
  then show ?thesis
    using wf i W
    by (auto simp: PoolAllocator_getBlock_def Let_def arr_get_def arr_set_def block_at_def
        pool_wf_def nth_list_update)
qed

lemma sdiv_smod_block:
  assumes "0 < (s::int)" and "0 \<le> i"
  shows "(i * s) smod s = 0" and "(i * s) sdiv s = i"
  using assms by (simp_all add: signed_modulo_int_def signed_divide_int_def sgn_if)

lemma block_offset:
  assumes wf: "pool_wf a is" and i: "0 \<le> i" "i < size_max a"
  shows "int_of_long (block_at a i - buffer a) = i * item_size a"
proof -
  have "i * item_size a \<le> size_max a * item_size a"
    using i pool_wfD(1) [OF wf] by (intro mult_right_mono) auto
  moreover have "size_max a * item_size a < 2 ^ 31"
    using pool_wfD(7) [OF wf] by (simp only: mult.commute)
  ultimately have "i * item_size a < 2 ^ 31" "0 \<le> i * item_size a"
    using i pool_wfD(1) [OF wf] by (linarith, simp)
  then show ?thesis by (simp add: block_at_def int_of_long_id in_int_range_def)
qed

lemma releaseBlock_live:
  assumes wf: "pool_wf a is" and i: "0 \<le> i" "i < size_max a" "i \<notin> set is"
  shows "\<exists>a'. PoolAllocator_releaseBlock a (block_at a i) = Inr (Success, a') \<and>
           pool_wf a' (i # is) \<and>
           size_max a' = size_max a \<and> item_size a' = item_size a \<and> buffer a' = buffer a"
proof -
  note W = pool_wfD [OF wf]
  note O = block_offset [OF wf i(1,2)] sdiv_smod_block [OF W(1) i(1)]
  have det: "free_list a ! nat i = DetachedIdx" using W(8) i by simp
  have "chained ((free_list a)[nat i := first_idx a]) (first_idx a) is"
    using i W(4) by (intro chained_update) auto
  then show ?thesis
    using wf i W det
    by (auto simp: PoolAllocator_releaseBlock_def Let_def arr_get_def arr_set_def O
        pool_wf_def nth_list_update)
qed

lemma releaseBlock_free:
  assumes wf: "pool_wf a is" and i: "i \<in> set is"
  shows "PoolAllocator_releaseBlock a (block_at a i) = Inr (DoubleFree, a)"
proof -
  note W = pool_wfD [OF wf]
  have r: "0 \<le> i" "i < size_max a" using chained_in_range [OF W(4) i] W(6) by auto
  note O = block_offset [OF wf r] sdiv_smod_block [OF W(1) r(1)]
  have "free_list a ! nat i \<noteq> DetachedIdx" using W(8) r i by simp
  then show ?thesis using W(1,6) r
    by (simp add: PoolAllocator_releaseBlock_def Let_def arr_get_def O)
qed


lemma releaseBlock_reject:
  assumes wf: "pool_wf a is" and near: "in_int_range (b - buffer a)" and b: "b \<notin> live_blocks a"
  shows "\<exists>r. r \<noteq> Success \<and> PoolAllocator_releaseBlock a b = Inr (r, a)"
proof -
  note W = pool_wfD [OF wf]
  let ?off = "b - buffer a"
  have off: "int_of_long ?off = ?off" by (rule int_of_long_id [OF near])
  consider "?off smod item_size a \<noteq> 0"
    | "?off smod item_size a = 0" "?off sdiv item_size a < 0 \<or> size_max a \<le> ?off sdiv item_size a"
    | "?off smod item_size a = 0" "0 \<le> ?off sdiv item_size a" "?off sdiv item_size a < size_max a"
    by linarith
  then show ?thesis
  proof cases
    case 3
    have "?off = ?off sdiv item_size a * item_size a"
      using sdiv_mult_smod_eq [of ?off "item_size a"] 3(1) by simp
    then have "b = block_at a (?off sdiv item_size a)" by (simp add: block_at_def)
    moreover from this have "?off sdiv item_size a \<in> set is"
      using b 3(2,3) live_blocks_wf [OF wf] by auto
    ultimately have "PoolAllocator_releaseBlock a b = Inr (DoubleFree, a)"
      using releaseBlock_free [OF wf] by metis
    then show ?thesis by auto
  qed (use W(1) off in \<open>auto simp: PoolAllocator_releaseBlock_def Let_def\<close>)
qed

section \<open>The interface of a block store\<close>

text \<open>
  What the clients of an allocator rely on: a block that is taken is new and not \<open>NULL\<close>,
  exhaustion is reported by \<open>NULL\<close>, a live block can be released once, and releasing
  anything else (within \<open>int\<close> range of the buffer) is refused without effect.
\<close>

datatype store_op = Take | Give addr

fun store_run ::
    "('p \<Rightarrow> (addr \<times> 'p) res) \<Rightarrow> ('p \<Rightarrow> addr \<Rightarrow> (PoolAllocatorResult \<times> 'p) res) \<Rightarrow>
     'p \<Rightarrow> store_op list \<Rightarrow> 'p res" where
  "store_run take_b give_b p [] = Inr p"
| "store_run take_b give_b p (Take # ops) =
     andthen (take_b p) (\<lambda>(_, q). store_run take_b give_b q ops)"
| "store_run take_b give_b p (Give b # ops) =
     andthen (give_b p b) (\<lambda>(_, q). store_run take_b give_b q ops)"

locale block_store =
  fixes take_b :: "'p \<Rightarrow> (addr \<times> 'p) res"
    and give_b :: "'p \<Rightarrow> addr \<Rightarrow> (PoolAllocatorResult \<times> 'p) res"
    and inv :: "'p \<Rightarrow> bool"
    and live :: "'p \<Rightarrow> addr set"
    and room :: "'p \<Rightarrow> nat"
    and near :: "'p \<Rightarrow> addr \<Rightarrow> bool"
  assumes take_some: "inv p \<Longrightarrow> 0 < room p \<Longrightarrow>
      \<exists>b q. take_b p = Inr (b, q) \<and> b \<noteq> NULL \<and> b \<notin> live p \<and> inv q \<and>
            live q = insert b (live p) \<and> Suc (room q) = room p \<and> near q = near p"
    and take_none: "inv p \<Longrightarrow> room p = 0 \<Longrightarrow> take_b p = Inr (NULL, p)"
    and give_live: "inv p \<Longrightarrow> b \<in> live p \<Longrightarrow>
      \<exists>q. give_b p b = Inr (Success, q) \<and> inv q \<and> live q = live p - {b} \<and>
          room q = Suc (room p) \<and> near q = near p"
    and give_other: "inv p \<Longrightarrow> b \<notin> live p \<Longrightarrow> near p b \<Longrightarrow>
      \<exists>r. r \<noteq> Success \<and> give_b p b = Inr (r, p)"
    and live_finite: "inv p \<Longrightarrow> finite (live p)"
begin

lemma take_give:
  assumes "inv p" and "take_b p = Inr (b, q)" and "b \<noteq> NULL"
  shows "\<exists>q'. give_b q b = Inr (Success, q') \<and> inv q' \<and> live q' = live p \<and> room q' = room p"
proof -
  have "0 < room p" using take_none [OF assms(1)] assms(2,3) by fastforce
  with take_some [OF assms(1)] assms(2) have
    q: "b \<notin> live p" "inv q" "live q = insert b (live p)" "Suc (room q) = room p" by auto
  with give_live [of q b] show ?thesis by auto
qed

lemma give_twice:
  assumes "inv p" and "b \<in> live p" and "near p b"
  shows "\<exists>q r. give_b p b = Inr (Success, q) \<and> r \<noteq> Success \<and> give_b q b = Inr (r, q)"
proof -
  from give_live [OF assms(1,2)] obtain q where
    q: "give_b p b = Inr (Success, q)" "inv q" "live q = live p - {b}" "near q = near p" by auto
  with give_other [of q b] assms(3) show ?thesis by auto
qed

lemma run_conserves:
  assumes "inv p" and "\<And>b. Give b \<in> set ops \<Longrightarrow> near p b"
  shows "\<exists>q. store_run take_b give_b p ops = Inr q \<and> inv q \<and>
           card (live q) + room q = card (live p) + room p"
  using assms
proof (induction ops arbitrary: p)
  case Nil
  then show ?case by simp
next
  case (Cons op ops)
  have near: "\<And>b. Give b \<in> set ops \<Longrightarrow> near p b" using Cons.prems(2) by simp
  have *: "\<exists>s q. (op = Take \<longrightarrow> (\<exists>b. take_b p = Inr (b, q))) \<and>
      (\<forall>b. op = Give b \<longrightarrow> give_b p b = Inr (s, q)) \<and>
      inv q \<and> near q = near p \<and> card (live q) + room q = card (live p) + room p"
  proof (cases op)
    case Take
    show ?thesis
    proof (cases "room p = 0")
      case True
      with Take take_none [OF Cons.prems(1)] Cons.prems(1) show ?thesis by auto
    next
      case False
      with take_some [OF Cons.prems(1)] obtain b q where
        "take_b p = Inr (b, q)" "inv q" "b \<notin> live p" "live q = insert b (live p)"
        "Suc (room q) = room p" "near q = near p" by auto
      with Take live_finite [OF Cons.prems(1)] show ?thesis by auto
    qed
  next
    case (Give b)
    then have nb: "near p b" using Cons.prems(2) by simp
    show ?thesis
    proof (cases "b \<in> live p")
      case True
      with give_live [OF Cons.prems(1)] obtain q where
        q: "give_b p b = Inr (Success, q)" "inv q" "live q = live p - {b}"
        "room q = Suc (room p)" "near q = near p" by auto
      have "0 < card (live p)" using True live_finite [OF Cons.prems(1)] card_gt_0_iff by blast
      with Give q True live_finite [OF Cons.prems(1)] show ?thesis
        by (auto simp: card_Diff_singleton)
    next
      case False
      from give_other [OF Cons.prems(1) False nb] Give Cons.prems(1) show ?thesis by auto
    qed
  qed
  then obtain q where q: "inv q" "near q = near p"
    "card (live q) + room q = card (live p) + room p"
    "store_run take_b give_b p (op # ops) = store_run take_b give_b q ops"
    by (cases op) auto
  with Cons.IH [of q] near show ?case by auto
qed

end

text \<open>
  A client that keeps several stores also needs to know where blocks can come from: the
  addresses a store can hand out do not change, so stores with disjoint spans never hand out
  the same block.
\<close>

locale located_store = block_store take_b give_b inv live room near
  for take_b :: "'p \<Rightarrow> (addr \<times> 'p) res"
    and give_b :: "'p \<Rightarrow> addr \<Rightarrow> (PoolAllocatorResult \<times> 'p) res"
    and inv :: "'p \<Rightarrow> bool"
    and live :: "'p \<Rightarrow> addr set"
    and room :: "'p \<Rightarrow> nat"
    and near :: "'p \<Rightarrow> addr \<Rightarrow> bool" +
  fixes span :: "'p \<Rightarrow> addr set"
  assumes live_span: "live p \<subseteq> span p"
    and take_span: "take_b p = Inr (b, q) \<Longrightarrow> span q = span p"
    and give_span: "give_b p b = Inr (r, q) \<Longrightarrow> span q = span p"
begin

lemma run_span: "store_run take_b give_b p ops = Inr q \<Longrightarrow> span q = span p"
proof (induction ops arbitrary: p)
  case (Cons op ops)
  then show ?case
    by (cases op) (auto simp: andthen_eq_Inr take_span give_span)
qed simp

lemma take_apart:
  assumes "inv p" and "take_b p = Inr (b, q)" and "b \<noteq> NULL" and "span p \<inter> A = {}"
  shows "b \<in> span p" and "b \<notin> A" and "span q \<inter> A = {}"
proof -
  have "0 < room p" using take_none [OF assms(1)] assms(2,3) by fastforce
  with take_some [OF assms(1)] assms(2) have "b \<in> live q" by auto
  then show "b \<in> span p" using live_span [of q] take_span [OF assms(2)] by auto
  with assms(4) show "b \<notin> A" by auto
  show "span q \<inter> A = {}" using take_span [OF assms(2)] assms(4) by simp
qed

end

section \<open>The pool allocator is a block store\<close>

definition pool_inv :: "PoolAllocator \<Rightarrow> bool" where
  "pool_inv a \<longleftrightarrow> (\<exists>is. pool_wf a is)"

definition pool_room :: "PoolAllocator \<Rightarrow> nat" where
  "pool_room a = nat (pool_size a)"

definition pool_near :: "PoolAllocator \<Rightarrow> addr \<Rightarrow> bool" where
  "pool_near a b \<longleftrightarrow> in_int_range (b - buffer a)"

lemma pool_room_wf: "pool_wf a is \<Longrightarrow> pool_room a = length is"
  by (simp add: pool_room_def pool_wfD(5))

lemma live_blocks_getBlock:
  assumes "pool_wf a (i # is)" and "pool_wf a' is"
    and "size_max a' = size_max a" "item_size a' = item_size a" "buffer a' = buffer a"
  shows "live_blocks a' = insert (block_at a i) (live_blocks a)" and "block_at a i \<notin> live_blocks a"
proof -
  have i: "0 \<le> i" "i < size_max a" "i \<notin> set is"
    using pool_wfD(3,4,6) [OF assms(1)] by auto
  have b: "block_at a' j = block_at a j" for j using assms(4,5) by (simp add: block_at_def)
  show "live_blocks a' = insert (block_at a i) (live_blocks a)"
    unfolding live_blocks_wf [OF assms(1)] live_blocks_wf [OF assms(2)] assms(3)
    using i by (auto simp: b)
  show "block_at a i \<notin> live_blocks a"
    unfolding live_blocks_wf [OF assms(1)]
    using block_at_inj [OF pool_wfD(1) [OF assms(1)]] by auto
qed

interpretation pool: block_store PoolAllocator_getBlock PoolAllocator_releaseBlock
  pool_inv live_blocks pool_room pool_near
proof unfold_locales
  fix a b
  assume inv: "pool_inv a"
  then obtain "is" where wf: "pool_wf a is" by (auto simp: pool_inv_def)
  show "finite (live_blocks a)"
    unfolding live_blocks_wf [OF wf]
    by (rule finite_imageI) (rule finite_subset [of _ "{0..<size_max a}"], auto)
  show "PoolAllocator_getBlock a = Inr (0, a)" if "pool_room a = 0"
    using that wf getBlock_empty by (auto simp: pool_room_wf [OF wf])
  show "\<exists>b q. PoolAllocator_getBlock a = Inr (b, q) \<and> b \<noteq> 0 \<and> b \<notin> live_blocks a \<and> pool_inv q \<and>
      live_blocks q = insert b (live_blocks a) \<and> Suc (pool_room q) = pool_room a \<and>
      pool_near q = pool_near a" if room: "0 < pool_room a"
  proof -
    from room obtain i js where "is": "is = i # js"
      using pool_room_wf [OF wf] by (cases "is") auto
    from getBlock_step [OF wf [unfolded "is"]] obtain q where
      q: "PoolAllocator_getBlock a = Inr (block_at a i, q)" "pool_wf q js"
      "size_max q = size_max a" "item_size q = item_size a" "buffer q = buffer a" by auto
    have "0 < block_at a i" using wf pool_wfD(4) [OF wf] "is" by (auto intro: block_at_pos)
    with q live_blocks_getBlock [OF wf [unfolded "is"] q(2-5)] "is" show ?thesis
      by (auto simp: pool_inv_def pool_room_wf [OF wf] pool_room_wf [OF q(2)] pool_near_def
          fun_eq_iff)
  qed
  show "\<exists>q. PoolAllocator_releaseBlock a b = Inr (Success, q) \<and> pool_inv q \<and>
      live_blocks q = live_blocks a - {b} \<and> pool_room q = Suc (pool_room a) \<and>
      pool_near q = pool_near a" if "b \<in> live_blocks a"
  proof -
    from that obtain i where i: "b = block_at a i" "0 \<le> i" "i < size_max a" "i \<notin> set is"
      by (auto simp: live_blocks_wf [OF wf])
    from releaseBlock_live [OF wf i(2-4)] obtain q where
      q: "PoolAllocator_releaseBlock a b = Inr (Success, q)" "pool_wf q (i # is)"
      "size_max q = size_max a" "item_size q = item_size a" "buffer q = buffer a"
      by (auto simp: i(1))
    have "live_blocks a = insert b (live_blocks q)" "b \<notin> live_blocks q"
      using live_blocks_getBlock [OF q(2) wf] q(3-5) i(1) by (simp_all add: block_at_def)
    with q show ?thesis
      by (auto simp: pool_inv_def pool_room_wf [OF wf] pool_room_wf [OF q(2)] pool_near_def
          fun_eq_iff)
  qed
  show "\<exists>r. r \<noteq> Success \<and> PoolAllocator_releaseBlock a b = Inr (r, a)"
    if "b \<notin> live_blocks a" "pool_near a b"
    using releaseBlock_reject [OF wf] that by (simp add: pool_near_def)
qed


definition pool_span :: "PoolAllocator \<Rightarrow> addr set" where
  "pool_span a = block_at a ` {i. 0 \<le> i \<and> i < size_max a}"

interpretation pool: located_store PoolAllocator_getBlock PoolAllocator_releaseBlock
  pool_inv live_blocks pool_room pool_near pool_span
proof unfold_locales
  fix a q :: PoolAllocator and b r
  show "live_blocks a \<subseteq> pool_span a" by (auto simp: live_blocks_def pool_span_def)
  show "pool_span q = pool_span a" if "PoolAllocator_getBlock a = Inr (b, q)"
    using that
    by (auto simp: PoolAllocator_getBlock_def andthen_eq_Inr Let_def pool_span_def block_at_def
        split: if_splits)
  show "pool_span q = pool_span a" if "PoolAllocator_releaseBlock a b = Inr (r, q)"
    using that
    by (auto simp: PoolAllocator_releaseBlock_def andthen_eq_Inr Let_def pool_span_def block_at_def
        split: if_splits)
qed

section \<open>Small pools\<close>

text \<open>A pool of eight blocks of one byte, the first \<open>n\<close> of them taken.\<close>

definition small_pool :: "addr \<Rightarrow> nat \<Rightarrow> PoolAllocator" where
  "small_pool b n =
     \<lparr>buffer = b, free_list = replicate n DetachedIdx @ map int [n + 1..<8] @ [NullIdx],
      buffer_size = 8, pool_size = 8 - int n, size_max = 8, item_size = 1, first_idx = int n,
      bucket_size = 0\<rparr>"

lemma small_pool_wf:
  assumes "0 < b" and n: "n < 8"
  shows "pool_wf (small_pool b n) (map int [n..<8])"
proof -
  let ?fl = "replicate n DetachedIdx @ map int [n + 1..<8] @ [NullIdx]"
  have len: "length ?fl = 8" using n by simp
  have "?fl ! j = int j + 1" if "n \<le> j" "j < 7" for j
  proof -
    have "j - n < 7 - n" "n + 1 + (j - n) = j + 1" using that by auto
    then show ?thesis using that n by (simp add: nth_append)
  qed
  moreover have "?fl ! 7 = NullIdx" using n by (simp add: nth_append)
  ultimately have "chained ?fl (int n) (map int [n..<8])"
    using chained_upt [of n "7 - n" ?fl] n len by (simp del: upt_Suc)
  then show ?thesis
    using assms len
    by (auto simp: pool_wf_def small_pool_def distinct_map image_int_atLeastLessThan nth_append
        simp del: upt_Suc)
qed

lemma small_pool_facts:
  assumes "0 < b" and "n < 8"
  shows "pool_inv (small_pool b n)" "live_blocks (small_pool b n) = {b..<b + int n}"
    "pool_room (small_pool b n) = 8 - n" "pool_span (small_pool b n) = {b..<b + 8}"
proof -
  note W = small_pool_wf [OF assms]
  show "pool_inv (small_pool b n)" using W by (auto simp: pool_inv_def)
  have "{i. 0 \<le> i \<and> i < size_max (small_pool b n) \<and> i \<notin> set (map int [n..<8])} = {0..<int n}"
    using assms by (auto simp: small_pool_def image_int_atLeastLessThan)
  then show "live_blocks (small_pool b n) = {b..<b + int n}"
    unfolding live_blocks_wf [OF W] by (auto simp: block_at_def small_pool_def image_add_int_atLeastLessThan)
  show "pool_room (small_pool b n) = 8 - n" by (simp add: pool_room_def small_pool_def)
  show "pool_span (small_pool b n) = {b..<b + 8}"
  proof -
    have "pool_span (small_pool b n) = (\<lambda>i. b + i) ` {0..<8}"
      by (simp add: pool_span_def block_at_def small_pool_def atLeastLessThan_def atLeast_def
          lessThan_def Collect_conj_eq)
    then show ?thesis by (simp add: add.commute)
  qed
qed

lemma small_pool_sel [simp]: "buffer (small_pool b n) = b" "pool_size (small_pool b n) = 8 - int n"
  by (simp_all add: small_pool_def)

section \<open>Properties\<close>

lemma take_all:
  assumes "pool_inv a" and "pool_room a = n"
  shows "\<exists>a'. store_run PoolAllocator_getBlock PoolAllocator_releaseBlock a (replicate n Take)
      = Inr a' \<and> pool_inv a' \<and> pool_room a' = 0 \<and> PoolAllocator_getBlock a' = Inr (NULL, a')"
  using assms
proof (induction n arbitrary: a)
  case 0
  then show ?case using pool.take_none by auto
next
  case (Suc n)
  from pool.take_some [OF Suc.prems(1)] Suc.prems(2) obtain b q where
    "PoolAllocator_getBlock a = Inr (b, q)" "pool_inv q" "pool_room q = n" by auto
  with Suc.IH show ?case by auto
qed

text \<open>
  C27: initialising a pool of \<open>n\<close> blocks over memory that is large enough succeeds, and all of
  its \<open>n\<close> blocks are free: taking a block works \<open>n\<close> times and then reports exhaustion.
\<close>

theorem PoolAllocator_init_correct:
  assumes "0 < n" and "0 < itemsz" and "0 < mem"
    and "int n * (itemsz + SIZEOF_INT) < 2 ^ 31" and "int n * (itemsz + SIZEOF_INT) \<le> msz"
  shows "\<exists>a'. PoolAllocator_init a itemsz (int n) mem msz = Inr (Success, a') \<and>
    pool_inv a' \<and> live_blocks a' = {} \<and>
    (\<exists>a''. store_run PoolAllocator_getBlock PoolAllocator_releaseBlock a' (replicate n Take)
        = Inr a'' \<and> card (live_blocks a'') = n \<and> PoolAllocator_getBlock a'' = Inr (NULL, a''))"
proof -
  from init_pool_wf [OF assms, of a] obtain a' where
    a': "PoolAllocator_init a itemsz (int n) mem msz = Inr (Success, a')"
      "pool_wf a' (map int [0..<n])" "size_max a' = int n" by blast
  have live: "live_blocks a' = {}"
    unfolding live_blocks_wf [OF a'(2)] a'(3) by (auto simp: image_int_atLeastLessThan)
  have inv: "pool_inv a'" "pool_room a' = n"
    using a'(2) pool_room_wf [OF a'(2)] by (auto simp: pool_inv_def)
  from take_all [OF inv] obtain a'' where
    a'': "store_run PoolAllocator_getBlock PoolAllocator_releaseBlock a' (replicate n Take)
        = Inr a''" "pool_room a'' = 0" "PoolAllocator_getBlock a'' = Inr (NULL, a'')" by blast
  have "card (live_blocks a'') = n"
    using pool.run_conserves [OF inv(1), of "replicate n Take"] a'' live inv(2) by auto
  with a'(1) inv(1) live a'' show ?thesis by blast
qed

theorem PoolAllocator_init_correct_witness:
  "\<exists>a' a''. PoolAllocator_init (small_pool 0 0) 16 3 1000 60 = Inr (Success, a') \<and>
    store_run PoolAllocator_getBlock PoolAllocator_releaseBlock a' (replicate 3 Take) = Inr a'' \<and>
    PoolAllocator_getBlock a'' = Inr (NULL, a'')"
  using PoolAllocator_init_correct [of 3 16 1000 60 "small_pool 0 0"]
  by (auto simp: SIZEOF_INT_def)

text \<open>
  When the memory is too small for the blocks and their bookkeeping,
  \<open>PoolAllocator_init\<close> reports \<open>NotEnoughMemory\<close> and leaves the allocator as it was.
\<close>

theorem PoolAllocator_init_too_small:
  assumes "0 < n" and "0 < itemsz" and "int n * (itemsz + SIZEOF_INT) < 2 ^ 31"
    and "msz < int n * (itemsz + SIZEOF_INT)"
  shows "PoolAllocator_init a itemsz (int n) mem msz = Inr (NotEnoughMemory, a)"
proof -
  have pos: "0 \<le> int n * (itemsz + 4)" "itemsz + 4 \<le> int n * (itemsz + 4)"
    using assms(1,2) by (auto simp: mult_le_cancel_right1)
  have "itemsz + 4 < 2 ^ 31"
    using pos(2) assms(3) unfolding SIZEOF_INT_def by linarith
  then have "(itemsz + 4) mod 2 ^ 64 = itemsz + 4"
    using assms(2) by (intro mod_pos_pos_trivial) auto
  moreover have "(int n * (itemsz + 4)) mod 2 ^ 64 = int n * (itemsz + 4)"
    using pos assms(3) by (intro mod_pos_pos_trivial) (auto simp: SIZEOF_INT_def)
  moreover have "int_of_long (int n * (itemsz + 4)) = int n * (itemsz + 4)"
    using pos assms(3) by (intro int_of_long_id) (auto simp: in_int_range_def SIZEOF_INT_def)
  ultimately show ?thesis
    using assms(4) by (simp add: PoolAllocator_init_def SIZEOF_INT_def)
qed

theorem PoolAllocator_init_too_small_witness:
  "PoolAllocator_init (small_pool 0 0) 16 3 1000 59 = Inr (NotEnoughMemory, small_pool 0 0)"
  using PoolAllocator_init_too_small [of 3 16 59 "small_pool 0 0" 1000]
  by (simp add: SIZEOF_INT_def)

text \<open>
  On a pool that is well formed, \<open>PoolAllocator_getBlock\<close> returns \<open>NULL\<close> exactly when no
  block is free; otherwise the block is one of the buffer, was not in use, and is the only
  block that becomes in use.
\<close>

theorem PoolAllocator_getBlock_fresh:
  assumes "pool_inv a"
  shows "\<exists>b a'. PoolAllocator_getBlock a = Inr (b, a') \<and> pool_inv a' \<and>
    (b = NULL \<longleftrightarrow> pool_size a = 0) \<and>
    (if b = NULL then a' = a
     else b \<in> pool_span a \<and> b \<notin> live_blocks a \<and> live_blocks a' = insert b (live_blocks a) \<and>
       pool_size a' = pool_size a - 1)"
proof (cases "pool_room a = 0")
  case True
  moreover have "0 \<le> pool_size a" using assms by (auto simp: pool_inv_def pool_wf_def)
  ultimately show ?thesis
    using pool.take_none [OF assms True] assms by (simp add: pool_room_def)
next
  case False
  from pool.take_some [OF assms] False obtain b q where
    q: "PoolAllocator_getBlock a = Inr (b, q)" "b \<noteq> NULL" "b \<notin> live_blocks a" "pool_inv q"
      "live_blocks q = insert b (live_blocks a)" "Suc (pool_room q) = pool_room a" by auto
  have "0 \<le> pool_size q" using q(4) by (auto simp: pool_inv_def pool_wf_def)
  with q(6) have "pool_size q = pool_size a - 1" "pool_size a \<noteq> 0" by (auto simp: pool_room_def)
  with q pool.take_apart(1) [OF assms q(1,2), of "{}"] show ?thesis by auto
qed

theorem PoolAllocator_getBlock_fresh_witness:
  "\<exists>b a'. PoolAllocator_getBlock (small_pool 100 2) = Inr (b, a') \<and> b \<notin> {100, 101} \<and>
     b \<in> {100..<108}"
  using PoolAllocator_getBlock_fresh [OF small_pool_facts(1) [of 100 2]]
    small_pool_facts [of 100 2]
  by (auto simp: small_pool_def split: if_splits)

text \<open>
  C29: a block that is in use can be released exactly once: the release makes it the next block
  handed out, and a second release of it is reported as \<open>DoubleFree\<close> and changes nothing.
\<close>

theorem PoolAllocator_releaseBlock_once:
  assumes "pool_inv a" and "b \<in> live_blocks a"
  shows "\<exists>a'. PoolAllocator_releaseBlock a b = Inr (Success, a') \<and> pool_inv a' \<and>
    live_blocks a' = live_blocks a - {b} \<and>
    PoolAllocator_releaseBlock a' b = Inr (DoubleFree, a') \<and>
    (\<exists>a''. PoolAllocator_getBlock a' = Inr (b, a'') \<and> live_blocks a'' = live_blocks a)"
proof -
  from assms(1) obtain "is" where wf: "pool_wf a is" by (auto simp: pool_inv_def)
  from assms(2) obtain i where i: "b = block_at a i" "0 \<le> i" "i < size_max a" "i \<notin> set is"
    by (auto simp: live_blocks_wf [OF wf])
  from releaseBlock_live [OF wf i(2-4)] obtain q where
    q: "PoolAllocator_releaseBlock a b = Inr (Success, q)" "pool_wf q (i # is)"
      "size_max q = size_max a" "item_size q = item_size a" "buffer q = buffer a"
    by (auto simp: i(1))
  have b: "b = block_at q i" using i(1) q(4,5) by (simp add: block_at_def)
  from getBlock_step [OF q(2)] obtain r where
    r: "PoolAllocator_getBlock q = Inr (b, r)" "pool_wf r is" "size_max r = size_max q"
      "item_size r = item_size q" "buffer r = buffer q" by (auto simp: b)
  have "live_blocks a = insert b (live_blocks q)" "b \<notin> live_blocks q"
    using live_blocks_getBlock [OF q(2) wf] q(3-5) b by simp_all
  moreover have "live_blocks r = insert b (live_blocks q)"
    using live_blocks_getBlock [OF q(2) r(2-5)] b by simp
  ultimately show ?thesis
    using q(1,2) r(1) releaseBlock_free [OF q(2), of i] b by (auto simp: pool_inv_def)
qed

theorem PoolAllocator_releaseBlock_once_witness:
  "\<exists>a'. PoolAllocator_releaseBlock (small_pool 100 2) 101 = Inr (Success, a') \<and>
     PoolAllocator_releaseBlock a' 101 = Inr (DoubleFree, a')"
  using PoolAllocator_releaseBlock_once [OF small_pool_facts(1) [of 100 2], of 101]
    small_pool_facts(2) [of 100 2]
  by auto

text \<open>
  Releasing a pointer that is no block in use, anywhere within \<open>int\<close> range of the buffer,
  is refused with an error code and changes nothing.
\<close>

theorem PoolAllocator_releaseBlock_rejects:
  assumes "pool_inv a" and "in_int_range (b - buffer a)" and "b \<notin> live_blocks a"
  shows "\<exists>r. r \<in> {UnalignedFree, OutOfRange, DoubleFree} \<and>
    PoolAllocator_releaseBlock a b = Inr (r, a)"
proof -
  from assms(1) obtain "is" where wf: "pool_wf a is" by (auto simp: pool_inv_def)
  obtain r where r: "r \<noteq> Success" "PoolAllocator_releaseBlock a b = Inr (r, a)"
    using releaseBlock_reject [OF wf assms(2,3)] by blast
  have "r \<noteq> NotEnoughMemory"
    using r(2) by (auto simp: PoolAllocator_releaseBlock_def Let_def res_simps split: if_splits)
  with r show ?thesis by (cases r) auto
qed

theorem PoolAllocator_releaseBlock_rejects_witness:
  "\<exists>r. r \<in> {UnalignedFree, OutOfRange, DoubleFree} \<and>
     PoolAllocator_releaseBlock (small_pool 100 2) 99 = Inr (r, small_pool 100 2)"
  using PoolAllocator_releaseBlock_rejects [OF small_pool_facts(1) [of 100 2], of 99]
    small_pool_facts(2) [of 100 2]
  by (simp add: small_pool_def in_int_range_def)

text \<open>
  C28: any sequence of requests and releases, correct or not, runs without a fault and conserves
  the number of blocks: those in use and those free always add up to the same number.
\<close>

theorem pool_run_conserves:
  assumes "pool_inv a" and "\<forall>b. Give b \<in> set ops \<longrightarrow> in_int_range (b - buffer a)"
  shows "\<exists>a'. store_run PoolAllocator_getBlock PoolAllocator_releaseBlock a ops = Inr a' \<and>
    pool_inv a' \<and> pool_span a' = pool_span a \<and>
    int (card (live_blocks a')) + pool_size a' = int (card (live_blocks a)) + pool_size a"
proof -
  obtain a' where r: "store_run PoolAllocator_getBlock PoolAllocator_releaseBlock a ops = Inr a'"
    "pool_inv a'" "card (live_blocks a') + pool_room a' = card (live_blocks a) + pool_room a"
    using pool.run_conserves [OF assms(1), of ops] assms(2) by (auto simp: pool_near_def)
  have "0 \<le> pool_size a" "0 \<le> pool_size a'"
    using assms(1) r(2) by (auto simp: pool_inv_def pool_wf_def)
  with r pool.run_span [OF r(1)] show ?thesis by (auto simp: pool_room_def)
qed

theorem pool_run_conserves_witness:
  "\<exists>a'. store_run PoolAllocator_getBlock PoolAllocator_releaseBlock (small_pool 100 2)
      [Take, Give 100, Give 100, Give 7, Take] = Inr a' \<and>
     int (card (live_blocks a')) + pool_size a' = 8"
  using pool_run_conserves [OF small_pool_facts(1) [of 100 2],
      of "[Take, Give 100, Give 100, Give 7, Take]"] small_pool_facts(2) [of 100 2]
  by (auto simp: in_int_range_def simp del: store_run.simps)

text \<open>
  C39: the offset of a released pointer is narrowed to \<open>int\<close>, so a pointer that lies \<open>2 ^ 32\<close>
  bytes beyond a block in use is accepted in its place.
\<close>

theorem PoolAllocator_releaseBlock_narrows:
  "PoolAllocator_releaseBlock a (b + 2 ^ 32) = PoolAllocator_releaseBlock a b"
proof -
  have "int_of_long (x + 2 ^ 32) = int_of_long x" for x
    unfolding int_of_long_def using signed_take_bit_eq_iff_take_bit_eq [of 31 "x + 2 ^ 32" x]
    by (simp add: take_bit_eq_mod)
  from this [of "b - buffer a"] have
    "int_of_long (b + 2 ^ 32 - buffer a) = int_of_long (b - buffer a)"
    by (simp add: algebra_simps)
  then show ?thesis unfolding PoolAllocator_releaseBlock_def by (simp only:)
qed

end
