(* ===== verification/Kernel_State.thy ===== *)
theory Kernel_State
  imports Linked_List Pool_Allocator
begin

text \<open>
  The data of the kernel: the constants of \<^verbatim>\<open>disastrOS_constants.h\<close>, one record per
  struct, the locations of the list heads, and the record \<open>kernel\<close> of the global variables
  and of the memory the structs live in.

  The memory is one map per struct type from addresses to contents. The fields of type
  \<open>ListItem\<close> are in \<open>links\<close> and those of type \<open>ListHead\<close> in \<open>heads\<close> (both of the
  extended record \<open>lmem\<close>), so the struct records hold the remaining fields. Freed
  blocks keep their contents, as the static buffers of the program do. The stack and the
  register part of \<open>cpu_state\<close> are not modelled: a context is either still zero, freshly
  made by \<open>makecontext\<close> for a function and an argument, or saved by a switch.
\<close>

section \<open>Constants\<close>

definition MAX_NUM_PROCESSES :: int where "MAX_NUM_PROCESSES = 1024"
definition MAX_NUM_RESOURCES :: int where "MAX_NUM_RESOURCES = 1024"
definition MAX_NUM_SEMAPHORES :: int where "MAX_NUM_SEMAPHORES = 1024"
definition MAX_NUM_DESCRIPTORS_PER_PROCESS :: int where "MAX_NUM_DESCRIPTORS_PER_PROCESS = 32"
definition MAX_NUM_SEMDESCRIPTORS_PER_PROCESS :: int where
  "MAX_NUM_SEMDESCRIPTORS_PER_PROCESS = 32"

definition DSOS_SIGCHLD :: int where "DSOS_SIGCHLD = 1"
definition DSOS_SIGHUP :: int where "DSOS_SIGHUP = 2"

definition DSOS_ESYSCALL_NOT_IMPLEMENTED :: int where "DSOS_ESYSCALL_NOT_IMPLEMENTED = -2"
definition DSOS_ESYSCALL_OUT_OF_RANGE :: int where "DSOS_ESYSCALL_OUT_OF_RANGE = -3"
definition DSOS_EWAIT :: int where "DSOS_EWAIT = -5"
definition DSOS_ESPAWN :: int where "DSOS_ESPAWN = -6"
definition DSOS_ESLEEP :: int where "DSOS_ESLEEP = -7"
definition DSOS_ERESOURCECREATE :: int where "DSOS_ERESOURCECREATE = -8"
definition DSOS_ERESOURCEOPEN :: int where "DSOS_ERESOURCEOPEN = -9"
definition DSOS_ERESOURCENOEXCL :: int where "DSOS_ERESOURCENOEXCL = -10"
definition DSOS_ERESOURCENOFD :: int where "DSOS_ERESOURCENOFD = -11"
definition DSOS_ERESOURCECLOSE :: int where "DSOS_ERESOURCECLOSE = -12"
definition DSOS_ERESOURCEINUSE :: int where "DSOS_ERESOURCEINUSE = -13"
definition DSOS_ECREATEFD :: int where "DSOS_ECREATEFD = -14"
definition DSOS_ENOTMYSEM :: int where "DSOS_ENOTMYSEM = -15"
definition DSOS_ECREATESEM :: int where "DSOS_ECREATESEM = -16"
definition DSOS_ECREATEPTR :: int where "DSOS_ECREATEPTR = -17"

definition DSOS_MAX_SYSCALLS :: int where "DSOS_MAX_SYSCALLS = 32"
definition DSOS_CALL_PREEMPT :: int where "DSOS_CALL_PREEMPT = 1"
definition DSOS_CALL_FORK :: int where "DSOS_CALL_FORK = 2"
definition DSOS_CALL_WAIT :: int where "DSOS_CALL_WAIT = 3"
definition DSOS_CALL_EXIT :: int where "DSOS_CALL_EXIT = 4"
definition DSOS_CALL_SPAWN :: int where "DSOS_CALL_SPAWN = 5"
definition DSOS_CALL_SLEEP :: int where "DSOS_CALL_SLEEP = 6"
definition DSOS_CALL_OPEN_RESOURCE :: int where "DSOS_CALL_OPEN_RESOURCE = 7"
definition DSOS_CALL_CLOSE_RESOURCE :: int where "DSOS_CALL_CLOSE_RESOURCE = 8"
definition DSOS_CALL_DESTROY_RESOURCE :: int where "DSOS_CALL_DESTROY_RESOURCE = 9"
definition DSOS_CALL_SHUTDOWN :: int where "DSOS_CALL_SHUTDOWN = 10"
definition DSOS_CALL_SEMOPEN :: int where "DSOS_CALL_SEMOPEN = 11"
definition DSOS_CALL_SEMCLOSE :: int where "DSOS_CALL_SEMCLOSE = 12"
definition DSOS_CALL_SEMWAIT :: int where "DSOS_CALL_SEMWAIT = 13"
definition DSOS_CALL_SEMPOST :: int where "DSOS_CALL_SEMPOST = 14"

definition DSOS_CREATE :: int where "DSOS_CREATE = 1"
definition DSOS_READ :: int where "DSOS_READ = 2"
definition DSOS_WRITE :: int where "DSOS_WRITE = 3"
definition DSOS_EXCL :: int where "DSOS_EXCL = 4"

lemmas error_codes =
  DSOS_ESYSCALL_NOT_IMPLEMENTED_def DSOS_ESYSCALL_OUT_OF_RANGE_def DSOS_EWAIT_def DSOS_ESPAWN_def
  DSOS_ESLEEP_def DSOS_ERESOURCECREATE_def DSOS_ERESOURCEOPEN_def DSOS_ERESOURCENOEXCL_def
  DSOS_ERESOURCENOFD_def DSOS_ERESOURCECLOSE_def DSOS_ERESOURCEINUSE_def DSOS_ECREATEFD_def
  DSOS_ENOTMYSEM_def DSOS_ECREATESEM_def DSOS_ECREATEPTR_def

lemmas syscall_numbers =
  DSOS_CALL_PREEMPT_def DSOS_CALL_FORK_def DSOS_CALL_WAIT_def DSOS_CALL_EXIT_def
  DSOS_CALL_SPAWN_def DSOS_CALL_SLEEP_def DSOS_CALL_OPEN_RESOURCE_def
  DSOS_CALL_CLOSE_RESOURCE_def DSOS_CALL_DESTROY_RESOURCE_def DSOS_CALL_SHUTDOWN_def
  DSOS_CALL_SEMOPEN_def DSOS_CALL_SEMCLOSE_def DSOS_CALL_SEMWAIT_def DSOS_CALL_SEMPOST_def

section \<open>Structs\<close>

datatype ProcessStatus = Invalid | Created | Running | Ready | Waiting | Suspended | Zombie

datatype ucontext = Zero_context | Fresh_context addr addr | Saved_context

record PCB =
  pid :: int
  return_value :: int
  status :: ProcessStatus
  signals :: int
  signals_mask :: int
  parent :: addr
  cpu_state :: ucontext
  timer :: addr
  last_fd :: int
  last_sem_fd :: int
  syscall_num :: int
  syscall_args :: "nat \<Rightarrow> int"
  syscall_retvalue :: int

record TimerItem =
  awakening_time :: int
  t_pcb :: addr

record Resource =
  res_id :: int
  res_type :: int

record Descriptor =
  d_pcb :: addr
  d_resource :: addr
  d_fd :: int
  d_ptr :: addr

record Semaphore =
  sem_id :: int
  sem_count :: int

record SemDescriptor =
  sd_pcb :: addr
  sd_semaphore :: addr
  sd_fd :: int
  sd_ptr :: addr
  sd_wait_ptr :: addr

text \<open>Where a \<open>ListHead\<close> can be: a global, or a field of the struct at an address.\<close>

datatype hloc =
    ready_list
  | waiting_list
  | zombie_list
  | resources_list
  | timer_list
  | semaphores_list
  | PCB_children addr
  | PCB_descriptors addr
  | PCB_sem_descriptors addr
  | Resource_descriptors addr
  | Semaphore_descriptors addr
  | Semaphore_waiting addr

text \<open>The nine static allocators.\<close>

datatype pool_id =
    pcb_pool
  | pcb_ptr_pool
  | timer_pool
  | resource_pool
  | descriptor_pool
  | descriptor_ptr_pool
  | semaphore_pool
  | sem_descriptor_pool
  | sem_descriptor_ptr_pool

record kernel = "hloc lmem" +
  pools :: "pool_id \<Rightarrow> PoolAllocator"
  pcbs :: "addr \<Rightarrow> PCB"
  pcb_ptrs :: "addr \<Rightarrow> addr"
  timer_items :: "addr \<Rightarrow> TimerItem"
  resources :: "addr \<Rightarrow> Resource"
  descriptors :: "addr \<Rightarrow> Descriptor"
  descriptor_ptrs :: "addr \<Rightarrow> addr"
  semaphores :: "addr \<Rightarrow> Semaphore"
  sem_descriptors :: "addr \<Rightarrow> SemDescriptor"
  sem_descriptor_ptrs :: "addr \<Rightarrow> addr"
  init_pcb :: addr
  running :: addr
  last_pid :: int
  disastrOS_time :: int
  shutdown_now :: int
  log_file :: bool
  start_f :: addr
  start_args :: addr
  user_mem :: "addr \<Rightarrow> int"

section \<open>Access to the memory\<close>

definition upd_pcb :: "addr \<Rightarrow> (PCB \<Rightarrow> PCB) \<Rightarrow> kernel \<Rightarrow> kernel" where
  "upd_pcb p f k = k\<lparr>pcbs := (pcbs k)(p := f (pcbs k p))\<rparr>"

definition upd_sem :: "addr \<Rightarrow> (Semaphore \<Rightarrow> Semaphore) \<Rightarrow> kernel \<Rightarrow> kernel" where
  "upd_sem s f k = k\<lparr>semaphores := (semaphores k)(s := f (semaphores k s))\<rparr>"

definition upd_desc :: "addr \<Rightarrow> (Descriptor \<Rightarrow> Descriptor) \<Rightarrow> kernel \<Rightarrow> kernel" where
  "upd_desc d f k = k\<lparr>descriptors := (descriptors k)(d := f (descriptors k d))\<rparr>"

definition upd_semdesc :: "addr \<Rightarrow> (SemDescriptor \<Rightarrow> SemDescriptor) \<Rightarrow> kernel \<Rightarrow> kernel" where
  "upd_semdesc d f k = k\<lparr>sem_descriptors := (sem_descriptors k)(d := f (sem_descriptors k d))\<rparr>"

definition null_links :: "addr \<Rightarrow> kernel \<Rightarrow> kernel" where
  "null_links p k = k\<lparr>links := (links k)(p := \<lparr>li_prev = NULL, li_next = NULL\<rparr>)\<rparr>"

text \<open>
  A store through a pointer that a process has handed over: it goes to the memory of the programs,
  which the model keeps apart from that of the kernel.
\<close>

definition store_user :: "addr \<Rightarrow> int \<Rightarrow> kernel \<Rightarrow> kernel" where
  "store_user p v k = (if p = NULL then k else k\<lparr>user_mem := (user_mem k)(p := v)\<rparr>)"

lemmas kernel_upd_defs = upd_pcb_def upd_sem_def upd_desc_def upd_semdesc_def

text \<open>\<open>running->syscall_args[i]\<close> and \<open>running->syscall_retvalue = v\<close>.\<close>

definition syscall_arg :: "kernel \<Rightarrow> nat \<Rightarrow> int" where
  "syscall_arg k i = syscall_args (pcbs k (running k)) i"

definition set_retvalue :: "int \<Rightarrow> kernel \<Rightarrow> kernel" where
  "set_retvalue v k = upd_pcb (running k) (\<lambda>p. p\<lparr>syscall_retvalue := v\<rparr>) k"

lemma upd_pcb_sel [simp]:
  "links (upd_pcb p f k) = links k"
  "heads (upd_pcb p f k) = heads k"
  "pools (upd_pcb p f k) = pools k"
  "pcbs (upd_pcb p f k) = (pcbs k)(p := f (pcbs k p))"
  "pcb_ptrs (upd_pcb p f k) = pcb_ptrs k"
  "timer_items (upd_pcb p f k) = timer_items k"
  "resources (upd_pcb p f k) = resources k"
  "descriptors (upd_pcb p f k) = descriptors k"
  "descriptor_ptrs (upd_pcb p f k) = descriptor_ptrs k"
  "semaphores (upd_pcb p f k) = semaphores k"
  "sem_descriptors (upd_pcb p f k) = sem_descriptors k"
  "sem_descriptor_ptrs (upd_pcb p f k) = sem_descriptor_ptrs k"
  "init_pcb (upd_pcb p f k) = init_pcb k"
  "running (upd_pcb p f k) = running k"
  "last_pid (upd_pcb p f k) = last_pid k"
  "disastrOS_time (upd_pcb p f k) = disastrOS_time k"
  "shutdown_now (upd_pcb p f k) = shutdown_now k"
  "log_file (upd_pcb p f k) = log_file k"
  "start_f (upd_pcb p f k) = start_f k"
  "start_args (upd_pcb p f k) = start_args k"
  "user_mem (upd_pcb p f k) = user_mem k"
  by (simp_all add: upd_pcb_def)

lemma upd_sem_sel [simp]:
  "links (upd_sem s f k) = links k"
  "heads (upd_sem s f k) = heads k"
  "pools (upd_sem s f k) = pools k"
  "pcbs (upd_sem s f k) = pcbs k"
  "pcb_ptrs (upd_sem s f k) = pcb_ptrs k"
  "timer_items (upd_sem s f k) = timer_items k"
  "resources (upd_sem s f k) = resources k"
  "descriptors (upd_sem s f k) = descriptors k"
  "descriptor_ptrs (upd_sem s f k) = descriptor_ptrs k"
  "semaphores (upd_sem s f k) = (semaphores k)(s := f (semaphores k s))"
  "sem_descriptors (upd_sem s f k) = sem_descriptors k"
  "sem_descriptor_ptrs (upd_sem s f k) = sem_descriptor_ptrs k"
  "init_pcb (upd_sem s f k) = init_pcb k"
  "running (upd_sem s f k) = running k"
  "last_pid (upd_sem s f k) = last_pid k"
  "disastrOS_time (upd_sem s f k) = disastrOS_time k"
  "shutdown_now (upd_sem s f k) = shutdown_now k"
  "log_file (upd_sem s f k) = log_file k"
  "start_f (upd_sem s f k) = start_f k"
  "start_args (upd_sem s f k) = start_args k"
  "user_mem (upd_sem s f k) = user_mem k"
  by (simp_all add: upd_sem_def)

lemma upd_desc_sel [simp]:
  "links (upd_desc d f k) = links k"
  "heads (upd_desc d f k) = heads k"
  "pools (upd_desc d f k) = pools k"
  "pcbs (upd_desc d f k) = pcbs k"
  "pcb_ptrs (upd_desc d f k) = pcb_ptrs k"
  "timer_items (upd_desc d f k) = timer_items k"
  "resources (upd_desc d f k) = resources k"
  "descriptors (upd_desc d f k) = (descriptors k)(d := f (descriptors k d))"
  "descriptor_ptrs (upd_desc d f k) = descriptor_ptrs k"
  "semaphores (upd_desc d f k) = semaphores k"
  "sem_descriptors (upd_desc d f k) = sem_descriptors k"
  "sem_descriptor_ptrs (upd_desc d f k) = sem_descriptor_ptrs k"
  "init_pcb (upd_desc d f k) = init_pcb k"
  "running (upd_desc d f k) = running k"
  "last_pid (upd_desc d f k) = last_pid k"
  "disastrOS_time (upd_desc d f k) = disastrOS_time k"
  "shutdown_now (upd_desc d f k) = shutdown_now k"
  "log_file (upd_desc d f k) = log_file k"
  "start_f (upd_desc d f k) = start_f k"
  "start_args (upd_desc d f k) = start_args k"
  "user_mem (upd_desc d f k) = user_mem k"
  by (simp_all add: upd_desc_def)

lemma upd_semdesc_sel [simp]:
  "links (upd_semdesc d f k) = links k"
  "heads (upd_semdesc d f k) = heads k"
  "pools (upd_semdesc d f k) = pools k"
  "pcbs (upd_semdesc d f k) = pcbs k"
  "pcb_ptrs (upd_semdesc d f k) = pcb_ptrs k"
  "timer_items (upd_semdesc d f k) = timer_items k"
  "resources (upd_semdesc d f k) = resources k"
  "descriptors (upd_semdesc d f k) = descriptors k"
  "descriptor_ptrs (upd_semdesc d f k) = descriptor_ptrs k"
  "semaphores (upd_semdesc d f k) = semaphores k"
  "sem_descriptors (upd_semdesc d f k) = (sem_descriptors k)(d := f (sem_descriptors k d))"
  "sem_descriptor_ptrs (upd_semdesc d f k) = sem_descriptor_ptrs k"
  "init_pcb (upd_semdesc d f k) = init_pcb k"
  "running (upd_semdesc d f k) = running k"
  "last_pid (upd_semdesc d f k) = last_pid k"
  "disastrOS_time (upd_semdesc d f k) = disastrOS_time k"
  "shutdown_now (upd_semdesc d f k) = shutdown_now k"
  "log_file (upd_semdesc d f k) = log_file k"
  "start_f (upd_semdesc d f k) = start_f k"
  "start_args (upd_semdesc d f k) = start_args k"
  "user_mem (upd_semdesc d f k) = user_mem k"
  by (simp_all add: upd_semdesc_def)

lemma set_retvalue_sel [simp]:
  "links (set_retvalue v k) = links k"
  "heads (set_retvalue v k) = heads k"
  "pools (set_retvalue v k) = pools k"
  "pcb_ptrs (set_retvalue v k) = pcb_ptrs k"
  "timer_items (set_retvalue v k) = timer_items k"
  "resources (set_retvalue v k) = resources k"
  "descriptors (set_retvalue v k) = descriptors k"
  "descriptor_ptrs (set_retvalue v k) = descriptor_ptrs k"
  "semaphores (set_retvalue v k) = semaphores k"
  "sem_descriptors (set_retvalue v k) = sem_descriptors k"
  "sem_descriptor_ptrs (set_retvalue v k) = sem_descriptor_ptrs k"
  "init_pcb (set_retvalue v k) = init_pcb k"
  "running (set_retvalue v k) = running k"
  "last_pid (set_retvalue v k) = last_pid k"
  "disastrOS_time (set_retvalue v k) = disastrOS_time k"
  "shutdown_now (set_retvalue v k) = shutdown_now k"
  "log_file (set_retvalue v k) = log_file k"
  "start_f (set_retvalue v k) = start_f k"
  "start_args (set_retvalue v k) = start_args k"
  "user_mem (set_retvalue v k) = user_mem k"
  "pid (pcbs (set_retvalue v k) p) = pid (pcbs k p)"
  "return_value (pcbs (set_retvalue v k) p) = return_value (pcbs k p)"
  "status (pcbs (set_retvalue v k) p) = status (pcbs k p)"
  "signals (pcbs (set_retvalue v k) p) = signals (pcbs k p)"
  "signals_mask (pcbs (set_retvalue v k) p) = signals_mask (pcbs k p)"
  "parent (pcbs (set_retvalue v k) p) = parent (pcbs k p)"
  "cpu_state (pcbs (set_retvalue v k) p) = cpu_state (pcbs k p)"
  "timer (pcbs (set_retvalue v k) p) = timer (pcbs k p)"
  "last_fd (pcbs (set_retvalue v k) p) = last_fd (pcbs k p)"
  "last_sem_fd (pcbs (set_retvalue v k) p) = last_sem_fd (pcbs k p)"
  "syscall_num (pcbs (set_retvalue v k) p) = syscall_num (pcbs k p)"
  "syscall_args (pcbs (set_retvalue v k) p) = syscall_args (pcbs k p)"
  "syscall_retvalue (pcbs (set_retvalue v k) p) =
     (if p = running k then v else syscall_retvalue (pcbs k p))"
  by (simp_all add: set_retvalue_def upd_pcb_def)

text \<open>Taking a block from a pool and giving it back.\<close>

definition pool_get :: "kernel \<Rightarrow> pool_id \<Rightarrow> (addr \<times> kernel) res" where
  "pool_get k i =
     andthen (PoolAllocator_getBlock (pools k i)) (\<lambda>(b, a).
     Inr (b, k\<lparr>pools := (pools k)(i := a)\<rparr>))"

definition pool_release :: "kernel \<Rightarrow> pool_id \<Rightarrow> addr \<Rightarrow> (int \<times> kernel) res" where
  "pool_release k i b =
     andthen (PoolAllocator_releaseBlock (pools k i) b) (\<lambda>(r, a).
     Inr (result_code r, k\<lparr>pools := (pools k)(i := a)\<rparr>))"

text \<open>
  What the compiler and the linker decide: the size of each struct and the address of each
  static buffer. Only the initialisation functions look at it.
\<close>

record layout =
  sizeof_block :: "pool_id \<Rightarrow> int"
  buffer_base :: "pool_id \<Rightarrow> addr"

definition pool_init :: "layout \<Rightarrow> pool_id \<Rightarrow> int \<Rightarrow> int \<Rightarrow> kernel \<Rightarrow> kernel res" where
  "pool_init ly i n capacity k =
     andthen (PoolAllocator_init (pools k i) (sizeof_block ly i) n (buffer_base ly i)
       (int_of_long (capacity * (sizeof_block ly i + SIZEOF_INT)))) (\<lambda>(r, a).
     c_assert (result_code r = 0) (Inr (k\<lparr>pools := (pools k)(i := a)\<rparr>)))"

end
