(* ===== verification/Semaphore.thy ===== *)
theory Semaphore
  imports Kernel_State
begin

text \<open>
  Semaphores and the descriptors through which processes hold them
  (\<^verbatim>\<open>disastrOS_semaphore.c\<close>, \<^verbatim>\<open>disastrOS_semdescriptor.c\<close> and their headers).
  \<open>Semaphore_alloc\<close> initialises the list of descriptors but not the list of waiting
  descriptors, which keeps whatever the block held before.
\<close>

definition Semaphore_init :: "layout \<Rightarrow> kernel \<Rightarrow> kernel res" where
  "Semaphore_init ly k = pool_init ly semaphore_pool MAX_NUM_SEMAPHORES MAX_NUM_SEMAPHORES k"

definition Semaphore_alloc :: "kernel \<Rightarrow> int \<Rightarrow> int \<Rightarrow> (addr \<times> kernel) res" where
  "Semaphore_alloc k i count =
     andthen (pool_get k semaphore_pool) (\<lambda>(s, k1).
     if s = NULL then Inr (NULL, k1)
     else let k2 = null_links s k1;
              k3 = k2\<lparr>semaphores := (semaphores k2)(s := \<lparr>sem_id = i, sem_count = count\<rparr>)\<rparr>
          in Inr (s, List_init k3 (Semaphore_descriptors s)))"

definition Semaphore_free :: "kernel \<Rightarrow> addr \<Rightarrow> (int \<times> kernel) res" where
  "Semaphore_free k s =
     c_assert (lh_first (heads k (Semaphore_descriptors s)) = NULL)
       (c_assert (lh_last (heads k (Semaphore_descriptors s)) = NULL)
         (pool_release k semaphore_pool s))"

definition SemaphoreList_byId :: "kernel \<Rightarrow> hloc \<Rightarrow> int \<Rightarrow> addr res" where
  "SemaphoreList_byId k h i =
     List_search k h (\<lambda>aux. aux) (\<lambda>aux. sem_id (semaphores k aux) = i)"

definition MAX_NUM_SEMDESCRIPTORS :: int where
  "MAX_NUM_SEMDESCRIPTORS = MAX_NUM_SEMDESCRIPTORS_PER_PROCESS * MAX_NUM_PROCESSES"

definition SemDescriptor_init :: "layout \<Rightarrow> kernel \<Rightarrow> kernel res" where
  "SemDescriptor_init ly k =
     andthen (pool_init ly sem_descriptor_pool MAX_NUM_PROCESSES MAX_NUM_SEMDESCRIPTORS k)
       (pool_init ly sem_descriptor_ptr_pool MAX_NUM_PROCESSES MAX_NUM_SEMDESCRIPTORS)"

definition SemDescriptor_alloc :: "kernel \<Rightarrow> int \<Rightarrow> addr \<Rightarrow> addr \<Rightarrow> (addr \<times> kernel) res" where
  "SemDescriptor_alloc k f s p =
     andthen (pool_get k sem_descriptor_pool) (\<lambda>(d, k1).
     if d = NULL then Inr (NULL, k1)
     else Inr (d, upd_semdesc d (\<lambda>x. x\<lparr>sd_fd := f, sd_semaphore := s, sd_pcb := p\<rparr>)
                    (null_links d k1)))"

definition SemDescriptor_free :: "kernel \<Rightarrow> addr \<Rightarrow> (int \<times> kernel) res" where
  "SemDescriptor_free k d = pool_release k sem_descriptor_pool d"

definition SemDescriptorList_byFd :: "kernel \<Rightarrow> hloc \<Rightarrow> int \<Rightarrow> addr res" where
  "SemDescriptorList_byFd k h f =
     List_search k h (\<lambda>aux. aux) (\<lambda>aux. sd_fd (sem_descriptors k aux) = f)"

definition SemDescriptorPtr_alloc :: "kernel \<Rightarrow> addr \<Rightarrow> (addr \<times> kernel) res" where
  "SemDescriptorPtr_alloc k d =
     andthen (pool_get k sem_descriptor_ptr_pool) (\<lambda>(x, k1).
     if x = NULL then Inr (NULL, k1)
     else let k2 = null_links x k1
          in Inr (x, k2\<lparr>sem_descriptor_ptrs := (sem_descriptor_ptrs k2)(x := d)\<rparr>))"

definition SemDescriptorPtr_free :: "kernel \<Rightarrow> addr \<Rightarrow> (int \<times> kernel) res" where
  "SemDescriptorPtr_free k x = pool_release k sem_descriptor_ptr_pool x"

text \<open>The descriptor, in a list of descriptors, of the semaphore with number \<open>key\<close>.\<close>

definition MySearch :: "kernel \<Rightarrow> hloc \<Rightarrow> int \<Rightarrow> addr res" where
  "MySearch k h key =
     List_search k h (\<lambda>aux. sd_semaphore (sem_descriptors k aux))
       (\<lambda>aux. key = sem_id (semaphores k (sd_semaphore (sem_descriptors k aux))))"

end
