(* ===== verification/Sem_Syscalls.thy ===== *)
theory Sem_Syscalls
  imports Semaphore
begin

text \<open>
  The four semaphore system calls (\<^verbatim>\<open>disastrOS_semopen.c\<close>, \<^verbatim>\<open>disastrOS_semclose.c\<close>,
  \<^verbatim>\<open>disastrOS_semwait.c\<close>, \<^verbatim>\<open>disastrOS_sempost.c\<close>) and the shutdown call
  (\<^verbatim>\<open>disastrOS_shutdown.c\<close>) that \<open>internal_semWait\<close> makes when nothing can run.

  A handler reads its arguments from the PCB of the running process and leaves its result in
  \<open>syscall_retvalue\<close> of the process that is running when it ends. \<open>internal_shutdown\<close> sets
  \<open>shutdown_now\<close> and jumps to the main context: in the model a handler that does so ends at
  that point, with \<open>shutdown_now\<close> set.
\<close>

definition internal_shutdown :: "kernel \<Rightarrow> kernel res" where
  "internal_shutdown k = Inr (k\<lparr>shutdown_now := 1\<rparr>)"

text \<open>
  \<open>disastrOS_shutdown()\<close> called by a handler: the trap is entered again, so the running
  process is charged with the call before the handler of the shutdown runs.
\<close>

definition kernel_shutdown :: "kernel \<Rightarrow> kernel res" where
  "kernel_shutdown k =
     c_assert (running k \<noteq> NULL)
       (internal_shutdown
         (upd_pcb (running k) (\<lambda>p. p\<lparr>syscall_num := DSOS_CALL_SHUTDOWN, cpu_state := Saved_context\<rparr>)
           k))"

text \<open>The part of \<open>internal_semOpen\<close> after the semaphore has been found or made.\<close>

definition semOpen_descriptor :: "kernel \<Rightarrow> addr \<Rightarrow> kernel res" where
  "semOpen_descriptor k ourSem =
     (let me = running k in
      andthen (SemDescriptor_alloc k (last_sem_fd (pcbs k me)) ourSem me) (\<lambda>(dsc, k1).
      if dsc = NULL then Inr (set_retvalue DSOS_ECREATEFD k1)
      else andthen (c_int (last_sem_fd (pcbs k1 me) + 1)) (\<lambda>next_fd.
      let k2 = upd_pcb me (\<lambda>p. p\<lparr>last_sem_fd := next_fd\<rparr>) k1 in
      andthen (SemDescriptorPtr_alloc k2 dsc) (\<lambda>(ptr, k3).
      if ptr = NULL then Inr (set_retvalue DSOS_ECREATEPTR k3)
      else let k4 = upd_semdesc dsc (\<lambda>d. d\<lparr>sd_ptr := ptr\<rparr>) k3 in
      andthen (SemDescriptorPtr_alloc k4 dsc) (\<lambda>(wait_ptr, k5).
      if wait_ptr = NULL then Inr (set_retvalue DSOS_ECREATEPTR k5)
      else let k6 = upd_semdesc dsc (\<lambda>d. d\<lparr>sd_wait_ptr := wait_ptr\<rparr>) k5 in
      andthen (List_insert k6 (PCB_sem_descriptors me)
                 (lh_last (heads k6 (PCB_sem_descriptors me))) dsc) (\<lambda>(_, k7).
      andthen (List_insert k7 (Semaphore_descriptors ourSem)
                 (lh_last (heads k7 (Semaphore_descriptors ourSem))) ptr) (\<lambda>(_, k8).
      Inr (set_retvalue (sd_fd (sem_descriptors k8 dsc)) k8))))))))"

definition internal_semOpen :: "kernel \<Rightarrow> kernel res" where
  "internal_semOpen k =
     (let me = running k;
          semnum = int_of_long (syscall_arg k 0);
          value = int_of_long (syscall_arg k 1)
      in deref me
       (andthen (MySearch k (PCB_sem_descriptors me) semnum) (\<lambda>check1.
        if check1 \<noteq> NULL then Inr (set_retvalue (sd_fd (sem_descriptors k check1)) k)
        else andthen (SemaphoreList_byId k semaphores_list semnum) (\<lambda>ourSem.
          if ourSem \<noteq> NULL then semOpen_descriptor k ourSem
          else andthen (Semaphore_alloc k semnum value) (\<lambda>(newSem, k1).
            if newSem = NULL then Inr (set_retvalue DSOS_ECREATESEM k1)
            else andthen (List_insert k1 semaphores_list (lh_last (heads k1 semaphores_list))
                            newSem) (\<lambda>(_, k2).
              semOpen_descriptor k2 newSem))))))"

definition internal_semClose :: "kernel \<Rightarrow> kernel res" where
  "internal_semClose k =
     (let me = running k; fd = int_of_long (syscall_arg k 0)
      in deref me
       (andthen (SemDescriptorList_byFd k (PCB_sem_descriptors me) fd) (\<lambda>des.
        if des = NULL then Inr (set_retvalue DSOS_ENOTMYSEM k)
        else
          let sem = sd_semaphore (sem_descriptors k des);
              ptr = sd_ptr (sem_descriptors k des);
              wait_ptr = sd_wait_ptr (sem_descriptors k des) in
          andthen (List_detach k (PCB_sem_descriptors me) des) (\<lambda>(des1, k1).
          andthen (SemDescriptor_free k1 des1) (\<lambda>(ret, k2).
          if ret \<noteq> 0 then Inr (set_retvalue ret k2)
          else deref sem (andthen (List_detach k2 (Semaphore_descriptors sem) ptr) (\<lambda>(ptr1, k3).
          andthen (SemDescriptorPtr_free k3 ptr1) (\<lambda>(ret, k4).
          if ret \<noteq> 0 then Inr (set_retvalue ret k4)
          else andthen (SemDescriptorPtr_free k4 wait_ptr) (\<lambda>(ret, k5).
          if ret \<noteq> 0 then Inr (set_retvalue ret k5)
          else if lh_size (heads k5 (Semaphore_descriptors sem)) = 0 then
            andthen (List_detach k5 semaphores_list sem) (\<lambda>(sem1, k6).
            andthen (Semaphore_free k6 sem1) (\<lambda>(ret, k7).
            if ret \<noteq> 0 then Inr (set_retvalue ret k7)
            else Inr (set_retvalue 0 k7)))
          else Inr (set_retvalue 0 k5))))))))))"

text \<open>The last lines of \<open>internal_semWait\<close>: \<open>running\<close> may be another process by now.\<close>

definition semWait_finish :: "kernel \<Rightarrow> addr \<Rightarrow> kernel res" where
  "semWait_finish k sem =
     andthen (c_int (sem_count (semaphores k sem) - 1)) (\<lambda>c.
     deref (running k)
       (Inr (set_retvalue 0 (upd_sem sem (\<lambda>s. s\<lparr>sem_count := c\<rparr>) k))))"

definition internal_semWait :: "kernel \<Rightarrow> kernel res" where
  "internal_semWait k =
     (let me = running k; fd = int_of_long (syscall_arg k 0)
      in deref me
       (andthen (SemDescriptorList_byFd k (PCB_sem_descriptors me) fd) (\<lambda>des.
        if des = NULL then Inr (set_retvalue DSOS_ENOTMYSEM k)
        else
          let sem = sd_semaphore (sem_descriptors k des);
              wait_ptr = sd_wait_ptr (sem_descriptors k des) in
          deref sem
            (if sem_count (semaphores k sem) \<le> 0 then
               andthen (List_insert k (Semaphore_waiting sem)
                          (lh_last (heads k (Semaphore_waiting sem))) wait_ptr) (\<lambda>(_, k1).
               let k2 = upd_pcb me (\<lambda>p. p\<lparr>status := Waiting\<rparr>) k1 in
               andthen (List_insert k2 waiting_list (lh_last (heads k2 waiting_list)) me) (\<lambda>(_, k3).
               if lh_first (heads k3 ready_list) \<noteq> NULL then
                 andthen (List_detach k3 ready_list (lh_first (heads k3 ready_list)))
                   (\<lambda>(next_running, k4).
                 semWait_finish (k4\<lparr>running := next_running\<rparr>) sem)
               else kernel_shutdown k3))
             else semWait_finish k sem))))"

definition internal_semPost :: "kernel \<Rightarrow> kernel res" where
  "internal_semPost k =
     (let me = running k; fd = int_of_long (syscall_arg k 0)
      in deref me
       (andthen (SemDescriptorList_byFd k (PCB_sem_descriptors me) fd) (\<lambda>des.
        if des = NULL then Inr (set_retvalue DSOS_ENOTMYSEM k)
        else
          let sem = sd_semaphore (sem_descriptors k des) in
          deref sem
            (andthen
              (if sem_count (semaphores k sem) < 0 \<and>
                  lh_first (heads k (Semaphore_waiting sem)) \<noteq> NULL then
                 andthen (List_detach k (Semaphore_waiting sem)
                            (lh_first (heads k (Semaphore_waiting sem)))) (\<lambda>(head_wait, k1).
                 let head_desc = sem_descriptor_ptrs k1 head_wait in
                 deref head_desc
                   (let pcb_head = sd_pcb (sem_descriptors k1 head_desc) in
                    andthen (List_detach k1 waiting_list pcb_head) (\<lambda>(_, k2).
                    andthen (List_insert k2 ready_list (lh_last (heads k2 ready_list)) pcb_head)
                      (\<lambda>(_, k3).
                    Inr (upd_pcb pcb_head (\<lambda>p. p\<lparr>status := Ready\<rparr>) k3)))))
               else Inr k) (\<lambda>k4.
             andthen (c_int (sem_count (semaphores k4 sem) + 1)) (\<lambda>c.
             Inr (set_retvalue 0 (upd_sem sem (\<lambda>s. s\<lparr>sem_count := c\<rparr>) k4))))))))"

end
