(* ===== verification/Timer.thy ===== *)
theory Timer
  imports Kernel_State
begin

text \<open>
  The list of pending timers, kept in order of awakening time
  (\<^verbatim>\<open>disastrOS_timer.h\<close>, \<^verbatim>\<open>disastrOS_timer.c\<close>).
\<close>

definition Timer_init :: "layout \<Rightarrow> kernel \<Rightarrow> kernel res" where
  "Timer_init ly k = pool_init ly timer_pool MAX_NUM_PROCESSES MAX_NUM_PROCESSES k"

definition TimerItem_alloc :: "kernel \<Rightarrow> int \<Rightarrow> addr \<Rightarrow> (addr \<times> kernel) res" where
  "TimerItem_alloc k wake p =
     andthen (pool_get k timer_pool) (\<lambda>(t, k1).
     if t = NULL then Inr (NULL, k1)
     else let k2 = null_links t k1
          in Inr (t, k2\<lparr>timer_items :=
                        (timer_items k2)(t := \<lparr>awakening_time = wake, t_pcb = p\<rparr>)\<rparr>))"

definition TimerItem_free :: "kernel \<Rightarrow> addr \<Rightarrow> (int \<times> kernel) res" where
  "TimerItem_free k t = pool_release k timer_pool t"

definition TimerList_init :: "kernel \<Rightarrow> hloc \<Rightarrow> kernel" where
  "TimerList_init k h = List_init k h"

text \<open>The scan of \<open>TimerList_add\<close>: the last item that does not wake later than \<open>wake\<close>.\<close>

partial_function (option) timer_scan ::
    "(addr \<Rightarrow> ListItem) \<Rightarrow> (addr \<Rightarrow> TimerItem) \<Rightarrow> int \<Rightarrow> addr \<Rightarrow> addr \<Rightarrow> addr option" where
  "timer_scan lk ti wake aux previous_item =
     (if aux = NULL then Some previous_item
      else if wake < awakening_time (ti aux) then Some previous_item
      else timer_scan lk ti wake (li_next (lk aux)) aux)"

declare timer_scan.simps [code]

definition TimerList_add :: "kernel \<Rightarrow> hloc \<Rightarrow> int \<Rightarrow> addr \<Rightarrow> (addr \<times> kernel) res" where
  "TimerList_add k h wake p =
     andthen (loop (timer_scan (links k) (timer_items k) wake (lh_first (heads k h)) NULL))
       (\<lambda>previous_item.
     andthen (TimerItem_alloc k wake p) (\<lambda>(new_item, k1).
     if new_item = NULL then Inr (NULL, k1)
     else andthen (List_insert k1 h previous_item new_item) (\<lambda>(_, k2). Inr (new_item, k2))))"

definition TimerList_current :: "kernel \<Rightarrow> hloc \<Rightarrow> int \<Rightarrow> addr" where
  "TimerList_current k h current_time =
     (let item = lh_first (heads k h) in
      if item = NULL then NULL
      else if awakening_time (timer_items k item) \<le> current_time then item
      else NULL)"

definition TimerList_removeCurrent :: "kernel \<Rightarrow> hloc \<Rightarrow> (int \<times> kernel) res" where
  "TimerList_removeCurrent k h =
     andthen (List_detach k h (lh_first (heads k h))) (\<lambda>(item, k1).
     if item = NULL then Inr (-1, k1)
     else andthen (TimerItem_free k1 item) (\<lambda>(_, k2). Inr (0, k2)))"

end
