(* ===== verification/Scheduler.thy ===== *)
theory Scheduler
  imports Timer
begin

text \<open>
  The scheduler, the calls that give up the processor and the timer interrupt
  (\<^verbatim>\<open>disastrOS_schedule.c\<close>, \<^verbatim>\<open>disastrOS_preempt.c\<close>, \<^verbatim>\<open>disastrOS_sleep.c\<close>,
  and \<open>timerInterrupt\<close> of \<^verbatim>\<open>disastrOS.c\<close>).
\<close>

text \<open>One round of the loop that wakes the processes whose timer has elapsed.\<close>

definition wake_one :: "kernel \<Rightarrow> addr \<Rightarrow> addr \<Rightarrow> (addr \<times> kernel) res" where
  "wake_one k elapsed_timer previous_pcb =
     (let pcb_to_wake = t_pcb (timer_items k elapsed_timer) in
      andthen (List_detach k waiting_list pcb_to_wake) (\<lambda>(_, k1).
      let k2 = upd_pcb pcb_to_wake (\<lambda>p. p\<lparr>status := Ready, timer := NULL\<rparr>) k1 in
      andthen (List_insert k2 ready_list previous_pcb pcb_to_wake) (\<lambda>(_, k3).
      andthen (TimerList_removeCurrent k3 timer_list) (\<lambda>(_, k4).
      Inr (pcb_to_wake, k4)))))"

partial_function (option) wake_elapsed :: "kernel \<Rightarrow> addr \<Rightarrow> kernel res option" where
  "wake_elapsed k previous_pcb =
     (let elapsed_timer = TimerList_current k timer_list (disastrOS_time k) in
      if elapsed_timer = NULL then Some (Inr k)
      else case wake_one k elapsed_timer previous_pcb of
             Inl e \<Rightarrow> Some (Inl e)
           | Inr r \<Rightarrow> wake_elapsed (snd r) (fst r))"

declare wake_elapsed.simps [code]

definition internal_schedule :: "kernel \<Rightarrow> kernel res" where
  "internal_schedule k =
     andthen (loop_res (wake_elapsed k NULL)) (\<lambda>k1.
     if lh_first (heads k1 ready_list) \<noteq> NULL then
       andthen (List_detach k1 ready_list (lh_first (heads k1 ready_list))) (\<lambda>(next_process, k2).
       deref (running k2)
         (let k3 = upd_pcb (running k2) (\<lambda>p. p\<lparr>status := Ready\<rparr>) k2 in
          andthen (List_insert k3 ready_list (lh_last (heads k3 ready_list)) (running k3))
            (\<lambda>(_, k4).
          Inr ((upd_pcb next_process (\<lambda>p. p\<lparr>status := Running\<rparr>) k4)\<lparr>running := next_process\<rparr>))))
     else Inr k1)"

definition internal_preempt :: "kernel \<Rightarrow> kernel res" where
  "internal_preempt k = internal_schedule k"

text \<open>
  What the code prints when nobody is ready is left out: it is output and changes nothing.
\<close>

definition internal_sleep :: "kernel \<Rightarrow> kernel res" where
  "internal_sleep k =
     (let me = running k in
      deref me
        (if timer (pcbs k me) \<noteq> NULL then Inr (set_retvalue DSOS_ESLEEP k)
         else
           let cycles_to_sleep = int_of_long (syscall_arg k 0) in
           andthen (c_int (disastrOS_time k + cycles_to_sleep)) (\<lambda>wake_time.
           andthen (TimerList_add k timer_list wake_time me) (\<lambda>(new_timer, k1).
           if new_timer = NULL then Inr (set_retvalue DSOS_ESLEEP k1)
           else
             let k2 = upd_pcb me (\<lambda>p. p\<lparr>status := Waiting\<rparr>) k1 in
             andthen (List_insert k2 waiting_list (lh_last (heads k2 waiting_list)) me) (\<lambda>(_, k3).
             if lh_first (heads k3 ready_list) \<noteq> NULL then
               andthen (List_detach k3 ready_list (lh_first (heads k3 ready_list)))
                 (\<lambda>(next_running, k4). Inr (k4\<lparr>running := next_running\<rparr>))
             else Inr (k3\<lparr>running := NULL\<rparr>))))))"

text \<open>
  \<open>timerHandler\<close> saves the context of the running process and enters \<open>timerInterrupt\<close>,
  which resumes the process the scheduler has chosen; both dereference \<open>running\<close>.
\<close>

definition timerInterrupt :: "kernel \<Rightarrow> kernel res" where
  "timerInterrupt k =
     deref (running k)
       (let k0 = upd_pcb (running k) (\<lambda>p. p\<lparr>cpu_state := Saved_context\<rparr>) k in
        andthen (c_int (disastrOS_time k0 + 1)) (\<lambda>now.
        andthen (internal_schedule (k0\<lparr>disastrOS_time := now\<rparr>)) (\<lambda>k1.
        deref (running k1) (Inr k1))))"

end
