(* ===== verification/Pcb.thy ===== *)
theory Pcb
  imports Kernel_State
begin

text \<open>
  Process control blocks and the list items that point to them
  (\<^verbatim>\<open>disastrOS_pcb.h\<close>, \<^verbatim>\<open>disastrOS_pcb.c\<close>). \<open>PCB_alloc\<close> and
  \<open>PCBPtr_alloc\<close> do not test the block they get, so on an exhausted pool they dereference
  \<open>NULL\<close>.
\<close>

definition PCB_init :: "layout \<Rightarrow> kernel \<Rightarrow> kernel res" where
  "PCB_init ly k =
     andthen (pool_init ly pcb_pool MAX_NUM_PROCESSES MAX_NUM_PROCESSES k)
       (pool_init ly pcb_ptr_pool MAX_NUM_PROCESSES MAX_NUM_PROCESSES)"

definition PCB_alloc :: "kernel \<Rightarrow> (addr \<times> kernel) res" where
  "PCB_alloc k =
     andthen (pool_get k pcb_pool) (\<lambda>(p, k1).
     deref p
       (andthen (c_int (last_pid k1 + 1)) (\<lambda>next_pid.
        let k2 = null_links p k1;
            k3 = upd_pcb p (\<lambda>x. x\<lparr>pid := last_pid k1, return_value := 0, status := Invalid,
                   last_fd := 0, signals := 0, signals_mask := int_of_long 0xFFFFFFFF,
                   parent := NULL, timer := NULL, last_sem_fd := 0\<rparr>)
                   (k2\<lparr>last_pid := next_pid\<rparr>);
            k4 = List_init k3 (PCB_descriptors p);
            k5 = List_init k4 (PCB_children p);
            k6 = List_init k5 (PCB_sem_descriptors p)
        in Inr (p, k6))))"

definition PCB_free :: "kernel \<Rightarrow> addr \<Rightarrow> (int \<times> kernel) res" where
  "PCB_free k p = pool_release k pcb_pool p"

definition PCBPtr_alloc :: "kernel \<Rightarrow> addr \<Rightarrow> (addr \<times> kernel) res" where
  "PCBPtr_alloc k p =
     andthen (pool_get k pcb_ptr_pool) (\<lambda>(x, k1).
     deref x
       (let k2 = null_links x k1
        in Inr (x, k2\<lparr>pcb_ptrs := (pcb_ptrs k2)(x := p)\<rparr>)))"

definition PCBPtr_free :: "kernel \<Rightarrow> addr \<Rightarrow> (int \<times> kernel) res" where
  "PCBPtr_free k x = pool_release k pcb_ptr_pool x"

definition PCB_byPID :: "kernel \<Rightarrow> hloc \<Rightarrow> int \<Rightarrow> addr res" where
  "PCB_byPID k h n = List_search k h (\<lambda>aux. aux) (\<lambda>aux. pid (pcbs k aux) = n)"

definition PCBPtr_byPID :: "kernel \<Rightarrow> hloc \<Rightarrow> int \<Rightarrow> addr res" where
  "PCBPtr_byPID k h n =
     List_search k h (\<lambda>aux. pcb_ptrs k aux) (\<lambda>aux. pid (pcbs k (pcb_ptrs k aux)) = n)"

end
