(* ===== verification/Resource.thy ===== *)
theory Resource
  imports Kernel_State
begin

text \<open>
  Resources and the descriptors through which processes hold them
  (\<^verbatim>\<open>disastrOS_resource.c\<close>, \<^verbatim>\<open>disastrOS_descriptor.c\<close> and their headers).
  The four allocation functions return \<open>NULL\<close> when their pool is exhausted; the two
  descriptor pools are initialised with \<open>MAX_NUM_PROCESSES\<close> blocks each.
\<close>

definition Resource_init :: "layout \<Rightarrow> kernel \<Rightarrow> kernel res" where
  "Resource_init ly k = pool_init ly resource_pool MAX_NUM_RESOURCES MAX_NUM_RESOURCES k"

definition Resource_alloc :: "kernel \<Rightarrow> int \<Rightarrow> int \<Rightarrow> (addr \<times> kernel) res" where
  "Resource_alloc k i ty =
     andthen (pool_get k resource_pool) (\<lambda>(r, k1).
     if r = NULL then Inr (NULL, k1)
     else let k2 = null_links r k1;
              k3 = k2\<lparr>resources := (resources k2)(r := \<lparr>res_id = i, res_type = ty\<rparr>)\<rparr>
          in Inr (r, List_init k3 (Resource_descriptors r)))"

definition Resource_free :: "kernel \<Rightarrow> addr \<Rightarrow> (int \<times> kernel) res" where
  "Resource_free k r =
     c_assert (lh_first (heads k (Resource_descriptors r)) = NULL)
       (c_assert (lh_last (heads k (Resource_descriptors r)) = NULL)
         (pool_release k resource_pool r))"

definition ResourceList_byId :: "kernel \<Rightarrow> hloc \<Rightarrow> int \<Rightarrow> addr res" where
  "ResourceList_byId k h i = List_search k h (\<lambda>aux. aux) (\<lambda>aux. res_id (resources k aux) = i)"

definition MAX_NUM_DESCRIPTORS :: int where
  "MAX_NUM_DESCRIPTORS = MAX_NUM_DESCRIPTORS_PER_PROCESS * MAX_NUM_PROCESSES"

definition Descriptor_init :: "layout \<Rightarrow> kernel \<Rightarrow> kernel res" where
  "Descriptor_init ly k =
     andthen (pool_init ly descriptor_pool MAX_NUM_PROCESSES MAX_NUM_DESCRIPTORS k)
       (pool_init ly descriptor_ptr_pool MAX_NUM_PROCESSES MAX_NUM_DESCRIPTORS)"

definition Descriptor_alloc :: "kernel \<Rightarrow> int \<Rightarrow> addr \<Rightarrow> addr \<Rightarrow> (addr \<times> kernel) res" where
  "Descriptor_alloc k f res p =
     andthen (pool_get k descriptor_pool) (\<lambda>(d, k1).
     if d = NULL then Inr (NULL, k1)
     else Inr (d, upd_desc d (\<lambda>x. x\<lparr>d_fd := f, d_resource := res, d_pcb := p\<rparr>)
                    (null_links d k1)))"

definition Descriptor_free :: "kernel \<Rightarrow> addr \<Rightarrow> (int \<times> kernel) res" where
  "Descriptor_free k d = pool_release k descriptor_pool d"

definition DescriptorList_byFd :: "kernel \<Rightarrow> hloc \<Rightarrow> int \<Rightarrow> addr res" where
  "DescriptorList_byFd k h f = List_search k h (\<lambda>aux. aux) (\<lambda>aux. d_fd (descriptors k aux) = f)"

definition DescriptorPtr_alloc :: "kernel \<Rightarrow> addr \<Rightarrow> (addr \<times> kernel) res" where
  "DescriptorPtr_alloc k d =
     andthen (pool_get k descriptor_ptr_pool) (\<lambda>(x, k1).
     if x = NULL then Inr (NULL, k1)
     else let k2 = null_links x k1
          in Inr (x, k2\<lparr>descriptor_ptrs := (descriptor_ptrs k2)(x := d)\<rparr>))"

definition DescriptorPtr_free :: "kernel \<Rightarrow> addr \<Rightarrow> (int \<times> kernel) res" where
  "DescriptorPtr_free k x = pool_release k descriptor_ptr_pool x"

end
