(* ===== verification/Process.thy ===== *)
theory Process
  imports Pcb Timer Resource
begin

text \<open>
  Creation, termination and collection of processes (\<^verbatim>\<open>disastrOS_fork.c\<close>,
  \<^verbatim>\<open>disastrOS_spawn.c\<close>, \<^verbatim>\<open>disastrOS_exit.c\<close>, \<^verbatim>\<open>disastrOS_wait.c\<close>).
\<close>

unbundle bit_operations_syntax

definition internal_fork :: "kernel \<Rightarrow> kernel res" where
  "internal_fork k =
     andthen (PCB_alloc k) (\<lambda>(new_pcb, k1).
     if new_pcb = NULL then deref (running k1) (Inr (set_retvalue DSOS_ESPAWN k1))
     else
       let k2 = upd_pcb new_pcb (\<lambda>p. p\<lparr>status := Ready, parent := running k1\<rparr>) k1 in
       andthen (PCBPtr_alloc k2 new_pcb) (\<lambda>(new_pcb_ptr, k3).
       c_assert (new_pcb_ptr \<noteq> NULL)
         (deref (running k3)
           (andthen (List_insert k3 (PCB_children (running k3))
                       (lh_last (heads k3 (PCB_children (running k3)))) new_pcb_ptr) (\<lambda>(_, k4).
            andthen (List_insert k4 ready_list (lh_last (heads k4 ready_list)) new_pcb) (\<lambda>(_, k5).
            Inr (set_retvalue (pid (pcbs k5 new_pcb)) k5)))))))"

definition internal_spawn :: "kernel \<Rightarrow> kernel res" where
  "internal_spawn k =
     andthen (PCB_alloc k) (\<lambda>(new_pcb, k1).
     if new_pcb = NULL then deref (running k1) (Inr (set_retvalue DSOS_ESPAWN k1))
     else
       let k2 = upd_pcb new_pcb (\<lambda>p. p\<lparr>status := Ready, parent := running k1\<rparr>) k1 in
       andthen (PCBPtr_alloc k2 new_pcb) (\<lambda>(new_pcb_ptr, k3).
       c_assert (new_pcb_ptr \<noteq> NULL)
         (deref (running k3)
           (andthen (List_insert k3 (PCB_children (running k3))
                       (lh_last (heads k3 (PCB_children (running k3)))) new_pcb_ptr) (\<lambda>(_, k4).
            andthen (List_insert k4 ready_list (lh_last (heads k4 ready_list)) new_pcb) (\<lambda>(_, k5).
            let k6 = set_retvalue (pid (pcbs k5 new_pcb)) k5;
                new_function = syscall_arg k6 0
            in Inr (upd_pcb new_pcb
                      (\<lambda>p. p\<lparr>cpu_state := Fresh_context new_function (syscall_arg k6 1)\<rparr>) k6)))))))"

section \<open>Termination\<close>

text \<open>One round of the loop that gives the children of a dying process to \<open>init\<close>.\<close>

definition reparent_one :: "kernel \<Rightarrow> addr \<Rightarrow> kernel res" where
  "reparent_one k me =
     andthen (List_detach k (PCB_children me) (lh_first (heads k (PCB_children me))))
       (\<lambda>(item, k1).
     c_assert (item \<noteq> NULL)
       (andthen (List_insert k1 (PCB_children (init_pcb k1))
                   (lh_last (heads k1 (PCB_children (init_pcb k1)))) item) (\<lambda>(_, k2).
        let child = pcb_ptrs k2 item in
        deref child
          (Inr (upd_pcb child
                  (\<lambda>p. p\<lparr>signals := signals p OR (DSOS_SIGHUP AND signals_mask p)\<rparr>) k2)))))"

partial_function (option) reparent_children :: "kernel \<Rightarrow> addr \<Rightarrow> kernel res option" where
  "reparent_children k me =
     (if lh_first (heads k (PCB_children me)) = NULL then Some (Inr k)
      else case reparent_one k me of
             Inl e \<Rightarrow> Some (Inl e)
           | Inr k' \<Rightarrow> reparent_children k' me)"

declare reparent_children.simps [code]

text \<open>The loop that drops the timers of a process.\<close>

partial_function (option) release_timers :: "kernel \<Rightarrow> addr \<Rightarrow> addr \<Rightarrow> kernel res option" where
  "release_timers k me aux =
     (if aux = NULL then Some (Inr k)
      else
        let nxt = li_next (links k aux) in
        if t_pcb (timer_items k aux) = me then
          case andthen (List_detach k timer_list aux) (\<lambda>(detach_result, k1).
                 c_assert (detach_result \<noteq> NULL) (TimerItem_free k1 aux)) of
            Inl e \<Rightarrow> Some (Inl e)
          | Inr r \<Rightarrow> release_timers (snd r) me nxt
        else release_timers k me nxt)"

declare release_timers.simps [code]

text \<open>The loop that closes the resources of a process.\<close>

definition release_descriptor :: "kernel \<Rightarrow> addr \<Rightarrow> kernel res" where
  "release_descriptor k me =
     (let des = lh_first (heads k (PCB_descriptors me)) in
      andthen (List_detach k (PCB_descriptors me) des) (\<lambda>(_, k1).
      let res = d_resource (descriptors k1 des) in
      deref res
        (andthen (List_detach k1 (Resource_descriptors res) (d_ptr (descriptors k1 des)))
           (\<lambda>(_, k2).
         andthen (DescriptorPtr_free k2 (d_ptr (descriptors k2 des))) (\<lambda>(_, k3).
         andthen (Descriptor_free k3 des) (\<lambda>(_, k4). Inr k4))))))"

partial_function (option) release_descriptors :: "kernel \<Rightarrow> addr \<Rightarrow> kernel res option" where
  "release_descriptors k me =
     (if lh_first (heads k (PCB_descriptors me)) = NULL then Some (Inr k)
      else case release_descriptor k me of
             Inl e \<Rightarrow> Some (Inl e)
           | Inr k' \<Rightarrow> release_descriptors k' me)"

declare release_descriptors.simps [code]

text \<open>The two ends of \<open>internal_exit\<close>: the parent was waiting for this process, or not.\<close>

definition exit_to_parent :: "kernel \<Rightarrow> addr \<Rightarrow> kernel res" where
  "exit_to_parent k me =
     andthen (List_detach k waiting_list (parent (pcbs k me))) (\<lambda>(par, k1).
     c_assert (par \<noteq> NULL)
       (let k2 = upd_pcb par (\<lambda>p. p\<lparr>status := Running\<rparr>) k1 in
        andthen (PCBPtr_byPID k2 (PCB_children par) (pid (pcbs k2 me))) (\<lambda>self_in_parent.
        andthen (List_detach k2 (PCB_children par) self_in_parent) (\<lambda>(_, k3).
        let k4 = upd_pcb par (\<lambda>p. p\<lparr>syscall_retvalue := pid (pcbs k3 me)\<rparr>) k3;
            result = syscall_args (pcbs k4 par) 1;
            k5 = store_user result (return_value (pcbs k4 me)) k4 in
        andthen (loop_res (release_timers k5 me (lh_first (heads k5 timer_list)))) (\<lambda>k6.
        andthen (loop_res (release_descriptors k6 me)) (\<lambda>k7.
        andthen (List_detach k7 zombie_list me) (\<lambda>(suppressed_item, k8).
        andthen (PCB_free k8 suppressed_item) (\<lambda>(_, k9).
        Inr (k9\<lparr>running := par\<rparr>)))))))))"

definition exit_to_next :: "kernel \<Rightarrow> kernel res" where
  "exit_to_next k =
     andthen (List_detach k ready_list (lh_first (heads k ready_list))) (\<lambda>(next_running, k1).
     c_assert (next_running \<noteq> NULL)
       (Inr ((upd_pcb next_running (\<lambda>p. p\<lparr>status := Running\<rparr>) k1)\<lparr>running := next_running\<rparr>)))"

definition internal_exit :: "kernel \<Rightarrow> kernel res" where
  "internal_exit k =
     (let me = running k in
      deref me
        (let k0 = upd_pcb me (\<lambda>p. p\<lparr>return_value := int_of_long (syscall_arg k 0)\<rparr>) k in
         c_assert (init_pcb k0 \<noteq> NULL)
           (andthen (loop_res (reparent_children k0 me)) (\<lambda>k1.
            let k2 = upd_pcb me (\<lambda>p. p\<lparr>status := Zombie\<rparr>) k1 in
            andthen (List_insert k2 zombie_list (lh_last (heads k2 zombie_list)) me) (\<lambda>(_, k3).
            let par = parent (pcbs k3 me) in
            deref par
              (let k4 = upd_pcb par
                     (\<lambda>p. p\<lparr>signals := signals p OR (DSOS_SIGCHLD AND signals_mask p)\<rparr>) k3 in
               if status (pcbs k4 par) = Waiting \<and> syscall_num (pcbs k4 par) = DSOS_CALL_WAIT \<and>
                  (syscall_args (pcbs k4 par) 0 = 0 \<or>
                   syscall_args (pcbs k4 par) 0 = pid (pcbs k4 me))
               then exit_to_parent k4 me
               else exit_to_next k4))))))"

section \<open>Waiting for a child\<close>

text \<open>
  The scan of \<open>internal_wait\<close> over the children: it ends at the first child that matches, or
  with the last child it has seen.
\<close>

partial_function (option) wait_scan :: "kernel \<Rightarrow> int \<Rightarrow> addr \<Rightarrow> addr \<Rightarrow> addr res option" where
  "wait_scan k pid_to_wait aux awaited_ptr =
     (if aux = NULL then Some (Inr awaited_ptr)
      else
        let p = pcb_ptrs k aux in
        if p = NULL then Some (Inl Null_deref)
        else if pid_to_wait = 0 \<and> status (pcbs k p) = Zombie then Some (Inr aux)
        else if pid_to_wait \<noteq> 0 \<and> pid (pcbs k p) = pid_to_wait then Some (Inr aux)
        else wait_scan k pid_to_wait (li_next (links k aux)) aux)"

declare wait_scan.simps [code]

text \<open>The collection of a zombie child.\<close>

definition wait_reap :: "kernel \<Rightarrow> addr \<Rightarrow> addr \<Rightarrow> addr \<Rightarrow> kernel res" where
  "wait_reap k awaited_ptr awaited result =
     andthen (List_detach k (PCB_children (running k)) awaited_ptr) (\<lambda>(_, k1).
     andthen (PCBPtr_free k1 awaited_ptr) (\<lambda>(_, k2).
     andthen (List_detach k2 zombie_list awaited) (\<lambda>(_, k3).
     let k4 = set_retvalue (pid (pcbs k3 awaited)) k3;
         k5 = store_user result (return_value (pcbs k4 awaited)) k4 in
     andthen (PCB_free k5 awaited) (\<lambda>(_, k6). Inr k6))))"

text \<open>The caller goes to sleep and the first ready process runs.\<close>

definition wait_block :: "kernel \<Rightarrow> kernel res" where
  "wait_block k =
     (let me = running k;
          k1 = upd_pcb me (\<lambda>p. p\<lparr>status := Waiting\<rparr>) k in
      andthen (List_insert k1 waiting_list (lh_last (heads k1 waiting_list)) me) (\<lambda>(_, k2).
      andthen (List_detach k2 ready_list (lh_first (heads k2 ready_list))) (\<lambda>(next_running, k3).
      Inr (k3\<lparr>running := next_running\<rparr>))))"

definition internal_wait :: "kernel \<Rightarrow> kernel res" where
  "internal_wait k =
     (let me = running k;
          pid_to_wait = int_of_long (syscall_arg k 0);
          result = syscall_arg k 1 in
      deref me
        (if lh_first (heads k (PCB_children me)) = NULL then Inr (set_retvalue DSOS_EWAIT k)
         else
           andthen (loop_res (wait_scan k pid_to_wait (lh_first (heads k (PCB_children me))) NULL))
             (\<lambda>awaited_ptr.
           let awaited = (if awaited_ptr = NULL then NULL else pcb_ptrs k awaited_ptr) in
           if 0 < pid_to_wait \<and> awaited = NULL then Inr (set_retvalue DSOS_EWAIT k)
           else if awaited \<noteq> NULL \<and> status (pcbs k awaited) = Zombie
             then wait_reap k awaited_ptr awaited result
           else wait_block k)))"

end
