(* ===== verification/Resource_Syscalls.thy ===== *)
theory Resource_Syscalls
  imports Resource
begin

text \<open>
  Opening, closing and destroying resources (\<^verbatim>\<open>disastrOS_open_resource.c\<close>,
  \<^verbatim>\<open>disastrOS_close_resource.c\<close>, \<^verbatim>\<open>disastrOS_destroy_resource.c\<close>).
\<close>

unbundle bit_operations_syntax

text \<open>The part of \<open>internal_openResource\<close> after the resource has been found or made.\<close>

definition openResource_descriptor :: "kernel \<Rightarrow> addr \<Rightarrow> int \<Rightarrow> int \<Rightarrow> kernel res" where
  "openResource_descriptor k res ty open_mode =
     (let me = running k in
      if res = NULL \<or> res_type (resources k res) \<noteq> ty then Inr (set_retvalue DSOS_ERESOURCEOPEN k)
      else if open_mode AND DSOS_EXCL \<noteq> 0 \<and> lh_size (heads k (Resource_descriptors res)) \<noteq> 0
        then Inr (set_retvalue DSOS_ERESOURCENOEXCL k)
      else
        andthen (Descriptor_alloc k (last_fd (pcbs k me)) res me) (\<lambda>(des, k1).
        if des = NULL then Inr (set_retvalue DSOS_ERESOURCENOFD k1)
        else
          andthen (c_int (last_fd (pcbs k1 me) + 1)) (\<lambda>next_fd.
          let k2 = upd_pcb me (\<lambda>p. p\<lparr>last_fd := next_fd\<rparr>) k1 in
          andthen (DescriptorPtr_alloc k2 des) (\<lambda>(desptr, k3).
          andthen (List_insert k3 (PCB_descriptors me) (lh_last (heads k3 (PCB_descriptors me)))
                     des) (\<lambda>(_, k4).
          let k5 = upd_desc des (\<lambda>d. d\<lparr>d_ptr := desptr\<rparr>) k4 in
          andthen (List_insert k5 (Resource_descriptors res)
                     (lh_last (heads k5 (Resource_descriptors res))) desptr) (\<lambda>(_, k6).
          Inr (set_retvalue (d_fd (descriptors k6 des)) k6)))))))"

definition internal_openResource :: "kernel \<Rightarrow> kernel res" where
  "internal_openResource k =
     (let me = running k;
          i = int_of_long (syscall_arg k 0);
          ty = int_of_long (syscall_arg k 1);
          open_mode = int_of_long (syscall_arg k 2) in
      deref me
        (andthen (ResourceList_byId k resources_list i) (\<lambda>res.
         if open_mode AND DSOS_CREATE \<noteq> 0 then
           (if res \<noteq> NULL then Inr (set_retvalue DSOS_ERESOURCECREATE k)
            else
              andthen (Resource_alloc k i ty) (\<lambda>(new_res, k1).
              andthen (List_insert k1 resources_list (lh_last (heads k1 resources_list)) new_res)
                (\<lambda>(_, k2).
              openResource_descriptor k2 new_res ty open_mode)))
         else openResource_descriptor k res ty open_mode)))"

definition internal_closeResource :: "kernel \<Rightarrow> kernel res" where
  "internal_closeResource k =
     (let me = running k; fd = int_of_long (syscall_arg k 0) in
      deref me
        (andthen (DescriptorList_byFd k (PCB_descriptors me) fd) (\<lambda>des.
         if des = NULL then Inr (set_retvalue DSOS_ERESOURCECLOSE k)
         else
           andthen (List_detach k (PCB_descriptors me) des) (\<lambda>(des1, k1).
           c_assert (des1 \<noteq> NULL)
             (let res = d_resource (descriptors k1 des1) in
              deref res
                (andthen (List_detach k1 (Resource_descriptors res)
                            (d_ptr (descriptors k1 des1))) (\<lambda>(desptr, k2).
                 c_assert (desptr \<noteq> NULL)
                   (andthen (Descriptor_free k2 des1) (\<lambda>(_, k3).
                    andthen (DescriptorPtr_free k3 desptr) (\<lambda>(_, k4).
                    Inr (set_retvalue 0 k4)))))))))))"

definition internal_destroyResource :: "kernel \<Rightarrow> kernel res" where
  "internal_destroyResource k =
     (let me = running k; i = int_of_long (syscall_arg k 0) in
      deref me
        (andthen (ResourceList_byId k resources_list i) (\<lambda>res.
         if res = NULL then Inr (set_retvalue DSOS_ERESOURCECLOSE k)
         else if lh_size (heads k (Resource_descriptors res)) \<noteq> 0
           then Inr (set_retvalue DSOS_ERESOURCEINUSE k)
         else
           andthen (List_detach k resources_list res) (\<lambda>(res1, k1).
           c_assert (res1 \<noteq> NULL)
             (andthen (Resource_free k1 res1) (\<lambda>(_, k2).
              Inr (set_retvalue 0 k2)))))))"

end
