(* ===== verification/Dispatch.thy ===== *)
theory Dispatch
  imports Sem_Syscalls Scheduler Process Resource_Syscalls
begin

text \<open>
  The system call table, the trap, the start of the system and the calls a process makes
  (\<^verbatim>\<open>disastrOS.c\<close>).

  The switches between contexts are library calls. What the model keeps of them is who
  continues: a call returns \<open>Resume p\<close> when the trap ends in
  \<open>setcontext(&running->cpu_state)\<close> for the process \<open>p\<close>, \<open>Returned v\<close> when the call
  returns to its caller without a trap, and \<open>Exited\<close> when control comes back to the main
  context with \<open>shutdown_now\<close> set. When a trap ends with no running process,
  \<open>disastrOS_trap\<close> returns and its \<open>uc_link\<close> resumes the main context, just after the
  \<open>getcontext\<close> in \<open>disastrOS_start\<close>: \<open>main_context_resumed\<close> is the code from there on.
\<close>

text \<open>
  The lines a trap writes to the log file, and the status it prints when nobody runs, are output and
  left out, but for the dereference of \<open>running\<close> in the last line of the log.
\<close>

datatype control = Resume addr | Returned int | Exited

definition syscall_numarg :: "int \<Rightarrow> nat" where
  "syscall_numarg n =
     (if n = DSOS_CALL_PREEMPT then 0
      else if n = DSOS_CALL_FORK then 0
      else if n = DSOS_CALL_SPAWN then 2
      else if n = DSOS_CALL_WAIT then 2
      else if n = DSOS_CALL_EXIT then 1
      else if n = DSOS_CALL_SLEEP then 1
      else if n = DSOS_CALL_OPEN_RESOURCE then 3
      else if n = DSOS_CALL_CLOSE_RESOURCE then 1
      else if n = DSOS_CALL_DESTROY_RESOURCE then 1
      else if n = DSOS_CALL_SHUTDOWN then 0
      else if n = DSOS_CALL_SEMOPEN then 2
      else if n = DSOS_CALL_SEMCLOSE then 1
      else if n = DSOS_CALL_SEMPOST then 1
      else if n = DSOS_CALL_SEMWAIT then 1
      else 0)"

definition syscall_vector :: "int \<Rightarrow> (kernel \<Rightarrow> kernel res) option" where
  "syscall_vector n =
     (if n = DSOS_CALL_PREEMPT then Some internal_preempt
      else if n = DSOS_CALL_FORK then Some internal_fork
      else if n = DSOS_CALL_SPAWN then Some internal_spawn
      else if n = DSOS_CALL_WAIT then Some internal_wait
      else if n = DSOS_CALL_EXIT then Some internal_exit
      else if n = DSOS_CALL_SLEEP then Some internal_sleep
      else if n = DSOS_CALL_OPEN_RESOURCE then Some internal_openResource
      else if n = DSOS_CALL_CLOSE_RESOURCE then Some internal_closeResource
      else if n = DSOS_CALL_DESTROY_RESOURCE then Some internal_destroyResource
      else if n = DSOS_CALL_SHUTDOWN then Some internal_shutdown
      else if n = DSOS_CALL_SEMOPEN then Some internal_semOpen
      else if n = DSOS_CALL_SEMCLOSE then Some internal_semClose
      else if n = DSOS_CALL_SEMPOST then Some internal_semPost
      else if n = DSOS_CALL_SEMWAIT then Some internal_semWait
      else None)"

text \<open>The end of \<open>disastrOS_start\<close>, from where the main context is resumed.\<close>

definition main_context_resumed :: "kernel \<Rightarrow> (control \<times> kernel) res" where
  "main_context_resumed k =
     (if shutdown_now k \<noteq> 0 then Inr (Exited, k)
      else
        andthen (PCB_alloc k) (\<lambda>(p, k1).
        let k2 = upd_pcb p (\<lambda>x. x\<lparr>status := Running,
                   cpu_state := Fresh_context (start_f k1) (start_args k1)\<rparr>)
                   (k1\<lparr>running := p, init_pcb := p\<rparr>)
        in Inr (Resume p, k2)))"

definition disastrOS_trap :: "kernel \<Rightarrow> (control \<times> kernel) res" where
  "disastrOS_trap k =
     deref (running k)
       (let n = syscall_num (pcbs k (running k)) in
        andthen
          (if n < 0 \<or> DSOS_MAX_SYSCALLS < n then Inr (set_retvalue DSOS_ESYSCALL_OUT_OF_RANGE k)
           else if n = DSOS_MAX_SYSCALLS then Inl Out_of_bounds
           else case syscall_vector n of
                  None \<Rightarrow> Inr (set_retvalue DSOS_ESYSCALL_NOT_IMPLEMENTED k)
                | Some my_syscall \<Rightarrow> my_syscall k) (\<lambda>k1.
        if shutdown_now k1 \<noteq> 0 then main_context_resumed k1
        else if log_file k1 \<and> running k1 = NULL then Inl Null_deref
        else if running k1 \<noteq> NULL then Inr (Resume (running k1), k1)
        else main_context_resumed k1))"

text \<open>
  \<open>args\<close> are the arguments of the call, as the \<open>long int\<close> values \<open>va_arg\<close> reads.
  \<open>syscall_numarg\<close> has \<open>DSOS_MAX_SYSCALLS\<close> entries.
\<close>

definition disastrOS_syscall :: "kernel \<Rightarrow> int \<Rightarrow> (nat \<Rightarrow> int) \<Rightarrow> (control \<times> kernel) res" where
  "disastrOS_syscall k n args =
     c_assert (running k \<noteq> NULL)
       (if n < 0 \<or> DSOS_MAX_SYSCALLS < n then Inr (Returned DSOS_ESYSCALL_OUT_OF_RANGE, k)
        else if n = DSOS_MAX_SYSCALLS then Inl Out_of_bounds
        else
          let me = running k;
              nargs = syscall_numarg n in
          disastrOS_trap
            (upd_pcb me
              (\<lambda>p. p\<lparr>syscall_args := (\<lambda>i. if i < nargs then args i else syscall_args p i),
                     syscall_num := n, cpu_state := Saved_context\<rparr>) k))"

section \<open>The calls of the interface\<close>

definition no_args :: "nat \<Rightarrow> int" where
  "no_args = (\<lambda>_. 0)"

definition disastrOS_fork :: "kernel \<Rightarrow> (control \<times> kernel) res" where
  "disastrOS_fork k = disastrOS_syscall k DSOS_CALL_FORK no_args"

definition disastrOS_wait :: "kernel \<Rightarrow> int \<Rightarrow> addr \<Rightarrow> (control \<times> kernel) res" where
  "disastrOS_wait k n retval = disastrOS_syscall k DSOS_CALL_WAIT (no_args(0 := n, 1 := retval))"

definition disastrOS_exit :: "kernel \<Rightarrow> int \<Rightarrow> (control \<times> kernel) res" where
  "disastrOS_exit k exitval = disastrOS_syscall k DSOS_CALL_EXIT (no_args(0 := exitval))"

definition disastrOS_preempt :: "kernel \<Rightarrow> (control \<times> kernel) res" where
  "disastrOS_preempt k = disastrOS_syscall k DSOS_CALL_PREEMPT no_args"

definition disastrOS_spawn :: "kernel \<Rightarrow> addr \<Rightarrow> addr \<Rightarrow> (control \<times> kernel) res" where
  "disastrOS_spawn k f args = disastrOS_syscall k DSOS_CALL_SPAWN (no_args(0 := f, 1 := args))"

definition disastrOS_shutdown :: "kernel \<Rightarrow> (control \<times> kernel) res" where
  "disastrOS_shutdown k = disastrOS_syscall k DSOS_CALL_SHUTDOWN no_args"

definition disastrOS_sleep :: "kernel \<Rightarrow> int \<Rightarrow> (control \<times> kernel) res" where
  "disastrOS_sleep k sleep_time = disastrOS_syscall k DSOS_CALL_SLEEP (no_args(0 := sleep_time))"

definition disastrOS_getpid :: "kernel \<Rightarrow> int" where
  "disastrOS_getpid k = (if running k = NULL then -1 else pid (pcbs k (running k)))"

definition disastrOS_semOpen :: "kernel \<Rightarrow> int \<Rightarrow> int \<Rightarrow> (control \<times> kernel) res" where
  "disastrOS_semOpen k semnum value =
     disastrOS_syscall k DSOS_CALL_SEMOPEN (no_args(0 := semnum, 1 := value))"

definition disastrOS_semClose :: "kernel \<Rightarrow> int \<Rightarrow> (control \<times> kernel) res" where
  "disastrOS_semClose k fd = disastrOS_syscall k DSOS_CALL_SEMCLOSE (no_args(0 := fd))"

definition disastrOS_semPost :: "kernel \<Rightarrow> int \<Rightarrow> (control \<times> kernel) res" where
  "disastrOS_semPost k fd = disastrOS_syscall k DSOS_CALL_SEMPOST (no_args(0 := fd))"

definition disastrOS_semWait :: "kernel \<Rightarrow> int \<Rightarrow> (control \<times> kernel) res" where
  "disastrOS_semWait k fd = disastrOS_syscall k DSOS_CALL_SEMWAIT (no_args(0 := fd))"

definition disastrOS_openResource :: "kernel \<Rightarrow> int \<Rightarrow> int \<Rightarrow> int \<Rightarrow> (control \<times> kernel) res" where
  "disastrOS_openResource k resource_id ty mode =
     disastrOS_syscall k DSOS_CALL_OPEN_RESOURCE
       (no_args(0 := resource_id, 1 := ty, 2 := mode))"

definition disastrOS_closeResource :: "kernel \<Rightarrow> int \<Rightarrow> (control \<times> kernel) res" where
  "disastrOS_closeResource k fd =
     disastrOS_syscall k DSOS_CALL_CLOSE_RESOURCE (no_args(0 := fd))"

definition disastrOS_destroyResource :: "kernel \<Rightarrow> int \<Rightarrow> (control \<times> kernel) res" where
  "disastrOS_destroyResource k resource_id =
     disastrOS_syscall k DSOS_CALL_DESTROY_RESOURCE (no_args(0 := resource_id))"

section \<open>The start of the system\<close>

definition disastrOS_start ::
    "layout \<Rightarrow> addr \<Rightarrow> addr \<Rightarrow> bool \<Rightarrow> kernel \<Rightarrow> (control \<times> kernel) res" where
  "disastrOS_start ly f f_args logfile k =
     andthen (PCB_init ly k) (\<lambda>k1.
     andthen (Timer_init ly k1) (\<lambda>k2.
     andthen (Resource_init ly k2) (\<lambda>k3.
     andthen (Descriptor_init ly k3) (\<lambda>k4.
     andthen (Semaphore_init ly k4) (\<lambda>k5.
     andthen (SemDescriptor_init ly k5) (\<lambda>k6.
     let k7 = k6\<lparr>init_pcb := NULL, running := NULL\<rparr>;
         k8 = List_init k7 ready_list;
         k9 = List_init k8 waiting_list;
         k10 = List_init k9 zombie_list;
         k11 = List_init k10 resources_list;
         k12 = List_init k11 semaphores_list;
         k13 = List_init k12 timer_list
     in main_context_resumed
          (k13\<lparr>start_f := f, start_args := f_args, log_file := logfile\<rparr>)))))))"

text \<open>The memory of the program before \<open>main\<close>: every static object is zero.\<close>

definition boot_kernel :: kernel where
  "boot_kernel =
     \<lparr>links = (\<lambda>_. \<lparr>li_prev = NULL, li_next = NULL\<rparr>),
      heads = (\<lambda>_. \<lparr>lh_first = NULL, lh_last = NULL, lh_size = 0\<rparr>),
      pools = (\<lambda>_. \<lparr>buffer = NULL, free_list = [], buffer_size = 0, pool_size = 0, size_max = 0,
                     item_size = 0, first_idx = 0, bucket_size = 0\<rparr>),
      pcbs = (\<lambda>_. \<lparr>pid = 0, return_value = 0, status = Created, signals = 0, signals_mask = 0,
                    parent = NULL, cpu_state = Zero_context, timer = NULL, last_fd = 0,
                    last_sem_fd = 0, syscall_num = 0, syscall_args = (\<lambda>_. 0),
                    syscall_retvalue = 0\<rparr>),
      pcb_ptrs = (\<lambda>_. NULL),
      timer_items = (\<lambda>_. \<lparr>awakening_time = 0, t_pcb = NULL\<rparr>),
      resources = (\<lambda>_. \<lparr>res_id = 0, res_type = 0\<rparr>),
      descriptors = (\<lambda>_. \<lparr>d_pcb = NULL, d_resource = NULL, d_fd = 0, d_ptr = NULL\<rparr>),
      descriptor_ptrs = (\<lambda>_. NULL),
      semaphores = (\<lambda>_. \<lparr>sem_id = 0, sem_count = 0\<rparr>),
      sem_descriptors = (\<lambda>_. \<lparr>sd_pcb = NULL, sd_semaphore = NULL, sd_fd = 0, sd_ptr = NULL,
                               sd_wait_ptr = NULL\<rparr>),
      sem_descriptor_ptrs = (\<lambda>_. NULL),
      init_pcb = NULL, running = NULL, last_pid = 0, disastrOS_time = 0, shutdown_now = 0,
      log_file = False, start_f = NULL, start_args = NULL, user_mem = (\<lambda>_. 0)\<rparr>"

section \<open>Runs\<close>

text \<open>
  What can happen next: the running process makes a system call, or the timer ticks. The
  next state is the one the resumed process sees.
\<close>

datatype event = Syscall int "nat \<Rightarrow> int" | Tick

definition kernel_step :: "kernel \<Rightarrow> event \<Rightarrow> (control \<times> kernel) res" where
  "kernel_step k e =
     (case e of
        Syscall n args \<Rightarrow> disastrOS_syscall k n args
      | Tick \<Rightarrow> andthen (timerInterrupt k) (\<lambda>k1. Inr (Resume (running k1), k1)))"

inductive kernel_run :: "kernel \<Rightarrow> event list \<Rightarrow> kernel \<Rightarrow> bool" where
  run_nil: "kernel_run k [] k"
| run_cons: "kernel_step k e = Inr (c, k1) \<Longrightarrow> c \<noteq> Exited \<Longrightarrow> kernel_run k1 es k2 \<Longrightarrow>
     kernel_run k (e # es) k2"

end
