(* ===== verification/Kernel_Inv.thy ===== *)
theory Kernel_Inv
  imports Kernel_State
begin

text \<open>
  The invariant of the kernel and the execution lemmas its preservation proofs share.

  \<open>L\<close> gives, for every list head of the kernel, the items of its list. \<open>kinv k L\<close> is
  the conjunction of
  \<^item> \<open>lists_ok\<close>: the pointers represent \<open>L\<close>, no item is in two lists, every pool is
    well formed and every list holds live blocks of the pool of its kind;
  \<^item> \<open>sched_ok\<close>: every process is running or in exactly the list its status names, and the
    running process is in no list;
  \<^item> \<open>tree_ok\<close>: a living process is the child of one process at most;
  \<^item> \<open>timer_ok\<close>: the timers are sorted and each belongs to a process that sleeps;
  \<^item> \<open>sem_ok\<close>: descriptors, semaphores and the queues of waiting descriptors refer to one
    another consistently, and whoever waits in a queue is blocked in \<open>semWait\<close>;
  \<^item> \<open>res_ok\<close>: the same for resources and their descriptors.

  The execution lemmas say what a primitive does to a kernel whose lists are represented:
  they give its result as the old kernel with new links and heads, so that a handler is
  evaluated by rewriting.
\<close>

section \<open>Pools\<close>

definition pools_live :: "(pool_id \<Rightarrow> PoolAllocator) \<Rightarrow> pool_id \<Rightarrow> addr set" where
  "pools_live ps i = live_blocks (ps i)"

definition pools_room :: "(pool_id \<Rightarrow> PoolAllocator) \<Rightarrow> pool_id \<Rightarrow> nat" where
  "pools_room ps i = pool_room (ps i)"

definition pools_ok :: "(pool_id \<Rightarrow> PoolAllocator) \<Rightarrow> bool" where
  "pools_ok ps \<longleftrightarrow>
     (\<forall>i. pool_inv (ps i)) \<and> (\<forall>i j. i \<noteq> j \<longrightarrow> pool_span (ps i) \<inter> pool_span (ps j) = {})"

lemma pools_live_disjoint:
  "pools_ok ps \<Longrightarrow> b \<in> pools_live ps i \<Longrightarrow> b \<in> pools_live ps j \<Longrightarrow> i = j"
  using pool.live_span [of "ps i"] pool.live_span [of "ps j"]
  unfolding pools_ok_def pools_live_def by blast

lemma pool_get_exec:
  assumes ok: "pools_ok (pools k)"
  obtains (empty) "pool_get k i = Inr (NULL, k)" "pools_room (pools k) i = 0"
  | (block) b ps where "pool_get k i = Inr (b, k\<lparr>pools := ps\<rparr>)" "b \<noteq> NULL"
      "\<And>j. b \<notin> pools_live (pools k) j" "pools_ok ps"
      "pools_live ps = (pools_live (pools k))(i := insert b (pools_live (pools k) i))"
      "0 < pools_room (pools k) i"
      "pools_room ps = (pools_room (pools k))(i := pools_room (pools k) i - 1)"
proof (cases "pool_room (pools k i) = 0")
  case True
  moreover have inv: "pool_inv (pools k i)" using ok by (simp add: pools_ok_def)
  ultimately have "pool_get k i = Inr (NULL, k)"
    by (simp add: pool_get_def pool.take_none)
  with True show thesis using empty by (simp add: pools_room_def)
next
  case False
  have inv: "pool_inv (pools k i)" using ok by (simp add: pools_ok_def)
  from pool.take_some [OF inv] False obtain b a where
    t: "PoolAllocator_getBlock (pools k i) = Inr (b, a)" "b \<noteq> NULL"
      "b \<notin> live_blocks (pools k i)" "pool_inv a" "live_blocks a = insert b (live_blocks (pools k i))"
      "Suc (pool_room a) = pool_room (pools k i)" by auto
  have sp: "pool_span a = pool_span (pools k i)" "b \<in> pool_span (pools k i)"
    using pool.take_span [OF t(1)] pool.take_apart(1) [OF inv t(1,2), of "{}"] by auto
  let ?ps = "(pools k)(i := a)"
  show thesis
  proof (rule block [of b ?ps])
    show "pool_get k i = Inr (b, k\<lparr>pools := ?ps\<rparr>)" by (simp add: pool_get_def t(1))
    show "b \<noteq> NULL" by (rule t(2))
    show "b \<notin> pools_live (pools k) j" for j
      using ok sp(2) t(3) pool.live_span [of "pools k j"]
      unfolding pools_ok_def pools_live_def by (cases "j = i") blast+
    show "pools_ok ?ps" using ok t(4) sp(1) by (auto simp: pools_ok_def)
    show "pools_live ?ps = (pools_live (pools k))(i := insert b (pools_live (pools k) i))"
      using t(5) by (auto simp: pools_live_def fun_eq_iff)
    show "0 < pools_room (pools k) i" using False by (simp add: pools_room_def)
    show "pools_room ?ps = (pools_room (pools k))(i := pools_room (pools k) i - 1)"
      using t(6) by (auto simp: pools_room_def fun_eq_iff)
  qed
qed

lemma pool_release_exec:
  assumes ok: "pools_ok (pools k)" and b: "b \<in> pools_live (pools k) i"
  obtains ps where "pool_release k i b = Inr (0, k\<lparr>pools := ps\<rparr>)" "pools_ok ps"
    "pools_live ps = (pools_live (pools k))(i := pools_live (pools k) i - {b})"
    "pools_room ps = (pools_room (pools k))(i := Suc (pools_room (pools k) i))"
proof -
  have inv: "pool_inv (pools k i)" using ok by (simp add: pools_ok_def)
  from pool.give_live [OF inv] b obtain a where
    g: "PoolAllocator_releaseBlock (pools k i) b = Inr (Success, a)" "pool_inv a"
      "live_blocks a = live_blocks (pools k i) - {b}" "pool_room a = Suc (pool_room (pools k i))"
    by (auto simp: pools_live_def)
  have sp: "pool_span a = pool_span (pools k i)" by (rule pool.give_span [OF g(1)])
  let ?ps = "(pools k)(i := a)"
  show thesis
  proof (rule that [of ?ps])
    show "pool_release k i b = Inr (0, k\<lparr>pools := ?ps\<rparr>)" by (simp add: pool_release_def g(1))
    show "pools_ok ?ps" using ok g(2) sp by (auto simp: pools_ok_def)
    show "pools_live ?ps = (pools_live (pools k))(i := pools_live (pools k) i - {b})"
      using g(3) by (auto simp: pools_live_def fun_eq_iff)
    show "pools_room ?ps = (pools_room (pools k))(i := Suc (pools_room (pools k) i))"
      using g(4) by (auto simp: pools_room_def fun_eq_iff)
  qed
qed

section \<open>Lists\<close>

lemma append_exec:
  assumes "list_rep (links k) (heads k) L" and "loose (links k) L x"
  shows "\<exists>lk hds.
    List_insert k h (lh_last (heads k h)) x = Inr (x, k\<lparr>links := lk, heads := hds\<rparr>) \<and>
    list_rep lk hds (L(h := L h @ [x])) \<and>
    (\<forall>y. loose (links k) L y \<longrightarrow> y \<noteq> x \<longrightarrow> loose lk (L(h := L h @ [x])) y)"
proof -
  let ?k = "list_put k h (lh_last (heads k h)) x"
  note A = list_rep_append [OF assms, where h = h]
  have "List_insert k h (lh_last (heads k h)) x =
      Inr (x, k\<lparr>links := links ?k, heads := heads ?k\<rparr>)"
    using A(1) list_put_shape [of k h "lh_last (heads k h)" x] by simp
  with A(2,4) show ?thesis by blast
qed

lemma insert_exec:
  assumes "list_rep (links k) (heads k) L" and "loose (links k) L x"
    and "p = NULL \<or> p \<in> set (L h)"
  shows "\<exists>lk hds.
    List_insert k h p x = Inr (x, k\<lparr>links := lk, heads := hds\<rparr>) \<and>
    list_rep lk hds (L(h := insert_after p x (L h))) \<and>
    (\<forall>y. loose (links k) L y \<longrightarrow> y \<noteq> x \<longrightarrow> loose lk (L(h := insert_after p x (L h))) y)"
proof -
  let ?k = "list_put k h p x"
  note A = list_rep_insert [OF assms]
  have "List_insert k h p x = Inr (x, k\<lparr>links := links ?k, heads := heads ?k\<rparr>)"
    using A(1) list_put_shape [of k h p x] by simp
  with A(2) loose_insert [OF assms] show ?thesis by blast
qed

lemma detach_exec:
  assumes "list_rep (links k) (heads k) L" and "x \<in> set (L h)"
  shows "\<exists>lk hds.
    List_detach k h x = Inr (x, k\<lparr>links := lk, heads := hds\<rparr>) \<and>
    list_rep lk hds (L(h := remove1 x (L h))) \<and>
    loose lk (L(h := remove1 x (L h))) x \<and>
    (\<forall>y. loose (links k) L y \<longrightarrow> loose lk (L(h := remove1 x (L h))) y)"
proof -
  let ?k = "list_cut k h x"
  note A = list_rep_detach [OF assms]
  have "List_detach k h x = Inr (x, k\<lparr>links := links ?k, heads := heads ?k\<rparr>)"
    using A(1) list_cut_shape [of k h x] by simp
  with A(2,4) loose_detach [OF assms] show ?thesis by blast
qed

text \<open>Detaching the head of a list that is not empty.\<close>

lemma detach_first_exec:
  assumes "list_rep (links k) (heads k) L" and "L h = x # xs"
  shows "\<exists>lk hds. lh_first (heads k h) = x \<and> x \<noteq> NULL \<and>
    List_detach k h x = Inr (x, k\<lparr>links := lk, heads := hds\<rparr>) \<and>
    list_rep lk hds (L(h := xs)) \<and> loose lk (L(h := xs)) x \<and>
    (\<forall>y. loose (links k) L y \<longrightarrow> loose lk (L(h := xs)) y)"
proof -
  have "x \<in> set (L h)" "remove1 x (L h) = xs" using assms(2) by simp_all
  moreover have "lh_first (heads k h) = x" "x \<noteq> NULL"
    using list_repD(4,5) [OF assms(1), of h] assms(2) by auto
  ultimately show ?thesis
    using detach_exec [where k = k and L = L and h = h and x = x, OF assms(1)] by simp
qed

lemma first_empty:
  "list_rep (links k) (heads k) L \<Longrightarrow> lh_first (heads k h) = NULL \<longleftrightarrow> L h = []"
  using list_repD(4,5) [of "links k" "heads k" L h] by (cases "L h") auto

lemma detach_NULL [simp]: "List_detach k h NULL = Inl Null_deref"
  by (simp add: List_detach_def)

lemma insert_NULL [simp]: "List_insert k h p NULL = Inl Null_deref"
  by (simp add: List_insert_def)

text \<open>A block that is in no list can have its links cleared, and is then loose.\<close>

lemma null_links_exec:
  assumes "list_rep lk hds L" and "\<And>h. x \<notin> set (L h)" and "x \<noteq> NULL"
  shows "list_rep (lk(x := \<lparr>li_prev = NULL, li_next = NULL\<rparr>)) hds L"
    and "loose (lk(x := \<lparr>li_prev = NULL, li_next = NULL\<rparr>)) L x"
    and "loose lk L y \<Longrightarrow> loose (lk(x := \<lparr>li_prev = NULL, li_next = NULL\<rparr>)) L y"
proof -
  have "dll (lk(x := \<lparr>li_prev = NULL, li_next = NULL\<rparr>)) (hds h) (L h) = dll lk (hds h) (L h)" for h
    by (rule dll_cong) (use assms(2) in auto)
  then show "list_rep (lk(x := \<lparr>li_prev = NULL, li_next = NULL\<rparr>)) hds L"
    using assms(1) by (simp add: list_rep_def)
qed (use assms in \<open>auto simp: loose_def\<close>)

lemma head_init_exec:
  assumes "list_rep lk hds L"
  shows "list_rep lk (hds(h := \<lparr>lh_first = NULL, lh_last = NULL, lh_size = 0\<rparr>)) (L(h := []))"
    and "loose lk L y \<Longrightarrow> loose lk (L(h := [])) y"
  using assms by (auto simp: list_rep_def dll_def loose_def)

lemma head_init_same:
  "list_rep lk hds L \<Longrightarrow> L h = [] \<Longrightarrow>
     list_rep lk (hds(h := \<lparr>lh_first = NULL, lh_last = NULL, lh_size = 0\<rparr>)) L"
  using head_init_exec(1) [of lk hds L h] by (metis fun_upd_triv)

section \<open>The invariant\<close>

fun kind :: "hloc \<Rightarrow> pool_id" where
  "kind ready_list = pcb_pool"
| "kind waiting_list = pcb_pool"
| "kind zombie_list = pcb_pool"
| "kind resources_list = resource_pool"
| "kind timer_list = timer_pool"
| "kind semaphores_list = semaphore_pool"
| "kind (PCB_children p) = pcb_ptr_pool"
| "kind (PCB_descriptors p) = descriptor_pool"
| "kind (PCB_sem_descriptors p) = sem_descriptor_pool"
| "kind (Resource_descriptors r) = descriptor_ptr_pool"
| "kind (Semaphore_descriptors s) = sem_descriptor_ptr_pool"
| "kind (Semaphore_waiting s) = sem_descriptor_ptr_pool"

definition typed_lists :: "(pool_id \<Rightarrow> addr set) \<Rightarrow> (hloc \<Rightarrow> addr list) \<Rightarrow> bool" where
  "typed_lists lv L \<longleftrightarrow> (\<forall>h. set (L h) \<subseteq> lv (kind h))"

definition lists_ok :: "kernel \<Rightarrow> (hloc \<Rightarrow> addr list) \<Rightarrow> bool" where
  "lists_ok k L \<longleftrightarrow>
     list_rep (links k) (heads k) L \<and> pools_ok (pools k) \<and>
     typed_lists (pools_live (pools k)) L"

text \<open>The process numbers given out so far are distinct.\<close>

definition pids_ok :: "(addr \<Rightarrow> PCB) \<Rightarrow> int \<Rightarrow> addr set \<Rightarrow> bool" where
  "pids_ok pc n P \<longleftrightarrow> (\<forall>p \<in> P. pid (pc p) < n) \<and> inj_on (\<lambda>p. pid (pc p)) P"

text \<open>The process \<open>init\<close> is alive and has no parent.\<close>

definition init_ok :: "kernel \<Rightarrow> (hloc \<Rightarrow> addr list) \<Rightarrow> bool" where
  "init_ok k L \<longleftrightarrow>
     init_pcb k \<in> pools_live (pools k) pcb_pool \<and> init_pcb k \<notin> set (L zombie_list) \<and>
     init_pcb k \<noteq> NULL \<and> parent (pcbs k (init_pcb k)) = NULL"

text \<open>Every process is running or in the list its status names.\<close>

definition place_ok :: "kernel \<Rightarrow> (hloc \<Rightarrow> addr list) \<Rightarrow> bool" where
  "place_ok k L \<longleftrightarrow>
     running k \<in> pools_live (pools k) pcb_pool \<and> loose (links k) L (running k) \<and>
     status (pcbs k (running k)) \<in> {Running, Ready} \<and>
     (\<forall>p \<in> set (L ready_list). status (pcbs k p) = Ready) \<and>
     (\<forall>p \<in> set (L waiting_list). status (pcbs k p) = Waiting) \<and>
     (\<forall>p \<in> set (L zombie_list). status (pcbs k p) = Zombie) \<and>
     (\<forall>p \<in> pools_live (pools k) pcb_pool. p \<noteq> running k \<longrightarrow>
        p \<in> set (L ready_list) \<or> p \<in> set (L waiting_list) \<or> p \<in> set (L zombie_list)) \<and>
     (\<forall>p. p \<notin> pools_live (pools k) pcb_pool \<longrightarrow> status (pcbs k p) \<noteq> Waiting)"

definition sched_ok :: "kernel \<Rightarrow> (hloc \<Rightarrow> addr list) \<Rightarrow> bool" where
  "sched_ok k L \<longleftrightarrow>
     place_ok k L \<and> init_ok k L \<and> pids_ok (pcbs k) (last_pid k) (pools_live (pools k) pcb_pool)"

definition tree_ok :: "kernel \<Rightarrow> (hloc \<Rightarrow> addr list) \<Rightarrow> bool" where
  "tree_ok k L \<longleftrightarrow>
     (\<forall>p x. x \<in> set (L (PCB_children p)) \<longrightarrow>
        p \<in> pools_live (pools k) pcb_pool \<and> pcb_ptrs k x \<in> pools_live (pools k) pcb_pool) \<and>
     (\<forall>p q x y. x \<in> set (L (PCB_children p)) \<longrightarrow> y \<in> set (L (PCB_children q)) \<longrightarrow>
        pcb_ptrs k x = pcb_ptrs k y \<longrightarrow> x = y) \<and>
     (\<forall>p \<in> set (L zombie_list). L (PCB_children p) = [])"

definition timer_ok :: "kernel \<Rightarrow> (hloc \<Rightarrow> addr list) \<Rightarrow> bool" where
  "timer_ok k L \<longleftrightarrow>
     (\<forall>t \<in> set (L timer_list). t_pcb (timer_items k t) \<in> set (L waiting_list) \<and>
        syscall_num (pcbs k (t_pcb (timer_items k t))) = DSOS_CALL_SLEEP) \<and>
     inj_on (\<lambda>t. t_pcb (timer_items k t)) (set (L timer_list)) \<and>
     sorted (map (\<lambda>t. awakening_time (timer_items k t)) (L timer_list)) \<and>
     (\<forall>p \<in> pools_live (pools k) pcb_pool. timer (pcbs k p) = NULL)"

text \<open>The descriptors a process holds, the semaphores they name and their list items.\<close>

definition sem_links_ok :: "kernel \<Rightarrow> (hloc \<Rightarrow> addr list) \<Rightarrow> bool" where
  "sem_links_ok k L \<longleftrightarrow>
     (\<forall>p d. d \<in> set (L (PCB_sem_descriptors p)) \<longrightarrow>
        (let sd = sem_descriptors k d; s = sd_semaphore sd in
         s \<in> set (L semaphores_list) \<and> sd_pcb sd = p \<and>
         sd_ptr sd \<in> set (L (Semaphore_descriptors s)) \<and>
         sem_descriptor_ptrs k (sd_ptr sd) = d \<and>
         sd_wait_ptr sd \<in> pools_live (pools k) sem_descriptor_ptr_pool \<and>
         sem_descriptor_ptrs k (sd_wait_ptr sd) = d)) \<and>
     (\<forall>s x. x \<in> set (L (Semaphore_descriptors s)) \<longrightarrow>
        sd_ptr (sem_descriptors k (sem_descriptor_ptrs k x)) = x \<and>
        sd_semaphore (sem_descriptors k (sem_descriptor_ptrs k x)) = s \<and>
        sem_descriptor_ptrs k x \<in> pools_live (pools k) sem_descriptor_pool \<and>
        s \<in> set (L semaphores_list))"

text \<open>The second list item of a descriptor is free, or in the queue of its semaphore.\<close>

definition wait_ptrs_ok :: "kernel \<Rightarrow> (hloc \<Rightarrow> addr list) \<Rightarrow> bool" where
  "wait_ptrs_ok k L \<longleftrightarrow>
     (\<forall>p d. d \<in> set (L (PCB_sem_descriptors p)) \<longrightarrow>
        loose (links k) L (sd_wait_ptr (sem_descriptors k d)) \<or>
        sd_wait_ptr (sem_descriptors k d)
          \<in> set (L (Semaphore_waiting (sd_semaphore (sem_descriptors k d)))))"

text \<open>A process has one descriptor per semaphore and per number.\<close>

definition sem_fds_ok :: "kernel \<Rightarrow> (hloc \<Rightarrow> addr list) \<Rightarrow> bool" where
  "sem_fds_ok k L \<longleftrightarrow>
     (\<forall>p d e. d \<in> set (L (PCB_sem_descriptors p)) \<longrightarrow> e \<in> set (L (PCB_sem_descriptors p)) \<longrightarrow>
        sd_semaphore (sem_descriptors k d) = sd_semaphore (sem_descriptors k e) \<or>
        sd_fd (sem_descriptors k d) = sd_fd (sem_descriptors k e) \<longrightarrow> d = e) \<and>
     (\<forall>p d. d \<in> set (L (PCB_sem_descriptors p)) \<longrightarrow>
        0 \<le> sd_fd (sem_descriptors k d) \<and>
        sd_fd (sem_descriptors k d) < last_sem_fd (pcbs k p)) \<and>
     (\<forall>p. 0 \<le> last_sem_fd (pcbs k p))"

text \<open>Who waits in the queue of a semaphore, and how many at most.\<close>

definition waiters_ok :: "kernel \<Rightarrow> (hloc \<Rightarrow> addr list) \<Rightarrow> bool" where
  "waiters_ok k L \<longleftrightarrow>
     (\<forall>s x. x \<in> set (L (Semaphore_waiting s)) \<longrightarrow>
        (let sd = sem_descriptors k (sem_descriptor_ptrs k x) in
         sem_descriptor_ptrs k x \<in> set (L (PCB_sem_descriptors (sd_pcb sd))) \<and>
         sd_wait_ptr sd = x \<and> sd_semaphore sd = s \<and> sd_pcb sd \<in> set (L waiting_list) \<and>
         syscall_num (pcbs k (sd_pcb sd)) = DSOS_CALL_SEMWAIT))"

definition owners_ok :: "kernel \<Rightarrow> (hloc \<Rightarrow> addr list) \<Rightarrow> bool" where
  "owners_ok k L \<longleftrightarrow>
     (\<forall>s u x y. x \<in> set (L (Semaphore_waiting s)) \<longrightarrow> y \<in> set (L (Semaphore_waiting u)) \<longrightarrow>
        sd_pcb (sem_descriptors k (sem_descriptor_ptrs k x)) =
        sd_pcb (sem_descriptors k (sem_descriptor_ptrs k y)) \<longrightarrow> x = y)"

definition queue_lengths_ok :: "kernel \<Rightarrow> (hloc \<Rightarrow> addr list) \<Rightarrow> bool" where
  "queue_lengths_ok k L \<longleftrightarrow>
     (\<forall>s \<in> set (L semaphores_list).
        int (length (L (Semaphore_waiting s))) \<le> max 0 (- sem_count (semaphores k s)))"

definition sem_queues_ok :: "kernel \<Rightarrow> (hloc \<Rightarrow> addr list) \<Rightarrow> bool" where
  "sem_queues_ok k L \<longleftrightarrow> waiters_ok k L \<and> owners_ok k L \<and> queue_lengths_ok k L"

definition sem_ids_ok :: "kernel \<Rightarrow> (hloc \<Rightarrow> addr list) \<Rightarrow> bool" where
  "sem_ids_ok k L \<longleftrightarrow> inj_on (\<lambda>s. sem_id (semaphores k s)) (set (L semaphores_list))"

definition sem_ok :: "kernel \<Rightarrow> (hloc \<Rightarrow> addr list) \<Rightarrow> bool" where
  "sem_ok k L \<longleftrightarrow>
     sem_links_ok k L \<and> wait_ptrs_ok k L \<and> sem_fds_ok k L \<and> sem_queues_ok k L \<and> sem_ids_ok k L"

definition res_ok :: "kernel \<Rightarrow> (hloc \<Rightarrow> addr list) \<Rightarrow> bool" where
  "res_ok k L \<longleftrightarrow>
     (\<forall>p d. d \<in> set (L (PCB_descriptors p)) \<longrightarrow>
        (let ds = descriptors k d in
         d_resource ds \<in> set (L resources_list) \<and> d_pcb ds = p \<and>
         d_ptr ds \<in> set (L (Resource_descriptors (d_resource ds))) \<and>
         descriptor_ptrs k (d_ptr ds) = d)) \<and>
     (\<forall>p d e. d \<in> set (L (PCB_descriptors p)) \<longrightarrow> e \<in> set (L (PCB_descriptors p)) \<longrightarrow>
        d_fd (descriptors k d) = d_fd (descriptors k e) \<longrightarrow> d = e) \<and>
     (\<forall>p d. d \<in> set (L (PCB_descriptors p)) \<longrightarrow>
        0 \<le> d_fd (descriptors k d) \<and> d_fd (descriptors k d) < last_fd (pcbs k p)) \<and>
     (\<forall>p. 0 \<le> last_fd (pcbs k p)) \<and>
     inj_on (\<lambda>r. res_id (resources k r)) (set (L resources_list)) \<and>
     (\<forall>r x. x \<in> set (L (Resource_descriptors r)) \<longrightarrow> r \<in> set (L resources_list)) \<and>
     pools_room (pools k) descriptor_pool = pools_room (pools k) descriptor_ptr_pool"

definition kinv :: "kernel \<Rightarrow> (hloc \<Rightarrow> addr list) \<Rightarrow> bool" where
  "kinv k L \<longleftrightarrow>
     lists_ok k L \<and> sched_ok k L \<and> tree_ok k L \<and> timer_ok k L \<and> sem_ok k L \<and> res_ok k L"


section \<open>Consequences of the invariant\<close>

lemma typed_lists_upd:
  "typed_lists lv L \<Longrightarrow> set xs \<subseteq> lv (kind h) \<Longrightarrow> typed_lists lv (L(h := xs))"
  by (auto simp: typed_lists_def)

lemma typed_lists_sub:
  "typed_lists lv L \<Longrightarrow> set xs \<subseteq> set (L h) \<Longrightarrow> typed_lists lv (L(h := xs))"
  by (auto simp: typed_lists_def)

lemma typed_lists_add:
  "typed_lists lv L \<Longrightarrow> x \<in> lv (kind h) \<Longrightarrow> set xs \<subseteq> insert x (set (L h)) \<Longrightarrow>
     typed_lists lv (L(h := xs))"
  unfolding typed_lists_def by (metis fun_upd_apply insert_subset subset_trans)

lemma typed_listsD: "typed_lists lv L \<Longrightarrow> x \<in> set (L h) \<Longrightarrow> x \<in> lv (kind h)"
  by (auto simp: typed_lists_def)

lemma typed_lists_mono: "typed_lists lv L \<Longrightarrow> (\<And>i. lv i \<subseteq> lv' i) \<Longrightarrow> typed_lists lv' L"
  unfolding typed_lists_def by blast

lemma lists_okD:
  assumes "lists_ok k L"
  shows "list_rep (links k) (heads k) L" "pools_ok (pools k)"
    "typed_lists (pools_live (pools k)) L"
  using assms by (simp_all add: lists_ok_def)

lemma kinvD:
  assumes "kinv k L"
  shows "lists_ok k L" "sched_ok k L" "tree_ok k L" "timer_ok k L" "sem_ok k L" "res_ok k L"
    "list_rep (links k) (heads k) L" "pools_ok (pools k)"
    "typed_lists (pools_live (pools k)) L"
  using assms by (auto simp: kinv_def lists_ok_def)

lemma kinv_nonnull: "kinv k L \<Longrightarrow> x \<in> set (L h) \<Longrightarrow> x \<noteq> NULL"
  using list_repD(4) [OF kinvD(7)] by metis

lemma sched_okD:
  assumes "sched_ok k L"
  shows "running k \<in> pools_live (pools k) pcb_pool" "loose (links k) L (running k)"
    "running k \<noteq> NULL" "\<And>h. running k \<notin> set (L h)"
    "status (pcbs k (running k)) \<in> {Running, Ready}"
    "init_pcb k \<noteq> NULL" "init_pcb k \<in> pools_live (pools k) pcb_pool"
    "p \<in> set (L ready_list) \<Longrightarrow> status (pcbs k p) = Ready"
    "p \<in> set (L waiting_list) \<Longrightarrow> status (pcbs k p) = Waiting"
    "p \<in> set (L zombie_list) \<Longrightarrow> status (pcbs k p) = Zombie"
    "place_ok k L" "init_ok k L" "pids_ok (pcbs k) (last_pid k) (pools_live (pools k) pcb_pool)"
  using assms by (auto simp: sched_ok_def place_ok_def init_ok_def loose_def)

lemma pids_ok_cong:
  "pids_ok pc n P \<Longrightarrow> (\<And>p. p \<in> P \<Longrightarrow> pid (pc' p) = pid (pc p)) \<Longrightarrow> pids_ok pc' n P"
  by (simp add: pids_ok_def inj_on_def)

lemma pids_ok_frame:
  assumes "pids_ok (pcbs k) (last_pid k) (pools_live (pools k) pcb_pool)"
    and "\<And>p. pid (pcbs k' p) = pid (pcbs k p)" and "last_pid k' = last_pid k"
    and "pools_live (pools k') pcb_pool = pools_live (pools k) pcb_pool"
  shows "pids_ok (pcbs k') (last_pid k') (pools_live (pools k') pcb_pool)"
  unfolding assms(3,4) by (rule pids_ok_cong [OF assms(1)]) (rule assms(2))

lemma timer_okD:
  assumes "timer_ok k L"
  shows "t \<in> set (L timer_list) \<Longrightarrow> t_pcb (timer_items k t) \<in> set (L waiting_list)"
    "t \<in> set (L timer_list) \<Longrightarrow> syscall_num (pcbs k (t_pcb (timer_items k t))) = DSOS_CALL_SLEEP"
    "t \<in> set (L timer_list) \<Longrightarrow> u \<in> set (L timer_list) \<Longrightarrow>
       t_pcb (timer_items k t) = t_pcb (timer_items k u) \<Longrightarrow> t = u"
    "sorted (map (\<lambda>t. awakening_time (timer_items k t)) (L timer_list))"
    "p \<in> pools_live (pools k) pcb_pool \<Longrightarrow> timer (pcbs k p) = NULL"
  using assms unfolding timer_ok_def inj_on_def by blast+

lemma sem_okD:
  assumes "sem_ok k L"
  shows "sem_links_ok k L" "wait_ptrs_ok k L" "sem_fds_ok k L" "sem_queues_ok k L" "sem_ids_ok k L"
  using assms by (simp_all add: sem_ok_def)

lemma sem_descriptorD:
  assumes "sem_ok k L" and "d \<in> set (L (PCB_sem_descriptors p))"
    and "s = sd_semaphore (sem_descriptors k d)"
  shows "s \<in> set (L semaphores_list)" "sd_pcb (sem_descriptors k d) = p"
    "sd_ptr (sem_descriptors k d) \<in> set (L (Semaphore_descriptors s))"
    "sem_descriptor_ptrs k (sd_ptr (sem_descriptors k d)) = d"
    "sd_wait_ptr (sem_descriptors k d) \<in> pools_live (pools k) sem_descriptor_ptr_pool"
    "sem_descriptor_ptrs k (sd_wait_ptr (sem_descriptors k d)) = d"
    "loose (links k) L (sd_wait_ptr (sem_descriptors k d)) \<or>
     sd_wait_ptr (sem_descriptors k d) \<in> set (L (Semaphore_waiting s))"
  using assms unfolding sem_ok_def sem_links_ok_def wait_ptrs_ok_def Let_def by blast+

lemma sem_ptrD:
  assumes "sem_ok k L" and "x \<in> set (L (Semaphore_descriptors s))"
  shows "sd_ptr (sem_descriptors k (sem_descriptor_ptrs k x)) = x"
    "sd_semaphore (sem_descriptors k (sem_descriptor_ptrs k x)) = s"
    "sem_descriptor_ptrs k x \<in> pools_live (pools k) sem_descriptor_pool"
    "s \<in> set (L semaphores_list)"
  using assms unfolding sem_ok_def sem_links_ok_def by blast+

lemma sem_waitingD:
  assumes "sem_ok k L" and "x \<in> set (L (Semaphore_waiting s))"
    and "d = sem_descriptor_ptrs k x" and "q = sd_pcb (sem_descriptors k d)"
  shows "d \<in> set (L (PCB_sem_descriptors q))" "sd_wait_ptr (sem_descriptors k d) = x"
    "sd_semaphore (sem_descriptors k d) = s" "q \<in> set (L waiting_list)"
    "syscall_num (pcbs k q) = DSOS_CALL_SEMWAIT"
    "\<And>y u. y \<in> set (L (Semaphore_waiting u)) \<Longrightarrow>
       sd_pcb (sem_descriptors k (sem_descriptor_ptrs k y)) = q \<Longrightarrow> y = x"
  using assms unfolding sem_ok_def sem_queues_ok_def waiters_ok_def owners_ok_def Let_def by blast+

lemma sem_fdD:
  assumes "sem_ok k L" and "d \<in> set (L (PCB_sem_descriptors p))"
    and "e \<in> set (L (PCB_sem_descriptors p))"
  shows "sd_fd (sem_descriptors k d) = sd_fd (sem_descriptors k e) \<Longrightarrow> d = e"
    "sd_semaphore (sem_descriptors k d) = sd_semaphore (sem_descriptors k e) \<Longrightarrow> d = e"
    "0 \<le> sd_fd (sem_descriptors k d)" "sd_fd (sem_descriptors k d) < last_sem_fd (pcbs k p)"
  using assms unfolding sem_ok_def sem_fds_ok_def by blast+

lemma sem_queue_length:
  "sem_ok k L \<Longrightarrow> s \<in> set (L semaphores_list) \<Longrightarrow>
     int (length (L (Semaphore_waiting s))) \<le> max 0 (- sem_count (semaphores k s))"
  unfolding sem_ok_def sem_queues_ok_def queue_lengths_ok_def by blast

lemma sem_queue_dead: "sem_ok k L \<Longrightarrow> s \<notin> set (L semaphores_list) \<Longrightarrow> L (Semaphore_waiting s) = []"
  using sem_waitingD(1,3) sem_descriptorD(1) by (metis list.set_intros(1) neq_Nil_conv)

lemma res_okD:
  assumes "res_ok k L"
  shows "d \<in> set (L (PCB_descriptors p)) \<Longrightarrow>
      d_resource (descriptors k d) \<in> set (L resources_list) \<and> d_pcb (descriptors k d) = p \<and>
      d_ptr (descriptors k d) \<in> set (L (Resource_descriptors (d_resource (descriptors k d)))) \<and>
      descriptor_ptrs k (d_ptr (descriptors k d)) = d"
    "d \<in> set (L (PCB_descriptors p)) \<Longrightarrow> e \<in> set (L (PCB_descriptors p)) \<Longrightarrow>
      d_fd (descriptors k d) = d_fd (descriptors k e) \<Longrightarrow> d = e"
    "d \<in> set (L (PCB_descriptors p)) \<Longrightarrow>
      0 \<le> d_fd (descriptors k d) \<and> d_fd (descriptors k d) < last_fd (pcbs k p)"
    "0 \<le> last_fd (pcbs k p)"
    "inj_on (\<lambda>r. res_id (resources k r)) (set (L resources_list))"
    "pools_room (pools k) descriptor_pool = pools_room (pools k) descriptor_ptr_pool"
    "x \<in> set (L (Resource_descriptors r)) \<Longrightarrow> r \<in> set (L resources_list)"
  using assms unfolding res_ok_def Let_def by blast+

lemma res_descriptorD:
  assumes "res_ok k L" and "d \<in> set (L (PCB_descriptors p))"
  shows "d_resource (descriptors k d) \<in> set (L resources_list)" "d_pcb (descriptors k d) = p"
    "d_ptr (descriptors k d) \<in> set (L (Resource_descriptors (d_resource (descriptors k d))))"
    "descriptor_ptrs k (d_ptr (descriptors k d)) = d"
    "0 \<le> d_fd (descriptors k d)" "d_fd (descriptors k d) < last_fd (pcbs k p)"
  using assms unfolding res_ok_def Let_def by blast+

section \<open>Each part depends on a few fields\<close>

text \<open>
  The frame lemmas of the preservation proofs: an operation keeps a part of the invariant when
  it keeps the fields and the lists the part is about.
\<close>

lemma init_ok_cong:
  assumes "init_ok k L" and "init_pcb k' = init_pcb k"
    and "init_pcb k \<in> pools_live (pools k') pcb_pool" and "init_pcb k \<notin> set (L' zombie_list)"
    and "parent (pcbs k' (init_pcb k)) = parent (pcbs k (init_pcb k))"
  shows "init_ok k' L'"
  using assms by (simp add: init_ok_def)

lemma sem_ids_ok_cong:
  assumes "sem_ids_ok k L" and "set (L' semaphores_list) \<subseteq> set (L semaphores_list)"
    and "\<And>s. sem_id (semaphores k' s) = sem_id (semaphores k s)"
  shows "sem_ids_ok k' L'"
  using assms unfolding sem_ids_ok_def by (simp add: inj_on_def subset_iff)

lemma tree_ok_cong:
  assumes "tree_ok k L" and "\<And>p. L' (PCB_children p) = L (PCB_children p)"
    and "pcb_ptrs k' = pcb_ptrs k" and "L' zombie_list = L zombie_list"
    and "pools_live (pools k') pcb_pool = pools_live (pools k) pcb_pool"
  shows "tree_ok k' L'"
  using assms by (simp add: tree_ok_def)

lemma timer_ok_cong:
  assumes "timer_ok k L" and "L' timer_list = L timer_list" and "timer_items k' = timer_items k"
    and "\<And>t. t \<in> set (L timer_list) \<Longrightarrow> t_pcb (timer_items k t) \<in> set (L' waiting_list)"
    and "\<And>p. p \<in> set (L waiting_list) \<Longrightarrow> syscall_num (pcbs k' p) = syscall_num (pcbs k p)"
    and "\<And>p. p \<in> pools_live (pools k') pcb_pool \<Longrightarrow> timer (pcbs k' p) = NULL"
  shows "timer_ok k' L'"
  using assms unfolding timer_ok_def by simp

lemma sem_links_ok_cong:
  assumes "sem_links_ok k L" and "\<And>p. L' (PCB_sem_descriptors p) = L (PCB_sem_descriptors p)"
    and "\<And>s. L' (Semaphore_descriptors s) = L (Semaphore_descriptors s)"
    and "L' semaphores_list = L semaphores_list"
    and "sem_descriptors k' = sem_descriptors k" and "sem_descriptor_ptrs k' = sem_descriptor_ptrs k"
    and "pools_live (pools k') sem_descriptor_pool = pools_live (pools k) sem_descriptor_pool"
    and "pools_live (pools k') sem_descriptor_ptr_pool = pools_live (pools k) sem_descriptor_ptr_pool"
  shows "sem_links_ok k' L'"
  using assms by (simp add: sem_links_ok_def)

lemma wait_ptrs_ok_cong:
  assumes "wait_ptrs_ok k L" and "\<And>p. L' (PCB_sem_descriptors p) = L (PCB_sem_descriptors p)"
    and "\<And>s. set (L (Semaphore_waiting s)) \<subseteq> set (L' (Semaphore_waiting s))"
    and "sem_descriptors k' = sem_descriptors k"
    and "\<And>p d. d \<in> set (L (PCB_sem_descriptors p)) \<Longrightarrow>
           loose (links k) L (sd_wait_ptr (sem_descriptors k d)) \<Longrightarrow>
           loose (links k') L' (sd_wait_ptr (sem_descriptors k d))"
  shows "wait_ptrs_ok k' L'"
  using assms unfolding wait_ptrs_ok_def by (metis subsetD)

lemma sem_fds_ok_cong:
  assumes "sem_fds_ok k L"
    and "\<And>p. set (L' (PCB_sem_descriptors p)) \<subseteq> set (L (PCB_sem_descriptors p))"
    and "sem_descriptors k' = sem_descriptors k"
    and "\<And>p. last_sem_fd (pcbs k' p) = last_sem_fd (pcbs k p)"
  shows "sem_fds_ok k' L'"
  using assms(1,2) unfolding sem_fds_ok_def assms(3,4) by blast

lemma waiters_ok_cong:
  assumes "waiters_ok k L" and "\<And>p. L' (PCB_sem_descriptors p) = L (PCB_sem_descriptors p)"
    and "\<And>s. L' (Semaphore_waiting s) = L (Semaphore_waiting s)"
    and "\<And>p. p \<in> set (L waiting_list) \<Longrightarrow>
           syscall_num (pcbs k p) = DSOS_CALL_SEMWAIT \<Longrightarrow> p \<in> set (L' waiting_list)"
    and "sem_descriptors k' = sem_descriptors k" and "sem_descriptor_ptrs k' = sem_descriptor_ptrs k"
    and "\<And>p. p \<in> set (L waiting_list) \<Longrightarrow> syscall_num (pcbs k' p) = syscall_num (pcbs k p)"
  shows "waiters_ok k' L'"
  using assms unfolding waiters_ok_def by (simp add: Let_def)

lemma owners_ok_cong:
  assumes "owners_ok k L" and "\<And>s. set (L' (Semaphore_waiting s)) \<subseteq> set (L (Semaphore_waiting s))"
    and "sem_descriptors k' = sem_descriptors k" and "sem_descriptor_ptrs k' = sem_descriptor_ptrs k"
  shows "owners_ok k' L'"
  using assms unfolding owners_ok_def by (metis subsetD)

lemma queue_lengths_ok_cong:
  assumes "queue_lengths_ok k L" and "\<And>s. L' (Semaphore_waiting s) = L (Semaphore_waiting s)"
    and "set (L' semaphores_list) \<subseteq> set (L semaphores_list)"
    and "\<And>s. sem_count (semaphores k' s) = sem_count (semaphores k s)"
  shows "queue_lengths_ok k' L'"
  using assms by (auto simp: queue_lengths_ok_def)

lemma sem_ok_cong:
  assumes "sem_ok k L" and "\<And>p. L' (PCB_sem_descriptors p) = L (PCB_sem_descriptors p)"
    and "\<And>s. L' (Semaphore_descriptors s) = L (Semaphore_descriptors s)"
    and "\<And>s. L' (Semaphore_waiting s) = L (Semaphore_waiting s)"
    and "L' semaphores_list = L semaphores_list" and "semaphores k' = semaphores k"
    and "sem_descriptors k' = sem_descriptors k" and "sem_descriptor_ptrs k' = sem_descriptor_ptrs k"
    and "pools_live (pools k') sem_descriptor_pool = pools_live (pools k) sem_descriptor_pool"
    and "pools_live (pools k') sem_descriptor_ptr_pool = pools_live (pools k) sem_descriptor_ptr_pool"
    and "\<And>p. p \<in> set (L waiting_list) \<Longrightarrow>
           syscall_num (pcbs k p) = DSOS_CALL_SEMWAIT \<Longrightarrow> p \<in> set (L' waiting_list)"
    and "\<And>p. p \<in> set (L waiting_list) \<Longrightarrow> syscall_num (pcbs k' p) = syscall_num (pcbs k p)"
    and "\<And>p. last_sem_fd (pcbs k' p) = last_sem_fd (pcbs k p)"
    and "\<And>p d. d \<in> set (L (PCB_sem_descriptors p)) \<Longrightarrow>
           loose (links k) L (sd_wait_ptr (sem_descriptors k d)) \<Longrightarrow>
           loose (links k') L' (sd_wait_ptr (sem_descriptors k d))"
  shows "sem_ok k' L'"
proof -
  have S: "sem_links_ok k L" "wait_ptrs_ok k L" "sem_fds_ok k L" "waiters_ok k L" "owners_ok k L"
    "queue_lengths_ok k L" "sem_ids_ok k L"
    using assms(1) by (simp_all add: sem_ok_def sem_queues_ok_def)
  show ?thesis
    unfolding sem_ok_def sem_queues_ok_def
    by (intro conjI sem_links_ok_cong [OF S(1)] wait_ptrs_ok_cong [OF S(2)]
        sem_fds_ok_cong [OF S(3)] waiters_ok_cong [OF S(4)] owners_ok_cong [OF S(5)]
        queue_lengths_ok_cong [OF S(6)] sem_ids_ok_cong [OF S(7)])
      (use assms(2-) in simp_all)
qed

lemma res_ok_cong:
  assumes "res_ok k L" and "\<And>p. L' (PCB_descriptors p) = L (PCB_descriptors p)"
    and "\<And>r. L' (Resource_descriptors r) = L (Resource_descriptors r)"
    and "L' resources_list = L resources_list" and "resources k' = resources k"
    and "descriptors k' = descriptors k" and "descriptor_ptrs k' = descriptor_ptrs k"
    and "pools_room (pools k') = pools_room (pools k)"
    and "\<And>p. last_fd (pcbs k' p) = last_fd (pcbs k p)"
  shows "res_ok k' L'"
  using assms by (simp add: res_ok_def)

section \<open>Updates the invariant does not see\<close>

definition irrelevant :: "(PCB \<Rightarrow> PCB) \<Rightarrow> bool" where
  "irrelevant f \<longleftrightarrow> (\<forall>x. status (f x) = status x \<and> pid (f x) = pid x \<and> parent (f x) = parent x \<and>
     timer (f x) = timer x \<and> syscall_num (f x) = syscall_num x \<and> last_fd (f x) = last_fd x \<and>
     last_sem_fd (f x) = last_sem_fd x)"

lemma kinv_irrelevant:
  assumes "irrelevant f"
  shows "kinv (upd_pcb p f k) L = kinv k L"
proof -
  have f: "status (((pcbs k)(p := f (pcbs k p))) q) = status (pcbs k q)"
    "pid (((pcbs k)(p := f (pcbs k p))) q) = pid (pcbs k q)"
    "parent (((pcbs k)(p := f (pcbs k p))) q) = parent (pcbs k q)"
    "timer (((pcbs k)(p := f (pcbs k p))) q) = timer (pcbs k q)"
    "syscall_num (((pcbs k)(p := f (pcbs k p))) q) = syscall_num (pcbs k q)"
    "last_fd (((pcbs k)(p := f (pcbs k p))) q) = last_fd (pcbs k q)"
    "last_sem_fd (((pcbs k)(p := f (pcbs k p))) q) = last_sem_fd (pcbs k q)" for q
    using assms by (auto simp: irrelevant_def)
  show ?thesis
    unfolding kinv_def lists_ok_def sched_ok_def place_ok_def init_ok_def pids_ok_def tree_ok_def timer_ok_def sem_ok_def
      sem_links_ok_def wait_ptrs_ok_def sem_fds_ok_def sem_queues_ok_def waiters_ok_def
      owners_ok_def queue_lengths_ok_def sem_ids_ok_def res_ok_def upd_pcb_def
    by (simp add: f del: fun_upd_apply)
qed

lemma kinv_set_retvalue [simp]: "kinv (set_retvalue v k) L = kinv k L"
  unfolding set_retvalue_def by (rule kinv_irrelevant) (simp add: irrelevant_def)

lemma kinv_store_user [simp]: "kinv (store_user p v k) L = kinv k L"
  unfolding kinv_def lists_ok_def sched_ok_def place_ok_def init_ok_def pids_ok_def tree_ok_def timer_ok_def sem_ok_def
    sem_links_ok_def wait_ptrs_ok_def sem_fds_ok_def sem_queues_ok_def waiters_ok_def
      owners_ok_def queue_lengths_ok_def sem_ids_ok_def res_ok_def store_user_def
  by simp

text \<open>The arguments of a call, written into the PCB of the running process.\<close>

lemma kinv_call:
  assumes inv: "kinv k L"
    and f: "\<And>x. status (f x) = status x \<and> pid (f x) = pid x \<and> parent (f x) = parent x \<and>
      timer (f x) = timer x \<and> last_fd (f x) = last_fd x \<and> last_sem_fd (f x) = last_sem_fd x"
  shows "kinv (upd_pcb (running k) f k) L" (is "kinv ?k L")
proof -
  note K = kinvD [OF inv]
  note S = sched_okD [OF K(2)]
  have "lists_ok ?k L" using K(1) by (simp add: lists_ok_def upd_pcb_def)
  moreover have "place_ok ?k L" using S(11) f by (auto simp: place_ok_def upd_pcb_def)
  moreover have "init_ok ?k L" using S(12) f by (auto simp: init_ok_def upd_pcb_def)
  moreover have "pids_ok (pcbs ?k) (last_pid ?k) (pools_live (pools ?k) pcb_pool)"
    unfolding upd_pcb_def by (simp, rule pids_ok_cong [OF S(13)]) (auto simp: f)
  moreover have "tree_ok ?k L" by (rule tree_ok_cong [OF K(3)]) (simp_all add: upd_pcb_def)
  moreover have "timer_ok ?k L"
    by (rule timer_ok_cong [OF K(4)])
      (use timer_okD [OF K(4)] S(4) f in \<open>auto simp: upd_pcb_def\<close>)
  moreover have "sem_ok ?k L"
    by (rule sem_ok_cong [OF K(5)]) (use S(4) f in \<open>auto simp: upd_pcb_def\<close>)
  moreover have "res_ok ?k L" by (rule res_ok_cong [OF K(6)]) (simp_all add: upd_pcb_def f)
  ultimately show ?thesis by (simp add: kinv_def sched_ok_def)
qed

section \<open>Allocation\<close>

text \<open>
  The invariant is about the objects in the lists: it survives whatever happens to blocks that
  were not in use, and numbers of descriptors that grow.
\<close>

lemma kinv_extend:
  assumes inv: "kinv k L" and rep: "list_rep (links k') (heads k') L"
    and loose: "\<And>y. loose (links k) L y \<Longrightarrow> loose (links k') L y"
    and pools: "pools_ok (pools k')" "\<And>i. pools_live (pools k) i \<subseteq> pools_live (pools k') i"
      "pools_live (pools k') pcb_pool = pools_live (pools k) pcb_pool"
      "pools_room (pools k') descriptor_pool = pools_room (pools k') descriptor_ptr_pool"
    and globals: "running k' = running k" "init_pcb k' = init_pcb k" "last_pid k' = last_pid k"
    and pcbs: "\<And>p. status (pcbs k' p) = status (pcbs k p)" "\<And>p. pid (pcbs k' p) = pid (pcbs k p)"
      "\<And>p. parent (pcbs k' p) = parent (pcbs k p)" "\<And>p. timer (pcbs k' p) = timer (pcbs k p)"
      "\<And>p. syscall_num (pcbs k' p) = syscall_num (pcbs k p)"
      "\<And>p. last_fd (pcbs k p) \<le> last_fd (pcbs k' p)"
      "\<And>p. last_sem_fd (pcbs k p) \<le> last_sem_fd (pcbs k' p)"
    and objects:
      "\<And>x. x \<in> pools_live (pools k) pcb_ptr_pool \<Longrightarrow> pcb_ptrs k' x = pcb_ptrs k x"
      "\<And>x. x \<in> pools_live (pools k) timer_pool \<Longrightarrow> timer_items k' x = timer_items k x"
      "\<And>x. x \<in> pools_live (pools k) resource_pool \<Longrightarrow> resources k' x = resources k x"
      "\<And>x. x \<in> pools_live (pools k) descriptor_pool \<Longrightarrow> descriptors k' x = descriptors k x"
      "\<And>x. x \<in> pools_live (pools k) descriptor_ptr_pool \<Longrightarrow> descriptor_ptrs k' x = descriptor_ptrs k x"
      "\<And>x. x \<in> pools_live (pools k) semaphore_pool \<Longrightarrow> semaphores k' x = semaphores k x"
      "\<And>x. x \<in> pools_live (pools k) sem_descriptor_pool \<Longrightarrow> sem_descriptors k' x = sem_descriptors k x"
      "\<And>x. x \<in> pools_live (pools k) sem_descriptor_ptr_pool \<Longrightarrow>
         sem_descriptor_ptrs k' x = sem_descriptor_ptrs k x"
  shows "kinv k' L"
proof -
  note K = kinvD [OF inv]
  note S = sched_okD [OF K(2)]
  note T = typed_listsD [OF K(9)]
  have "lists_ok k' L"
    using rep pools(1) typed_lists_mono [OF K(9) pools(2)] by (simp add: lists_ok_def)
  moreover have "place_ok k' L"
    using S(11) loose pools(3) by (simp add: place_ok_def globals pcbs)
  moreover have "init_ok k' L"
    using S(12) pools(3) by (simp add: init_ok_def globals pcbs)
  moreover have "pids_ok (pcbs k') (last_pid k') (pools_live (pools k') pcb_pool)"
    unfolding globals pools(3) by (rule pids_ok_cong [OF S(13)]) (rule pcbs(2))
  moreover have "tree_ok k' L"
  proof -
    have "pcb_ptrs k' x = pcb_ptrs k x" if "x \<in> set (L (PCB_children p))" for x p
      using T [OF that] objects(1) by simp
    then show ?thesis using K(3) unfolding tree_ok_def pools(3) by (metis (no_types, lifting))
  qed
  moreover have "timer_ok k' L"
  proof -
    have t: "timer_items k' t = timer_items k t" if "t \<in> set (L timer_list)" for t
      using T [OF that] objects(2) by simp
    have m: "map (\<lambda>t. awakening_time (timer_items k' t)) (L timer_list) =
        map (\<lambda>t. awakening_time (timer_items k t)) (L timer_list)" using t by simp
    show ?thesis
      using timer_okD [OF K(4)] t unfolding timer_ok_def m pools(3) by (simp add: pcbs inj_on_def)
  qed
  moreover have D: "sem_descriptors k' d = sem_descriptors k d"
    if "d \<in> set (L (PCB_sem_descriptors p))" for d p
    using T [OF that] objects(7) by simp
  moreover have P: "sem_descriptor_ptrs k' x = sem_descriptor_ptrs k x"
    "sem_descriptors k' (sem_descriptor_ptrs k x) = sem_descriptors k (sem_descriptor_ptrs k x)"
    if "x \<in> set (L (Semaphore_descriptors s)) \<or> x \<in> set (L (Semaphore_waiting s))" for x s
  proof -
    show "sem_descriptor_ptrs k' x = sem_descriptor_ptrs k x" using T that objects(8) by fastforce
    have "sem_descriptor_ptrs k x \<in> pools_live (pools k) sem_descriptor_pool"
      using that sem_ptrD(3) [OF K(5)] T [OF sem_waitingD(1) [OF K(5) _ refl refl]] by fastforce
    then show "sem_descriptors k' (sem_descriptor_ptrs k x) = sem_descriptors k (sem_descriptor_ptrs k x)"
      by (rule objects(7))
  qed
  moreover have "sem_links_ok k' L"
    unfolding sem_links_ok_def Let_def
  proof (intro conjI allI impI, goal_cases)
    case (1 p d)
    then show ?case using sem_descriptorD(1) [OF K(5) 1 refl] D by simp
  next
    case (2 p d)
    then show ?case using sem_descriptorD(2) [OF K(5) 2 refl] D by simp
  next
    case (3 p d)
    then show ?case using sem_descriptorD(3) [OF K(5) 3 refl] D by simp
  next
    case (4 p d)
    note W = sem_descriptorD(3,4) [OF K(5) this refl]
    show ?case using D [OF 4] W P(1) [of "sd_ptr (sem_descriptors k d)"] by auto
  next
    case (5 p d)
    show ?case using D [OF 5] sem_descriptorD(5) [OF K(5) 5 refl] pools(2) by auto
  next
    case (6 p d)
    show ?case using D [OF 6] sem_descriptorD(5,6) [OF K(5) 6 refl] objects(8) by auto
  next
    case (7 s x)
    show ?case using P [of x s] 7 sem_ptrD(1) [OF K(5) 7] by auto
  next
    case (8 s x)
    show ?case using P [of x s] 8 sem_ptrD(2) [OF K(5) 8] by auto
  next
    case (9 s x)
    show ?case using P [of x s] 9 sem_ptrD(3) [OF K(5) 9] pools(2) by auto
  next
    case (10 s x)
    show ?case by (rule sem_ptrD(4) [OF K(5) 10])
  qed
  moreover have "wait_ptrs_ok k' L"
    unfolding wait_ptrs_ok_def using sem_descriptorD(7) [OF K(5) _ refl] D loose by metis
  moreover have "sem_fds_ok k' L"
    unfolding sem_fds_ok_def
  proof (intro conjI allI impI, goal_cases)
    case (1 p d e)
    then show ?case using sem_fdD(1,2) [OF K(5), of d p e] D by auto
  next
    case (2 p d)
    then show ?case using sem_fdD(3) [OF K(5) 2 2] D by auto
  next
    case (3 p d)
    then show ?case using sem_fdD(4) [OF K(5) 3 3] D pcbs(7) [of p] by auto
  next
    case (4 p)
    then show ?case using sem_okD(3) [OF K(5)] pcbs(7) [of p] unfolding sem_fds_ok_def
      by (meson order_trans)
  qed
  moreover have "waiters_ok k' L"
    unfolding waiters_ok_def Let_def
  proof (intro allI impI, goal_cases)
    case (1 s x)
    with sem_waitingD(1-5) [OF K(5) 1 refl refl] P [of x s] show ?case by (simp add: pcbs)
  qed
  moreover have "owners_ok k' L"
    unfolding owners_ok_def using sem_waitingD(6) [OF K(5) _ refl refl] P by metis
  moreover have "queue_lengths_ok k' L"
    unfolding queue_lengths_ok_def
  proof
    fix s
    assume "s \<in> set (L semaphores_list)"
    with sem_queue_length [OF K(5) this] objects(6) [of s] T [OF this]
    show "int (length (L (Semaphore_waiting s))) \<le> max 0 (- sem_count (semaphores k' s))" by simp
  qed
  moreover have "sem_ids_ok k' L"
  proof -
    have "semaphores k' s = semaphores k s" if "s \<in> set (L semaphores_list)" for s
      using T [OF that] objects(6) by simp
    then show ?thesis using sem_okD(5) [OF K(5)] unfolding sem_ids_ok_def by (simp add: inj_on_def)
  qed
  moreover have "res_ok k' L"
  proof -
    have d: "descriptors k' d = descriptors k d" if "d \<in> set (L (PCB_descriptors p))" for d p
      using T [OF that] objects(4) by simp
    have x: "descriptor_ptrs k' x = descriptor_ptrs k x"
      if "x \<in> set (L (Resource_descriptors r))" for x r
      using T [OF that] objects(5) by simp
    have r: "resources k' r = resources k r" if "r \<in> set (L resources_list)" for r
      using T [OF that] objects(3) by simp
    note R = res_okD [OF K(6)]
    show ?thesis
      unfolding res_ok_def Let_def
    proof (intro conjI allI impI, goal_cases)
      case (4 p d)
      then show ?case using R(1) [OF 4] d [OF 4] x [of "d_ptr (descriptors k d)"] by auto
    next
      case (5 p d e)
      then show ?case using R(2) d by metis
    next
      case (7 p q)
      then show ?case using R(3) [OF 7] d [OF 7] pcbs(6) [of p] by simp
    next
      case (8 p)
      then show ?case using R(4) pcbs(6) [of p] by (meson order_trans)
    next
      case 9
      then show ?case using R(5) r by (simp add: inj_on_def)
    next
      case (10 r x)
      then show ?case by (rule R(7))
    qed (use R d pools(4) in simp_all)
  qed
  ultimately show ?thesis by (simp add: kinv_def sem_ok_def sem_queues_ok_def sched_ok_def)
qed

lemma alloc_exec:
  assumes inv: "lists_ok k L"
  obtains (empty) "pool_get k i = Inr (NULL, k)" "pools_room (pools k) i = 0"
  | (block) b ps lk where "pool_get k i = Inr (b, k\<lparr>pools := ps\<rparr>)" "b \<noteq> NULL"
      "\<And>j. b \<notin> pools_live (pools k) j" "pools_ok ps"
      "pools_live ps = (pools_live (pools k))(i := insert b (pools_live (pools k) i))"
      "0 < pools_room (pools k) i"
      "pools_room ps = (pools_room (pools k))(i := pools_room (pools k) i - 1)"
      "lk = (links k)(b := \<lparr>li_prev = NULL, li_next = NULL\<rparr>)"
      "list_rep lk (heads k) L" "loose lk L b" "\<And>y. loose (links k) L y \<Longrightarrow> loose lk L y"
      "\<And>h. b \<notin> set (L h)"
proof -
  note K = lists_okD [OF inv]
  show thesis
  proof (rule pool_get_exec [OF K(2), of i])
    assume "pool_get k i = Inr (NULL, k)" "pools_room (pools k) i = 0"
    then show thesis by (rule empty)
  next
    fix b ps
    assume a: "pool_get k i = Inr (b, k\<lparr>pools := ps\<rparr>)" "b \<noteq> NULL"
      "\<And>j. b \<notin> pools_live (pools k) j" "pools_ok ps"
      "pools_live ps = (pools_live (pools k))(i := insert b (pools_live (pools k) i))"
      "0 < pools_room (pools k) i"
      "pools_room ps = (pools_room (pools k))(i := pools_room (pools k) i - 1)"
    have out: "b \<notin> set (L h)" for h using a(3) typed_listsD [OF K(3)] by blast
    note N = null_links_exec [OF K(1) out a(2)]
    show thesis by (rule block [OF a refl N out])
  qed
qed

section \<open>Sequences of calls\<close>

text \<open>
  The state in which the handler of a call of the running process starts, for statements about
  one handler after another.
\<close>

definition called :: "int \<Rightarrow> (nat \<Rightarrow> int) \<Rightarrow> kernel \<Rightarrow> kernel" where
  "called n args k = upd_pcb (running k) (\<lambda>p. p\<lparr>syscall_args := args, syscall_num := n\<rparr>) k"

lemma kinv_called: "kinv k L \<Longrightarrow> kinv (called n args k) L"
  unfolding called_def by (rule kinv_call) simp_all

lemma called_sel [simp]:
  "running (called n args k) = running k" "syscall_arg (called n args k) i = args i"
  "pools (called n args k) = pools k" "semaphores (called n args k) = semaphores k"
  "sem_descriptors (called n args k) = sem_descriptors k" "descriptors (called n args k) = descriptors k"
  "resources (called n args k) = resources k"
  "last_sem_fd (pcbs (called n args k) p) = last_sem_fd (pcbs k p)"
  "last_fd (pcbs (called n args k) p) = last_fd (pcbs k p)"
  by (simp_all add: called_def syscall_arg_def)

end
