(* ===== verification/Kernel_Idle.thy ===== *)
theory Kernel_Idle
  imports Kernel_Inv
begin

text \<open>
  The invariant between two processes: while a handler has put the running process into a list
  and has not yet chosen the next one, every process is in a list. \<open>kinv_idle\<close> is the
  invariant with this clause in place of the one about the running process; parking the running
  process leads from \<open>kinv\<close> to it, picking a ready process leads back.
\<close>

definition idle_place_ok :: "kernel \<Rightarrow> (hloc \<Rightarrow> addr list) \<Rightarrow> bool" where
  "idle_place_ok k L \<longleftrightarrow>
     (\<forall>p \<in> set (L ready_list). status (pcbs k p) = Ready) \<and>
     (\<forall>p \<in> set (L waiting_list). status (pcbs k p) = Waiting) \<and>
     (\<forall>p \<in> set (L zombie_list). status (pcbs k p) = Zombie) \<and>
     (\<forall>p \<in> pools_live (pools k) pcb_pool.
        p \<in> set (L ready_list) \<or> p \<in> set (L waiting_list) \<or> p \<in> set (L zombie_list)) \<and>
     (\<forall>p. p \<notin> pools_live (pools k) pcb_pool \<longrightarrow> status (pcbs k p) \<noteq> Waiting)"

definition kinv_idle :: "kernel \<Rightarrow> (hloc \<Rightarrow> addr list) \<Rightarrow> bool" where
  "kinv_idle k L \<longleftrightarrow>
     lists_ok k L \<and> idle_place_ok k L \<and> init_ok k L \<and>
     pids_ok (pcbs k) (last_pid k) (pools_live (pools k) pcb_pool) \<and>
     tree_ok k L \<and> timer_ok k L \<and> sem_ok k L \<and> res_ok k L"

lemma kinv_idleD:
  assumes "kinv_idle k L"
  shows "lists_ok k L" "idle_place_ok k L" "init_ok k L"
    "pids_ok (pcbs k) (last_pid k) (pools_live (pools k) pcb_pool)"
    "tree_ok k L" "timer_ok k L" "sem_ok k L" "res_ok k L"
    "list_rep (links k) (heads k) L" "pools_ok (pools k)" "typed_lists (pools_live (pools k)) L"
  using assms by (auto simp: kinv_idle_def lists_ok_def)

lemma kinv_idle_running [simp]: "kinv_idle (k\<lparr>running := p\<rparr>) L = kinv_idle k L"
  unfolding kinv_idle_def lists_ok_def idle_place_ok_def init_ok_def tree_ok_def timer_ok_def
    sem_ok_def sem_links_ok_def wait_ptrs_ok_def sem_fds_ok_def sem_queues_ok_def waiters_ok_def
    owners_ok_def queue_lengths_ok_def sem_ids_ok_def res_ok_def
  by simp

text \<open>Picking the first ready process.\<close>

lemma pick_kinv:
  assumes inv: "kinv_idle k L" and r: "L ready_list = r # rs" and L': "L' = L(ready_list := rs)"
    and rep: "list_rep lk hds L'" and lr: "loose lk L' r"
    and loose: "\<And>a. loose (links k) L a \<Longrightarrow> loose lk L' a"
    and st: "st \<in> {Running, Ready}"
    and k': "k' = (upd_pcb r (\<lambda>p. p\<lparr>status := st\<rparr>) k)\<lparr>links := lk, heads := hds, running := r\<rparr>"
  shows "kinv k' L'"
proof -
  note K = kinv_idleD [OF inv]
  note R = list_repD [OF K(9)]
  have rr: "r \<in> set (L ready_list)" "r \<notin> set rs" using r R(3) [of ready_list] by simp_all
  have rl: "r \<in> pools_live (pools k) pcb_pool" using typed_listsD [OF K(11) rr(1)] by simp
  have rn: "r \<notin> set (L waiting_list)" "r \<notin> set (L zombie_list)" using R(2) rr(1) by blast+
  have "typed_lists (pools_live (pools k)) L'"
    unfolding L' by (rule typed_lists_sub, rule K(11)) (use r in auto)
  then have "lists_ok k' L'" using K(10) rep by (simp add: lists_ok_def k')
  moreover have "place_ok k' L'"
    using K(2) rr rl rn lr st r unfolding place_ok_def idle_place_ok_def by (auto simp: k' L')
  moreover have "init_ok k' L'" using K(3) by (auto simp: init_ok_def k' L')
  moreover have "pids_ok (pcbs k') (last_pid k') (pools_live (pools k') pcb_pool)"
    by (simp add: k') (rule pids_ok_cong [OF K(4)], auto)
  moreover have "tree_ok k' L'" by (rule tree_ok_cong [OF K(5)]) (simp_all add: k' L')
  moreover have "timer_ok k' L'"
    by (rule timer_ok_cong [OF K(6)]) (use timer_okD [OF K(6)] in \<open>auto simp: k' L'\<close>)
  moreover have "sem_ok k' L'"
    by (rule sem_ok_cong [OF K(7)]) (use loose in \<open>auto simp: k' L'\<close>)
  moreover have "res_ok k' L'" by (rule res_ok_cong [OF K(8)]) (simp_all add: k' L')
  ultimately show ?thesis by (simp add: kinv_def sched_ok_def)
qed

lemma pick_exec:
  assumes inv: "kinv_idle k L" and r: "L ready_list = r # rs"
  obtains lk hds where "lh_first (heads k ready_list) = r" "r \<noteq> NULL"
    "List_detach k ready_list r = Inr (r, k\<lparr>links := lk, heads := hds\<rparr>)"
    "kinv (k\<lparr>links := lk, heads := hds, running := r\<rparr>) (L(ready_list := rs))"
    "kinv ((upd_pcb r (\<lambda>p. p\<lparr>status := Running\<rparr>) (k\<lparr>links := lk, heads := hds\<rparr>))\<lparr>running := r\<rparr>)
       (L(ready_list := rs))"
proof -
  note K = kinv_idleD [OF inv]
  obtain lk hds where
    d: "lh_first (heads k ready_list) = r" "r \<noteq> NULL"
      "List_detach k ready_list r = Inr (r, k\<lparr>links := lk, heads := hds\<rparr>)"
      "list_rep lk hds (L(ready_list := rs))" "loose lk (L(ready_list := rs)) r"
      "\<forall>a. loose (links k) L a \<longrightarrow> loose lk (L(ready_list := rs)) a"
    using detach_first_exec [where k = k, OF K(9) r] by blast
  have P: "kinv ((upd_pcb r (\<lambda>p. p\<lparr>status := st\<rparr>) k)\<lparr>links := lk, heads := hds, running := r\<rparr>)
      (L(ready_list := rs))" if "st \<in> {Running, Ready}" for st
    by (rule pick_kinv [OF inv r refl d(4,5) _ that refl]) (use d(6) in simp)
  have "status (pcbs k r) = Ready" using K(2) r by (simp add: idle_place_ok_def)
  then have "upd_pcb r (\<lambda>p. p\<lparr>status := Ready\<rparr>) k = k" by (simp add: upd_pcb_def fun_upd_idem)
  with P [of Ready] have "kinv (k\<lparr>links := lk, heads := hds, running := r\<rparr>) (L(ready_list := rs))"
    by simp
  moreover have "(upd_pcb r (\<lambda>p. p\<lparr>status := Running\<rparr>) k)\<lparr>links := lk, heads := hds, running := r\<rparr> =
      (upd_pcb r (\<lambda>p. p\<lparr>status := Running\<rparr>) (k\<lparr>links := lk, heads := hds\<rparr>))\<lparr>running := r\<rparr>"
    by (simp add: upd_pcb_def)
  with P [of Running] have "kinv ((upd_pcb r (\<lambda>p. p\<lparr>status := Running\<rparr>)
      (k\<lparr>links := lk, heads := hds\<rparr>))\<lparr>running := r\<rparr>) (L(ready_list := rs))" by simp
  ultimately show thesis using that d(1-3) by blast
qed

text \<open>Parking the running process in the waiting list.\<close>

lemma park_kinv:
  assumes inv: "kinv k L" and L': "L' = L(waiting_list := L waiting_list @ [running k])"
    and rep: "list_rep lk hds L'"
    and loose: "\<And>a. loose (links k) L a \<Longrightarrow> a \<noteq> running k \<Longrightarrow> loose lk L' a"
    and k': "k' = (upd_pcb (running k) (\<lambda>p. p\<lparr>status := Waiting\<rparr>) k)\<lparr>links := lk, heads := hds\<rparr>"
  shows "kinv_idle k' L'"
proof -
  note K = kinvD [OF inv]
  note S = sched_okD [OF K(2)]
  have "typed_lists (pools_live (pools k)) L'"
    unfolding L' by (rule typed_lists_add [where x = "running k"], rule K(9)) (use S(1) in auto)
  then have "lists_ok k' L'" using K(8) rep by (simp add: lists_ok_def k')
  moreover have "idle_place_ok k' L'"
    using S(1,11) S(4) [of ready_list] S(4) [of zombie_list]
    unfolding place_ok_def idle_place_ok_def by (auto simp: k' L')
  moreover have "init_ok k' L'" using S(12) by (auto simp: init_ok_def k' L')
  moreover have "pids_ok (pcbs k') (last_pid k') (pools_live (pools k') pcb_pool)"
    by (simp add: k') (rule pids_ok_cong [OF S(13)], auto)
  moreover have "tree_ok k' L'" by (rule tree_ok_cong [OF K(3)]) (simp_all add: k' L')
  moreover have "timer_ok k' L'"
    by (rule timer_ok_cong [OF K(4)]) (use timer_okD [OF K(4)] in \<open>auto simp: k' L'\<close>)
  moreover have "sem_ok k' L'"
  proof (rule sem_ok_cong [OF K(5)])
    fix p d
    assume d: "d \<in> set (L (PCB_sem_descriptors p))"
      and l: "loose (links k) L (sd_wait_ptr (sem_descriptors k d))"
    have "sd_wait_ptr (sem_descriptors k d) \<noteq> running k"
      using pools_live_disjoint [OF K(8) S(1), of sem_descriptor_ptr_pool]
        sem_descriptorD(5) [OF K(5) d refl] by auto
    with loose [OF l] show "loose (links k') L' (sd_wait_ptr (sem_descriptors k d))"
      by (simp add: k')
  qed (auto simp: k' L')
  moreover have "res_ok k' L'" by (rule res_ok_cong [OF K(6)]) (simp_all add: k' L')
  ultimately show ?thesis by (simp add: kinv_idle_def)
qed

lemma park_exec:
  assumes inv: "kinv k L"
  obtains lk hds where
    "List_insert (upd_pcb (running k) (\<lambda>p. p\<lparr>status := Waiting\<rparr>) k) waiting_list
       (lh_last (heads k waiting_list)) (running k) =
     Inr (running k, (upd_pcb (running k) (\<lambda>p. p\<lparr>status := Waiting\<rparr>) k)\<lparr>links := lk, heads := hds\<rparr>)"
    "kinv_idle ((upd_pcb (running k) (\<lambda>p. p\<lparr>status := Waiting\<rparr>) k)\<lparr>links := lk, heads := hds\<rparr>)
       (L(waiting_list := L waiting_list @ [running k]))"
proof -
  let ?k = "upd_pcb (running k) (\<lambda>p. p\<lparr>status := Waiting\<rparr>) k"
  note K = kinvD [OF inv]
  have t: "list_rep (links ?k) (heads ?k) L" "loose (links ?k) L (running k)"
    using K(7) sched_okD(2) [OF K(2)] by simp_all
  obtain lk hds where
    a: "List_insert ?k waiting_list (lh_last (heads ?k waiting_list)) (running k) =
        Inr (running k, ?k\<lparr>links := lk, heads := hds\<rparr>)"
      "list_rep lk hds (L(waiting_list := L waiting_list @ [running k]))"
      "\<forall>a. loose (links ?k) L a \<longrightarrow> a \<noteq> running k \<longrightarrow>
         loose lk (L(waiting_list := L waiting_list @ [running k])) a"
    using append_exec [where k = ?k, OF t, of waiting_list] by blast
  have "kinv_idle (?k\<lparr>links := lk, heads := hds\<rparr>) (L(waiting_list := L waiting_list @ [running k]))"
    by (rule park_kinv [OF inv refl a(2) _ refl]) (use a(3) in simp)
  with a(1) show thesis by (intro that) simp_all
qed

end
