(* ===== verification/Process_Correct.thy ===== *)
theory Process_Correct
  imports Process Kernel_Idle
begin

text \<open>
  The operations of \<open>Process\<close> on kernels that satisfy the invariant. The first part
  is about making a process, which \<open>fork\<close>, \<open>spawn\<close> and the start of the
  system share.
\<close>

section \<open>Making a process\<close>

lemma PCB_alloc_exec:
  assumes lists: "lists_ok k L"
    and pids: "pids_ok (pcbs k) (last_pid k) (pools_live (pools k) pcb_pool)"
    and parts: "tree_ok k L" "timer_ok k L" "sem_ok k L" "res_ok k L"
  obtains (full) "PCB_alloc k = Inl Null_deref" "pools_room (pools k) pcb_pool = 0"
  | (overflow) "PCB_alloc k = Inl Signed_overflow" "\<not> in_int_range (last_pid k + 1)"
  | (new) p k1 L1 where "PCB_alloc k = Inr (p, k1)" "p \<noteq> NULL"
      "\<And>i. p \<notin> pools_live (pools k) i"
      "L1 = L(PCB_descriptors p := [], PCB_children p := [], PCB_sem_descriptors p := [])"
      "lists_ok k1 L1" "pids_ok (pcbs k1) (last_pid k1) (pools_live (pools k1) pcb_pool)"
      "tree_ok k1 L1" "timer_ok k1 L1" "sem_ok k1 L1" "res_ok k1 L1"
      "pools_room (pools k1) = (pools_room (pools k))
         (pcb_pool := pools_room (pools k) pcb_pool - 1)"
      "pools_live (pools k1) = (pools_live (pools k))
         (pcb_pool := insert p (pools_live (pools k) pcb_pool))"
      "\<And>q. q \<noteq> p \<Longrightarrow> pcbs k1 q = pcbs k q" "pid (pcbs k1 p) = last_pid k"
      "parent (pcbs k1 p) = NULL" "status (pcbs k1 p) = Invalid" "last_pid k1 = last_pid k + 1"
      "in_int_range (last_pid k + 1)" "running k1 = running k" "init_pcb k1 = init_pcb k"
      "loose (links k1) L1 p" "\<And>a. loose (links k) L a \<Longrightarrow> loose (links k1) L1 a"
      "shutdown_now k1 = shutdown_now k" "semaphores k1 = semaphores k"
      "disastrOS_time k1 = disastrOS_time k" "pcb_ptrs k1 = pcb_ptrs k"
      "cpu_state (pcbs k1 p) = cpu_state (pcbs k p)" "0 < pools_room (pools k) pcb_pool"
proof (rule alloc_exec [OF lists, of pcb_pool])
  assume "pool_get k pcb_pool = Inr (NULL, k)" "pools_room (pools k) pcb_pool = 0"
  then show thesis by (intro full) (simp add: PCB_alloc_def)
next
  fix p ps lk
  assume a: "pool_get k pcb_pool = Inr (p, k\<lparr>pools := ps\<rparr>)" "p \<noteq> NULL"
    "\<And>j. p \<notin> pools_live (pools k) j" "pools_ok ps"
    "pools_live ps = (pools_live (pools k))(pcb_pool := insert p (pools_live (pools k) pcb_pool))"
    "pools_room ps = (pools_room (pools k))(pcb_pool := pools_room (pools k) pcb_pool - 1)"
    "lk = (links k)(p := \<lparr>li_prev = NULL, li_next = NULL\<rparr>)"
    "list_rep lk (heads k) L" "loose lk L p" "\<And>y. loose (links k) L y \<Longrightarrow> loose lk L y"
    "\<And>h. p \<notin> set (L h)"
  assume free: "0 < pools_room (pools k) pcb_pool"
  note T = typed_listsD [OF lists_okD(3) [OF lists]]
  show thesis
  proof (cases "in_int_range (last_pid k + 1)")
    case False
    then have "PCB_alloc k = Inl Signed_overflow" using a(1,2) by (simp add: PCB_alloc_def)
    with False show thesis by (intro overflow)
  next
    case range: True
    define null where "null = \<lparr>lh_first = NULL, lh_last = NULL, lh_size = 0\<rparr>"
    define hd1 where "hd1 = (heads k)(PCB_descriptors p := null, PCB_children p := null,
      PCB_sem_descriptors p := null)"
    define x where "x = (pcbs k p)\<lparr>pid := last_pid k, return_value := 0, status := Invalid,
      last_fd := 0, signals := 0, signals_mask := int_of_long 0xFFFFFFFF, parent := NULL,
      timer := NULL, last_sem_fd := 0\<rparr>"
    define k1 where "k1 = k\<lparr>heads := hd1, pools := ps, links := lk, last_pid := last_pid k + 1,
      pcbs := (pcbs k)(p := x)\<rparr>"
    define L1 where
      "L1 = L(PCB_descriptors p := [], PCB_children p := [], PCB_sem_descriptors p := [])"
    have run: "PCB_alloc k = Inr (p, k1)"
      using a(1,2) range
      by (simp add: PCB_alloc_def null_links_def List_init_def Let_def k1_def hd1_def null_def
          x_def upd_pcb_def a(7))
    have rep: "list_rep lk hd1 L1"
      unfolding hd1_def null_def L1_def by (intro head_init_exec(1) a(8))
    have loose: "loose lk L1 b" if "loose (links k) L b \<or> b = p" for b
      using a(9,10) that unfolding L1_def by (auto intro!: head_init_exec(2) [OF a(8)] simp: loose_def)
    have sub: "set (L1 h) \<subseteq> set (L h)" for h by (simp add: L1_def)
    have sel: "links k1 = lk" "heads k1 = hd1" "pools k1 = ps" "running k1 = running k"
      "pcb_ptrs k1 = pcb_ptrs k" "timer_items k1 = timer_items k" "resources k1 = resources k"
      "descriptors k1 = descriptors k" "descriptor_ptrs k1 = descriptor_ptrs k"
      "semaphores k1 = semaphores k" "sem_descriptors k1 = sem_descriptors k"
      "sem_descriptor_ptrs k1 = sem_descriptor_ptrs k" "init_pcb k1 = init_pcb k"
      "last_pid k1 = last_pid k + 1" "shutdown_now k1 = shutdown_now k"
      "disastrOS_time k1 = disastrOS_time k" by (simp_all add: k1_def)
    have pc: "pcbs k1 q = pcbs k q" if "q \<noteq> p" for q using that by (simp add: k1_def)
    have pp: "pcbs k1 p = x" by (simp add: k1_def)
    have wl: "q \<noteq> p" if "q \<in> set (L waiting_list)" for q using that a(11) by auto
    have typed: "typed_lists (pools_live ps) L1"
      unfolding typed_lists_def a(5)
    proof (intro allI)
      fix h
      show "set (L1 h) \<subseteq> ((pools_live (pools k))
          (pcb_pool := insert p (pools_live (pools k) pcb_pool))) (kind h)"
        using sub [of h] T [of _ h] by auto
    qed
    note M = parts(3)
    have W: "sd_pcb (sem_descriptors k (sem_descriptor_ptrs k z)) \<noteq> p"
      if "z \<in> set (L (Semaphore_waiting s))" for z s
      using wl sem_waitingD(4) [OF M that refl refl] by blast
    have "sem_links_ok k1 L1"
      using sem_okD(1) [OF M] a(3) [of sem_descriptor_pool] a(3) [of sem_descriptor_ptr_pool]
      unfolding sem_links_ok_def sel a(5) by (auto simp: L1_def Let_def)
    moreover have "wait_ptrs_ok k1 L1"
      using sem_okD(2) [OF M] loose unfolding wait_ptrs_ok_def sel by (auto simp: L1_def)
    moreover have "sem_fds_ok k1 L1"
      using sem_okD(3) [OF M] unfolding sem_fds_ok_def sel by (auto simp: L1_def k1_def x_def)
    moreover have "waiters_ok k1 L1"
      using sem_okD(4) [OF M] W wl unfolding sem_queues_ok_def waiters_ok_def sel Let_def
      by (auto simp: L1_def pc)
    moreover have "owners_ok k1 L1" "queue_lengths_ok k1 L1"
      using sem_okD(4) [OF M]
      unfolding sem_queues_ok_def owners_ok_def queue_lengths_ok_def sel
      by (simp_all add: L1_def)
    moreover have "sem_ids_ok k1 L1"
      by (rule sem_ids_ok_cong [OF sem_okD(5) [OF M]]) (simp_all add: sel L1_def)
    ultimately have sem: "sem_ok k1 L1" by (simp add: sem_ok_def sem_queues_ok_def)
    have res: "res_ok k1 L1"
      using parts(4) unfolding res_ok_def sel a(6) Let_def by (auto simp: L1_def k1_def x_def)
    show thesis
    proof (rule new [OF run a(2,3) L1_def])
      show "lists_ok k1 L1" using rep a(4) typed by (simp add: lists_ok_def sel)
      show "pids_ok (pcbs k1) (last_pid k1) (pools_live (pools k1) pcb_pool)"
        using pids a(3) [of pcb_pool] unfolding pids_ok_def inj_on_def sel a(5)
        by (auto simp: k1_def x_def)
      show "tree_ok k1 L1"
        using parts(1) a(3) [of pcb_pool] unfolding tree_ok_def sel a(5) by (auto simp: L1_def)
      show "timer_ok k1 L1"
        using parts(2) wl timer_okD(1) [OF parts(2)] unfolding timer_ok_def sel a(5)
        by (auto simp: L1_def k1_def x_def)
      show "sem_ok k1 L1" by (rule sem)
      show "res_ok k1 L1" by (rule res)
    qed (use loose range a(5,6) pc free in \<open>simp_all add: sel pp x_def\<close>)
  qed
qed


text \<open>
  What \<open>fork\<close> and \<open>spawn\<close> do alike: the new process is ready, the
  running process is its parent and holds an item for it.
\<close>

lemma born_kinv:
  assumes inv: "kinv k L" and lists: "lists_ok k1 L1"
    and pids: "pids_ok (pcbs k1) (last_pid k1) (pools_live (pools k1) pcb_pool)"
    and parts: "tree_ok k1 L1" "timer_ok k1 L1" "sem_ok k1 L1" "res_ok k1 L1"
    and p: "p \<noteq> NULL" "\<And>i. p \<notin> pools_live (pools k) i"
    and L1: "L1 = L(PCB_descriptors p := [], PCB_children p := [], PCB_sem_descriptors p := [])"
    and live: "pools_live (pools k1) = (pools_live (pools k))
         (pcb_pool := insert p (pools_live (pools k) pcb_pool))"
    and pc: "\<And>q. q \<noteq> p \<Longrightarrow> pcbs k1 q = pcbs k q"
    and globals: "running k1 = running k" "init_pcb k1 = init_pcb k" "pcb_ptrs k1 = pcb_ptrs k"
    and x: "\<And>h. x \<notin> set (L1 h)" "\<And>i. x \<notin> pools_live (pools k1) i"
    and ps: "pools_ok ps" "pools_live ps = (pools_live (pools k1))
         (pcb_ptr_pool := insert x (pools_live (pools k1) pcb_ptr_pool))"
      "\<And>i. i \<noteq> pcb_ptr_pool \<Longrightarrow> pools_room ps i = pools_room (pools k1) i"
    and L5: "L5 = L1(PCB_children (running k) := L1 (PCB_children (running k)) @ [x],
         ready_list := L1 ready_list @ [p])"
    and rep: "list_rep lk hds L5"
    and loose: "\<And>a. loose (links k) L a \<Longrightarrow> a \<noteq> x \<Longrightarrow> a \<noteq> p \<Longrightarrow> loose lk L5 a"
      "\<And>a. loose (links k1) L1 a \<Longrightarrow> a \<noteq> x \<Longrightarrow> a \<noteq> p \<Longrightarrow> loose lk L5 a"
    and k5: "k5 = (upd_pcb p (\<lambda>q. q\<lparr>status := Ready, parent := running k\<rparr>) k1)
         \<lparr>links := lk, heads := hds, pools := ps, pcb_ptrs := (pcb_ptrs k1)(x := p)\<rparr>"
  shows "kinv k5 L5"
proof -
  note K = kinvD [OF inv]
  note S = sched_okD [OF K(2)]
  note D = pools_live_disjoint
  have pr: "p \<noteq> running k" "p \<noteq> init_pcb k" using p(2) S(1,7) by blast+
  have rl: "running k \<in> pools_live (pools k1) pcb_pool" "p \<in> pools_live (pools k1) pcb_pool"
    using S(1) by (simp_all add: live)
  have xr: "running k \<noteq> x" using x(2) rl(1) by blast
  have pl: "p \<notin> set (L h)" for h using p(2) typed_listsD [OF K(9)] by blast
  have "typed_lists (pools_live ps) L5"
    unfolding L5
    by (intro typed_lists_add [where x = x] typed_lists_add [where x = p]
        typed_lists_mono [OF lists_okD(3) [OF lists]]) (auto simp: ps(2) live)
  then have "lists_ok k5 L5" using rep ps(1) by (simp add: lists_ok_def k5)
  moreover have "place_ok k5 L5"
    using S(11) p(2) pr pl [of waiting_list] pl [of zombie_list] loose(1) [OF S(2) xr pr(1) [symmetric]]
    unfolding place_ok_def k5 L5 L1 by (auto simp: pc globals ps(2) live)
  moreover have "init_ok k5 L5"
    using S(12) pr pl [of zombie_list] unfolding init_ok_def k5 L5 L1
    by (auto simp: pc globals ps(2) live)
  moreover have "pids_ok (pcbs k5) (last_pid k5) (pools_live (pools k5) pcb_pool)"
    by (simp add: k5 ps(2)) (rule pids_ok_cong [OF pids], auto)
  moreover have "tree_ok k5 L5"
  proof -
    have old: "pcb_ptrs k1 y \<noteq> p" if "y \<in> set (L1 (PCB_children q))" for y q
      using that K(3) p(2) [of pcb_pool] unfolding tree_ok_def globals(3) L1
      by (auto split: if_splits)
    have zr: "running k \<notin> set (L1 zombie_list)" using S(4) by (simp add: L1)
    show ?thesis
      using parts(1) old x(1) rl zr p unfolding tree_ok_def k5 L5
      by (auto simp: ps(2))
  qed
  moreover have "timer_ok k5 L5"
    by (rule timer_ok_cong [OF parts(2)])
      (use timer_okD [OF parts(2)] pl [of waiting_list] in \<open>auto simp: k5 L5 ps(2) L1\<close>)
  moreover have "sem_ok k5 L5"
  proof (rule sem_ok_cong [OF parts(3)])
    fix q d
    assume d: "d \<in> set (L1 (PCB_sem_descriptors q))"
      and l: "loose (links k1) L1 (sd_wait_ptr (sem_descriptors k1 d))"
    note w = sem_descriptorD(5) [OF parts(3) d refl]
    have "sd_wait_ptr (sem_descriptors k1 d) \<noteq> p"
      using D [OF lists_okD(2) [OF lists] rl(2), of sem_descriptor_ptr_pool] w by auto
    moreover have "sd_wait_ptr (sem_descriptors k1 d) \<noteq> x" using w x(2) by auto
    ultimately show "loose (links k5) L5 (sd_wait_ptr (sem_descriptors k1 d))"
      using loose(2) [OF l] by (simp add: k5)
  qed (auto simp: k5 L5 ps(2))
  moreover have "res_ok k5 L5"
    using parts(4) ps(3) [of descriptor_pool] ps(3) [of descriptor_ptr_pool]
    unfolding res_ok_def k5 L5 by (auto simp: Let_def)
  ultimately show ?thesis by (simp add: kinv_def sched_ok_def)
qed


lemma make_child_exec:
  assumes inv: "kinv k L"
  obtains (failed) e where "internal_fork k = Inl e" "internal_spawn k = Inl e"
      "pools_room (pools k) pcb_pool = 0 \<or> pools_room (pools k) pcb_ptr_pool = 0 \<or>
       \<not> in_int_range (last_pid k + 1)" "e \<in> {Null_deref, Signed_overflow}"
      "in_int_range (last_pid k + 1) \<Longrightarrow> e = Null_deref"
  | (made) p x k' L' where
      "internal_fork k = Inr (set_retvalue (pid (pcbs k' p)) k')"
      "internal_spawn k = Inr (let k6 = set_retvalue (pid (pcbs k' p)) k' in
         upd_pcb p (\<lambda>q. q\<lparr>cpu_state := Fresh_context (syscall_arg k6 0) (syscall_arg k6 1)\<rparr>) k6)"
      "kinv k' L'" "p \<notin> pools_live (pools k) pcb_pool" "x \<notin> pools_live (pools k) pcb_ptr_pool"
      "L' = L(PCB_descriptors p := [], PCB_children p := [], PCB_sem_descriptors p := [],
         PCB_children (running k) := L (PCB_children (running k)) @ [x],
         ready_list := L ready_list @ [p])"
      "pools_live (pools k') pcb_pool = insert p (pools_live (pools k) pcb_pool)"
      "\<And>q. q \<noteq> p \<Longrightarrow> pcbs k' q = pcbs k q" "pid (pcbs k' p) = last_pid k"
      "last_pid k' = last_pid k + 1"
      "parent (pcbs k' p) = running k" "status (pcbs k' p) = Ready" "running k' = running k"
      "pcb_ptrs k' = (pcb_ptrs k)(x := p)" "p \<noteq> running k"
      "cpu_state (pcbs k' p) = cpu_state (pcbs k p)" "init_pcb k' = init_pcb k"
      "pools_room (pools k') = (pools_room (pools k))(pcb_pool := pools_room (pools k) pcb_pool - 1,
         pcb_ptr_pool := pools_room (pools k) pcb_ptr_pool - 1)"
      "0 < pools_room (pools k) pcb_pool" "0 < pools_room (pools k) pcb_ptr_pool"
proof -
  note K = kinvD [OF inv]
  note S = sched_okD [OF K(2)]
  show thesis
  proof (rule PCB_alloc_exec [OF K(1) S(13) K(3-6)])
    assume "PCB_alloc k = Inl Null_deref" "pools_room (pools k) pcb_pool = 0"
    then show thesis
      by (intro failed [of Null_deref]) (simp_all add: internal_fork_def internal_spawn_def)
  next
    assume "PCB_alloc k = Inl Signed_overflow" "\<not> in_int_range (last_pid k + 1)"
    then show thesis
      by (intro failed [of Signed_overflow]) (simp_all add: internal_fork_def internal_spawn_def)
  next
    fix p k1 L1
    assume a: "PCB_alloc k = Inr (p, k1)" "p \<noteq> NULL" "\<And>i. p \<notin> pools_live (pools k) i"
      and L1: "L1 = L(PCB_descriptors p := [], PCB_children p := [], PCB_sem_descriptors p := [])"
      and lists: "lists_ok k1 L1"
      and pids: "pids_ok (pcbs k1) (last_pid k1) (pools_live (pools k1) pcb_pool)"
      and parts: "tree_ok k1 L1" "timer_ok k1 L1" "sem_ok k1 L1" "res_ok k1 L1"
      and room: "pools_room (pools k1) =
        (pools_room (pools k))(pcb_pool := pools_room (pools k) pcb_pool - 1)"
      and live: "pools_live (pools k1) =
        (pools_live (pools k))(pcb_pool := insert p (pools_live (pools k) pcb_pool))"
      and pc: "\<And>q. q \<noteq> p \<Longrightarrow> pcbs k1 q = pcbs k q"
      and pp: "pid (pcbs k1 p) = last_pid k" "last_pid k1 = last_pid k + 1"
      and globals: "running k1 = running k" "init_pcb k1 = init_pcb k"
      and loose: "loose (links k1) L1 p" "\<And>a. loose (links k) L a \<Longrightarrow> loose (links k1) L1 a"
      and ptrs: "pcb_ptrs k1 = pcb_ptrs k"
    assume cpu: "cpu_state (pcbs k1 p) = cpu_state (pcbs k p)"
    assume free: "0 < pools_room (pools k) pcb_pool"
    have pr: "p \<noteq> running k" "running k \<noteq> NULL" using a(3) S(1,3) by blast+
    define k2 where "k2 = upd_pcb p (\<lambda>q. q\<lparr>status := Ready, parent := running k\<rparr>) k1"
    have lists2: "lists_ok k2 L1" using lists by (simp add: lists_ok_def k2_def)
    show thesis
    proof (rule alloc_exec [OF lists2, of pcb_ptr_pool])
      assume "pool_get k2 pcb_ptr_pool = Inr (NULL, k2)" "pools_room (pools k2) pcb_ptr_pool = 0"
      then show thesis using a(1,2) room globals(1)
        by (intro failed [of Null_deref])
          (simp_all add: internal_fork_def internal_spawn_def PCBPtr_alloc_def k2_def)
    next
      fix x ps lk
      assume b: "pool_get k2 pcb_ptr_pool = Inr (x, k2\<lparr>pools := ps\<rparr>)" "x \<noteq> NULL"
        "\<And>j. x \<notin> pools_live (pools k2) j" "pools_ok ps"
        "pools_live ps =
          (pools_live (pools k2))(pcb_ptr_pool := insert x (pools_live (pools k2) pcb_ptr_pool))"
        "pools_room ps =
          (pools_room (pools k2))(pcb_ptr_pool := pools_room (pools k2) pcb_ptr_pool - 1)"
        "lk = (links k2)(x := \<lparr>li_prev = NULL, li_next = NULL\<rparr>)"
        "list_rep lk (heads k2) L1" "loose lk L1 x"
        "\<And>y. loose (links k2) L1 y \<Longrightarrow> loose lk L1 y" "\<And>h. x \<notin> set (L1 h)"
      assume free_ptr: "0 < pools_room (pools k2) pcb_ptr_pool"
      define k3 where "k3 = k2\<lparr>pools := ps, links := lk, pcb_ptrs := (pcb_ptrs k2)(x := p)\<rparr>"
      have k3: "PCBPtr_alloc k2 p = Inr (x, k3)"
        using b(1,2) by (simp add: PCBPtr_alloc_def null_links_def k3_def b(7))
      let ?h = "PCB_children (running k)"
      have t3: "list_rep (links k3) (heads k3) L1" "loose (links k3) L1 x"
        using b(8,9) by (simp_all add: k3_def)
      obtain lk4 hd4 where c:
        "List_insert k3 ?h (lh_last (heads k3 ?h)) x = Inr (x, k3\<lparr>links := lk4, heads := hd4\<rparr>)"
        "list_rep lk4 hd4 (L1(?h := L1 ?h @ [x]))"
        "\<And>y. loose (links k3) L1 y \<Longrightarrow> y \<noteq> x \<Longrightarrow> loose lk4 (L1(?h := L1 ?h @ [x])) y"
        using append_exec [where k = k3, OF t3, of ?h] by blast
      define k4 where "k4 = k3\<lparr>links := lk4, heads := hd4\<rparr>"
      let ?L4 = "L1(?h := L1 ?h @ [x])"
      have xp: "p \<noteq> x" using b(3) [of pcb_pool] live by (auto simp: k2_def)
      have lp: "loose lk4 ?L4 p"
        by (rule c(3)) (use loose(1) b(10) xp in \<open>simp_all add: k2_def k3_def\<close>)
      have t4: "list_rep (links k4) (heads k4) ?L4" "loose (links k4) ?L4 p"
        using c(2) lp by (simp_all add: k4_def)
      obtain lk5 hd5 where d:
        "List_insert k4 ready_list (lh_last (heads k4 ready_list)) p =
           Inr (p, k4\<lparr>links := lk5, heads := hd5\<rparr>)"
        "list_rep lk5 hd5 (?L4(ready_list := ?L4 ready_list @ [p]))"
        "\<And>y. loose (links k4) ?L4 y \<Longrightarrow> y \<noteq> p \<Longrightarrow>
           loose lk5 (?L4(ready_list := ?L4 ready_list @ [p])) y"
        using append_exec [where k = k4, OF t4, of ready_list] by blast
      define k5 where "k5 = k4\<lparr>links := lk5, heads := hd5\<rparr>"
      define L5 where "L5 = ?L4(ready_list := L1 ready_list @ [p])"
      have L5: "?L4(ready_list := ?L4 ready_list @ [p]) = L5" by (simp add: L5_def)
      have go: "loose lk5 L5 y" if "loose (links k1) L1 y" "y \<noteq> x" "y \<noteq> p" for y
        using d(3) [of y] c(3) [of y] b(10) [of y] that unfolding L5
        by (simp add: k4_def k3_def k2_def)
      have k5: "k5 = (upd_pcb p (\<lambda>q. q\<lparr>status := Ready, parent := running k\<rparr>) k1)
          \<lparr>links := lk5, heads := hd5, pools := ps, pcb_ptrs := (pcb_ptrs k1)(x := p)\<rparr>"
        by (simp add: k5_def k4_def k3_def k2_def upd_pcb_def)
      have inv5: "kinv k5 L5"
      proof (rule born_kinv [OF inv lists pids parts a(2,3) L1 live pc globals ptrs b(11) _ b(4)
            _ _ L5_def d(2) [unfolded L5] _ go k5])
        show "x \<notin> pools_live (pools k1) i" for i using b(3) [of i] by (simp add: k2_def)
        show "loose lk5 L5 y" if "loose (links k) L y" "y \<noteq> x" "y \<noteq> p" for y
          by (rule go [OF loose(2) [OF that(1)] that(2,3)])
      qed (use b(5,6) in \<open>simp_all add: k2_def\<close>)
      have k3': "PCBPtr_alloc (upd_pcb p (\<lambda>q. q\<lparr>status := Ready, parent := running k\<rparr>) k1) p =
          Inr (x, k3)" using k3 by (simp add: k2_def)
      have r3: "running k3 = running k" "running k4 = running k"
        by (simp_all add: k4_def k3_def k2_def globals)
      have d': "List_insert (k3\<lparr>links := lk4, heads := hd4\<rparr>) ready_list
          (lh_last (hd4 ready_list)) p = Inr (p, k5)" using d(1) by (simp add: k4_def k5_def)
      show thesis
      proof (rule made [of k5 p])
        show "internal_fork k = Inr (set_retvalue (pid (pcbs k5 p)) k5)"
          using a(1,2) k3' b(2) pr(2) c(1) d'
          by (simp add: internal_fork_def globals r3)
        show "internal_spawn k = Inr (let k6 = set_retvalue (pid (pcbs k5 p)) k5 in
            upd_pcb p (\<lambda>q. q\<lparr>cpu_state := Fresh_context (syscall_arg k6 0) (syscall_arg k6 1)\<rparr>) k6)"
          using a(1,2) k3' b(2) pr(2) c(1) d'
          by (simp add: internal_spawn_def globals r3 Let_def)
        show "kinv k5 L5" by (rule inv5)
        show "p \<notin> pools_live (pools k) pcb_pool" by (rule a(3))
        show "x \<notin> pools_live (pools k) pcb_ptr_pool"
          using b(3) [of pcb_ptr_pool] live by (simp add: k2_def)
        show "L5 = L(PCB_descriptors p := [], PCB_children p := [], PCB_sem_descriptors p := [],
            PCB_children (running k) := L (PCB_children (running k)) @ [x],
            ready_list := L ready_list @ [p])"
          using pr(1) by (simp add: L5_def L1)
      qed (use pr(1) free free_ptr in \<open>simp_all add: k5 globals pp ptrs cpu b(5,6) k2_def live pc room\<close>)
    qed
  qed
qed


lemma internal_fork_preserves:
  assumes "kinv k L" and "internal_fork k = Inr k'"
  shows "\<exists>L'. kinv k' L'"
  using assms(2) by (rule_tac make_child_exec [OF assms(1)]) auto

lemma internal_spawn_preserves:
  assumes "kinv k L" and "internal_spawn k = Inr k'"
  shows "\<exists>L'. kinv k' L'"
proof -
  have "irrelevant (\<lambda>q. q\<lparr>cpu_state := c\<rparr>)" for c by (simp add: irrelevant_def)
  note I = kinv_irrelevant [OF this]
  show ?thesis
    using assms(2) by (rule_tac make_child_exec [OF assms(1)]) (auto simp: Let_def I)
qed

end
