(* ===== verification/Wait_Correct.thy ===== *)
theory Wait_Correct
  imports Process Kernel_Idle
begin

text \<open>
  \<open>internal_wait\<close> on a kernel that satisfies the invariant: which child the scan picks,
  the collection of a zombie, and the switch to the next ready process.
\<close>

section \<open>Where a living process is\<close>

lemma kinv_process:
  assumes inv: "kinv k L" and p: "p \<in> pools_live (pools k) pcb_pool"
  shows "p \<noteq> NULL" "status (pcbs k p) = Zombie \<Longrightarrow> p \<in> set (L zombie_list)"
    "status (pcbs k p) = Waiting \<Longrightarrow> p \<in> set (L waiting_list)"
proof -
  note S = sched_okD [OF kinvD(2) [OF inv]]
  have or: "p = running k \<or> p \<in> set (L ready_list) \<or> p \<in> set (L waiting_list) \<or> p \<in> set (L zombie_list)"
    using S(11) p unfolding place_ok_def by blast
  then show "p \<noteq> NULL" using S(3) kinv_nonnull [OF inv, of p] by auto
  show "status (pcbs k p) = Zombie \<Longrightarrow> p \<in> set (L zombie_list)"
    "status (pcbs k p) = Waiting \<Longrightarrow> p \<in> set (L waiting_list)"
    using or S(5) S(8-10) [of p] by auto
qed

lemma tree_okD:
  assumes "tree_ok k L" and "x \<in> set (L (PCB_children p))"
  shows "p \<in> pools_live (pools k) pcb_pool" "pcb_ptrs k x \<in> pools_live (pools k) pcb_pool"
    "\<And>y q. y \<in> set (L (PCB_children q)) \<Longrightarrow> pcb_ptrs k y = pcb_ptrs k x \<Longrightarrow> y = x"
    "p \<notin> set (L zombie_list)"
  using assms unfolding tree_ok_def by (blast, blast, blast, fastforce)

lemma tree_ok_shrink:
  assumes ok: "tree_ok k L" and sub: "\<And>h. set (L' h) \<subseteq> set (L h)"
    and same: "pcb_ptrs k' = pcb_ptrs k" "L' zombie_list = L zombie_list"
      "pools_live (pools k') pcb_pool = pools_live (pools k) pcb_pool"
  shows "tree_ok k' L'"
  unfolding tree_ok_def same
proof (intro conjI allI impI ballI)
  fix p q x y
  assume x: "x \<in> set (L' (PCB_children p))"
  note T = tree_okD [OF ok subsetD [OF sub x]]
  show "p \<in> pools_live (pools k) pcb_pool" "pcb_ptrs k x \<in> pools_live (pools k) pcb_pool"
    by (rule T)+
  assume "y \<in> set (L' (PCB_children q))" and "pcb_ptrs k x = pcb_ptrs k y"
  then show "x = y" using T(3) sub by (metis subsetD)
next
  fix p
  assume "p \<in> set (L zombie_list)"
  then have "L (PCB_children p) = []" using ok by (simp add: tree_ok_def)
  then show "L' (PCB_children p) = []" using sub [of "PCB_children p"] by simp
qed

section \<open>The scan over the children\<close>

definition wanted :: "kernel \<Rightarrow> int \<Rightarrow> addr \<Rightarrow> bool" where
  "wanted k n x \<longleftrightarrow> (if n = 0 then status (pcbs k (pcb_ptrs k x)) = Zombie
                   else pid (pcbs k (pcb_ptrs k x)) = n)"

fun wait_choice :: "kernel \<Rightarrow> int \<Rightarrow> addr \<Rightarrow> addr list \<Rightarrow> addr" where
  "wait_choice k n aw [] = aw"
| "wait_choice k n aw (x # xs) = (if wanted k n x then x else wait_choice k n x xs)"

lemma wait_choice_in: "xs \<noteq> [] \<Longrightarrow> wait_choice k n aw xs \<in> set xs"
proof (induction xs arbitrary: aw)
  case (Cons x xs)
  then show ?case by (cases "xs = []") simp_all
qed simp

text \<open>The scan finds the first child that is wanted, or ends with the last child.\<close>

lemma wait_choice_eq:
  "xs \<noteq> [] \<Longrightarrow> wait_choice k n aw xs =
     (case List.find (wanted k n) xs of Some x \<Rightarrow> x | None \<Rightarrow> last xs)"
proof (induction xs arbitrary: aw)
  case (Cons x xs)
  then show ?case by (cases "xs = []") (auto split: option.splits)
qed simp

lemma wait_scan_seg:
  assumes "seg (links k) p xs NULL" and "\<And>x. x \<in> set xs \<Longrightarrow> pcb_ptrs k x \<noteq> NULL"
  shows "wait_scan k n (first_of xs NULL) aw = Some (Inr (wait_choice k n aw xs))"
  using assms
proof (induction xs arbitrary: p aw)
  case Nil
  then show ?case by (simp add: wait_scan.simps)
next
  case (Cons x xs)
  have "wait_scan k n (first_of xs NULL) x = Some (Inr (wait_choice k n x xs))"
    using Cons.IH [of x] Cons.prems by simp
  with Cons.prems show ?case
    by (cases "n = 0") (simp_all add: wait_scan.simps [of k _ x] wanted_def)
qed

section \<open>Collecting a process\<close>

text \<open>A child item is taken out of the list of its parent, and perhaps released.\<close>

lemma drop_child_kinv:
  assumes inv: "kinv k L" and x: "x \<in> set (L (PCB_children r))"
    and L': "L' = L(PCB_children r := remove1 x (L (PCB_children r)))"
    and rep: "list_rep lk hds L'"
    and loose: "\<And>a. loose (links k) L a \<Longrightarrow> loose lk L' a"
    and pools: "pools_ok ps" "pools_room ps descriptor_pool = pools_room ps descriptor_ptr_pool"
      "\<And>i. i \<noteq> pcb_ptr_pool \<Longrightarrow> pools_live ps i = pools_live (pools k) i"
      "\<And>y. y \<noteq> x \<Longrightarrow> y \<in> pools_live ps pcb_ptr_pool \<longleftrightarrow> y \<in> pools_live (pools k) pcb_ptr_pool"
    and k': "k' = k\<lparr>links := lk, heads := hds, pools := ps\<rparr>"
  shows "kinv k' L'"
proof -
  note K = kinvD [OF inv]
  note S = sched_okD [OF K(2)]
  note R = list_repD [OF K(7)]
  have xo: "x \<notin> set (L' h)" for h
    using R(2) [of "PCB_children r" _ x] x R(3) unfolding L' by auto
  have sub: "set (L' h) \<subseteq> set (L h)" for h by (auto simp: L' R(3))
  have "typed_lists (pools_live ps) L'"
    unfolding typed_lists_def
  proof (intro allI subsetI)
    fix h a
    assume a: "a \<in> set (L' h)"
    then have "a \<in> pools_live (pools k) (kind h)" "a \<noteq> x"
      using sub typed_listsD [OF K(9)] xo by blast+
    then show "a \<in> pools_live ps (kind h)" using pools(3,4) by (cases "kind h = pcb_ptr_pool") auto
  qed
  then have "lists_ok k' L'" using pools(1) rep by (simp add: lists_ok_def k')
  moreover have "place_ok k' L'" using S(11) loose by (simp add: place_ok_def k' L' pools(3))
  moreover have "init_ok k' L'" using S(12) by (simp add: init_ok_def k' L' pools(3))
  moreover have "pids_ok (pcbs k') (last_pid k') (pools_live (pools k') pcb_pool)"
    using S(13) by (simp add: k' pools(3))
  moreover have "tree_ok k' L'"
    by (rule tree_ok_shrink [OF K(3) sub]) (simp_all add: k' L' pools(3))
  moreover have "timer_ok k' L'"
    by (rule timer_ok_cong [OF K(4)])
      (use timer_okD [OF K(4)] in \<open>simp_all add: k' L' pools(3)\<close>)
  moreover have "sem_ok k' L'"
    by (rule sem_ok_cong [OF K(5)]) (use loose in \<open>simp_all add: k' L' pools(3)\<close>)
  moreover have "res_ok k' L'"
    using K(6) pools(2) by (simp add: res_ok_def k' L' Let_def)
  ultimately show ?thesis by (simp add: kinv_def sched_ok_def)
qed

text \<open>A zombie that no item refers to leaves its list and is released.\<close>

lemma bury_kinv:
  assumes inv: "kinv k L" and z: "z \<in> set (L zombie_list)"
    and alone: "\<And>x p. x \<in> set (L (PCB_children p)) \<Longrightarrow> pcb_ptrs k x \<noteq> z"
    and L': "L' = L(zombie_list := remove1 z (L zombie_list))"
    and rep: "list_rep lk hds L'"
    and loose: "\<And>a. loose (links k) L a \<Longrightarrow> loose lk L' a"
    and pools: "pools_ok ps" "pools_room ps descriptor_pool = pools_room ps descriptor_ptr_pool"
      "pools_live ps = (pools_live (pools k))(pcb_pool := pools_live (pools k) pcb_pool - {z})"
    and k': "k' = k\<lparr>links := lk, heads := hds, pools := ps\<rparr>"
  shows "kinv k' L'"
proof -
  note K = kinvD [OF inv]
  note S = sched_okD [OF K(2)]
  note R = list_repD [OF K(7)]
  have zl: "z \<in> pools_live (pools k) pcb_pool" using typed_listsD [OF K(9) z] by simp
  have zo: "z \<notin> set (L' h)" for h
    using R(2) [of zombie_list _ z] z R(3) unfolding L' by auto
  have sub: "set (L' h) \<subseteq> set (L h)" for h by (auto simp: L' R(3))
  have zr: "z \<noteq> running k" "z \<noteq> init_pcb k" using S(4) z S(12) unfolding init_ok_def by blast+
  have st: "status (pcbs k z) = Zombie" by (rule S(10) [OF z])
  have nk: "L (PCB_children z) = []" using K(3) z unfolding tree_ok_def by blast
  have in_z: "p \<in> set (L' zombie_list) \<longleftrightarrow> p \<in> set (L zombie_list) \<and> p \<noteq> z" for p
    by (auto simp: L' R(3))
  have same: "L' h = L h" if "h \<noteq> zombie_list" for h using that by (simp add: L')
  have "typed_lists (pools_live ps) L'"
    unfolding typed_lists_def
  proof (intro allI subsetI)
    fix h a
    assume a: "a \<in> set (L' h)"
    then have "a \<in> pools_live (pools k) (kind h)" "a \<noteq> z"
      using sub typed_listsD [OF K(9)] zo by blast+
    then show "a \<in> pools_live ps (kind h)"
      by (cases "kind h = pcb_pool") (simp_all add: pools(3))
  qed
  then have "lists_ok k' L'" using pools(1) rep by (simp add: lists_ok_def k')
  moreover have "place_ok k' L'"
    using S(11) loose zr st in_z unfolding place_ok_def by (auto simp: k' same pools(3))
  moreover have "init_ok k' L'" using S(12) zr in_z by (auto simp: init_ok_def k' pools(3))
  moreover have "pids_ok (pcbs k') (last_pid k') (pools_live (pools k') pcb_pool)"
    using S(13) unfolding pids_ok_def by (auto simp: k' pools(3) inj_on_def)
  moreover have "tree_ok k' L'"
    using K(3) alone nk in_z unfolding tree_ok_def by (auto simp: k' same pools(3))
  moreover have "timer_ok k' L'"
    by (rule timer_ok_cong [OF K(4)])
      (use timer_okD [OF K(4)] in \<open>simp_all add: k' same pools(3)\<close>)
  moreover have "sem_ok k' L'"
    by (rule sem_ok_cong [OF K(5)]) (use loose in \<open>simp_all add: k' same pools(3)\<close>)
  moreover have "res_ok k' L'"
    using K(6) pools(2) by (simp add: res_ok_def k' same Let_def)
  ultimately show ?thesis by (simp add: kinv_def sched_ok_def)
qed


section \<open>The call\<close>

text \<open>What \<open>wait_reap\<close> does with a zombie child.\<close>

lemma wait_reap_exec:
  assumes inv: "kinv k L" and x: "x \<in> set (L (PCB_children (running k)))"
    and z: "z = pcb_ptrs k x" "status (pcbs k z) = Zombie"
  obtains k' where
    "wait_reap k x z res =
       Inr (store_user res (return_value (pcbs k z)) (set_retvalue (pid (pcbs k z)) k'))"
    "kinv k' (L(PCB_children (running k) := remove1 x (L (PCB_children (running k))),
       zombie_list := remove1 z (L zombie_list)))"
    "running k' = running k" "pcbs k' = pcbs k" "pcb_ptrs k' = pcb_ptrs k" "user_mem k' = user_mem k"
    "pools_live (pools k') pcb_pool = pools_live (pools k) pcb_pool - {z}"
    "pools_live (pools k') pcb_ptr_pool = pools_live (pools k) pcb_ptr_pool - {x}"
proof -
  note K = kinvD [OF inv]
  note T = tree_okD [OF K(3) x]
  have zl: "z \<in> pools_live (pools k) pcb_pool" "z \<in> set (L zombie_list)"
    using T(2) kinv_process(2) [OF inv T(2)] z by simp_all
  have zr: "z \<noteq> running k" using sched_okD(4) [OF K(2)] zl(2) by blast
  let ?h = "PCB_children (running k)"
  obtain lk1 hd1 where
    1: "List_detach k ?h x = Inr (x, k\<lparr>links := lk1, heads := hd1\<rparr>)"
      "list_rep lk1 hd1 (L(?h := remove1 x (L ?h)))"
      "\<forall>a. loose (links k) L a \<longrightarrow> loose lk1 (L(?h := remove1 x (L ?h))) a"
    using detach_exec [where k = k and h = ?h, OF K(7) x] by blast
  let ?k1 = "k\<lparr>links := lk1, heads := hd1\<rparr>" and ?L1 = "L(?h := remove1 x (L ?h))"
  have "x \<in> pools_live (pools k) pcb_ptr_pool" using typed_listsD [OF K(9) x] by simp
  then obtain ps2 where
    2: "PCBPtr_free ?k1 x = Inr (0, ?k1\<lparr>pools := ps2\<rparr>)" "pools_ok ps2"
      "pools_live ps2 = (pools_live (pools k))(pcb_ptr_pool := pools_live (pools k) pcb_ptr_pool - {x})"
      "pools_room ps2 = (pools_room (pools k))(pcb_ptr_pool := Suc (pools_room (pools k) pcb_ptr_pool))"
    using pool_release_exec [of ?k1 x pcb_ptr_pool] K(8) by (auto simp: PCBPtr_free_def)
  let ?k2 = "?k1\<lparr>pools := ps2\<rparr>"
  have inv2: "kinv ?k2 ?L1"
    by (rule drop_child_kinv [OF inv x refl 1(2) _ 2(2) _ _ _ refl])
      (use 1(3) res_okD(6) [OF K(6)] in \<open>simp_all add: 2(3,4)\<close>)
  note K2 = kinvD [OF inv2]
  have z2: "z \<in> set (?L1 zombie_list)" using zl(2) by simp
  obtain lk3 hd3 where
    3: "List_detach ?k2 zombie_list z = Inr (z, ?k2\<lparr>links := lk3, heads := hd3\<rparr>)"
      "list_rep lk3 hd3 (?L1(zombie_list := remove1 z (?L1 zombie_list)))"
      "\<forall>a. loose (links ?k2) ?L1 a \<longrightarrow>
         loose lk3 (?L1(zombie_list := remove1 z (?L1 zombie_list))) a"
    using detach_exec [where k = ?k2 and h = zombie_list, OF K2(7) z2] by blast
  let ?k3 = "k\<lparr>pools := ps2, links := lk3, heads := hd3\<rparr>"
  let ?k5 = "store_user res (return_value (pcbs k z)) (set_retvalue (pid (pcbs k z)) ?k3)"
  have k5: "pools ?k5 = ps2" by (simp add: store_user_def)
  have "pools_ok (pools ?k5)" "z \<in> pools_live (pools ?k5) pcb_pool"
    unfolding k5 using 2(2) zl(1) by (simp_all add: 2(3))
  from pool_release_exec [OF this] obtain ps6 where
    6: "PCB_free ?k5 z = Inr (0, ?k5\<lparr>pools := ps6\<rparr>)" "pools_ok ps6"
      "pools_live ps6 = (pools_live ps2)(pcb_pool := pools_live ps2 pcb_pool - {z})"
      "pools_room ps6 = (pools_room ps2)(pcb_pool := Suc (pools_room ps2 pcb_pool))"
    unfolding k5 PCB_free_def by blast
  let ?k' = "?k2\<lparr>links := lk3, heads := hd3, pools := ps6\<rparr>"
  have eq: "?k5\<lparr>pools := ps6\<rparr> =
      store_user res (return_value (pcbs k z)) (set_retvalue (pid (pcbs k z)) ?k')"
    by (simp add: store_user_def set_retvalue_def upd_pcb_def)
  have ne: "pcb_ptrs ?k2 y \<noteq> z" if "y \<in> set (?L1 (PCB_children p))" for y p
  proof
    assume "pcb_ptrs ?k2 y = z"
    moreover have "y \<in> set (L (PCB_children p))" "p = running k \<Longrightarrow> y \<noteq> x"
      using that list_repD(3) [OF K(7), of ?h] by (auto split: if_splits)
    ultimately have "y = x" "p \<noteq> running k" using T(3) z(1) by auto
    with \<open>y \<in> set (L (PCB_children p))\<close> x list_repD(2) [OF K(7), of "PCB_children p" ?h x]
    show False by auto
  qed
  have "kinv ?k' (?L1(zombie_list := remove1 z (?L1 zombie_list)))"
    by (rule bury_kinv [OF inv2 z2 ne refl 3(2) _ 6(2) _ _ refl])
      (use 3(3) res_okD(6) [OF K(6)] in \<open>simp_all add: 6(3,4) 2(3,4)\<close>)
  then have inv': "kinv ?k' (L(?h := remove1 x (L ?h), zombie_list := remove1 z (L zombie_list)))"
    by simp
  have run: "wait_reap k x z res =
      Inr (store_user res (return_value (pcbs k z)) (set_retvalue (pid (pcbs k z)) ?k'))"
    using 1(1) 2(1) 3(1) 6(1) zr unfolding eq [symmetric] wait_reap_def by (simp add: Let_def)
  show thesis by (rule that [OF run inv']) (simp_all add: 6(3) 2(3))
qed

text \<open>What \<open>wait_block\<close> does: without a ready process the kernel has no one to run.\<close>

lemma wait_block_exec:
  assumes inv: "kinv k L"
  obtains (stuck) "L ready_list = []" "wait_block k = Inl Null_deref"
  | (switch) r rs k' where "L ready_list = r # rs" "wait_block k = Inr k'" "running k' = r"
      "kinv k' (L(ready_list := rs, waiting_list := L waiting_list @ [running k]))"
      "pcbs k' = (pcbs k)(running k := (pcbs k (running k))\<lparr>status := Waiting\<rparr>)"
      "pools k' = pools k" "pcb_ptrs k' = pcb_ptrs k" "init_pcb k' = init_pcb k"
proof -
  obtain lk hds where p: "List_insert (upd_pcb (running k) (\<lambda>p. p\<lparr>status := Waiting\<rparr>) k) waiting_list
       (lh_last (heads k waiting_list)) (running k) =
     Inr (running k, (upd_pcb (running k) (\<lambda>p. p\<lparr>status := Waiting\<rparr>) k)\<lparr>links := lk, heads := hds\<rparr>)"
    "kinv_idle ((upd_pcb (running k) (\<lambda>p. p\<lparr>status := Waiting\<rparr>) k)\<lparr>links := lk, heads := hds\<rparr>)
       (L(waiting_list := L waiting_list @ [running k]))"
    by (rule park_exec [OF inv])
  let ?k = "(upd_pcb (running k) (\<lambda>p. p\<lparr>status := Waiting\<rparr>) k)\<lparr>links := lk, heads := hds\<rparr>"
  let ?L = "L(waiting_list := L waiting_list @ [running k])"
  show thesis
  proof (cases "L ready_list")
    case Nil
    then have "lh_first (heads ?k ready_list) = NULL"
      using first_empty [OF kinv_idleD(9) [OF p(2)], of ready_list] by simp
    then show thesis using Nil p(1) by (intro stuck) (simp_all add: wait_block_def Let_def)
  next
    case (Cons r rs)
    then have "?L ready_list = r # rs" by simp
    from pick_exec [OF p(2) this] obtain lk2 hd2 where
      q: "lh_first (heads ?k ready_list) = r" "r \<noteq> NULL"
        "List_detach ?k ready_list r = Inr (r, ?k\<lparr>links := lk2, heads := hd2\<rparr>)"
        "kinv (?k\<lparr>links := lk2, heads := hd2, running := r\<rparr>) (?L(ready_list := rs))" by blast
    have run: "wait_block k = Inr (?k\<lparr>links := lk2, heads := hd2, running := r\<rparr>)"
      using p(1) q(1,3) by (simp add: wait_block_def Let_def)
    have eq: "?L(ready_list := rs) = L(ready_list := rs, waiting_list := L waiting_list @ [running k])"
      by (simp add: fun_upd_twist)
    show thesis
      by (rule switch [OF Cons run _ q(4) [unfolded eq]]) (simp_all add: upd_pcb_def)
  qed
qed

text \<open>The four outcomes of the call.\<close>

lemma internal_wait_cases:
  assumes inv: "kinv k L" and n: "n = int_of_long (syscall_arg k 0)"
    and x: "x = wait_choice k n NULL (L (PCB_children (running k)))" and z: "z = pcb_ptrs k x"
  obtains (none) "L (PCB_children (running k)) = []"
      "internal_wait k = Inr (set_retvalue DSOS_EWAIT k)"
  | (reap) "x \<in> set (L (PCB_children (running k)))" "status (pcbs k z) = Zombie"
      "internal_wait k = wait_reap k x z (syscall_arg k 1)"
  | (block) "x \<in> set (L (PCB_children (running k)))" "status (pcbs k z) \<noteq> Zombie"
      "internal_wait k = wait_block k"
proof -
  note K = kinvD [OF inv]
  note nz = sched_okD(3) [OF K(2)]
  let ?h = "PCB_children (running k)"
  show thesis
  proof (cases "L ?h = []")
    case True
    then show thesis using nz first_empty [OF K(7), of ?h]
      by (intro none) (simp_all add: internal_wait_def)
  next
    case False
    then have xi: "x \<in> set (L ?h)" unfolding x by (rule wait_choice_in)
    have child: "pcb_ptrs k y \<noteq> NULL" if "y \<in> set (L ?h)" for y
      using kinv_process(1) [OF inv tree_okD(2) [OF K(3) that]] .
    have "wait_scan k n (lh_first (heads k ?h)) NULL = Some (Inr x)"
      using wait_scan_seg [OF dllD(2) [OF list_repD(1) [OF K(7)]] child]
      by (simp add: list_repD(5) [OF K(7)] x)
    then have "internal_wait k = (if status (pcbs k z) = Zombie
        then wait_reap k x z (syscall_arg k 1) else wait_block k)"
      using nz False first_empty [OF K(7), of ?h] kinv_nonnull [OF inv xi] child [OF xi]
      by (simp add: internal_wait_def Let_def n [symmetric] z)
    then show thesis using reap block xi by (cases "status (pcbs k z) = Zombie") auto
  qed
qed

lemma internal_wait_preserves:
  assumes inv: "kinv k L" and ok: "internal_wait k = Inr k'"
  shows "\<exists>L'. kinv k' L'"
proof (rule internal_wait_cases [OF inv refl refl refl], goal_cases)
  case 1
  then show ?thesis using inv ok by auto
next
  case 2
  show ?thesis
    by (rule wait_reap_exec [OF inv 2(1) refl 2(2), of "syscall_arg k 1"]) (use 2(3) ok in auto)
next
  case 3
  show ?thesis
    by (rule wait_block_exec [OF inv]) (use 3(3) ok in auto)
qed

end
