(* ===== verification/Resource_Correct.thy ===== *)
theory Resource_Correct
  imports Resource_Syscalls Kernel_Inv
begin

text \<open>
  The resource calls on a kernel that satisfies the invariant: what \<open>openResource\<close>,
  \<open>closeResource\<close> and \<open>destroyResource\<close> return on every branch, and that they keep the
  invariant.
\<close>

section \<open>Closing a descriptor\<close>

lemma close_descriptor_kinv:
  assumes inv: "kinv k L" and d: "d \<in> set (L (PCB_descriptors p))"
    and r: "r = d_resource (descriptors k d)" and x: "x = d_ptr (descriptors k d)"
    and L': "L' = L(PCB_descriptors p := remove1 d (L (PCB_descriptors p)),
      Resource_descriptors r := remove1 x (L (Resource_descriptors r)))"
    and rep: "list_rep lk hds L'"
    and loose: "\<And>a. loose (links k) L a \<Longrightarrow> loose lk L' a"
    and pools: "pools_ok ps" "pools_room ps descriptor_pool = pools_room ps descriptor_ptr_pool"
      "\<And>i. pools_live ps i = pools_live (pools k) i -
         (if i = descriptor_pool then {d} else if i = descriptor_ptr_pool then {x} else {})"
    and k': "k' = k\<lparr>links := lk, heads := hds, pools := ps\<rparr>"
  shows "kinv k' L'"
proof -
  note K = kinvD [OF inv]
  note S = sched_okD [OF K(2)]
  note R = list_repD [OF K(7)]
  note D = res_descriptorD [OF K(6) d, folded r x]
  have sub: "set (L' h) \<subseteq> set (L h)" for h by (auto simp: L' R(3))
  have gone: "d \<notin> set (L' h)" "x \<notin> set (L' h)" for h
    using R(2) [of "PCB_descriptors p" h d] d R(2) [of "Resource_descriptors r" h x] D(3)
    unfolding L' by (auto simp: R(3))
  have keep: "e \<in> set (L' (PCB_descriptors q)) \<longleftrightarrow> e \<in> set (L (PCB_descriptors q)) \<and> e \<noteq> d"
    for e q
    using gone(1) [of "PCB_descriptors q"] R(3) by (auto simp: L')
  have keep_x: "z \<in> set (L' (Resource_descriptors u)) \<longleftrightarrow>
      z \<in> set (L (Resource_descriptors u)) \<and> z \<noteq> x" for z u
    using gone(2) [of "Resource_descriptors u"] R(3) by (auto simp: L')
  have same: "L' h = L h" if "kind h \<noteq> descriptor_pool" "kind h \<noteq> descriptor_ptr_pool" for h
    using that by (auto simp: L')
  have "typed_lists (pools_live ps) L'"
    unfolding typed_lists_def
  proof (intro allI subsetI)
    fix h a
    assume a: "a \<in> set (L' h)"
    then have "a \<in> pools_live (pools k) (kind h)" "a \<noteq> d" "a \<noteq> x"
      using sub typed_listsD [OF K(9)] gone by blast+
    then show "a \<in> pools_live ps (kind h)" by (simp add: pools(3))
  qed
  then have "lists_ok k' L'" using pools(1) rep by (simp add: lists_ok_def k')
  moreover have "place_ok k' L'"
    using S(11) loose by (simp add: place_ok_def k' same pools(3))
  moreover have "init_ok k' L'" using S(12) by (simp add: init_ok_def k' same pools(3))
  moreover have "pids_ok (pcbs k') (last_pid k') (pools_live (pools k') pcb_pool)"
    using S(13) by (simp add: k' pools(3))
  moreover have "tree_ok k' L'"
    by (rule tree_ok_cong [OF K(3)]) (simp_all add: k' same pools(3))
  moreover have "timer_ok k' L'"
    by (rule timer_ok_cong [OF K(4)])
      (use timer_okD [OF K(4)] in \<open>simp_all add: k' same pools(3)\<close>)
  moreover have "sem_ok k' L'"
    by (rule sem_ok_cong [OF K(5)]) (use loose in \<open>simp_all add: k' same pools(3)\<close>)
  moreover have "res_ok k' L'"
    unfolding res_ok_def Let_def
  proof (intro conjI allI impI)
    fix q e
    assume "e \<in> set (L' (PCB_descriptors q))"
    then have e: "e \<in> set (L (PCB_descriptors q))" "e \<noteq> d" using keep by simp_all
    note E = res_descriptorD [OF K(6) e(1)]
    have nx: "d_ptr (descriptors k e) \<noteq> x" using E(4) D(4) e(2) by auto
    show "d_resource (descriptors k' e) \<in> set (L' resources_list)"
      "d_pcb (descriptors k' e) = q" "descriptor_ptrs k' (d_ptr (descriptors k' e)) = e"
      "d_ptr (descriptors k' e) \<in> set (L' (Resource_descriptors (d_resource (descriptors k' e))))"
      "0 \<le> d_fd (descriptors k' e)" "d_fd (descriptors k' e) < last_fd (pcbs k' q)"
      using E nx keep_x by (simp_all add: k' same)
  next
    fix q e f
    assume "e \<in> set (L' (PCB_descriptors q))" "f \<in> set (L' (PCB_descriptors q))"
      "d_fd (descriptors k' e) = d_fd (descriptors k' f)"
    then show "e = f" using res_okD(2) [OF K(6), of e q f] keep by (simp add: k')
  next
    fix u z
    assume "z \<in> set (L' (Resource_descriptors u))"
    then show "u \<in> set (L' resources_list)" using res_okD(7) [OF K(6), of z u] keep_x [of z u] by (simp add: same)
  qed (use res_okD(4,5) [OF K(6)] pools(2) in \<open>simp_all add: k' same\<close>)
  ultimately show ?thesis by (simp add: kinv_def sched_ok_def)
qed

text \<open>The two detachments, common to \<open>closeResource\<close> and the exit of a process.\<close>

lemma close_detach_exec:
  assumes lists: "lists_ok k L" and res: "res_ok k L" and d: "d \<in> set (L (PCB_descriptors p))"
    and r: "r = d_resource (descriptors k d)" and x: "x = d_ptr (descriptors k d)"
    and L': "L' = L(PCB_descriptors p := remove1 d (L (PCB_descriptors p)),
      Resource_descriptors r := remove1 x (L (Resource_descriptors r)))"
  obtains lk1 hd1 lk hds where "r \<noteq> NULL" "d \<noteq> NULL" "x \<noteq> NULL"
    "List_detach k (PCB_descriptors p) d = Inr (d, k\<lparr>links := lk1, heads := hd1\<rparr>)"
    "List_detach (k\<lparr>links := lk1, heads := hd1\<rparr>) (Resource_descriptors r) x =
       Inr (x, k\<lparr>links := lk, heads := hds\<rparr>)"
    "list_rep lk hds L'" "\<And>a. loose (links k) L a \<Longrightarrow> loose lk L' a"
    "d \<in> pools_live (pools k) descriptor_pool" "x \<in> pools_live (pools k) descriptor_ptr_pool"
proof -
  note R = list_repD [OF lists_okD(1) [OF lists]]
  note T = typed_listsD [OF lists_okD(3) [OF lists]]
  note D = res_descriptorD [OF res d, folded r x]
  let ?p = "PCB_descriptors p" and ?r = "Resource_descriptors r"
  obtain lk1 hd1 where
    1: "List_detach k ?p d = Inr (d, k\<lparr>links := lk1, heads := hd1\<rparr>)"
      "list_rep lk1 hd1 (L(?p := remove1 d (L ?p)))"
      "\<forall>a. loose (links k) L a \<longrightarrow> loose lk1 (L(?p := remove1 d (L ?p))) a"
    using detach_exec [where k = k and h = ?p, OF lists_okD(1) [OF lists] d] by blast
  let ?k1 = "k\<lparr>links := lk1, heads := hd1\<rparr>" and ?L1 = "L(?p := remove1 d (L ?p))"
  have t: "list_rep (links ?k1) (heads ?k1) ?L1" "x \<in> set (?L1 ?r)" using 1(2) D(3) by simp_all
  obtain lk hds where
    2: "List_detach ?k1 ?r x = Inr (x, ?k1\<lparr>links := lk, heads := hds\<rparr>)"
      "list_rep lk hds (?L1(?r := remove1 x (?L1 ?r)))"
      "\<forall>a. loose (links ?k1) ?L1 a \<longrightarrow> loose lk (?L1(?r := remove1 x (?L1 ?r))) a"
    using detach_exec [where k = ?k1 and h = ?r, OF t] by blast
  have L2: "?L1(?r := remove1 x (?L1 ?r)) = L'" by (simp add: L')
  have nz: "r \<noteq> NULL" "d \<noteq> NULL" "x \<noteq> NULL" using R(4) D(1,3) d by metis+
  have lv: "d \<in> pools_live (pools k) descriptor_pool" "x \<in> pools_live (pools k) descriptor_ptr_pool"
    using T [OF d] T [OF D(3)] by simp_all
  show thesis
    by (rule that [OF nz 1(1) _ 2(2) [unfolded L2] _ lv])
      (use 2(1) 1(3) 2(3) [unfolded L2] in simp_all)
qed

lemma DescriptorList_byFd_exec:
  assumes inv: "kinv k L"
  shows "DescriptorList_byFd k h n = Inr (scan_result (\<lambda>d. d_fd (descriptors k d) = n) (L h))"
  unfolding DescriptorList_byFd_def by (rule list_rep_search_self [OF kinvD(7) [OF inv]])

lemma closeResource_exec:
  assumes inv: "kinv k L" and d: "d \<in> set (L (PCB_descriptors (running k)))"
    and fd: "int_of_long (syscall_arg k 0) = d_fd (descriptors k d)"
    and r: "r = d_resource (descriptors k d)" and x: "x = d_ptr (descriptors k d)"
  obtains k' where "internal_closeResource k = Inr (set_retvalue 0 k')" "running k' = running k"
    "pcbs k' = pcbs k" "resources k' = resources k"
    "kinv k' (L(PCB_descriptors (running k) := remove1 d (L (PCB_descriptors (running k))),
      Resource_descriptors r := remove1 x (L (Resource_descriptors r))))"
    "pools_live (pools k') descriptor_pool = pools_live (pools k) descriptor_pool - {d}"
    "pools_live (pools k') descriptor_ptr_pool = pools_live (pools k) descriptor_ptr_pool - {x}"
proof -
  note K = kinvD [OF inv]
  note nz = sched_okD(3) [OF K(2)]
  let ?p = "PCB_descriptors (running k)"
  let ?L = "L(?p := remove1 d (L ?p), Resource_descriptors r := remove1 x (L (Resource_descriptors r)))"
  obtain lk1 hd1 lk hds where
    1: "r \<noteq> NULL" "d \<noteq> NULL" "x \<noteq> NULL"
      "List_detach k ?p d = Inr (d, k\<lparr>links := lk1, heads := hd1\<rparr>)"
      "List_detach (k\<lparr>links := lk1, heads := hd1\<rparr>) (Resource_descriptors r) x =
         Inr (x, k\<lparr>links := lk, heads := hds\<rparr>)"
      "list_rep lk hds ?L" "\<And>a. loose (links k) L a \<Longrightarrow> loose lk ?L a"
      "d \<in> pools_live (pools k) descriptor_pool" "x \<in> pools_live (pools k) descriptor_ptr_pool"
    by (rule close_detach_exec [OF K(1,6) d r x refl]) blast
  let ?k2 = "k\<lparr>links := lk, heads := hds\<rparr>"
  have "pools_ok (pools ?k2)" "d \<in> pools_live (pools ?k2) descriptor_pool" using K(8) 1(8) by simp_all
  from pool_release_exec [OF this] obtain ps3 where
    3: "Descriptor_free ?k2 d = Inr (0, ?k2\<lparr>pools := ps3\<rparr>)" "pools_ok ps3"
      "pools_live ps3 = (pools_live (pools k))(descriptor_pool := pools_live (pools k) descriptor_pool - {d})"
      "pools_room ps3 = (pools_room (pools k))(descriptor_pool := Suc (pools_room (pools k) descriptor_pool))"
    unfolding Descriptor_free_def by auto
  let ?k3 = "?k2\<lparr>pools := ps3\<rparr>"
  have "pools_ok (pools ?k3)" "x \<in> pools_live (pools ?k3) descriptor_ptr_pool"
    using 3(2) 1(9) by (simp_all add: 3(3))
  from pool_release_exec [OF this] obtain ps4 where
    4: "DescriptorPtr_free ?k3 x = Inr (0, ?k3\<lparr>pools := ps4\<rparr>)" "pools_ok ps4"
      "pools_live ps4 = (pools_live ps3)(descriptor_ptr_pool := pools_live ps3 descriptor_ptr_pool - {x})"
      "pools_room ps4 = (pools_room ps3)(descriptor_ptr_pool := Suc (pools_room ps3 descriptor_ptr_pool))"
    unfolding DescriptorPtr_free_def by auto
  let ?k4 = "k\<lparr>links := lk, heads := hds, pools := ps4\<rparr>"
  have found: "DescriptorList_byFd k ?p (int_of_long (syscall_arg k 0)) = Inr d"
    unfolding DescriptorList_byFd_exec [OF inv] fd
    by (simp, rule scan_result_unique [OF d]) (use res_okD(2) [OF K(6) _ d] in simp_all)
  have run: "internal_closeResource k = Inr (set_retvalue 0 ?k4)"
    using nz 1(1-5) 3(1) 4(1) by (simp add: internal_closeResource_def found Let_def r x)
  have "kinv ?k4 ?L"
    by (rule close_descriptor_kinv [OF inv d r x refl 1(6,7) 4(2) _ _ refl])
      (use res_okD(6) [OF K(6)] in \<open>auto simp: 3(3,4) 4(3,4)\<close>)
  then show thesis by (intro that [OF run]) (simp_all add: 3(3) 4(3))
qed

lemma closeResource_missing:
  assumes inv: "kinv k L"
    and no: "\<And>d. d \<in> set (L (PCB_descriptors (running k))) \<Longrightarrow>
      d_fd (descriptors k d) \<noteq> int_of_long (syscall_arg k 0)"
  shows "internal_closeResource k = Inr (set_retvalue DSOS_ERESOURCECLOSE k)"
proof -
  note K = kinvD [OF inv]
  have "DescriptorList_byFd k (PCB_descriptors (running k)) (int_of_long (syscall_arg k 0)) = Inr NULL"
    using no scan_result_NULL [OF list_repD(4) [OF K(7)]] by (simp add: DescriptorList_byFd_exec [OF inv])
  then show ?thesis using sched_okD(3) [OF K(2)] by (simp add: internal_closeResource_def)
qed

lemma closeResource_preserves:
  assumes inv: "kinv k L" and ok: "internal_closeResource k = Inr k'"
  shows "\<exists>L'. kinv k' L'"
proof (cases "\<exists>d \<in> set (L (PCB_descriptors (running k))).
    int_of_long (syscall_arg k 0) = d_fd (descriptors k d)")
  case False
  then have "internal_closeResource k = Inr (set_retvalue DSOS_ERESOURCECLOSE k)"
    by (intro closeResource_missing [OF inv]) auto
  with ok inv show ?thesis by auto
next
  case True
  then obtain d where d: "d \<in> set (L (PCB_descriptors (running k)))"
    and fd: "int_of_long (syscall_arg k 0) = d_fd (descriptors k d)" by blast
  show ?thesis by (rule closeResource_exec [OF inv d fd refl refl]) (use ok in auto)
qed

section \<open>Destroying a resource\<close>

lemma ResourceList_byId_exec:
  assumes inv: "kinv k L"
  shows "ResourceList_byId k h n = Inr (scan_result (\<lambda>r. res_id (resources k r) = n) (L h))"
  unfolding ResourceList_byId_def by (rule list_rep_search_self [OF kinvD(7) [OF inv]])

lemma destroy_kinv:
  assumes inv: "kinv k L" and r: "r \<in> set (L resources_list)" "L (Resource_descriptors r) = []"
    and L': "L' = L(resources_list := remove1 r (L resources_list))"
    and rep: "list_rep lk hds L'"
    and loose: "\<And>a. loose (links k) L a \<Longrightarrow> loose lk L' a"
    and pools: "pools_ok ps" "pools_room ps descriptor_pool = pools_room ps descriptor_ptr_pool"
      "pools_live ps = (pools_live (pools k))(resource_pool := pools_live (pools k) resource_pool - {r})"
    and k': "k' = k\<lparr>links := lk, heads := hds, pools := ps\<rparr>"
  shows "kinv k' L'"
proof -
  note K = kinvD [OF inv]
  note S = sched_okD [OF K(2)]
  note R = list_repD [OF K(7)]
  have sub: "set (L' h) \<subseteq> set (L h)" for h by (auto simp: L' R(3))
  have gone: "r \<notin> set (L' h)" for h
    using R(2) [of resources_list h r] r(1) unfolding L' by (auto simp: R(3))
  have in_r: "u \<in> set (L' resources_list) \<longleftrightarrow> u \<in> set (L resources_list) \<and> u \<noteq> r" for u
    by (auto simp: L' R(3))
  have same: "L' h = L h" if "h \<noteq> resources_list" for h using that by (simp add: L')
  have "typed_lists (pools_live ps) L'"
    unfolding typed_lists_def
  proof (intro allI subsetI)
    fix h a
    assume a: "a \<in> set (L' h)"
    then have "a \<in> pools_live (pools k) (kind h)" "a \<noteq> r"
      using sub typed_listsD [OF K(9)] gone by blast+
    then show "a \<in> pools_live ps (kind h)"
      by (cases "kind h = resource_pool") (simp_all add: pools(3))
  qed
  then have "lists_ok k' L'" using pools(1) rep by (simp add: lists_ok_def k')
  moreover have "place_ok k' L'"
    using S(11) loose by (simp add: place_ok_def k' same pools(3))
  moreover have "init_ok k' L'" using S(12) by (simp add: init_ok_def k' same pools(3))
  moreover have "pids_ok (pcbs k') (last_pid k') (pools_live (pools k') pcb_pool)"
    using S(13) by (simp add: k' pools(3))
  moreover have "tree_ok k' L'"
    by (rule tree_ok_cong [OF K(3)]) (simp_all add: k' same pools(3))
  moreover have "timer_ok k' L'"
    by (rule timer_ok_cong [OF K(4)])
      (use timer_okD [OF K(4)] in \<open>simp_all add: k' same pools(3)\<close>)
  moreover have "sem_ok k' L'"
    by (rule sem_ok_cong [OF K(5)]) (use loose in \<open>simp_all add: k' same pools(3)\<close>)
  moreover have "res_ok k' L'"
  proof -
    have ne: "d_resource (descriptors k d) \<noteq> r" if "d \<in> set (L (PCB_descriptors p))" for d p
      using res_descriptorD(3) [OF K(6) that] r(2) by auto
    have nx: "u \<noteq> r" if "x \<in> set (L (Resource_descriptors u))" for x u using that r(2) by auto
    show ?thesis
      using K(6) ne nx pools(2) unfolding res_ok_def k' Let_def
      by (simp add: same in_r inj_on_def)
  qed
  ultimately show ?thesis by (simp add: kinv_def sched_ok_def)
qed

lemma destroyResource_exec:
  assumes inv: "kinv k L" and r: "r \<in> set (L resources_list)"
    and i: "int_of_long (syscall_arg k 0) = res_id (resources k r)"
  obtains (used) "L (Resource_descriptors r) \<noteq> []"
      "internal_destroyResource k = Inr (set_retvalue DSOS_ERESOURCEINUSE k)"
  | (free) k' where "L (Resource_descriptors r) = []"
      "internal_destroyResource k = Inr (set_retvalue 0 k')" "running k' = running k"
      "pcbs k' = pcbs k" "kinv k' (L(resources_list := remove1 r (L resources_list)))"
      "pools_live (pools k') resource_pool = pools_live (pools k) resource_pool - {r}"
proof -
  note K = kinvD [OF inv]
  note nz = sched_okD(3) [OF K(2)]
  let ?d = "Resource_descriptors r"
  have found: "ResourceList_byId k resources_list (int_of_long (syscall_arg k 0)) = Inr r"
    unfolding ResourceList_byId_exec [OF inv] i
    by (simp, rule scan_result_unique [OF r])
      (use res_okD(5) [OF K(6)] r in \<open>auto simp: inj_on_def\<close>)
  have rz: "r \<noteq> NULL" by (rule kinv_nonnull [OF inv r])
  have size: "lh_size (heads k ?d) = int (length (L ?d))" by (rule list_repD(7) [OF K(7)])
  show thesis
  proof (cases "L ?d = []")
    case False
    then show thesis using nz rz size
      by (intro used) (simp_all add: internal_destroyResource_def found)
  next
    case True
    obtain lk hds where
      1: "List_detach k resources_list r = Inr (r, k\<lparr>links := lk, heads := hds\<rparr>)"
        "list_rep lk hds (L(resources_list := remove1 r (L resources_list)))"
        "\<forall>a. loose (links k) L a \<longrightarrow> loose lk (L(resources_list := remove1 r (L resources_list))) a"
      using detach_exec [where k = k and h = resources_list, OF K(7) r] by blast
    let ?k1 = "k\<lparr>links := lk, heads := hds\<rparr>"
    have "pools_ok (pools ?k1)" "r \<in> pools_live (pools ?k1) resource_pool"
      using K(8) typed_listsD [OF K(9) r] by simp_all
    from pool_release_exec [OF this] obtain ps2 where
      2: "pool_release ?k1 resource_pool r = Inr (0, ?k1\<lparr>pools := ps2\<rparr>)" "pools_ok ps2"
        "pools_live ps2 = (pools_live (pools k))(resource_pool := pools_live (pools k) resource_pool - {r})"
        "pools_room ps2 = (pools_room (pools k))(resource_pool := Suc (pools_room (pools k) resource_pool))"
      by auto
    let ?k2 = "k\<lparr>links := lk, heads := hds, pools := ps2\<rparr>"
    have "lh_first (hds ?d) = NULL" "lh_last (hds ?d) = NULL"
      using list_repD(5,6) [OF 1(2), of ?d] True by simp_all
    then have run: "internal_destroyResource k = Inr (set_retvalue 0 ?k2)"
      using nz rz size True 1(1) 2(1) by (simp add: internal_destroyResource_def found Resource_free_def)
    have "kinv ?k2 (L(resources_list := remove1 r (L resources_list)))"
      by (rule destroy_kinv [OF inv r True refl 1(2) _ 2(2) _ 2(3) refl])
        (use 1(3) res_okD(6) [OF K(6)] in \<open>simp_all add: 2(4)\<close>)
    then show thesis by (intro free [OF True run]) (simp_all add: 2(3))
  qed
qed

lemma destroyResource_missing:
  assumes inv: "kinv k L"
    and no: "\<And>r. r \<in> set (L resources_list) \<Longrightarrow> res_id (resources k r) \<noteq> int_of_long (syscall_arg k 0)"
  shows "internal_destroyResource k = Inr (set_retvalue DSOS_ERESOURCECLOSE k)"
proof -
  note K = kinvD [OF inv]
  have "ResourceList_byId k resources_list (int_of_long (syscall_arg k 0)) = Inr NULL"
    using no scan_result_NULL [OF list_repD(4) [OF K(7)]] by (simp add: ResourceList_byId_exec [OF inv])
  then show ?thesis using sched_okD(3) [OF K(2)] by (simp add: internal_destroyResource_def)
qed

lemma destroyResource_preserves:
  assumes inv: "kinv k L" and ok: "internal_destroyResource k = Inr k'"
  shows "\<exists>L'. kinv k' L'"
proof (cases "\<exists>r \<in> set (L resources_list). int_of_long (syscall_arg k 0) = res_id (resources k r)")
  case False
  then have "internal_destroyResource k = Inr (set_retvalue DSOS_ERESOURCECLOSE k)"
    by (intro destroyResource_missing [OF inv]) auto
  with ok inv show ?thesis by auto
next
  case True
  then obtain r where r: "r \<in> set (L resources_list)"
    and i: "int_of_long (syscall_arg k 0) = res_id (resources k r)" by blast
  show ?thesis by (rule destroyResource_exec [OF inv r i]) (use ok inv in auto)
qed

end
