(* ===== verification/Exit_Correct.thy ===== *)
theory Exit_Correct
  imports Wait_Correct Resource_Correct
begin

text \<open>
  \<open>internal_exit\<close> on a kernel that satisfies the invariant: the children move to
  \<open>init\<close>, the process becomes a zombie, and either the waiting parent collects it at once or
  the first ready process runs.
\<close>

section \<open>Updates the intermediate invariant does not see\<close>

lemma kinv_idle_irrelevant:
  assumes "irrelevant f"
  shows "kinv_idle (upd_pcb p f k) L = kinv_idle k L"
proof -
  have f: "status (((pcbs k)(p := f (pcbs k p))) q) = status (pcbs k q)"
    "pid (((pcbs k)(p := f (pcbs k p))) q) = pid (pcbs k q)"
    "parent (((pcbs k)(p := f (pcbs k p))) q) = parent (pcbs k q)"
    "timer (((pcbs k)(p := f (pcbs k p))) q) = timer (pcbs k q)"
    "syscall_num (((pcbs k)(p := f (pcbs k p))) q) = syscall_num (pcbs k q)"
    "last_fd (((pcbs k)(p := f (pcbs k p))) q) = last_fd (pcbs k q)"
    "last_sem_fd (((pcbs k)(p := f (pcbs k p))) q) = last_sem_fd (pcbs k q)" for q
    using assms by (auto simp: irrelevant_def)
  show ?thesis
    unfolding kinv_idle_def lists_ok_def idle_place_ok_def init_ok_def pids_ok_def tree_ok_def
      timer_ok_def sem_ok_def sem_links_ok_def wait_ptrs_ok_def sem_fds_ok_def sem_queues_ok_def
      waiters_ok_def owners_ok_def queue_lengths_ok_def sem_ids_ok_def res_ok_def upd_pcb_def
    by (simp add: f del: fun_upd_apply)
qed

lemma irrelevant_fields [simp]:
  "irrelevant (\<lambda>p. p\<lparr>signals := g p\<rparr>)" "irrelevant (\<lambda>p. p\<lparr>return_value := v\<rparr>)"
  "irrelevant (\<lambda>p. p\<lparr>syscall_retvalue := v\<rparr>)" "irrelevant (\<lambda>p. p\<lparr>cpu_state := c\<rparr>)"
  by (simp_all add: irrelevant_def)

section \<open>The children move to init\<close>

lemma move_child_kinv:
  assumes inv: "kinv k L" and xs: "L (PCB_children me) = x # xs" and me: "me \<noteq> init_pcb k"
    and L': "L' = L(PCB_children me := xs,
      PCB_children (init_pcb k) := L (PCB_children (init_pcb k)) @ [x])"
    and rep: "list_rep lk hds L'"
    and loose: "\<And>a. loose (links k) L a \<Longrightarrow> a \<noteq> x \<Longrightarrow> loose lk L' a"
    and k': "k' = k\<lparr>links := lk, heads := hds\<rparr>"
  shows "kinv k' L'"
proof -
  note K = kinvD [OF inv]
  note S = sched_okD [OF K(2)]
  have x: "x \<in> set (L (PCB_children me))" using xs by simp
  have xl: "x \<in> pools_live (pools k) pcb_ptr_pool" using typed_listsD [OF K(9) x] by simp
  have xo: "x \<noteq> a" if "a \<in> pools_live (pools k) i" "i \<noteq> pcb_ptr_pool" for a i
    using pools_live_disjoint [OF K(8) xl, of i] that by auto
  have same: "L' h = L h" if "kind h \<noteq> pcb_ptr_pool" for h using that by (auto simp: L')
  have from_old: "\<exists>q. y \<in> set (L (PCB_children q))" if "y \<in> set (L' (PCB_children p))" for y p
  proof (cases "p = init_pcb k")
    case True
    with that x show ?thesis by (auto simp: L')
  next
    case False
    with that xs have "y \<in> set (L (PCB_children p))" by (auto simp: L' split: if_splits)
    then show ?thesis by blast
  qed
  have "typed_lists (pools_live (pools k)) L'"
    unfolding L'
    by (intro typed_lists_add [where x = x] typed_lists_sub K(9)) (use xl xs in auto)
  then have "lists_ok k' L'" using K(8) rep by (simp add: lists_ok_def k')
  moreover have "place_ok k' L'"
    using S(11) loose [OF S(2)] xo [OF S(1)] by (auto simp: place_ok_def k' same)
  moreover have "init_ok k' L'" using S(12) by (simp add: init_ok_def k' same)
  moreover have "pids_ok (pcbs k') (last_pid k') (pools_live (pools k') pcb_pool)"
    using S(13) by (simp add: k')
  moreover have "tree_ok k' L'"
    unfolding tree_ok_def
  proof (intro conjI allI impI ballI)
    fix p q y z
    assume y: "y \<in> set (L' (PCB_children p))"
    then obtain p' where y': "y \<in> set (L (PCB_children p'))" using from_old by blast
    note T = tree_okD [OF K(3) y']
    have "p = init_pcb k \<or> y \<in> set (L (PCB_children p))"
      using y xs by (auto simp: L' split: if_splits)
    then show "p \<in> pools_live (pools k') pcb_pool"
      using S(7) tree_okD(1) [OF K(3)] by (auto simp: k')
    show "pcb_ptrs k' y \<in> pools_live (pools k') pcb_pool" using T(2) by (simp add: k')
    assume z: "z \<in> set (L' (PCB_children q))" and eq: "pcb_ptrs k' y = pcb_ptrs k' z"
    from from_old [OF z] obtain q' where "z \<in> set (L (PCB_children q'))" by blast
    from T(3) [OF this] eq show "y = z" by (simp add: k')
  next
    fix p
    assume p: "p \<in> set (L' zombie_list)"
    then have "L (PCB_children p) = []" "p \<noteq> init_pcb k"
      using K(3) S(12) by (auto simp: tree_ok_def init_ok_def same)
    then show "L' (PCB_children p) = []" using xs by (auto simp: L')
  qed
  moreover have "timer_ok k' L'"
    by (rule timer_ok_cong [OF K(4)]) (use timer_okD [OF K(4)] in \<open>simp_all add: k' same\<close>)
  moreover have "sem_ok k' L'"
  proof (rule sem_ok_cong [OF K(5)])
    fix q e
    assume e: "e \<in> set (L (PCB_sem_descriptors q))"
      and l: "loose (links k) L (sd_wait_ptr (sem_descriptors k e))"
    show "loose (links k') L' (sd_wait_ptr (sem_descriptors k e))"
      using loose [OF l] xo [OF sem_descriptorD(5) [OF K(5) e refl]] by (auto simp: k')
  qed (simp_all add: k' same)
  moreover have "res_ok k' L'"
    by (rule res_ok_cong [OF K(6)]) (simp_all add: k' same)
  ultimately show ?thesis by (simp add: kinv_def sched_ok_def)
qed

lemma reparent_one_exec:
  assumes inv: "kinv k L" and xs: "L (PCB_children me) = x # xs" and me: "me \<noteq> init_pcb k"
  obtains k' g where "reparent_one k me = Inr k'"
    "kinv k' (L(PCB_children me := xs, PCB_children (init_pcb k) := L (PCB_children (init_pcb k)) @ [x]))"
    "running k' = running k" "init_pcb k' = init_pcb k" "pcbs k' = (\<lambda>p. (pcbs k p)\<lparr>signals := g p\<rparr>)"
    "pools k' = pools k" "pcb_ptrs k' = pcb_ptrs k" "user_mem k' = user_mem k"
proof -
  note K = kinvD [OF inv]
  note S = sched_okD [OF K(2)]
  let ?c = "PCB_children me" and ?i = "PCB_children (init_pcb k)"
  have x: "x \<in> set (L ?c)" using xs by simp
  obtain lk1 hd1 where
    1: "lh_first (heads k ?c) = x" "x \<noteq> NULL"
      "List_detach k ?c x = Inr (x, k\<lparr>links := lk1, heads := hd1\<rparr>)"
      "list_rep lk1 hd1 (L(?c := xs))" "loose lk1 (L(?c := xs)) x"
      "\<forall>a. loose (links k) L a \<longrightarrow> loose lk1 (L(?c := xs)) a"
    using detach_first_exec [where k = k, OF K(7) xs] by blast
  let ?k1 = "k\<lparr>links := lk1, heads := hd1\<rparr>" and ?L1 = "L(?c := xs)"
  have t: "list_rep (links ?k1) (heads ?k1) ?L1" "loose (links ?k1) ?L1 x" using 1(4,5) by simp_all
  obtain lk2 hd2 where
    2: "List_insert ?k1 ?i (lh_last (heads ?k1 ?i)) x = Inr (x, ?k1\<lparr>links := lk2, heads := hd2\<rparr>)"
      "list_rep lk2 hd2 (?L1(?i := ?L1 ?i @ [x]))"
      "\<forall>a. loose (links ?k1) ?L1 a \<longrightarrow> a \<noteq> x \<longrightarrow> loose lk2 (?L1(?i := ?L1 ?i @ [x])) a"
    using append_exec [where k = ?k1, OF t, of ?i] by blast
  let ?k2 = "k\<lparr>links := lk2, heads := hd2\<rparr>" and ?L2 = "L(?c := xs, ?i := L ?i @ [x])"
  have L2: "?L1(?i := ?L1 ?i @ [x]) = ?L2" using me by (simp add: fun_eq_iff)
  have inv2: "kinv ?k2 ?L2"
    by (rule move_child_kinv [OF inv xs me refl 2(2) [unfolded L2] _ refl])
      (use 1(6) 2(3) [unfolded L2] in simp)
  have c: "pcb_ptrs k x \<noteq> NULL" using kinv_process(1) [OF inv tree_okD(2) [OF K(3) x]] .
  let ?f = "\<lambda>p. p\<lparr>signals := or (signals p) (and DSOS_SIGHUP (signals_mask p))\<rparr>"
  let ?k' = "upd_pcb (pcb_ptrs k x) ?f ?k2"
  have run: "reparent_one k me = Inr ?k'"
    using 1(1-3) 2(1) c by (simp add: reparent_one_def Let_def)
  have "kinv ?k' ?L2" using inv2 by (simp add: kinv_irrelevant)
  moreover have "pcbs ?k' = (\<lambda>p. (pcbs k p)\<lparr>signals := (if p = pcb_ptrs k x
      then signals (?f (pcbs k p)) else signals (pcbs k p))\<rparr>)" by (auto simp: fun_eq_iff)
  ultimately show thesis by (intro that [OF run, rotated -1]) simp_all
qed

lemma reparent_children_exec:
  assumes "kinv k L" and "me \<noteq> init_pcb k" and "L (PCB_children me) = xs"
  shows "\<exists>k' g. reparent_children k me = Some (Inr k') \<and>
    kinv k' (L(PCB_children me := [], PCB_children (init_pcb k) := L (PCB_children (init_pcb k)) @ xs)) \<and>
    running k' = running k \<and> init_pcb k' = init_pcb k \<and>
    pcbs k' = (\<lambda>p. (pcbs k p)\<lparr>signals := g p\<rparr>) \<and> pools k' = pools k \<and> pcb_ptrs k' = pcb_ptrs k \<and>
    user_mem k' = user_mem k"
  using assms
proof (induction xs arbitrary: k L)
  case Nil
  then have "lh_first (heads k (PCB_children me)) = NULL" using first_empty [OF kinvD(7)] by blast
  then have "reparent_children k me = Some (Inr k)" by (simp add: reparent_children.simps)
  moreover have "L(PCB_children me := [], PCB_children (init_pcb k) := L (PCB_children (init_pcb k)) @ []) = L"
    using Nil(3) by (simp add: fun_eq_iff)
  moreover have "pcbs k = (\<lambda>p. (pcbs k p)\<lparr>signals := signals (pcbs k p)\<rparr>)" by (simp add: fun_eq_iff)
  ultimately show ?case using Nil(1) by metis
next
  case (Cons x xs)
  let ?i = "PCB_children (init_pcb k)" and ?c = "PCB_children me"
  from reparent_one_exec [OF Cons.prems(1,3,2)] obtain k1 g1 where
    1: "reparent_one k me = Inr k1" "kinv k1 (L(?c := xs, ?i := L ?i @ [x]))"
      "running k1 = running k" "init_pcb k1 = init_pcb k" "pcbs k1 = (\<lambda>p. (pcbs k p)\<lparr>signals := g1 p\<rparr>)"
      "pools k1 = pools k" "pcb_ptrs k1 = pcb_ptrs k" "user_mem k1 = user_mem k" by blast
  have ne: "lh_first (heads k ?c) \<noteq> NULL"
    using first_empty [OF kinvD(7) [OF Cons.prems(1)]] Cons.prems(3) by simp
  have "me \<noteq> init_pcb k1" "(L(?c := xs, ?i := L ?i @ [x])) ?c = xs"
    using Cons.prems(2) 1(4) by simp_all
  from Cons.IH [OF 1(2) this] obtain k' g where
    2: "reparent_children k1 me = Some (Inr k')"
      "kinv k' (L(?c := xs, ?i := L ?i @ [x], ?c := [],
         PCB_children (init_pcb k1) := (L(?c := xs, ?i := L ?i @ [x])) (PCB_children (init_pcb k1)) @ xs))"
      "running k' = running k1" "init_pcb k' = init_pcb k1"
      "pcbs k' = (\<lambda>p. (pcbs k1 p)\<lparr>signals := g p\<rparr>)" "pools k' = pools k1" "pcb_ptrs k' = pcb_ptrs k1"
      "user_mem k' = user_mem k1"
    by blast
  have run: "reparent_children k me = Some (Inr k')"
    using ne 1(1) 2(1) by (simp add: reparent_children.simps [of k])
  have "L(?c := xs, ?i := L ?i @ [x], ?c := [],
         PCB_children (init_pcb k1) := (L(?c := xs, ?i := L ?i @ [x])) (PCB_children (init_pcb k1)) @ xs) =
      L(?c := [], ?i := L ?i @ x # xs)"
    using Cons.prems(2) by (auto simp: fun_eq_iff 1(4))
  with 2(2) have inv': "kinv k' (L(?c := [], ?i := L ?i @ x # xs))" by simp
  have "pcbs k' = (\<lambda>p. (pcbs k p)\<lparr>signals := g p\<rparr>)" using 2(5) 1(5) by simp
  then show ?case
    by (intro exI [of _ k'] exI [of _ g] conjI run inv') (simp_all add: 1(3,4,6-8) 2(3,4,6-8))
qed

section \<open>The process becomes a zombie\<close>

lemma zombify_kinv:
  assumes inv: "kinv k L" and none: "L (PCB_children (running k)) = []"
    and me: "running k \<noteq> init_pcb k"
    and L': "L' = L(zombie_list := L zombie_list @ [running k])"
    and rep: "list_rep lk hds L'"
    and loose: "\<And>a. loose (links k) L a \<Longrightarrow> a \<noteq> running k \<Longrightarrow> loose lk L' a"
    and k': "k' = (upd_pcb (running k) (\<lambda>p. p\<lparr>status := Zombie\<rparr>) k)\<lparr>links := lk, heads := hds\<rparr>"
  shows "kinv_idle k' L'"
proof -
  note K = kinvD [OF inv]
  note S = sched_okD [OF K(2)]
  have same: "L' h = L h" if "h \<noteq> zombie_list" for h using that by (simp add: L')
  have "typed_lists (pools_live (pools k)) L'"
    unfolding L' by (rule typed_lists_add [where x = "running k"], rule K(9)) (use S(1) in auto)
  then have "lists_ok k' L'" using K(8) rep by (simp add: lists_ok_def k')
  moreover have "idle_place_ok k' L'"
    using S(1,11) S(4) [of ready_list] S(4) [of waiting_list]
    unfolding place_ok_def idle_place_ok_def by (auto simp: k' L')
  moreover have "init_ok k' L'" using S(12) me by (auto simp: init_ok_def k' L')
  moreover have "pids_ok (pcbs k') (last_pid k') (pools_live (pools k') pcb_pool)"
    by (simp add: k') (rule pids_ok_cong [OF S(13)], auto)
  moreover have "tree_ok k' L'" using K(3) none unfolding tree_ok_def by (auto simp: k' L')
  moreover have "timer_ok k' L'"
    by (rule timer_ok_cong [OF K(4)]) (use timer_okD [OF K(4)] in \<open>auto simp: k' same\<close>)
  moreover have "sem_ok k' L'"
  proof (rule sem_ok_cong [OF K(5)])
    fix q e
    assume e: "e \<in> set (L (PCB_sem_descriptors q))"
      and l: "loose (links k) L (sd_wait_ptr (sem_descriptors k e))"
    have "sd_wait_ptr (sem_descriptors k e) \<noteq> running k"
      using pools_live_disjoint [OF K(8) S(1), of sem_descriptor_ptr_pool]
        sem_descriptorD(5) [OF K(5) e refl] by auto
    with loose [OF l] show "loose (links k') L' (sd_wait_ptr (sem_descriptors k e))"
      by (simp add: k')
  qed (auto simp: k' same)
  moreover have "res_ok k' L'" by (rule res_ok_cong [OF K(6)]) (simp_all add: k' same)
  ultimately show ?thesis by (simp add: kinv_idle_def)
qed

lemma zombify_exec:
  assumes inv: "kinv k L" and none: "L (PCB_children (running k)) = []"
    and me: "running k \<noteq> init_pcb k"
  obtains lk hds where
    "List_insert (upd_pcb (running k) (\<lambda>p. p\<lparr>status := Zombie\<rparr>) k) zombie_list
       (lh_last (heads k zombie_list)) (running k) =
     Inr (running k, (upd_pcb (running k) (\<lambda>p. p\<lparr>status := Zombie\<rparr>) k)\<lparr>links := lk, heads := hds\<rparr>)"
    "kinv_idle ((upd_pcb (running k) (\<lambda>p. p\<lparr>status := Zombie\<rparr>) k)\<lparr>links := lk, heads := hds\<rparr>)
       (L(zombie_list := L zombie_list @ [running k]))"
proof -
  let ?k = "upd_pcb (running k) (\<lambda>p. p\<lparr>status := Zombie\<rparr>) k"
  let ?L = "L(zombie_list := L zombie_list @ [running k])"
  note K = kinvD [OF inv]
  have t: "list_rep (links ?k) (heads ?k) L" "loose (links ?k) L (running k)"
    using K(7) sched_okD(2) [OF K(2)] by simp_all
  obtain lk hds where
    a: "List_insert ?k zombie_list (lh_last (heads ?k zombie_list)) (running k) =
        Inr (running k, ?k\<lparr>links := lk, heads := hds\<rparr>)"
      "list_rep lk hds ?L" "\<forall>a. loose (links ?k) L a \<longrightarrow> a \<noteq> running k \<longrightarrow> loose lk ?L a"
    using append_exec [where k = ?k, OF t, of zombie_list] by blast
  have "kinv_idle (?k\<lparr>links := lk, heads := hds\<rparr>) ?L"
    by (rule zombify_kinv [OF inv none me refl a(2) _ refl]) (use a(3) in simp)
  with a(1) show thesis by (intro that) simp_all
qed


section \<open>The parent was waiting\<close>

lemma wake_parent_kinv:
  assumes inv: "kinv_idle k L" and par: "par \<in> set (L waiting_list)"
    and wait: "syscall_num (pcbs k par) = DSOS_CALL_WAIT"
    and L': "L' = L(waiting_list := remove1 par (L waiting_list))"
    and rep: "list_rep lk hds L'" and lp: "loose lk L' par"
    and loose: "\<And>a. loose (links k) L a \<Longrightarrow> loose lk L' a"
    and k': "k' = (upd_pcb par (\<lambda>p. p\<lparr>status := Running\<rparr>) k)\<lparr>links := lk, heads := hds, running := par\<rparr>"
  shows "kinv k' L'"
proof -
  note K = kinv_idleD [OF inv]
  note R = list_repD [OF K(9)]
  have pl: "par \<in> pools_live (pools k) pcb_pool" using typed_listsD [OF K(11) par] by simp
  have pn: "par \<notin> set (L ready_list)" "par \<notin> set (L zombie_list)"
    using R(2) [of waiting_list ready_list par] R(2) [of waiting_list zombie_list par] par by simp_all
  have in_w: "p \<in> set (L' waiting_list) \<longleftrightarrow> p \<in> set (L waiting_list) \<and> p \<noteq> par" for p
    by (simp add: L' R(3))
  have same: "L' h = L h" if "h \<noteq> waiting_list" for h using that by (simp add: L')
  have "typed_lists (pools_live (pools k)) L'"
    unfolding L' by (rule typed_lists_sub, rule K(11)) (simp add: set_remove1_subset)
  then have "lists_ok k' L'" using K(10) rep by (simp add: lists_ok_def k')
  moreover have "place_ok k' L'"
    using K(2) pl pn lp in_w unfolding place_ok_def idle_place_ok_def by (auto simp: k' same)
  moreover have "init_ok k' L'" using K(3) by (auto simp: init_ok_def k' same)
  moreover have "pids_ok (pcbs k') (last_pid k') (pools_live (pools k') pcb_pool)"
    by (simp add: k') (rule pids_ok_cong [OF K(4)], auto)
  moreover have "tree_ok k' L'" by (rule tree_ok_cong [OF K(5)]) (simp_all add: k' same)
  moreover have "timer_ok k' L'"
  proof (rule timer_ok_cong [OF K(6)])
    fix t
    assume t: "t \<in> set (L timer_list)"
    have "t_pcb (timer_items k t) \<noteq> par"
      using timer_okD(2) [OF K(6) t] wait by (auto simp: syscall_numbers)
    with timer_okD(1) [OF K(6) t] show "t_pcb (timer_items k t) \<in> set (L' waiting_list)"
      by (simp add: in_w)
  qed (use timer_okD(5) [OF K(6)] in \<open>auto simp: k' same\<close>)
  moreover have "sem_ok k' L'"
  proof (rule sem_ok_cong [OF K(7)])
    show "p \<in> set (L' waiting_list)"
      if "p \<in> set (L waiting_list)" "syscall_num (pcbs k p) = DSOS_CALL_SEMWAIT" for p
      using that wait by (auto simp: in_w syscall_numbers)
  qed (use loose in \<open>auto simp: k' same\<close>)
  moreover have "res_ok k' L'" by (rule res_ok_cong [OF K(8)]) (simp_all add: k' same)
  ultimately show ?thesis by (simp add: kinv_def sched_ok_def)
qed

text \<open>No timer belongs to a process that does not wait, so the first loop does nothing.\<close>

lemma release_timers_none:
  assumes "seg (links k) p ts NULL" and "\<And>t. t \<in> set ts \<Longrightarrow> t_pcb (timer_items k t) \<noteq> me"
  shows "release_timers k me (first_of ts NULL) = Some (Inr k)"
  using assms
proof (induction ts arbitrary: p)
  case Nil
  then show ?case by (simp add: release_timers.simps)
next
  case (Cons t ts)
  then have "release_timers k me (first_of ts NULL) = Some (Inr k)" using Cons.IH [of t] by simp
  with Cons.prems show ?case by (simp add: release_timers.simps [of k me t] Let_def)
qed

text \<open>One round of the second loop. The kernel still runs the dying process, so the
  invariant is stated with the process that will run.\<close>

lemma release_descriptor_exec:
  assumes inv: "kinv (k\<lparr>running := par\<rparr>) L" and ds: "L (PCB_descriptors me) = d # ds"
  obtains lk hds ps r x where
    "release_descriptor k me = Inr (k\<lparr>links := lk, heads := hds, pools := ps\<rparr>)"
    "kinv (k\<lparr>links := lk, heads := hds, pools := ps, running := par\<rparr>)
       (L(PCB_descriptors me := ds, Resource_descriptors r := remove1 x (L (Resource_descriptors r))))"
    "\<And>i. i \<noteq> descriptor_pool \<Longrightarrow> i \<noteq> descriptor_ptr_pool \<Longrightarrow> pools_live ps i = pools_live (pools k) i"
proof -
  note K = kinvD [OF inv]
  let ?k = "k\<lparr>running := par\<rparr>"
  have lists: "lists_ok k L" and res: "res_ok k L"
    using K(1,6) by (simp_all add: lists_ok_def res_ok_def)
  have d: "d \<in> set (L (PCB_descriptors me))" "remove1 d (L (PCB_descriptors me)) = ds"
    using ds by simp_all
  define r where "r = d_resource (descriptors k d)"
  define x where "x = d_ptr (descriptors k d)"
  let ?L = "L(PCB_descriptors me := remove1 d (L (PCB_descriptors me)),
    Resource_descriptors r := remove1 x (L (Resource_descriptors r)))"
  obtain lk1 hd1 lk hds where
    1: "r \<noteq> NULL" "d \<noteq> NULL" "x \<noteq> NULL"
      "List_detach k (PCB_descriptors me) d = Inr (d, k\<lparr>links := lk1, heads := hd1\<rparr>)"
      "List_detach (k\<lparr>links := lk1, heads := hd1\<rparr>) (Resource_descriptors r) x =
         Inr (x, k\<lparr>links := lk, heads := hds\<rparr>)"
      "list_rep lk hds ?L" "\<And>a. loose (links k) L a \<Longrightarrow> loose lk ?L a"
      "d \<in> pools_live (pools k) descriptor_pool" "x \<in> pools_live (pools k) descriptor_ptr_pool"
    by (rule close_detach_exec [OF lists res d(1) r_def x_def refl]) blast
  let ?k2 = "k\<lparr>links := lk, heads := hds\<rparr>"
  have "pools_ok (pools ?k2)" "x \<in> pools_live (pools ?k2) descriptor_ptr_pool"
    using lists_okD(2) [OF lists] 1(9) by simp_all
  from pool_release_exec [OF this] obtain ps3 where
    3: "DescriptorPtr_free ?k2 x = Inr (0, ?k2\<lparr>pools := ps3\<rparr>)" "pools_ok ps3"
      "pools_live ps3 = (pools_live (pools k))(descriptor_ptr_pool := pools_live (pools k) descriptor_ptr_pool - {x})"
      "pools_room ps3 = (pools_room (pools k))(descriptor_ptr_pool := Suc (pools_room (pools k) descriptor_ptr_pool))"
    unfolding DescriptorPtr_free_def by auto
  let ?k3 = "?k2\<lparr>pools := ps3\<rparr>"
  have "pools_ok (pools ?k3)" "d \<in> pools_live (pools ?k3) descriptor_pool"
    using 3(2) 1(8) by (simp_all add: 3(3))
  from pool_release_exec [OF this] obtain ps4 where
    4: "Descriptor_free ?k3 d = Inr (0, ?k3\<lparr>pools := ps4\<rparr>)" "pools_ok ps4"
      "pools_live ps4 = (pools_live ps3)(descriptor_pool := pools_live ps3 descriptor_pool - {d})"
      "pools_room ps4 = (pools_room ps3)(descriptor_pool := Suc (pools_room ps3 descriptor_pool))"
    unfolding Descriptor_free_def by auto
  let ?k4 = "k\<lparr>links := lk, heads := hds, pools := ps4\<rparr>"
  have first: "lh_first (heads k (PCB_descriptors me)) = d"
    using list_repD(5) [OF lists_okD(1) [OF lists], of "PCB_descriptors me"] ds by simp
  have run: "release_descriptor k me = Inr ?k4"
    using 1(1,4,5) 3(1) 4(1) first
    by (simp add: release_descriptor_def Let_def r_def [symmetric] x_def [symmetric])
  have inv': "kinv (?k\<lparr>links := lk, heads := hds, pools := ps4\<rparr>) ?L"
    by (rule close_descriptor_kinv [OF inv d(1) _ _ refl 1(6) _ 4(2) _ _ refl])
      (use res_okD(6) [OF res] 1(7) in \<open>auto simp: 3(3,4) 4(3,4) r_def x_def\<close>)
  have "?k\<lparr>links := lk, heads := hds, pools := ps4\<rparr> =
      k\<lparr>links := lk, heads := hds, pools := ps4, running := par\<rparr>" by simp
  with inv' d(2) show thesis
    by (intro that [OF run, of r x]) (simp_all add: 3(3) 4(3))
qed

lemma release_descriptors_exec:
  assumes "kinv (k\<lparr>running := par\<rparr>) L" and "L (PCB_descriptors me) = ds"
  shows "\<exists>lk hds ps L'. release_descriptors k me = Some (Inr (k\<lparr>links := lk, heads := hds, pools := ps\<rparr>)) \<and>
    kinv (k\<lparr>links := lk, heads := hds, pools := ps, running := par\<rparr>) L' \<and> L' (PCB_descriptors me) = [] \<and>
    (\<forall>h. kind h \<noteq> descriptor_pool \<longrightarrow> kind h \<noteq> descriptor_ptr_pool \<longrightarrow> L' h = L h) \<and>
    (\<forall>i. i \<noteq> descriptor_pool \<longrightarrow> i \<noteq> descriptor_ptr_pool \<longrightarrow> pools_live ps i = pools_live (pools k) i)"
  using assms
proof (induction ds arbitrary: k L)
  case Nil
  have "list_rep (links k) (heads k) L" using kinvD(7) [OF Nil(1)] by simp
  then have "lh_first (heads k (PCB_descriptors me)) = NULL"
    using first_empty [of k L] Nil(2) by blast
  then have "release_descriptors k me =
      Some (Inr (k\<lparr>links := links k, heads := heads k, pools := pools k\<rparr>))"
    by (simp add: release_descriptors.simps)
  moreover have "kinv (k\<lparr>links := links k, heads := heads k, pools := pools k, running := par\<rparr>) L"
    using Nil(1) by simp
  ultimately show ?case using Nil(2)
    by (intro exI [of _ "links k"] exI [of _ "heads k"] exI [of _ "pools k"] exI [of _ L] conjI)
      (assumption, assumption, simp_all)
next
  case (Cons d ds)
  obtain lk hds ps r x where
    1: "release_descriptor k me = Inr (k\<lparr>links := lk, heads := hds, pools := ps\<rparr>)"
      "kinv (k\<lparr>links := lk, heads := hds, pools := ps, running := par\<rparr>)
         (L(PCB_descriptors me := ds, Resource_descriptors r := remove1 x (L (Resource_descriptors r))))"
      "\<And>i. i \<noteq> descriptor_pool \<Longrightarrow> i \<noteq> descriptor_ptr_pool \<Longrightarrow> pools_live ps i = pools_live (pools k) i"
    by (rule release_descriptor_exec [OF Cons.prems]) (rule that)
  let ?k1 = "k\<lparr>links := lk, heads := hds, pools := ps\<rparr>"
  let ?L1 = "L(PCB_descriptors me := ds, Resource_descriptors r := remove1 x (L (Resource_descriptors r)))"
  have "kinv (?k1\<lparr>running := par\<rparr>) ?L1" "?L1 (PCB_descriptors me) = ds" using 1(2) by simp_all
  from Cons.IH [OF this] obtain lk2 hd2 ps2 L2 where
    2: "release_descriptors ?k1 me = Some (Inr (?k1\<lparr>links := lk2, heads := hd2, pools := ps2\<rparr>))"
      "kinv (?k1\<lparr>links := lk2, heads := hd2, pools := ps2, running := par\<rparr>) L2"
      "L2 (PCB_descriptors me) = []"
      "\<forall>h. kind h \<noteq> descriptor_pool \<longrightarrow> kind h \<noteq> descriptor_ptr_pool \<longrightarrow> L2 h = ?L1 h"
      "\<forall>i. i \<noteq> descriptor_pool \<longrightarrow> i \<noteq> descriptor_ptr_pool \<longrightarrow> pools_live ps2 i = pools_live (pools ?k1) i"
    by blast
  have "list_rep (links k) (heads k) L" using kinvD(7) [OF Cons.prems(1)] by simp
  then have "lh_first (heads k (PCB_descriptors me)) \<noteq> NULL"
    using first_empty [of k L] Cons.prems(2) by (metis list.distinct(1))
  then have "release_descriptors k me = Some (Inr (k\<lparr>links := lk2, heads := hd2, pools := ps2\<rparr>))"
    using 1(1) 2(1) by (simp add: release_descriptors.simps [of k])
  moreover have "kinv (k\<lparr>links := lk2, heads := hd2, pools := ps2, running := par\<rparr>) L2" using 2(2) by simp
  moreover have "L2 h = L h" if "kind h \<noteq> descriptor_pool" "kind h \<noteq> descriptor_ptr_pool" for h
    using 2(4) that by auto
  moreover have "pools_live ps2 i = pools_live (pools k) i"
    if "i \<noteq> descriptor_pool" "i \<noteq> descriptor_ptr_pool" for i
    using 2(5) 1(3) that by simp
  ultimately show ?case using 2(3)
    by (intro exI [of _ lk2] exI [of _ hd2] exI [of _ ps2] exI [of _ L2]) simp
qed


lemma exit_to_parent_exec:
  assumes inv: "kinv_idle k L" and me: "me \<in> set (L zombie_list)"
    and p: "par = parent (pcbs k me)" "par \<in> set (L waiting_list)"
    and wait: "syscall_num (pcbs k par) = DSOS_CALL_WAIT"
  obtains (lost) "\<And>x. x \<in> set (L (PCB_children par)) \<Longrightarrow> pcb_ptrs k x \<noteq> me"
      "exit_to_parent k me = Inl Null_deref"
  | (collected) x k' L' where "x \<in> set (L (PCB_children par))" "pcb_ptrs k x = me"
      "exit_to_parent k me = Inr k'" "kinv k' L'" "running k' = par"
      "pcbs k' = (pcbs k)(par := (pcbs k par)\<lparr>status := Running,
         syscall_retvalue := pid (pcbs k me)\<rparr>)"
      "L' ready_list = L ready_list" "L' waiting_list = remove1 par (L waiting_list)"
      "L' zombie_list = remove1 me (L zombie_list)"
      "L' (PCB_children par) = remove1 x (L (PCB_children par))"
      "L' (PCB_descriptors me) = []"
      "pools_live (pools k') pcb_pool = pools_live (pools k) pcb_pool - {me}"
      "pools_live (pools k') pcb_ptr_pool = pools_live (pools k) pcb_ptr_pool"
      "user_mem k' = user_mem (store_user (syscall_args (pcbs k par) 1) (return_value (pcbs k me)) k)"
      "\<And>s. L' (Semaphore_waiting s) = L (Semaphore_waiting s)"
      "\<And>q. L' (PCB_sem_descriptors q) = L (PCB_sem_descriptors q)"
      "L' semaphores_list = L semaphores_list"
proof -
  note K = kinv_idleD [OF inv]
  note R = list_repD [OF K(9)]
  note T = typed_listsD [OF K(11)]
  have ne: "me \<noteq> par" using R(2) [of zombie_list waiting_list me] me p(2) by auto
  have pz: "par \<noteq> NULL" using R(4) [of waiting_list] p(2) by metis
  have ml: "me \<in> pools_live (pools k) pcb_pool" using T [OF me] by simp
  let ?w = "waiting_list" and ?c = "PCB_children par"
  obtain lk1 hd1 where
    1: "List_detach k ?w par = Inr (par, k\<lparr>links := lk1, heads := hd1\<rparr>)"
      "list_rep lk1 hd1 (L(?w := remove1 par (L ?w)))" "loose lk1 (L(?w := remove1 par (L ?w))) par"
      "\<forall>a. loose (links k) L a \<longrightarrow> loose lk1 (L(?w := remove1 par (L ?w))) a"
    using detach_exec [where k = k and h = ?w, OF K(9) p(2)] by blast
  define L1 where "L1 = L(?w := remove1 par (L ?w))"
  define k2 where "k2 = upd_pcb par (\<lambda>p. p\<lparr>status := Running\<rparr>) (k\<lparr>links := lk1, heads := hd1\<rparr>)"
  have inv2: "kinv (k2\<lparr>running := par\<rparr>) L1"
    by (rule wake_parent_kinv [OF inv p(2) wait L1_def, of lk1 hd1])
      (use 1(2-4) in \<open>simp_all add: L1_def k2_def upd_pcb_def\<close>)
  note K2 = kinvD [OF inv2]
  have rep2: "list_rep (links k2) (heads k2) L1" using K2(7) by simp
  have ptr: "pcb_ptrs k y \<in> pools_live (pools k) pcb_pool" "pcb_ptrs k y \<noteq> NULL"
    if "y \<in> set (L1 h)" "h = ?c" for y h
  proof -
    have y: "y \<in> set (L1 ?c)" using that by simp
    show "pcb_ptrs k y \<in> pools_live (pools k) pcb_pool"
      using tree_okD(2) [OF K2(3) y] by (simp add: k2_def)
    show "pcb_ptrs k y \<noteq> NULL"
      using kinv_process(1) [OF inv2 tree_okD(2) [OF K2(3) y]] by (simp add: k2_def)
  qed
  have pid_eq: "pid (pcbs k2 q) = pid (pcbs k q)" for q by (simp add: k2_def)
  let ?test = "\<lambda>y. pid (pcbs k2 (pcb_ptrs k2 y)) = pid (pcbs k2 me)"
  have test: "?test y \<longleftrightarrow> pcb_ptrs k y = me" if "y \<in> set (L ?c)" for y
  proof -
    have "pcb_ptrs k y \<in> pools_live (pools k) pcb_pool" using ptr(1) [of y ?c] that by (simp add: L1_def)
    then show ?thesis using K(4) ml unfolding pid_eq by (auto simp: pids_ok_def inj_on_def k2_def)
  qed
  have search: "PCBPtr_byPID k2 ?c (pid (pcbs k2 me)) = Inr (scan_result ?test (L ?c))"
    unfolding PCBPtr_byPID_def
    using list_rep_search [OF rep2, of ?c "\<lambda>aux. pcb_ptrs k2 aux" ?test] ptr(2)
    by (simp add: L1_def k2_def)
  have step: "exit_to_parent k me = andthen (List_detach k2 ?c (scan_result ?test (L ?c))) (\<lambda>(_, k3).
        let k4 = upd_pcb par (\<lambda>p. p\<lparr>syscall_retvalue := pid (pcbs k3 me)\<rparr>) k3;
            result = syscall_args (pcbs k4 par) 1;
            k5 = store_user result (return_value (pcbs k4 me)) k4 in
        andthen (loop_res (release_timers k5 me (lh_first (heads k5 timer_list)))) (\<lambda>k6.
        andthen (loop_res (release_descriptors k6 me)) (\<lambda>k7.
        andthen (List_detach k7 zombie_list me) (\<lambda>(suppressed_item, k8).
        andthen (PCB_free k8 suppressed_item) (\<lambda>(_, k9).
        Inr (k9\<lparr>running := par\<rparr>))))))"
    unfolding exit_to_parent_def
    by (simp only: p(1) [symmetric] 1(1) andthen_Inr prod.case pz c_assert_simps simp_thms
        k2_def [symmetric] search Let_def)
  show thesis
  proof (cases "scan_result ?test (L ?c) = NULL")
    case True
    then have "pcb_ptrs k y \<noteq> me" if "y \<in> set (L ?c)" for y
      using scan_result_NULL [OF R(4), of ?test ?c] test [OF that] that by blast
    moreover have "exit_to_parent k me = Inl Null_deref" using step True by simp
    ultimately show thesis by (rule lost)
  next
    case False
    define x where "x = scan_result ?test (L ?c)"
    have x: "x \<in> set (L ?c)" "pcb_ptrs k x = me"
      using scan_result_nonnull [OF False] test by (auto simp: x_def)
    have x2: "x \<in> set (L1 ?c)" using x(1) by (simp add: L1_def)
    obtain lk3 hd3 where
      3: "List_detach k2 ?c x = Inr (x, k2\<lparr>links := lk3, heads := hd3\<rparr>)"
        "list_rep lk3 hd3 (L1(?c := remove1 x (L1 ?c)))"
        "\<forall>a. loose (links k2) L1 a \<longrightarrow> loose lk3 (L1(?c := remove1 x (L1 ?c))) a"
      using detach_exec [where k = k2 and h = ?c, OF rep2 x2] by blast
    let ?k3 = "k2\<lparr>links := lk3, heads := hd3\<rparr>" and ?L3 = "L1(?c := remove1 x (L1 ?c))"
    have inv3: "kinv (k2\<lparr>running := par, links := lk3, heads := hd3, pools := pools k2\<rparr>) ?L3"
      by (rule drop_child_kinv [OF inv2 x2 refl 3(2) _ _ _ _ _ refl])
        (use 3(3) K2(8) res_okD(6) [OF K2(6)] in simp_all)
    define k5 where "k5 = store_user (syscall_args (pcbs k par) (Suc 0)) (return_value (pcbs k me))
      (upd_pcb par (\<lambda>p. p\<lparr>syscall_retvalue := pid (pcbs k me)\<rparr>) ?k3)"
    have inv5: "kinv (k5\<lparr>running := par\<rparr>) ?L3"
    proof -
      have "k5\<lparr>running := par\<rparr> = store_user (syscall_args (pcbs k par) (Suc 0)) (return_value (pcbs k me))
          (upd_pcb par (\<lambda>p. p\<lparr>syscall_retvalue := pid (pcbs k me)\<rparr>)
             (k2\<lparr>running := par, links := lk3, heads := hd3, pools := pools k2\<rparr>))"
        by (simp add: k5_def store_user_def upd_pcb_def)
      with inv3 show ?thesis by (simp add: kinv_irrelevant)
    qed
    note K5 = kinvD [OF inv5]
    have sel5: "pools k5 = pools k" "pcb_ptrs k5 = pcb_ptrs k"
      "pcbs k5 = (pcbs k)(par := (pcbs k par)\<lparr>status := Running, syscall_retvalue := pid (pcbs k me)\<rparr>)"
      "user_mem k5 = user_mem (store_user (syscall_args (pcbs k par) 1) (return_value (pcbs k me)) k)"
      "timer_items k5 = timer_items k"
      by (simp_all add: k5_def k2_def store_user_def upd_pcb_def)
    have timers: "release_timers k5 me (lh_first (heads k5 timer_list)) = Some (Inr k5)"
    proof -
      have "t_pcb (timer_items k5 t) \<noteq> me" if "t \<in> set (?L3 timer_list)" for t
      proof -
        have "t_pcb (timer_items k t) \<in> set (L waiting_list)"
          by (rule timer_okD(1) [OF K(6)]) (use that in \<open>simp add: L1_def\<close>)
        then show ?thesis using R(2) [of zombie_list waiting_list me] me by (auto simp: sel5)
      qed
      moreover have r: "list_rep (links k5) (heads k5) ?L3" using K5(7) by simp
      ultimately show ?thesis
        using release_timers_none [OF dllD(2) [OF list_repD(1) [OF r, of timer_list]]]
        by (simp add: list_repD(5) [OF r])
    qed
    from release_descriptors_exec [OF inv5 refl, of me] obtain lk7 hd7 ps7 L7 where
      7: "release_descriptors k5 me = Some (Inr (k5\<lparr>links := lk7, heads := hd7, pools := ps7\<rparr>))"
        "kinv (k5\<lparr>links := lk7, heads := hd7, pools := ps7, running := par\<rparr>) L7"
        "L7 (PCB_descriptors me) = []"
        "\<And>h. kind h \<noteq> descriptor_pool \<Longrightarrow> kind h \<noteq> descriptor_ptr_pool \<Longrightarrow> L7 h = ?L3 h"
        "\<And>i. i \<noteq> descriptor_pool \<Longrightarrow> i \<noteq> descriptor_ptr_pool \<Longrightarrow> pools_live ps7 i = pools_live (pools k5) i"
      by blast
    let ?k7 = "k5\<lparr>links := lk7, heads := hd7, pools := ps7\<rparr>"
    note K7 = kinvD [OF 7(2)]
    have t7: "list_rep (links ?k7) (heads ?k7) L7" "me \<in> set (L7 zombie_list)"
      using K7(7) me by (simp_all add: 7(4) L1_def)
    obtain lk8 hd8 where
      8: "List_detach ?k7 zombie_list me = Inr (me, ?k7\<lparr>links := lk8, heads := hd8\<rparr>)"
        "list_rep lk8 hd8 (L7(zombie_list := remove1 me (L7 zombie_list)))"
        "\<forall>a. loose (links ?k7) L7 a \<longrightarrow> loose lk8 (L7(zombie_list := remove1 me (L7 zombie_list))) a"
      using detach_exec [where k = ?k7 and h = zombie_list, OF t7] by blast
    let ?k8 = "k5\<lparr>pools := ps7, links := lk8, heads := hd8\<rparr>"
    have "pools_ok (pools ?k8)" "me \<in> pools_live (pools ?k8) pcb_pool"
      using K7(8) ml by (simp_all add: 7(5) sel5)
    from pool_release_exec [OF this] obtain ps9 where
      9: "PCB_free ?k8 me = Inr (0, ?k8\<lparr>pools := ps9\<rparr>)" "pools_ok ps9"
        "pools_live ps9 = (pools_live ps7)(pcb_pool := pools_live ps7 pcb_pool - {me})"
        "pools_room ps9 = (pools_room ps7)(pcb_pool := Suc (pools_room ps7 pcb_pool))"
      unfolding PCB_free_def by auto
    let ?k' = "k5\<lparr>links := lk8, heads := hd8, pools := ps9, running := par\<rparr>"
    let ?L' = "L7(zombie_list := remove1 me (L7 zombie_list))"
    have alone: "pcb_ptrs k y \<noteq> me" if y: "y \<in> set (L7 (PCB_children q))" for y q
    proof
      assume eq: "pcb_ptrs k y = me"
      have y3: "y \<in> set (?L3 (PCB_children q))" using y by (simp add: 7(4))
      then have "y \<in> set (L1 (PCB_children q))"
        using notin_set_remove1 by (fastforce split: if_splits)
      then have "y = x" using tree_okD(3) [OF K2(3) x2] eq x(2) by (simp add: k2_def)
      then show False
        using y3 x2 list_repD(2) [OF rep2, of ?c "PCB_children q" x] list_repD(3) [OF rep2, of ?c]
        by (cases "q = par") auto
    qed
    have inv': "kinv ?k' ?L'"
      by (rule bury_kinv [OF 7(2) t7(2) _ refl 8(2) _ 9(2) _ _])
        (use 8(3) alone res_okD(6) [OF K7(6)] in \<open>simp_all add: 9(3,4) sel5(2)\<close>)
    have run: "exit_to_parent k me = Inr ?k'"
    proof -
      have s3: "syscall_args (pcbs ?k3 par) 1 = syscall_args (pcbs k par) 1"
        "pid (pcbs ?k3 me) = pid (pcbs k me)" "return_value (pcbs ?k3 me) = return_value (pcbs k me)"
        using ne by (simp_all add: k2_def)
      show ?thesis
        unfolding step x_def [symmetric]
        using 3(1) timers 7(1) 8(1) 9(1) s3 ne
        by (simp add: Let_def k5_def [symmetric])
    qed
    show thesis
    proof (rule collected [OF x run inv'])
      show "running ?k' = par" by simp
    qed (use ne in \<open>simp_all add: 7(3,4,5) 9(3) L1_def sel5\<close>)
  qed
qed


section \<open>The call\<close>

text \<open>The test of \<open>internal_exit\<close>: does the parent wait for this process?\<close>

definition awaited_by_parent :: "kernel \<Rightarrow> addr \<Rightarrow> bool" where
  "awaited_by_parent k me \<longleftrightarrow>
     (let par = parent (pcbs k me) in
      status (pcbs k par) = Waiting \<and> syscall_num (pcbs k par) = DSOS_CALL_WAIT \<and>
      (syscall_args (pcbs k par) 0 = 0 \<or> syscall_args (pcbs k par) 0 = pid (pcbs k me)))"

text \<open>The kernel when the dying process has become a zombie.\<close>

lemma exit_prefix_exec:
  assumes inv: "kinv k L" and me: "me = running k" "me \<noteq> init_pcb k"
    and v: "v = int_of_long (syscall_arg k 0)" and par: "par = parent (pcbs k me)" "par \<noteq> NULL"
  obtains k4 L4 g where "kinv_idle k4 L4"
    "internal_exit k = (if awaited_by_parent k me then exit_to_parent k4 me else exit_to_next k4)"
    "L4 = L(PCB_children me := [],
       PCB_children (init_pcb k) := L (PCB_children (init_pcb k)) @ L (PCB_children me),
       zombie_list := L zombie_list @ [me])"
    "pcbs k4 = (\<lambda>p. (pcbs k p)\<lparr>signals := g p\<rparr>)
       (me := (pcbs k me)\<lparr>signals := g me, return_value := v, status := Zombie\<rparr>)"
    "pools_live (pools k4) = pools_live (pools k)" "pcb_ptrs k4 = pcb_ptrs k" "user_mem k4 = user_mem k"
proof -
  note K = kinvD [OF inv]
  note S = sched_okD [OF K(2)]
  define k0 where "k0 = upd_pcb me (\<lambda>p. p\<lparr>return_value := v\<rparr>) k"
  have inv0: "kinv k0 L" using inv by (simp add: k0_def kinv_irrelevant)
  have sel0: "running k0 = me" "init_pcb k0 = init_pcb k" by (simp_all add: k0_def me(1))
  obtain k1 g1 where
    1: "reparent_children k0 me = Some (Inr k1)"
      "kinv k1 (L(PCB_children me := [],
         PCB_children (init_pcb k0) := L (PCB_children (init_pcb k0)) @ L (PCB_children me)))"
      "running k1 = running k0" "init_pcb k1 = init_pcb k0"
      "pcbs k1 = (\<lambda>p. (pcbs k0 p)\<lparr>signals := g1 p\<rparr>)" "pools k1 = pools k0" "pcb_ptrs k1 = pcb_ptrs k0"
      "user_mem k1 = user_mem k0"
    using reparent_children_exec [OF inv0 _ refl, of me] me(2) sel0(2) by auto
  define L1 where "L1 = L(PCB_children me := [],
    PCB_children (init_pcb k) := L (PCB_children (init_pcb k)) @ L (PCB_children me))"
  have inv1: "kinv k1 L1" using 1(2) by (simp add: L1_def sel0)
  have t: "L1 (PCB_children (running k1)) = []" "running k1 \<noteq> init_pcb k1"
    using me(2) 1(3,4) sel0 by (simp_all add: L1_def)
  have r1: "running k1 = me" using 1(3) sel0(1) by simp
  obtain lk hds where
    2: "List_insert (upd_pcb me (\<lambda>p. p\<lparr>status := Zombie\<rparr>) k1) zombie_list
         (lh_last (heads k1 zombie_list)) me =
       Inr (me, (upd_pcb me (\<lambda>p. p\<lparr>status := Zombie\<rparr>) k1)\<lparr>links := lk, heads := hds\<rparr>)"
      "kinv_idle ((upd_pcb me (\<lambda>p. p\<lparr>status := Zombie\<rparr>) k1)\<lparr>links := lk, heads := hds\<rparr>)
         (L1(zombie_list := L1 zombie_list @ [me]))"
    using zombify_exec [OF inv1 t] unfolding r1 by blast
  define k3 where "k3 = (upd_pcb me (\<lambda>p. p\<lparr>status := Zombie\<rparr>) k1)\<lparr>links := lk, heads := hds\<rparr>"
  define k4 where
    "k4 = upd_pcb par (\<lambda>p. p\<lparr>signals := or (signals p) (and DSOS_SIGCHLD (signals_mask p))\<rparr>) k3"
  have pc3: "pcbs k3 = (\<lambda>p. (pcbs k p)\<lparr>signals := g1 p\<rparr>)
       (me := (pcbs k me)\<lparr>signals := g1 me, return_value := v, status := Zombie\<rparr>)"
    by (simp add: k3_def 1(5) k0_def fun_eq_iff)
  define g where "g = (\<lambda>p. signals (pcbs k4 p))"
  have pc4: "pcbs k4 = (\<lambda>p. (pcbs k p)\<lparr>signals := g p\<rparr>)
       (me := (pcbs k me)\<lparr>signals := g me, return_value := v, status := Zombie\<rparr>)"
    by (simp add: g_def k4_def pc3 fun_eq_iff)
  have inv4: "kinv_idle k4 (L1(zombie_list := L1 zombie_list @ [me]))"
    using 2(2) by (simp add: k4_def k3_def kinv_idle_irrelevant)
  have par3: "parent (pcbs k3 me) = par" by (simp add: pc3 par(1))
  have cond: "(status (pcbs k4 par) = Waiting \<and> syscall_num (pcbs k4 par) = DSOS_CALL_WAIT \<and>
       (syscall_args (pcbs k4 par) 0 = 0 \<or> syscall_args (pcbs k4 par) 0 = pid (pcbs k4 me))) =
      awaited_by_parent k me"
    using S(5) me(1) unfolding awaited_by_parent_def Let_def par(1) [symmetric]
    by (cases "par = me") (auto simp: pc4)
  have mz: "me \<noteq> NULL" "init_pcb k0 \<noteq> NULL" using S(3,6) me(1) sel0 by simp_all
  have hd: "heads (upd_pcb me f k1) = heads k1" for f by simp
  have run: "internal_exit k =
      (if awaited_by_parent k me then exit_to_parent k4 me else exit_to_next k4)"
    unfolding internal_exit_def me(1) [symmetric] v [symmetric] Let_def k0_def [symmetric]
    by (simp only: mz par(2) 1(1) loop_res_simps andthen_Inr deref_nonnull c_assert_simps simp_thms
        hd 2(1) k3_def [symmetric] prod.case par3 k4_def [symmetric] cond)
  have L4: "L1(zombie_list := L1 zombie_list @ [me]) = L(PCB_children me := [],
       PCB_children (init_pcb k) := L (PCB_children (init_pcb k)) @ L (PCB_children me),
       zombie_list := L zombie_list @ [me])" by (simp add: L1_def)
  have rest: "pools_live (pools k4) = pools_live (pools k)" "pcb_ptrs k4 = pcb_ptrs k"
    "user_mem k4 = user_mem k"
    by (simp_all add: k4_def k3_def 1(6-8) k0_def)
  show thesis
    by (rule that [OF inv4 run L4 pc4 rest])
qed


lemma internal_exit_orphan:
  assumes inv: "kinv k L" and me: "running k \<noteq> init_pcb k" and par: "parent (pcbs k (running k)) = NULL"
  shows "internal_exit k = Inl Null_deref"
proof -
  note S = sched_okD [OF kinvD(2) [OF inv]]
  let ?me = "running k"
  define k0 where "k0 = upd_pcb ?me (\<lambda>p. p\<lparr>return_value := int_of_long (syscall_arg k 0)\<rparr>) k"
  have inv0: "kinv k0 L" using inv by (simp add: k0_def kinv_irrelevant)
  obtain k1 g1 L1 where
    1: "reparent_children k0 ?me = Some (Inr k1)" "kinv k1 L1" "L1 (PCB_children ?me) = []"
      "running k1 = running k0" "init_pcb k1 = init_pcb k0"
      "pcbs k1 = (\<lambda>p. (pcbs k0 p)\<lparr>signals := g1 p\<rparr>)"
    using reparent_children_exec [OF inv0 _ refl, of ?me] me by (auto simp: k0_def)
  have "running k1 = ?me" "running k1 \<noteq> init_pcb k1" using 1(4,5) me by (simp_all add: k0_def)
  with zombify_exec [OF 1(2)] 1(3) obtain lk hds where
    "List_insert (upd_pcb ?me (\<lambda>p. p\<lparr>status := Zombie\<rparr>) k1) zombie_list
       (lh_last (heads k1 zombie_list)) ?me =
     Inr (?me, (upd_pcb ?me (\<lambda>p. p\<lparr>status := Zombie\<rparr>) k1)\<lparr>links := lk, heads := hds\<rparr>)"
    by metis
  then show ?thesis
    using S(3,6) 1(1,6) par
    by (simp add: internal_exit_def Let_def k0_def [symmetric]) (simp add: k0_def)
qed

lemma exit_to_next_exec:
  assumes inv: "kinv_idle k L"
  obtains (stuck) "L ready_list = []" "exit_to_next k = Inl Null_deref"
  | (switch) r rs k' where "L ready_list = r # rs" "exit_to_next k = Inr k'" "running k' = r"
      "kinv k' (L(ready_list := rs))"
      "pcbs k' = (pcbs k)(r := (pcbs k r)\<lparr>status := Running\<rparr>)"
      "pools k' = pools k" "pcb_ptrs k' = pcb_ptrs k" "user_mem k' = user_mem k"
proof (cases "L ready_list")
  case Nil
  then have "lh_first (heads k ready_list) = NULL"
    using first_empty [OF kinv_idleD(9) [OF inv], of ready_list] by simp
  then show thesis using Nil by (intro stuck) (simp_all add: exit_to_next_def)
next
  case (Cons r rs)
  from pick_exec [OF inv Cons] obtain lk hds where
    q: "lh_first (heads k ready_list) = r" "r \<noteq> NULL"
      "List_detach k ready_list r = Inr (r, k\<lparr>links := lk, heads := hds\<rparr>)"
      "kinv ((upd_pcb r (\<lambda>p. p\<lparr>status := Running\<rparr>) (k\<lparr>links := lk, heads := hds\<rparr>))\<lparr>running := r\<rparr>)
         (L(ready_list := rs))" by blast
  have run: "exit_to_next k =
      Inr ((upd_pcb r (\<lambda>p. p\<lparr>status := Running\<rparr>) (k\<lparr>links := lk, heads := hds\<rparr>))\<lparr>running := r\<rparr>)"
    using q(1-3) by (simp add: exit_to_next_def)
  show thesis by (rule switch [OF Cons run _ q(4)]) (simp_all add: upd_pcb_def)
qed

text \<open>The process \<open>init\<close> cannot exit: it has no parent, and with children the loop never ends.\<close>

lemma reparent_one_init:
  assumes rep: "list_rep (links k) (heads k) L" and xs: "L (PCB_children (init_pcb k)) = x # xs"
    and ptr: "pcb_ptrs k x \<noteq> NULL"
  obtains k' where "reparent_one k (init_pcb k) = Inr k'"
    "list_rep (links k') (heads k') (L(PCB_children (init_pcb k) := xs @ [x]))"
    "init_pcb k' = init_pcb k" "pcb_ptrs k' = pcb_ptrs k"
proof -
  let ?i = "PCB_children (init_pcb k)"
  obtain lk1 hd1 where
    1: "lh_first (heads k ?i) = x" "x \<noteq> NULL"
      "List_detach k ?i x = Inr (x, k\<lparr>links := lk1, heads := hd1\<rparr>)"
      "list_rep lk1 hd1 (L(?i := xs))" "loose lk1 (L(?i := xs)) x"
    using detach_first_exec [where k = k, OF rep xs] by blast
  let ?k1 = "k\<lparr>links := lk1, heads := hd1\<rparr>" and ?L1 = "L(?i := xs)"
  have t: "list_rep (links ?k1) (heads ?k1) ?L1" "loose (links ?k1) ?L1 x" using 1(4,5) by simp_all
  obtain lk2 hd2 where
    2: "List_insert ?k1 ?i (lh_last (heads ?k1 ?i)) x = Inr (x, ?k1\<lparr>links := lk2, heads := hd2\<rparr>)"
      "list_rep lk2 hd2 (?L1(?i := ?L1 ?i @ [x]))"
    using append_exec [where k = ?k1, OF t, of ?i] by blast
  let ?f = "\<lambda>p. p\<lparr>signals := or (signals p) (and DSOS_SIGHUP (signals_mask p))\<rparr>"
  show thesis
  proof (rule that)
    show "reparent_one k (init_pcb k) =
        Inr (upd_pcb (pcb_ptrs k x) ?f (k\<lparr>links := lk2, heads := hd2\<rparr>))"
      using 1(1-3) 2(1) ptr by (simp add: reparent_one_def Let_def)
  qed (use 2(2) in simp_all)
qed

lemma reparent_init_diverges:
  assumes "reparent_children k me = Some r" and "list_rep (links k) (heads k) L"
    and "me = init_pcb k" and "L (PCB_children me) \<noteq> []"
    and "\<And>x. x \<in> set (L (PCB_children me)) \<Longrightarrow> pcb_ptrs k x \<noteq> NULL"
  shows False
  using assms
proof (induction k me r arbitrary: L rule: reparent_children.raw_induct
    [rotated, consumes 1, case_names step])
  case (step f k me r)
  note 1 = step
  obtain x xs where xs: "L (PCB_children me) = x # xs" using 1(5) by (meson list.exhaust)
  then have x: "pcb_ptrs k x \<noteq> NULL" using 1(6) [of x] by simp
  obtain k' where k': "reparent_one k (init_pcb k) = Inr k'"
    "list_rep (links k') (heads k') (L(PCB_children (init_pcb k) := xs @ [x]))"
    "init_pcb k' = init_pcb k" "pcb_ptrs k' = pcb_ptrs k"
    using reparent_one_init [OF 1(3) _ x] xs 1(4) by metis
  have "lh_first (heads k (PCB_children me)) \<noteq> NULL" using first_empty [OF 1(3)] xs by simp
  then have "f k' me = Some r" using 1(2) k'(1) 1(4) by simp
  from 1(1) [OF this k'(2)] show ?case
    using 1(4,6) xs k'(3,4) by simp
qed

lemma internal_exit_init:
  assumes inv: "kinv k L" and me: "running k = init_pcb k"
  shows "internal_exit k = Inl (if L (PCB_children (init_pcb k)) = [] then Null_deref else Diverges)"
proof -
  note K = kinvD [OF inv]
  note S = sched_okD [OF K(2)]
  let ?me = "running k"
  define k0 where "k0 = upd_pcb ?me (\<lambda>p. p\<lparr>return_value := int_of_long (syscall_arg k 0)\<rparr>) k"
  have inv0: "kinv k0 L" using inv by (simp add: k0_def kinv_irrelevant)
  note K0 = kinvD [OF inv0]
  have i0: "?me = init_pcb k0" by (simp add: k0_def me)
  show ?thesis
  proof (cases "L (PCB_children ?me) = []")
    case False
    have "reparent_children k0 ?me = None"
    proof (cases "reparent_children k0 ?me")
      case (Some r)
      have "pcb_ptrs k0 x \<noteq> NULL" if "x \<in> set (L (PCB_children ?me))" for x
        by (rule kinv_process(1) [OF inv0 tree_okD(2) [OF K0(3) that]])
      from reparent_init_diverges [OF Some K0(7) i0 False this] show ?thesis by simp
    qed
    then show ?thesis
      using False S(3,6) me by (simp add: internal_exit_def Let_def k0_def [symmetric]) (simp add: k0_def)
  next
    case True
    then have "lh_first (heads k0 (PCB_children ?me)) = NULL" using first_empty [OF K0(7)] by blast
    then have r: "reparent_children k0 ?me = Some (Inr k0)" by (simp add: reparent_children.simps)
    let ?k2 = "upd_pcb ?me (\<lambda>p. p\<lparr>status := Zombie\<rparr>) k0"
    have t: "list_rep (links ?k2) (heads ?k2) L" "loose (links ?k2) L ?me"
      using K0(7) S(2) by (simp_all add: k0_def)
    obtain lk hds where
      a: "List_insert ?k2 zombie_list (lh_last (heads ?k2 zombie_list)) ?me =
          Inr (?me, ?k2\<lparr>links := lk, heads := hds\<rparr>)"
      using append_exec [where k = ?k2, OF t, of zombie_list] by blast
    have "parent (pcbs k0 ?me) = NULL" using S(12) me by (simp add: k0_def init_ok_def)
    then have "internal_exit k = Inl Null_deref"
      using S(3,6) r a True
      by (simp add: internal_exit_def Let_def k0_def)
    then show ?thesis using True me by simp
  qed
qed

lemma awaited_facts:
  assumes inv: "kinv k L" and wait: "status (pcbs k par) = Waiting"
  shows "par \<noteq> running k" "par \<in> set (L waiting_list)" "par \<noteq> NULL"
proof -
  note S = sched_okD [OF kinvD(2) [OF inv]]
  show "par \<noteq> running k" using S(5) wait by auto
  have "par \<in> pools_live (pools k) pcb_pool"
    using S(11) wait unfolding place_ok_def by blast
  then show "par \<in> set (L waiting_list)" "par \<noteq> NULL" using kinv_process(1,3) [OF inv] wait by blast+
qed

lemma internal_exit_preserves:
  assumes inv: "kinv k L" and ok: "internal_exit k = Inr k'"
  shows "\<exists>L'. kinv k' L'"
proof -
  have me: "running k \<noteq> init_pcb k" using internal_exit_init [OF inv] ok by auto
  let ?me = "running k" and ?par = "parent (pcbs k (running k))"
  note K = kinvD [OF inv]
  note S = sched_okD [OF K(2)]
  have par: "?par \<noteq> NULL" using internal_exit_orphan [OF inv me] ok by auto
  obtain k4 L4 g where
    4: "kinv_idle k4 L4"
      "internal_exit k = (if awaited_by_parent k ?me then exit_to_parent k4 ?me else exit_to_next k4)"
      "L4 = L(PCB_children ?me := [],
         PCB_children (init_pcb k) := L (PCB_children (init_pcb k)) @ L (PCB_children ?me),
         zombie_list := L zombie_list @ [?me])"
      "pcbs k4 = (\<lambda>p. (pcbs k p)\<lparr>signals := g p\<rparr>)
         (?me := (pcbs k ?me)\<lparr>signals := g ?me, return_value := int_of_long (syscall_arg k 0),
            status := Zombie\<rparr>)"
    by (rule exit_prefix_exec [OF inv refl me refl refl par]) blast
  show ?thesis
  proof (cases "awaited_by_parent k ?me")
    case True
    then have w: "status (pcbs k ?par) = Waiting" "syscall_num (pcbs k ?par) = DSOS_CALL_WAIT"
      by (simp_all add: awaited_by_parent_def Let_def)
    then have p: "?me \<in> set (L4 zombie_list)" "?par = parent (pcbs k4 ?me)"
      "?par \<in> set (L4 waiting_list)" "syscall_num (pcbs k4 ?par) = DSOS_CALL_WAIT"
      using awaited_facts [OF inv w(1)] by (simp_all add: 4(3,4))
    have "exit_to_parent k4 ?me = Inr k'" using 4(2) True ok by simp
    then show ?thesis by (rule_tac exit_to_parent_exec [OF 4(1) p]) auto
  next
    case False
    then have "exit_to_next k4 = Inr k'" using 4(2) ok by simp
    then show ?thesis by (rule_tac exit_to_next_exec [OF 4(1)]) auto
  qed
qed

end
