(* ===== verification/Resource_Open.thy ===== *)
theory Resource_Open
  imports Resource_Correct
begin

text \<open>
  \<open>internal_openResource\<close> on a kernel that satisfies the invariant.
\<close>

section \<open>A new descriptor enters its two lists\<close>

lemma open_link_kinv:
  assumes inv: "kinv k L" and r: "r \<in> set (L resources_list)"
    and d: "loose (links k) L d" "d \<in> pools_live (pools k) descriptor_pool"
    and x: "loose (links k) L x" "x \<in> pools_live (pools k) descriptor_ptr_pool"
    and des: "d_resource (descriptors k d) = r" "d_pcb (descriptors k d) = p"
      "d_ptr (descriptors k d) = x" "descriptor_ptrs k x = d"
    and fd: "0 \<le> d_fd (descriptors k d)" "d_fd (descriptors k d) < last_fd (pcbs k p)"
      "\<And>e. e \<in> set (L (PCB_descriptors p)) \<Longrightarrow> d_fd (descriptors k e) \<noteq> d_fd (descriptors k d)"
    and L': "L' = L(PCB_descriptors p := L (PCB_descriptors p) @ [d],
      Resource_descriptors r := L (Resource_descriptors r) @ [x])"
    and rep: "list_rep lk hds L'"
    and loose: "\<And>a. loose (links k) L a \<Longrightarrow> a \<noteq> d \<Longrightarrow> a \<noteq> x \<Longrightarrow> loose lk L' a"
    and k': "k' = k\<lparr>links := lk, heads := hds\<rparr>"
  shows "kinv k' L'"
proof -
  note K = kinvD [OF inv]
  note S = sched_okD [OF K(2)]
  have dx: "d \<noteq> x" using pools_live_disjoint [OF K(8) d(2), of descriptor_ptr_pool] x(2) by auto
  have other: "a \<noteq> d \<and> a \<noteq> x" if "a \<in> pools_live (pools k) i"
      "i \<noteq> descriptor_pool" "i \<noteq> descriptor_ptr_pool" for a i
    using pools_live_disjoint [OF K(8) d(2), of i] pools_live_disjoint [OF K(8) x(2), of i] that by auto
  have same: "L' h = L h" if "kind h \<noteq> descriptor_pool" "kind h \<noteq> descriptor_ptr_pool" for h
    using that by (auto simp: L')
  have mem: "e \<in> set (L' (PCB_descriptors q)) \<longleftrightarrow> e \<in> set (L (PCB_descriptors q)) \<or> q = p \<and> e = d"
    "z \<in> set (L' (Resource_descriptors u)) \<longleftrightarrow> z \<in> set (L (Resource_descriptors u)) \<or> u = r \<and> z = x"
    for e q z u by (auto simp: L')
  have "typed_lists (pools_live (pools k)) L'"
    unfolding L'
    by (intro typed_lists_add [where x = x] typed_lists_add [where x = d] K(9)) (use d x in auto)
  then have "lists_ok k' L'" using K(8) rep by (simp add: lists_ok_def k')
  moreover have "place_ok k' L'"
    using S(11) loose [OF S(2)] other [OF S(1)] by (simp add: place_ok_def k' same)
  moreover have "init_ok k' L'" using S(12) by (simp add: init_ok_def k' same)
  moreover have "pids_ok (pcbs k') (last_pid k') (pools_live (pools k') pcb_pool)"
    using S(13) by (simp add: k')
  moreover have "tree_ok k' L'" by (rule tree_ok_cong [OF K(3)]) (simp_all add: k' same)
  moreover have "timer_ok k' L'"
    by (rule timer_ok_cong [OF K(4)]) (use timer_okD [OF K(4)] in \<open>simp_all add: k' same\<close>)
  moreover have "sem_ok k' L'"
  proof (rule sem_ok_cong [OF K(5)])
    fix q e
    assume e: "e \<in> set (L (PCB_sem_descriptors q))"
      and l: "loose (links k) L (sd_wait_ptr (sem_descriptors k e))"
    show "loose (links k') L' (sd_wait_ptr (sem_descriptors k e))"
      using loose [OF l] other [OF sem_descriptorD(5) [OF K(5) e refl]] by (simp add: k')
  qed (simp_all add: k' same)
  moreover have "res_ok k' L'"
    unfolding res_ok_def Let_def
  proof (intro conjI allI impI)
    fix q e
    assume "e \<in> set (L' (PCB_descriptors q))"
    then have e: "e \<in> set (L (PCB_descriptors q)) \<or> q = p \<and> e = d" by (simp add: mem)
    show "d_resource (descriptors k' e) \<in> set (L' resources_list)"
      "d_pcb (descriptors k' e) = q" "descriptor_ptrs k' (d_ptr (descriptors k' e)) = e"
      "d_ptr (descriptors k' e) \<in> set (L' (Resource_descriptors (d_resource (descriptors k' e))))"
      "0 \<le> d_fd (descriptors k' e)" "d_fd (descriptors k' e) < last_fd (pcbs k' q)"
      using e res_descriptorD [OF K(6), of e q] des fd r by (auto simp: k' same mem)
  next
    fix q e f
    assume "e \<in> set (L' (PCB_descriptors q))" "f \<in> set (L' (PCB_descriptors q))"
      "d_fd (descriptors k' e) = d_fd (descriptors k' f)"
    then show "e = f" using res_okD(2) [OF K(6), of e q f] fd(3) [of e] fd(3) [of f]
      unfolding mem k' by (cases "e = d"; cases "f = d"; cases "q = p") simp_all
  next
    fix u z
    assume "z \<in> set (L' (Resource_descriptors u))"
    then show "u \<in> set (L' resources_list)"
      using res_okD(7) [OF K(6), of z u] r by (auto simp: same mem)
  qed (use res_okD(4-6) [OF K(6)] in \<open>simp_all add: k' same\<close>)
  ultimately show ?thesis by (simp add: kinv_def sched_ok_def)
qed

section \<open>The descriptor part of the call\<close>

lemma openResource_descriptor_exec:
  assumes inv: "kinv k L" and r: "r = NULL \<or> r \<in> set (L resources_list)"
    and f: "f = last_fd (pcbs k (running k))"
  obtains (mistyped) "r = NULL \<or> res_type (resources k r) \<noteq> ty"
      "openResource_descriptor k r ty m = Inr (set_retvalue DSOS_ERESOURCEOPEN k)"
  | (shared) "r \<noteq> NULL" "and m DSOS_EXCL \<noteq> 0" "L (Resource_descriptors r) \<noteq> []"
      "openResource_descriptor k r ty m = Inr (set_retvalue DSOS_ERESOURCENOEXCL k)"
  | (full) "r \<noteq> NULL" "pools_room (pools k) descriptor_pool = 0"
      "openResource_descriptor k r ty m = Inr (set_retvalue DSOS_ERESOURCENOFD k)"
  | (overflow) "openResource_descriptor k r ty m = Inl Signed_overflow" "\<not> in_int_range (f + 1)"
  | (opened) d x k' where "r \<noteq> NULL" "res_type (resources k r) = ty"
      "and m DSOS_EXCL = 0 \<or> L (Resource_descriptors r) = []"
      "openResource_descriptor k r ty m = Inr (set_retvalue f k')"
      "kinv k' (L(PCB_descriptors (running k) := L (PCB_descriptors (running k)) @ [d],
         Resource_descriptors r := L (Resource_descriptors r) @ [x]))"
      "d_fd (descriptors k' d) = f" "d_resource (descriptors k' d) = r"
      "running k' = running k" "resources k' = resources k"
      "last_fd (pcbs k' (running k)) = f + 1" "d_ptr (descriptors k' d) = x"
proof -
  note K = kinvD [OF inv]
  note S = sched_okD [OF K(2)]
  let ?me = "running k"
  have size: "lh_size (heads k (Resource_descriptors r)) = int (length (L (Resource_descriptors r)))"
    by (rule list_repD(7) [OF K(7)])
  consider (m) "r = NULL \<or> res_type (resources k r) \<noteq> ty"
    | (s) "r \<noteq> NULL" "res_type (resources k r) = ty" "and m DSOS_EXCL \<noteq> 0" "L (Resource_descriptors r) \<noteq> []"
    | (go) "r \<noteq> NULL" "res_type (resources k r) = ty"
        "and m DSOS_EXCL = 0 \<or> L (Resource_descriptors r) = []" by blast
  then show thesis
  proof cases
    case m
    then show thesis by (intro mistyped) (auto simp: openResource_descriptor_def)
  next
    case s
    then show thesis by (intro shared) (simp_all add: openResource_descriptor_def size)
  next
    case go
    have rl: "r \<in> set (L resources_list)" using r go(1) by simp
    have guard: "\<not> (and m DSOS_EXCL \<noteq> 0 \<and> lh_size (heads k (Resource_descriptors r)) \<noteq> 0)"
      using go(3) size by auto
    show thesis
    proof (rule alloc_exec [OF K(1), of descriptor_pool])
      assume a: "pool_get k descriptor_pool = Inr (NULL, k)" "pools_room (pools k) descriptor_pool = 0"
      then have "openResource_descriptor k r ty m = Inr (set_retvalue DSOS_ERESOURCENOFD k)"
        using go(1,2) guard
        by (cases "and m DSOS_EXCL = 0") (simp_all add: openResource_descriptor_def Descriptor_alloc_def)
      then show thesis by (rule full [OF go(1) a(2)])
    next
      fix d ps lk
      assume 1: "pool_get k descriptor_pool = Inr (d, k\<lparr>pools := ps\<rparr>)" "d \<noteq> NULL"
        "\<And>j. d \<notin> pools_live (pools k) j" "pools_ok ps"
        "pools_live ps = (pools_live (pools k))
           (descriptor_pool := insert d (pools_live (pools k) descriptor_pool))"
        "0 < pools_room (pools k) descriptor_pool"
        "pools_room ps = (pools_room (pools k))
           (descriptor_pool := pools_room (pools k) descriptor_pool - 1)"
        "lk = (links k)(d := \<lparr>li_prev = NULL, li_next = NULL\<rparr>)"
        "list_rep lk (heads k) L" "loose lk L d" "\<And>y. loose (links k) L y \<Longrightarrow> loose lk L y"
        "\<And>h. d \<notin> set (L h)"
      define k1 where "k1 = upd_desc d (\<lambda>x. x\<lparr>d_fd := f, d_resource := r, d_pcb := ?me\<rparr>)
        (k\<lparr>pools := ps, links := lk\<rparr>)"
      have e1: "Descriptor_alloc k f r ?me = Inr (d, k1)"
        using 1(1,2) by (simp add: Descriptor_alloc_def null_links_def k1_def 1(8))
      have step: "openResource_descriptor k r ty m =
          andthen (c_int (f + 1)) (\<lambda>next_fd.
          let k2 = upd_pcb ?me (\<lambda>p. p\<lparr>last_fd := next_fd\<rparr>) k1 in
          andthen (DescriptorPtr_alloc k2 d) (\<lambda>(desptr, k3).
          andthen (List_insert k3 (PCB_descriptors ?me) (lh_last (heads k3 (PCB_descriptors ?me)))
                     d) (\<lambda>(_, k4).
          let k5 = upd_desc d (\<lambda>d. d\<lparr>d_ptr := desptr\<rparr>) k4 in
          andthen (List_insert k5 (Resource_descriptors r)
                     (lh_last (heads k5 (Resource_descriptors r))) desptr) (\<lambda>(_, k6).
          Inr (set_retvalue (d_fd (descriptors k6 d)) k6)))))"
        using go(1,2) guard 1(2) e1
        by (cases "and m DSOS_EXCL = 0") (simp_all add: openResource_descriptor_def f k1_def Let_def)
      show thesis
      proof (cases "in_int_range (f + 1)")
        case False
        then show thesis using step by (intro overflow) simp_all
      next
        case range: True
        define k2 where "k2 = upd_pcb ?me (\<lambda>p. p\<lparr>last_fd := f + 1\<rparr>) k1"
        have lists2: "lists_ok k2 L"
          using 1(4,9) typed_lists_mono [OF K(9)] by (simp add: lists_ok_def k2_def k1_def 1(5) subset_insertI)
        have room: "pools_room (pools k2) descriptor_ptr_pool \<noteq> 0"
          using 1(6) res_okD(6) [OF K(6)] by (simp add: k2_def k1_def 1(7))
        show thesis
        proof (rule alloc_exec [OF lists2, of descriptor_ptr_pool])
          assume "pools_room (pools k2) descriptor_ptr_pool = 0"
          with room show thesis by simp
        next
          fix x ps3 lk3
          assume 3: "pool_get k2 descriptor_ptr_pool = Inr (x, k2\<lparr>pools := ps3\<rparr>)" "x \<noteq> NULL"
            "\<And>j. x \<notin> pools_live (pools k2) j" "pools_ok ps3"
            "pools_live ps3 = (pools_live (pools k2))
               (descriptor_ptr_pool := insert x (pools_live (pools k2) descriptor_ptr_pool))"
            "pools_room ps3 = (pools_room (pools k2))
               (descriptor_ptr_pool := pools_room (pools k2) descriptor_ptr_pool - 1)"
            "lk3 = (links k2)(x := \<lparr>li_prev = NULL, li_next = NULL\<rparr>)"
            "list_rep lk3 (heads k2) L" "loose lk3 L x"
            "\<And>y. loose (links k2) L y \<Longrightarrow> loose lk3 L y" "\<And>h. x \<notin> set (L h)"
          define k3 where "k3 = k2\<lparr>pools := ps3, links := lk3,
            descriptor_ptrs := (descriptor_ptrs k2)(x := d)\<rparr>"
          have e3: "DescriptorPtr_alloc k2 d = Inr (x, k3)"
            using 3(1,2) by (simp add: DescriptorPtr_alloc_def null_links_def k3_def 3(7))
          have sel: "heads k2 = heads k" "links k2 = lk" "pools k2 = ps" "running k2 = ?me"
            "descriptors k2 d = (descriptors k d)\<lparr>d_fd := f, d_resource := r, d_pcb := ?me\<rparr>"
            "\<And>e. e \<noteq> d \<Longrightarrow> descriptors k2 e = descriptors k e"
            by (simp_all add: k2_def k1_def)
          have xk: "x \<noteq> d" "x \<notin> pools_live (pools k) j" for j
            using 3(3) [of descriptor_pool] 3(3) [of j] by (auto simp: sel 1(5) split: if_splits)
          define k3' where "k3' = upd_desc d (\<lambda>d. d\<lparr>d_ptr := x\<rparr>) k3"
          have inv3: "kinv k3' L"
            by (rule kinv_extend [OF inv])
              (use 3(4,8,10) 1(3,11) xk res_okD(6) [OF K(6)] f in
                \<open>auto simp: k3'_def k3_def sel 3(5,6) 1(5,7) k2_def k1_def\<close>)
          let ?h = "PCB_descriptors ?me" and ?g = "Resource_descriptors r"
          have t3: "list_rep (links k3) (heads k3) L" "loose (links k3) L d" "loose (links k3) L x"
            using 3(8,9) 3(10) 1(10) by (simp_all add: k3_def sel)
          obtain lk4 hd4 where
            4: "List_insert k3 ?h (lh_last (heads k3 ?h)) d = Inr (d, k3\<lparr>links := lk4, heads := hd4\<rparr>)"
              "list_rep lk4 hd4 (L(?h := L ?h @ [d]))"
              "\<forall>a. loose (links k3) L a \<longrightarrow> a \<noteq> d \<longrightarrow> loose lk4 (L(?h := L ?h @ [d])) a"
            using append_exec [where k = k3, OF t3(1,2), of ?h] by blast
          define k5 where "k5 = upd_desc d (\<lambda>d. d\<lparr>d_ptr := x\<rparr>) (k3\<lparr>links := lk4, heads := hd4\<rparr>)"
          let ?L4 = "L(?h := L ?h @ [d])"
          have t5: "list_rep (links k5) (heads k5) ?L4" "loose (links k5) ?L4 x"
            using 4(2,3) t3(3) xk(1) by (simp_all add: k5_def)
          obtain lk6 hd6 where
            6: "List_insert k5 ?g (lh_last (heads k5 ?g)) x = Inr (x, k5\<lparr>links := lk6, heads := hd6\<rparr>)"
              "list_rep lk6 hd6 (?L4(?g := ?L4 ?g @ [x]))"
              "\<forall>a. loose (links k5) ?L4 a \<longrightarrow> a \<noteq> x \<longrightarrow> loose lk6 (?L4(?g := ?L4 ?g @ [x])) a"
            using append_exec [where k = k5, OF t5, of ?g] by blast
          define k6 where "k6 = k5\<lparr>links := lk6, heads := hd6\<rparr>"
          let ?L6 = "L(?h := L ?h @ [d], ?g := L ?g @ [x])"
          have fd6: "d_fd (descriptors k6 d) = f" by (simp add: k6_def k5_def k3_def sel)
          have h5: "heads k5 = hd4" by (simp add: k5_def)
          have run: "openResource_descriptor k r ty m = Inr (set_retvalue f k6)"
            using e3 4(1) 6(1) [unfolded h5] fd6 range
            by (simp add: step Let_def k2_def [symmetric] k5_def [symmetric] k6_def [symmetric])
          have k6: "k6 = k3'\<lparr>links := lk6, heads := hd6\<rparr>"
            by (simp add: k6_def k5_def k3'_def upd_desc_def)
          have "kinv k6 ?L6"
          proof (rule open_link_kinv [OF inv3 rl _ _ _ _ _ _ _ _ _ _ _ refl _ _ k6])
            show "loose (links k3') L d" "loose (links k3') L x"
              using t3(2,3) by (simp_all add: k3'_def)
            show "loose lk6 ?L6 a" if "loose (links k3') L a" "a \<noteq> d" "a \<noteq> x" for a
              using that 4(3) 6(3) by (simp add: k3'_def k5_def)
            show "d_fd (descriptors k3' e) \<noteq> d_fd (descriptors k3' d)" if "e \<in> set (L ?h)" for e
              using res_okD(3) [OF K(6) that] 1(12) [of ?h] that
              by (auto simp: k3'_def k3_def sel f)
          qed (use 6(2) res_okD(4) [OF K(6), of ?me] in
              \<open>simp_all add: k3'_def k3_def sel 3(5) 1(5) f [symmetric]\<close>, simp_all add: k2_def k1_def f)
          then show thesis
            by (intro opened [OF go run _ fd6])
              (simp_all add: k6_def k5_def k3_def k2_def k1_def)
        qed
      qed
    qed
  qed
qed


section \<open>A new resource\<close>

lemma resource_list_kinv:
  assumes inv: "kinv k L" and r: "loose (links k) L r" "r \<in> pools_live (pools k) resource_pool"
    and new: "\<And>u. u \<in> set (L resources_list) \<Longrightarrow>
      res_id (resources k u) \<noteq> res_id (resources k r)"
    and L': "L' = L(resources_list := L resources_list @ [r])"
    and rep: "list_rep lk hds L'"
    and loose: "\<And>a. loose (links k) L a \<Longrightarrow> a \<noteq> r \<Longrightarrow> loose lk L' a"
    and k': "k' = k\<lparr>links := lk, heads := hds\<rparr>"
  shows "kinv k' L'"
proof -
  note K = kinvD [OF inv]
  note S = sched_okD [OF K(2)]
  have other: "a \<noteq> r" if "a \<in> pools_live (pools k) i" "i \<noteq> resource_pool" for a i
    using pools_live_disjoint [OF K(8) r(2), of i] that by auto
  have same: "L' h = L h" if "h \<noteq> resources_list" for h using that by (simp add: L')
  have "typed_lists (pools_live (pools k)) L'"
    unfolding L' by (rule typed_lists_add [where x = r], rule K(9)) (use r in auto)
  then have "lists_ok k' L'" using K(8) rep by (simp add: lists_ok_def k')
  moreover have "place_ok k' L'"
    using S(11) loose [OF S(2) other [OF S(1)]] by (simp add: place_ok_def k' same)
  moreover have "init_ok k' L'" using S(12) by (simp add: init_ok_def k' same)
  moreover have "pids_ok (pcbs k') (last_pid k') (pools_live (pools k') pcb_pool)"
    using S(13) by (simp add: k')
  moreover have "tree_ok k' L'" by (rule tree_ok_cong [OF K(3)]) (simp_all add: k' same)
  moreover have "timer_ok k' L'"
    by (rule timer_ok_cong [OF K(4)]) (use timer_okD [OF K(4)] in \<open>simp_all add: k' same\<close>)
  moreover have "sem_ok k' L'"
  proof (rule sem_ok_cong [OF K(5)])
    fix q e
    assume e: "e \<in> set (L (PCB_sem_descriptors q))"
      and l: "loose (links k) L (sd_wait_ptr (sem_descriptors k e))"
    show "loose (links k') L' (sd_wait_ptr (sem_descriptors k e))"
      using loose [OF l other [OF sem_descriptorD(5) [OF K(5) e refl]]] by (simp add: k')
  qed (simp_all add: k' same)
  moreover have "res_ok k' L'"
    using K(6) new new [THEN not_sym] unfolding res_ok_def k' Let_def
    by (simp add: same) (auto simp: L' inj_on_def)
  ultimately show ?thesis by (simp add: kinv_def sched_ok_def)
qed

lemma Resource_alloc_exec:
  assumes inv: "kinv k L"
  obtains (full) "Resource_alloc k i ty = Inr (NULL, k)" "pools_room (pools k) resource_pool = 0"
  | (new) r ps lk hds where
      "Resource_alloc k i ty = Inr (r, k\<lparr>heads := hds, pools := ps, links := lk,
         resources := (resources k)(r := \<lparr>res_id = i, res_type = ty\<rparr>)\<rparr>)"
      "r \<noteq> NULL" "kinv (k\<lparr>heads := hds, pools := ps, links := lk,
         resources := (resources k)(r := \<lparr>res_id = i, res_type = ty\<rparr>)\<rparr>) L" "loose lk L r"
      "r \<in> pools_live ps resource_pool"
      "\<And>j. j \<noteq> resource_pool \<Longrightarrow> pools_room ps j = pools_room (pools k) j"
proof (rule alloc_exec [OF kinvD(1) [OF inv], of resource_pool])
  assume "pool_get k resource_pool = Inr (NULL, k)" "pools_room (pools k) resource_pool = 0"
  then show thesis by (intro full) (simp_all add: Resource_alloc_def)
next
  fix r ps lk
  assume a: "pool_get k resource_pool = Inr (r, k\<lparr>pools := ps\<rparr>)" "r \<noteq> NULL"
    "\<And>j. r \<notin> pools_live (pools k) j" "pools_ok ps"
    "pools_live ps = (pools_live (pools k))
       (resource_pool := insert r (pools_live (pools k) resource_pool))"
    "pools_room ps = (pools_room (pools k))
       (resource_pool := pools_room (pools k) resource_pool - 1)"
    "lk = (links k)(r := \<lparr>li_prev = NULL, li_next = NULL\<rparr>)"
    "list_rep lk (heads k) L" "loose lk L r" "\<And>y. loose (links k) L y \<Longrightarrow> loose lk L y"
    "\<And>h. r \<notin> set (L h)"
  let ?hds = "(heads k)(Resource_descriptors r := \<lparr>lh_first = NULL, lh_last = NULL, lh_size = 0\<rparr>)"
  have "L (Resource_descriptors r) = []"
  proof (cases "L (Resource_descriptors r)")
    case (Cons x xs)
    then have "r \<in> set (L resources_list)"
      using res_okD(7) [OF kinvD(6) [OF inv], of x r] by simp
    with a(11) show ?thesis by simp
  qed
  note R = head_init_same [OF a(8) this]
  show thesis
  proof (rule new)
    show "Resource_alloc k i ty = Inr (r, k\<lparr>heads := ?hds, pools := ps, links := lk,
         resources := (resources k)(r := \<lparr>res_id = i, res_type = ty\<rparr>)\<rparr>)"
      using a(1,2) by (simp add: Resource_alloc_def null_links_def List_init_def a(7))
    show "kinv (k\<lparr>heads := ?hds, pools := ps, links := lk,
         resources := (resources k)(r := \<lparr>res_id = i, res_type = ty\<rparr>)\<rparr>) L"
      by (rule kinv_extend [OF inv])
        (use R a(3,4,10) res_okD(6) [OF kinvD(6) [OF inv]] in \<open>auto simp: a(5,6)\<close>)
  qed (use a(2,5,6,9) in simp_all)
qed

section \<open>The call\<close>

lemma openResource_cases:
  assumes inv: "kinv k L" and i: "i = int_of_long (syscall_arg k 0)"
    and ty: "ty = int_of_long (syscall_arg k 1)" and m: "m = int_of_long (syscall_arg k 2)"
  obtains (exists) r where "r \<in> set (L resources_list)" "res_id (resources k r) = i"
      "and m DSOS_CREATE \<noteq> 0" "internal_openResource k = Inr (set_retvalue DSOS_ERESOURCECREATE k)"
  | (full) "and m DSOS_CREATE \<noteq> 0" "pools_room (pools k) resource_pool = 0"
      "internal_openResource k = Inl Null_deref"
      "\<And>u. u \<in> set (L resources_list) \<Longrightarrow> res_id (resources k u) \<noteq> i"
  | (new) r k1 where "and m DSOS_CREATE \<noteq> 0" "kinv k1 (L(resources_list := L resources_list @ [r]))"
      "resources k1 = (resources k)(r := \<lparr>res_id = i, res_type = ty\<rparr>)"
      "running k1 = running k" "pcbs k1 = pcbs k"
      "internal_openResource k = openResource_descriptor k1 r ty m"
      "\<And>u. u \<in> set (L resources_list) \<Longrightarrow> res_id (resources k u) \<noteq> i" "r \<notin> set (L resources_list)"
      "\<And>j. j \<noteq> resource_pool \<Longrightarrow> pools_room (pools k1) j = pools_room (pools k) j"
  | (known) r where "and m DSOS_CREATE = 0" "r \<in> set (L resources_list)" "res_id (resources k r) = i"
      "internal_openResource k = openResource_descriptor k r ty m"
  | (unknown) "and m DSOS_CREATE = 0"
      "\<And>u. u \<in> set (L resources_list) \<Longrightarrow> res_id (resources k u) \<noteq> i"
      "internal_openResource k = Inr (set_retvalue DSOS_ERESOURCEOPEN k)"
proof -
  note K = kinvD [OF inv]
  note nz = sched_okD(3) [OF K(2)]
  let ?r = "scan_result (\<lambda>r. res_id (resources k r) = i) (L resources_list)"
  have find: "ResourceList_byId k resources_list i = Inr ?r" by (rule ResourceList_byId_exec [OF inv])
  have none: "res_id (resources k u) \<noteq> i" if "?r = NULL" "u \<in> set (L resources_list)" for u
    using that scan_result_NULL [OF list_repD(4) [OF K(7)], of _ resources_list] by simp
  have some: "?r \<in> set (L resources_list)" "res_id (resources k ?r) = i" if "?r \<noteq> NULL"
    using scan_result_nonnull [OF that] by simp_all
  show thesis
  proof (cases "and m DSOS_CREATE = 0")
    case True
    then have run: "internal_openResource k = openResource_descriptor k ?r ty m"
      using nz find by (simp add: internal_openResource_def Let_def i [symmetric] ty m [symmetric])
    show thesis
    proof (cases "?r = NULL")
      case False
      with some run True known show thesis by blast
    next
      case null: True
      then have "internal_openResource k = Inr (set_retvalue DSOS_ERESOURCEOPEN k)"
        using run by (simp add: openResource_descriptor_def)
      then show thesis by (intro unknown [OF True]) (use none [OF null] in auto)
    qed
  next
    case create: False
    show thesis
    proof (cases "?r = NULL")
      case False
      then have "internal_openResource k = Inr (set_retvalue DSOS_ERESOURCECREATE k)"
        using nz find create
        by (simp add: internal_openResource_def i [symmetric] m [symmetric])
      with some [OF False] create exists show thesis by blast
    next
      case null: True
      have step: "internal_openResource k = andthen (Resource_alloc k i ty) (\<lambda>(new_res, k1).
          andthen (List_insert k1 resources_list (lh_last (heads k1 resources_list)) new_res)
            (\<lambda>(_, k2). openResource_descriptor k2 new_res ty m))"
        using nz find create null
        by (simp add: internal_openResource_def Let_def i [symmetric] m [symmetric] ty)
      show thesis
      proof (rule Resource_alloc_exec [OF inv, of i ty])
        assume a: "Resource_alloc k i ty = Inr (NULL, k)" "pools_room (pools k) resource_pool = 0"
        then have "internal_openResource k = Inl Null_deref" by (simp add: step)
        with create a(2) show thesis by (rule full) (rule none [OF null])
      next
        fix r ps lk hds
        let ?k1 = "k\<lparr>heads := hds, pools := ps, links := lk,
          resources := (resources k)(r := \<lparr>res_id = i, res_type = ty\<rparr>)\<rparr>"
        assume a: "Resource_alloc k i ty = Inr (r, ?k1)" "r \<noteq> NULL" "kinv ?k1 L" "loose lk L r"
          "r \<in> pools_live ps resource_pool"
          "\<And>j. j \<noteq> resource_pool \<Longrightarrow> pools_room ps j = pools_room (pools k) j"
        have t: "list_rep (links ?k1) (heads ?k1) L" "loose (links ?k1) L r"
          using kinvD(7) [OF a(3)] a(4) by simp_all
        let ?L = "L(resources_list := L resources_list @ [r])"
        obtain lk2 hd2 where
          b: "List_insert ?k1 resources_list (lh_last (heads ?k1 resources_list)) r =
              Inr (r, ?k1\<lparr>links := lk2, heads := hd2\<rparr>)"
            "list_rep lk2 hd2 ?L" "\<forall>a. loose (links ?k1) L a \<longrightarrow> a \<noteq> r \<longrightarrow> loose lk2 ?L a"
          using append_exec [where k = ?k1, OF t, of resources_list] by blast
        let ?k2 = "?k1\<lparr>links := lk2, heads := hd2\<rparr>"
        have out: "r \<notin> set (L resources_list)" using a(4) by (simp add: loose_def)
        have "kinv ?k2 ?L"
          by (rule resource_list_kinv [OF a(3) t(2) _ _ refl b(2) _ refl])
            (use a(5) none [OF null] out b(3) in \<open>auto\<close>)
        moreover have "internal_openResource k = openResource_descriptor ?k2 r ty m"
          using a(1) b(1) by (simp add: step)
        ultimately show thesis
          by (intro new [of ?k2 r]) (use create none [OF null] out a(6) in simp_all)
      qed
    qed
  qed
qed

lemma openResource_descriptor_preserves:
  assumes "kinv k L" and "r = NULL \<or> r \<in> set (L resources_list)"
    and "openResource_descriptor k r ty m = Inr k'"
  shows "\<exists>L'. kinv k' L'"
  using assms(3) by (rule_tac openResource_descriptor_exec [OF assms(1,2) refl, of ty m])
    (use assms(1) in auto)

lemma openResource_preserves:
  assumes inv: "kinv k L" and ok: "internal_openResource k = Inr k'"
  shows "\<exists>L'. kinv k' L'"
proof (rule openResource_cases [OF inv refl refl refl], goal_cases)
  case (3 r k1)
  have "r = NULL \<or> r \<in> set ((L(resources_list := L resources_list @ [r])) resources_list)" by simp
  from openResource_descriptor_preserves [OF 3(2) this] 3(6) ok show ?thesis by metis
next
  case (4 r)
  then have "r = NULL \<or> r \<in> set (L resources_list)" by simp
  from openResource_descriptor_preserves [OF inv this] 4(4) ok show ?thesis by metis
qed (use inv ok in auto)

end
