(* ===== verification/Sched_Correct.thy ===== *)
theory Sched_Correct
  imports Scheduler Kernel_Idle
begin

text \<open>
  The scheduler on a kernel that satisfies the invariant: which sleepers it wakes and in which
  order, which process runs next, and the preservation of the invariant.
\<close>

section \<open>Waking the sleepers\<close>

lemma wake_one_kinv:
  assumes inv: "kinv k L" and t: "L timer_list = t # ts" and p: "p = t_pcb (timer_items k t)"
    and rdy: "set rdy = insert p (set (L ready_list))"
    and L': "L' = L(waiting_list := remove1 p (L waiting_list), ready_list := rdy,
      timer_list := ts)"
    and rep: "list_rep lk hds L'"
    and loose: "\<And>a. loose (links k) L a \<Longrightarrow> loose lk L' a"
    and pools: "pools_ok ps" "pools_room ps descriptor_pool = pools_room ps descriptor_ptr_pool"
      "\<And>i. pools_live ps i = pools_live (pools k) i - (if i = timer_pool then {t} else {})"
    and k': "k' = (upd_pcb p (\<lambda>x. x\<lparr>status := Ready, timer := NULL\<rparr>) k)
      \<lparr>links := lk, heads := hds, pools := ps\<rparr>"
  shows "kinv k' L'"
proof -
  note K = kinvD [OF inv]
  note S = sched_okD [OF K(2)]
  note R = list_repD [OF K(7)]
  have tt: "t \<in> set (L timer_list)" "distinct (t # ts)" using t R(3) [of timer_list] by simp_all
  note T = timer_okD [OF K(4)]
  have pw: "p \<in> set (L waiting_list)" and num: "syscall_num (pcbs k p) = DSOS_CALL_SLEEP"
    using T(1,2) [OF tt(1)] p by simp_all
  have pl: "p \<in> pools_live (pools k) pcb_pool" using typed_listsD [OF K(9) pw] by simp
  have pr: "p \<noteq> running k" using pw S(4) by auto
  have pz: "p \<notin> set (L zombie_list)" using R(2) pw by blast
  have dw: "distinct (L waiting_list)" by (rule R(3))
  have "typed_lists (pools_live ps) L'"
    unfolding typed_lists_def
  proof (intro allI subsetI)
    fix h a
    assume a: "a \<in> set (L' h)"
    show "a \<in> pools_live ps (kind h)"
    proof (cases "h = timer_list")
      case True
      with a have "a \<in> set ts" by (simp add: L')
      with True tt t typed_listsD [OF K(9), of a timer_list] show ?thesis by (auto simp: pools(3))
    next
      case False
      with a have "a \<in> set (L h) \<or> a = p \<and> h = ready_list"
        using rdy by (auto simp: L' dest: in_set_remove1D split: if_splits)
      moreover have "a \<noteq> t" if "a \<in> set (L h)" using that R(2) [OF False] tt(1) by auto
      moreover have "kind h \<noteq> timer_pool \<or> a \<noteq> t" using calculation(2) calculation(1) by auto
      ultimately show ?thesis using typed_listsD [OF K(9), of a h] pl by (auto simp: pools(3))
    qed
  qed
  then have "lists_ok k' L'" using pools(1) rep by (simp add: lists_ok_def k')
  moreover have "place_ok k' L'"
    using S(11) loose pl pr pz rdy dw unfolding place_ok_def by (auto simp: k' L' pools(3))
  moreover have "init_ok k' L'"
    by (rule init_ok_cong [OF S(12)])
      (use S(12) in \<open>auto simp: k' L' init_ok_def pools(3)\<close>)
  moreover have "pids_ok (pcbs k') (last_pid k') (pools_live (pools k') pcb_pool)"
    by (simp add: k' pools(3)) (rule pids_ok_cong [OF S(13)], auto)
  moreover have "tree_ok k' L'"
    by (rule tree_ok_cong [OF K(3)]) (simp_all add: k' L' pools(3))
  moreover have "timer_ok k' L'"
    unfolding timer_ok_def
  proof (intro conjI ballI)
    fix u
    assume "u \<in> set (L' timer_list)"
    then have u: "u \<in> set (L timer_list)" "u \<noteq> t" using t tt(2) by (auto simp: L')
    have "t_pcb (timer_items k u) \<noteq> p" using T(3) [OF u(1) tt(1)] u(2) p by auto
    then show "t_pcb (timer_items k' u) \<in> set (L' waiting_list)"
      "syscall_num (pcbs k' (t_pcb (timer_items k' u))) = DSOS_CALL_SLEEP"
      using T(1,2) [OF u(1)] by (simp_all add: k' L')
  next
    show "inj_on (\<lambda>t. t_pcb (timer_items k' t)) (set (L' timer_list))"
      using T(3) t by (auto simp: inj_on_def k' L')
    show "sorted (map (\<lambda>t. awakening_time (timer_items k' t)) (L' timer_list))"
      using T(4) t by (simp add: k' L')
    show "timer (pcbs k' q) = NULL" if "q \<in> pools_live (pools k') pcb_pool" for q
      using that T(5) by (auto simp: k' pools(3))
  qed
  moreover have "sem_ok k' L'"
    by (rule sem_ok_cong [OF K(5)])
      (use loose num dw in \<open>auto simp: k' L' pools(3) syscall_numbers\<close>)
  moreover have "res_ok k' L'"
    using K(6) pools(2) by (simp add: res_ok_def k' L' Let_def)
  ultimately show ?thesis by (simp add: kinv_def sched_ok_def)
qed

lemma wake_one_exec:
  assumes inv: "kinv k L" and t: "L timer_list = t # ts" and p: "p = t_pcb (timer_items k t)"
    and prev: "prev = NULL \<or> prev \<in> set (L ready_list)"
  shows "\<exists>k'. wake_one k t prev = Inr (p, k') \<and>
    kinv k' (L(waiting_list := remove1 p (L waiting_list),
      ready_list := insert_after prev p (L ready_list), timer_list := ts)) \<and>
    timer_items k' = timer_items k \<and> disastrOS_time k' = disastrOS_time k \<and>
    running k' = running k \<and> semaphores k' = semaphores k"
proof -
  note K = kinvD [OF inv]
  note R = list_repD [OF K(7)]
  have tt: "t \<in> set (L timer_list)" using t by simp
  have pw: "p \<in> set (L waiting_list)" using timer_okD(1) [OF K(4) tt] p by simp
  obtain lk1 hd1 where
    1: "List_detach k waiting_list p = Inr (p, k\<lparr>links := lk1, heads := hd1\<rparr>)"
      "list_rep lk1 hd1 (L(waiting_list := remove1 p (L waiting_list)))"
      "loose lk1 (L(waiting_list := remove1 p (L waiting_list))) p"
      "\<forall>a. loose (links k) L a \<longrightarrow> loose lk1 (L(waiting_list := remove1 p (L waiting_list))) a"
    using detach_exec [where k = k, OF K(7) pw] by blast
  let ?k1 = "upd_pcb p (\<lambda>x. x\<lparr>status := Ready, timer := NULL\<rparr>) (k\<lparr>links := lk1, heads := hd1\<rparr>)"
    and ?L1 = "L(waiting_list := remove1 p (L waiting_list))"
  have a: "list_rep (links ?k1) (heads ?k1) ?L1" "loose (links ?k1) ?L1 p"
    "prev = NULL \<or> prev \<in> set (?L1 ready_list)" using 1(2,3) prev by simp_all
  obtain lk2 hd2 where
    2: "List_insert ?k1 ready_list prev p = Inr (p, ?k1\<lparr>links := lk2, heads := hd2\<rparr>)"
      "list_rep lk2 hd2 (?L1(ready_list := insert_after prev p (?L1 ready_list)))"
      "\<forall>a. loose (links ?k1) ?L1 a \<longrightarrow> a \<noteq> p \<longrightarrow>
         loose lk2 (?L1(ready_list := insert_after prev p (?L1 ready_list))) a"
    using insert_exec [where k = ?k1, OF a] by blast
  let ?k2 = "?k1\<lparr>links := lk2, heads := hd2\<rparr>"
    and ?L2 = "?L1(ready_list := insert_after prev p (L ready_list))"
  have b: "list_rep (links ?k2) (heads ?k2) ?L2" "?L2 timer_list = t # ts" using 2(2) t by simp_all
  obtain lk3 hd3 where
    3: "lh_first (heads ?k2 timer_list) = t" "t \<noteq> NULL"
      "List_detach ?k2 timer_list t = Inr (t, ?k2\<lparr>links := lk3, heads := hd3\<rparr>)"
      "list_rep lk3 hd3 (?L2(timer_list := ts))"
      "\<forall>a. loose (links ?k2) ?L2 a \<longrightarrow> loose lk3 (?L2(timer_list := ts)) a"
    using detach_first_exec [where k = ?k2, OF b] by blast
  let ?k3 = "?k2\<lparr>links := lk3, heads := hd3\<rparr>"
  have "t \<in> pools_live (pools ?k3) timer_pool" using typed_listsD [OF K(9) tt] by simp
  then obtain ps where
    4: "TimerItem_free ?k3 t = Inr (0, ?k3\<lparr>pools := ps\<rparr>)" "pools_ok ps"
      "pools_live ps = (pools_live (pools k))(timer_pool := pools_live (pools k) timer_pool - {t})"
      "pools_room ps = (pools_room (pools k))(timer_pool := Suc (pools_room (pools k) timer_pool))"
    using pool_release_exec [of ?k3 t timer_pool] K(8) by (auto simp: TimerItem_free_def)
  let ?k4 = "(upd_pcb p (\<lambda>x. x\<lparr>status := Ready, timer := NULL\<rparr>) k)
      \<lparr>links := lk3, heads := hd3, pools := ps\<rparr>"
  have k4: "?k3\<lparr>pools := ps\<rparr> = ?k4" by (simp add: upd_pcb_def)
  have run: "wake_one k t prev = Inr (p, ?k4)"
    using 1(1) 2(1) 3(1-3) 4(1)
    by (simp add: wake_one_def p [symmetric] Let_def TimerList_removeCurrent_def k4 [symmetric])
  have "kinv ?k4 (?L2(timer_list := ts))"
  proof (rule wake_one_kinv [OF inv t p _ _ 3(4) _ 4(2) _ _ refl])
    show "set (insert_after prev p (L ready_list)) = insert p (set (L ready_list))"
      by (rule set_insert_after) (use prev in simp)
    fix x
    assume x: "loose (links k) L x"
    then have "x \<noteq> p" using pw by (auto simp: loose_def)
    with x 1(4) 2(3) 3(5) show "loose lk3 (?L2(timer_list := ts)) x" by simp
  qed (use 4(3,4) res_okD(6) [OF K(6)] in auto)
  with run show ?thesis by (intro exI [of _ ?k4]) simp
qed

text \<open>
  The loop wakes the processes of all elapsed timers, in the order of the timers, and puts them
  in front of the ready list in this order.
\<close>

lemma wake_elapsed_exec:
  assumes "kinv k L" and "L timer_list = ts" and "L ready_list = us @ vs" and "prev = last_of NULL us"
    and "now = disastrOS_time k"
    and "ps = map (\<lambda>t. t_pcb (timer_items k t))
      (takeWhile (\<lambda>t. awakening_time (timer_items k t) \<le> now) ts)"
  shows "\<exists>k' L'. wake_elapsed k prev = Some (Inr k') \<and> kinv k' L' \<and>
    L' = L(waiting_list := filter (\<lambda>p. p \<notin> set ps) (L waiting_list), ready_list := us @ ps @ vs,
      timer_list := dropWhile (\<lambda>t. awakening_time (timer_items k t) \<le> now) ts) \<and>
    running k' = running k \<and> disastrOS_time k' = now \<and> semaphores k' = semaphores k"
  using assms
proof (induction ts arbitrary: k L us prev ps)
  case Nil
  then have "TimerList_current k timer_list now = NULL"
    using first_empty [OF kinvD(7) [OF Nil.prems(1)], of timer_list] by (simp add: TimerList_current_def)
  then have "wake_elapsed k prev = Some (Inr k)"
    using Nil.prems by (simp add: wake_elapsed.simps)
  moreover have "L = L(waiting_list := filter (\<lambda>p. p \<notin> set ps) (L waiting_list),
      ready_list := us @ ps @ vs,
      timer_list := dropWhile (\<lambda>t. awakening_time (timer_items k t) \<le> now) [])"
    using Nil.prems by (simp add: fun_eq_iff)
  ultimately show ?case
    using Nil.prems(1,5)
    by - (intro exI [of _ k] exI [of _ L] conjI; (assumption | rule refl | rule sym, assumption))
next
  case (Cons t ts)
  note K = kinvD [OF Cons.prems(1)]
  have first: "lh_first (heads k timer_list) = t" "t \<noteq> NULL"
    using list_repD(4,5) [OF K(7), of timer_list] Cons.prems(2) by auto
  show ?case
  proof (cases "awakening_time (timer_items k t) \<le> now")
    case False
    then have "wake_elapsed k prev = Some (Inr k)"
      using first Cons.prems(5) by (simp add: wake_elapsed.simps TimerList_current_def)
    moreover have "L = L(waiting_list := filter (\<lambda>p. p \<notin> set ps) (L waiting_list),
        ready_list := us @ ps @ vs,
        timer_list := dropWhile (\<lambda>t. awakening_time (timer_items k t) \<le> now) (t # ts))"
      using Cons.prems False by (simp add: fun_eq_iff)
    ultimately show ?thesis
      using Cons.prems(1,5)
      by - (intro exI [of _ k] exI [of _ L] conjI; (assumption | rule refl | rule sym, assumption))
  next
    case True
    let ?p = "t_pcb (timer_items k t)"
    let ?L1 = "L(waiting_list := remove1 ?p (L waiting_list),
      ready_list := insert_after prev ?p (L ready_list), timer_list := ts)"
    have dr: "distinct (us @ vs)" "NULL \<notin> set (us @ vs)"
      using list_repD(3,4) [OF K(7), of ready_list] Cons.prems(3) by simp_all
    have prev: "prev = NULL \<or> prev \<in> set (L ready_list)"
      using Cons.prems(3,4) by (auto simp: last_of_def)
    obtain k1 where
      k1: "wake_one k t prev = Inr (?p, k1)" "kinv k1 ?L1" "timer_items k1 = timer_items k"
        "disastrOS_time k1 = disastrOS_time k" "running k1 = running k" "semaphores k1 = semaphores k"
      using wake_one_exec [OF Cons.prems(1,2) refl prev] by blast
    have step: "wake_elapsed k prev = wake_elapsed k1 ?p"
      using first True Cons.prems(5) k1(1)
      by (subst wake_elapsed.simps) (simp add: TimerList_current_def)
    have ins: "insert_after prev ?p (L ready_list) = (us @ [?p]) @ vs"
      using insert_after_last_of [OF dr] Cons.prems(3,4) by simp
    let ?ps = "map (\<lambda>t. t_pcb (timer_items k1 t))
      (takeWhile (\<lambda>t. awakening_time (timer_items k1 t) \<le> now) ts)"
    have ps: "ps = ?p # ?ps" using Cons.prems(6) True by (simp add: k1(3))
    let ?w = "filter (\<lambda>p. p \<notin> set ?ps) (remove1 ?p (L waiting_list))"
    have "\<exists>k' L'. wake_elapsed k1 ?p = Some (Inr k') \<and> kinv k' L' \<and>
      L' = ?L1(waiting_list := filter (\<lambda>p. p \<notin> set ?ps) (?L1 waiting_list),
        ready_list := (us @ [?p]) @ ?ps @ vs,
        timer_list := dropWhile (\<lambda>t. awakening_time (timer_items k1 t) \<le> now) ts) \<and>
      running k' = running k1 \<and> disastrOS_time k' = now \<and> semaphores k' = semaphores k1"
      by (rule Cons.IH [OF k1(2)]) (use ins Cons.prems(5) k1(4) in simp_all)
    then obtain k' L' where r: "wake_elapsed k1 ?p = Some (Inr k')" "kinv k' L'"
      "L' = ?L1(waiting_list := filter (\<lambda>p. p \<notin> set ?ps) (?L1 waiting_list),
        ready_list := (us @ [?p]) @ ?ps @ vs,
        timer_list := dropWhile (\<lambda>t. awakening_time (timer_items k1 t) \<le> now) ts)"
      "running k' = running k1" "disastrOS_time k' = now" "semaphores k' = semaphores k1"
      by blast
    have "?w = filter (\<lambda>p. p \<notin> set ps) (L waiting_list)"
      using list_repD(3) [OF K(7), of waiting_list]
      by (simp add: ps distinct_remove1_removeAll removeAll_filter_not_eq) (rule filter_cong, auto)
    then have "L' = L(waiting_list := filter (\<lambda>p. p \<notin> set ps) (L waiting_list),
        ready_list := us @ ps @ vs,
        timer_list := dropWhile (\<lambda>t. awakening_time (timer_items k t) \<le> now) (t # ts))"
      unfolding r(3) using True by (simp add: ps k1(3) fun_eq_iff)
    with r k1(5,6) step show ?thesis
      by - (intro exI [of _ k'] exI [of _ L'] conjI; (assumption | simp))
  qed
qed
section \<open>Rotation\<close>

lemma rotate_kinv:
  assumes inv: "kinv k L" and r: "L ready_list = r # rs"
    and L': "L' = L(ready_list := rs @ [running k])"
    and rep: "list_rep lk hds L'" and lr: "loose lk L' r"
    and loose: "\<And>a. loose (links k) L a \<Longrightarrow> a \<noteq> running k \<Longrightarrow> loose lk L' a"
    and k': "k' = (upd_pcb r (\<lambda>p. p\<lparr>status := Running\<rparr>)
      (upd_pcb (running k) (\<lambda>p. p\<lparr>status := Ready\<rparr>) k))\<lparr>links := lk, heads := hds, running := r\<rparr>"
  shows "kinv k' L'"
proof -
  note K = kinvD [OF inv]
  note S = sched_okD [OF K(2)]
  note R = list_repD [OF K(7)]
  have rr: "r \<in> set (L ready_list)" "r \<notin> set rs" using r R(3) [of ready_list] by simp_all
  have rl: "r \<in> pools_live (pools k) pcb_pool" using typed_listsD [OF K(9) rr(1)] by simp
  have rn: "r \<notin> set (L waiting_list)" "r \<notin> set (L zombie_list)" "r \<noteq> running k"
    using R(2) rr(1) S(4) by blast+
  have "typed_lists (pools_live (pools k)) L'"
    unfolding L' by (rule typed_lists_add [where x = "running k"], rule K(9)) (use S(1) r in auto)
  then have "lists_ok k' L'" using K(8) rep by (simp add: lists_ok_def k')
  moreover have "place_ok k' L'"
    using S(1,3,11) S(4) [of ready_list] S(4) [of waiting_list] S(4) [of zombie_list] rr rl rn lr r
    unfolding place_ok_def by (auto simp: k' L')
  moreover have "init_ok k' L'" using S(12) by (auto simp: init_ok_def k' L')
  moreover have "pids_ok (pcbs k') (last_pid k') (pools_live (pools k') pcb_pool)"
    by (rule pids_ok_frame [OF S(13)]) (simp_all add: k')
  moreover have "tree_ok k' L'" by (rule tree_ok_cong [OF K(3)]) (simp_all add: k' L')
  moreover have "timer_ok k' L'"
    by (rule timer_ok_cong [OF K(4)]) (use timer_okD [OF K(4)] in \<open>auto simp: k' L'\<close>)
  moreover have "sem_ok k' L'"
  proof (rule sem_ok_cong [OF K(5)])
    fix p d
    assume d: "d \<in> set (L (PCB_sem_descriptors p))"
      and l: "loose (links k) L (sd_wait_ptr (sem_descriptors k d))"
    have "sd_wait_ptr (sem_descriptors k d) \<noteq> running k"
      using pools_live_disjoint [OF K(8) S(1), of sem_descriptor_ptr_pool]
        sem_descriptorD(5) [OF K(5) d refl] by auto
    with loose [OF l] show "loose (links k') L' (sd_wait_ptr (sem_descriptors k d))"
      by (simp add: k')
  qed (auto simp: k' L')
  moreover have "res_ok k' L'" by (rule res_ok_cong [OF K(6)]) (simp_all add: k' L')
  ultimately show ?thesis by (simp add: kinv_def sched_ok_def)
qed

text \<open>The processes woken by the scheduler, and the ready list it chooses from.\<close>

definition woken :: "kernel \<Rightarrow> (hloc \<Rightarrow> addr list) \<Rightarrow> addr list" where
  "woken k L = map (\<lambda>t. t_pcb (timer_items k t))
     (takeWhile (\<lambda>t. awakening_time (timer_items k t) \<le> disastrOS_time k) (L timer_list))"

definition after_wake :: "kernel \<Rightarrow> (hloc \<Rightarrow> addr list) \<Rightarrow> (hloc \<Rightarrow> addr list)" where
  "after_wake k L =
     L(waiting_list := filter (\<lambda>p. p \<notin> set (woken k L)) (L waiting_list),
       ready_list := woken k L @ L ready_list,
       timer_list := dropWhile (\<lambda>t. awakening_time (timer_items k t) \<le> disastrOS_time k)
         (L timer_list))"

lemma schedule_exec:
  assumes inv: "kinv k L"
  obtains (alone) k' where "internal_schedule k = Inr k'" "kinv k' (after_wake k L)"
      "running k' = running k" "after_wake k L ready_list = []" "semaphores k' = semaphores k"
      "disastrOS_time k' = disastrOS_time k"
  | (switch) r rs k' where "internal_schedule k = Inr k'" "after_wake k L ready_list = r # rs"
      "kinv k' ((after_wake k L)(ready_list := rs @ [running k]))" "running k' = r"
      "status (pcbs k' r) = Running" "status (pcbs k' (running k)) = Ready"
      "semaphores k' = semaphores k" "disastrOS_time k' = disastrOS_time k"
proof -
  obtain k1 where
    1: "wake_elapsed k NULL = Some (Inr k1)" "kinv k1 (after_wake k L)" "running k1 = running k"
      "semaphores k1 = semaphores k" "disastrOS_time k1 = disastrOS_time k"
    using wake_elapsed_exec [OF inv refl, of "[]" "L ready_list" NULL _ "woken k L"]
    by (auto simp: woken_def after_wake_def)
  let ?L = "after_wake k L"
  note K1 = kinvD [OF 1(2)]
  note S1 = sched_okD [OF K1(2)]
  have first: "lh_first (heads k1 ready_list) = NULL \<longleftrightarrow> ?L ready_list = []"
    by (rule first_empty) (rule K1(7))
  show thesis
  proof (cases "?L ready_list")
    case Nil
    then have "internal_schedule k = Inr k1" using 1(1) first by (simp add: internal_schedule_def)
    with 1 Nil show thesis by (intro alone [of k1]) simp_all
  next
    case (Cons r rs)
    obtain lk2 hd2 where
      2: "lh_first (heads k1 ready_list) = r" "r \<noteq> NULL"
        "List_detach k1 ready_list r = Inr (r, k1\<lparr>links := lk2, heads := hd2\<rparr>)"
        "list_rep lk2 hd2 (?L(ready_list := rs))" "loose lk2 (?L(ready_list := rs)) r"
        "\<forall>a. loose (links k1) ?L a \<longrightarrow> loose lk2 (?L(ready_list := rs)) a"
      using detach_first_exec [where k = k1, OF K1(7) Cons] by blast
    let ?k2 = "k1\<lparr>links := lk2, heads := hd2\<rparr>" and ?L2 = "?L(ready_list := rs)"
    let ?k3 = "upd_pcb (running ?k2) (\<lambda>p. p\<lparr>status := Ready\<rparr>) ?k2"
    have t: "list_rep (links ?k3) (heads ?k3) ?L2" "loose (links ?k3) ?L2 (running k1)"
      using 2(4,6) S1(2) by simp_all
    obtain lk3 hd3 where
      3: "List_insert ?k3 ready_list (lh_last (heads ?k3 ready_list)) (running k1) =
          Inr (running k1, ?k3\<lparr>links := lk3, heads := hd3\<rparr>)"
        "list_rep lk3 hd3 (?L2(ready_list := ?L2 ready_list @ [running k1]))"
        "\<forall>a. loose (links ?k3) ?L2 a \<longrightarrow> a \<noteq> running k1 \<longrightarrow>
           loose lk3 (?L2(ready_list := ?L2 ready_list @ [running k1])) a"
      using append_exec [where k = ?k3, OF t, of ready_list] by blast
    have rn: "r \<noteq> running k1" using S1(4) [of ready_list] Cons by auto
    let ?k' = "(upd_pcb r (\<lambda>p. p\<lparr>status := Running\<rparr>) (upd_pcb (running k1) (\<lambda>p. p\<lparr>status := Ready\<rparr>) k1))
      \<lparr>links := lk3, heads := hd3, running := r\<rparr>"
    have "internal_schedule k = Inr ?k'"
      using 1(1) 2(1-3) 3(1) S1(3) by (simp add: internal_schedule_def Let_def upd_pcb_def)
    moreover have "kinv ?k' (?L(ready_list := rs @ [running k1]))"
    proof (rule rotate_kinv [OF 1(2) Cons refl _ _ _ refl])
      show "list_rep lk3 hd3 (?L(ready_list := rs @ [running k1]))" using 3(2) by simp
      show "loose lk3 (?L(ready_list := rs @ [running k1])) r" using 2(5) 3(3) rn by simp
      show "loose lk3 (?L(ready_list := rs @ [running k1])) a"
        if "loose (links k1) ?L a" "a \<noteq> running k1" for a using that 2(6) 3(3) by simp
    qed
    ultimately show thesis
      using Cons 1(3-5) rn by (intro switch [of ?k' r rs]) simp_all
  qed
qed

section \<open>Sleeping\<close>

lemma timer_scan_seg:
  assumes "seg lk p ts NULL"
  shows "timer_scan lk ti wake (first_of ts NULL) prev =
    Some (last_of prev (takeWhile (\<lambda>t. awakening_time (ti t) \<le> wake) ts))"
  using assms
proof (induction ts arbitrary: p prev)
  case Nil
  then show ?case by (simp add: timer_scan.simps)
next
  case (Cons t ts)
  have "timer_scan lk ti wake (first_of ts NULL) t =
      Some (last_of t (takeWhile (\<lambda>t. awakening_time (ti t) \<le> wake) ts))"
    using Cons.IH [of t] Cons.prems by simp
  with Cons.prems show ?case by (simp add: timer_scan.simps [of lk ti wake t])
qed

text \<open>Where a timer goes: behind all timers that do not elapse later.\<close>

definition insert_timer :: "(addr \<Rightarrow> TimerItem) \<Rightarrow> int \<Rightarrow> addr \<Rightarrow> addr list \<Rightarrow> addr list" where
  "insert_timer ti wake t ts =
     takeWhile (\<lambda>t. awakening_time (ti t) \<le> wake) ts @ t #
     dropWhile (\<lambda>t. awakening_time (ti t) \<le> wake) ts"

lemma set_insert_timer [simp]: "set (insert_timer ti wake t ts) = insert t (set ts)"
  unfolding insert_timer_def using takeWhile_dropWhile_id [of "\<lambda>t. awakening_time (ti t) \<le> wake" ts]
  by (metis Un_insert_right list.simps(15) set_append)

lemma sorted_insert_timer:
  assumes "sorted (map (\<lambda>t. awakening_time (ti t)) ts)" and "t \<notin> set ts"
    and "awakening_time (ti' t) = wake" and "\<And>u. u \<noteq> t \<Longrightarrow> ti' u = ti u"
  shows "sorted (map (\<lambda>t. awakening_time (ti' t)) (insert_timer ti wake t ts))"
  using assms(1,2)
proof (induction ts)
  case Nil
  then show ?case by (simp add: insert_timer_def)
next
  case (Cons u us)
  have eq: "ti' v = ti v" if "v \<in> set (u # us)" for v using that Cons.prems(2) by (intro assms(4)) auto
  show ?case
  proof (cases "awakening_time (ti u) \<le> wake")
    case True
    then have "insert_timer ti wake t (u # us) = u # insert_timer ti wake t us"
      by (simp add: insert_timer_def)
    with Cons True eq assms(3) show ?thesis by auto
  next
    case False
    have m: "map (\<lambda>t. awakening_time (ti' t)) (u # us) = map (\<lambda>t. awakening_time (ti t)) (u # us)"
      using eq by auto
    have "sorted (map (\<lambda>t. awakening_time (ti' t)) (u # us))"
      unfolding m by (rule Cons.prems(1))
    moreover have "\<forall>v \<in> set (u # us). wake \<le> awakening_time (ti' v)"
      using False Cons.prems(1) eq by force
    ultimately show ?thesis using False assms(3) by (simp add: insert_timer_def)
  qed
qed

lemma sleep_park_kinv:
  assumes inv: "kinv k L" and t: "loose (links k) L t" "t \<in> pools_live (pools k) timer_pool"
    and it: "timer_items k t = \<lparr>awakening_time = wake, t_pcb = running k\<rparr>"
    and num: "syscall_num (pcbs k (running k)) = DSOS_CALL_SLEEP"
    and L': "L' = L(timer_list := insert_timer (timer_items k) wake t (L timer_list),
      waiting_list := L waiting_list @ [running k])"
    and rep: "list_rep lk hds L'"
    and loose: "\<And>a. loose (links k) L a \<Longrightarrow> a \<noteq> running k \<Longrightarrow> a \<noteq> t \<Longrightarrow> loose lk L' a"
    and k': "k' = (upd_pcb (running k) (\<lambda>p. p\<lparr>status := Waiting\<rparr>) k)\<lparr>links := lk, heads := hds\<rparr>"
  shows "kinv_idle k' L'"
proof -
  note K = kinvD [OF inv]
  note S = sched_okD [OF K(2)]
  have tn: "t \<notin> set (L timer_list)" using t by (simp add: loose_def)
  have "typed_lists (pools_live (pools k)) L'"
    unfolding L' by (rule typed_lists_add [where x = "running k"], rule typed_lists_add [where x = t],
        rule K(9)) (use S(1) t in auto)
  then have "lists_ok k' L'" using K(8) rep by (simp add: lists_ok_def k')
  moreover have "idle_place_ok k' L'"
    using S(1,11) S(4) [of ready_list] S(4) [of zombie_list]
    unfolding place_ok_def idle_place_ok_def by (auto simp: k' L')
  moreover have "init_ok k' L'" using S(12) by (auto simp: init_ok_def k' L')
  moreover have "pids_ok (pcbs k') (last_pid k') (pools_live (pools k') pcb_pool)"
    by (rule pids_ok_frame [OF S(13)]) (simp_all add: k')
  moreover have "tree_ok k' L'" by (rule tree_ok_cong [OF K(3)]) (simp_all add: k' L')
  moreover have "timer_ok k' L'"
    unfolding timer_ok_def
  proof (intro conjI ballI)
    note T = timer_okD [OF K(4)]
    have o: "t_pcb (timer_items k u) \<noteq> running k" if "u \<in> set (L timer_list)" for u
      using T(1) [OF that] S(4) by auto
    show "t_pcb (timer_items k' u) \<in> set (L' waiting_list)"
      "syscall_num (pcbs k' (t_pcb (timer_items k' u))) = DSOS_CALL_SLEEP"
      if "u \<in> set (L' timer_list)" for u
      using that T(1,2) it num by (auto simp: k' L')
    show "inj_on (\<lambda>t. t_pcb (timer_items k' t)) (set (L' timer_list))"
      using T(3) o o [THEN not_sym] it tn by (auto simp: inj_on_def k' L')
    show "sorted (map (\<lambda>t. awakening_time (timer_items k' t)) (L' timer_list))"
      using sorted_insert_timer [OF T(4) tn, of "timer_items k" wake] it by (simp add: k' L')
    show "timer (pcbs k' p) = NULL" if "p \<in> pools_live (pools k') pcb_pool" for p
      using that T(5) by (auto simp: k')
  qed
  moreover have "sem_ok k' L'"
  proof (rule sem_ok_cong [OF K(5)])
    fix p d
    assume d: "d \<in> set (L (PCB_sem_descriptors p))"
      and l: "loose (links k) L (sd_wait_ptr (sem_descriptors k d))"
    have "sd_wait_ptr (sem_descriptors k d) \<noteq> running k" "sd_wait_ptr (sem_descriptors k d) \<noteq> t"
      using pools_live_disjoint [OF K(8) S(1), of sem_descriptor_ptr_pool]
        pools_live_disjoint [OF K(8) t(2), of sem_descriptor_ptr_pool]
        sem_descriptorD(5) [OF K(5) d refl] by auto
    with loose [OF l] show "loose (links k') L' (sd_wait_ptr (sem_descriptors k d))"
      by (simp add: k')
  qed (auto simp: k' L')
  moreover have "res_ok k' L'" by (rule res_ok_cong [OF K(6)]) (simp_all add: k' L')
  ultimately show ?thesis by (simp add: kinv_idle_def)
qed

lemma TimerItem_alloc_exec:
  assumes inv: "kinv k L"
  obtains (full) "TimerItem_alloc k wake p = Inr (NULL, k)" "pools_room (pools k) timer_pool = 0"
  | (new) t ps lk where
      "TimerItem_alloc k wake p = Inr (t, k\<lparr>pools := ps, links := lk,
         timer_items := (timer_items k)(t := \<lparr>awakening_time = wake, t_pcb = p\<rparr>)\<rparr>)"
      "t \<noteq> NULL" "kinv (k\<lparr>pools := ps, links := lk,
         timer_items := (timer_items k)(t := \<lparr>awakening_time = wake, t_pcb = p\<rparr>)\<rparr>) L"
      "loose lk L t" "t \<in> pools_live ps timer_pool" "t \<notin> set (L timer_list)"
      "pools_room ps pcb_pool = pools_room (pools k) pcb_pool"
      "pools_live ps pcb_pool = pools_live (pools k) pcb_pool"
proof (rule alloc_exec [OF kinvD(1) [OF inv], of timer_pool])
  assume "pool_get k timer_pool = Inr (NULL, k)" "pools_room (pools k) timer_pool = 0"
  then show thesis by (intro full) (simp_all add: TimerItem_alloc_def)
next
  fix t ps lk
  assume a: "pool_get k timer_pool = Inr (t, k\<lparr>pools := ps\<rparr>)" "t \<noteq> NULL"
    "\<And>j. t \<notin> pools_live (pools k) j" "pools_ok ps"
    "pools_live ps = (pools_live (pools k))(timer_pool := insert t (pools_live (pools k) timer_pool))"
    "pools_room ps = (pools_room (pools k))(timer_pool := pools_room (pools k) timer_pool - 1)"
    "lk = (links k)(t := \<lparr>li_prev = NULL, li_next = NULL\<rparr>)"
    "list_rep lk (heads k) L" "loose lk L t" "\<And>y. loose (links k) L y \<Longrightarrow> loose lk L y"
    "\<And>h. t \<notin> set (L h)"
  show thesis
  proof (rule new)
    show "TimerItem_alloc k wake p = Inr (t, k\<lparr>pools := ps, links := lk,
         timer_items := (timer_items k)(t := \<lparr>awakening_time = wake, t_pcb = p\<rparr>)\<rparr>)"
      using a(1,2) by (simp add: TimerItem_alloc_def null_links_def a(7))
    show "kinv (k\<lparr>pools := ps, links := lk,
         timer_items := (timer_items k)(t := \<lparr>awakening_time = wake, t_pcb = p\<rparr>)\<rparr>) L"
      by (rule kinv_extend [OF inv])
        (use a(3,4,8,10) res_okD(6) [OF kinvD(6) [OF inv]] in \<open>auto simp: a(5,6)\<close>)
  qed (use a(2,5,6,9,11) in auto)
qed

text \<open>
  The results of \<open>internal_sleep\<close>: no timer is left, the wake-up time overflows, or the process
  sleeps and either the first ready process or nobody runs.
\<close>

lemma sleep_exec:
  assumes inv: "kinv k L" and num: "syscall_num (pcbs k (running k)) = DSOS_CALL_SLEEP"
    and wake: "wake = disastrOS_time k + int_of_long (syscall_arg k 0)"
  obtains (overflow) "internal_sleep k = Inl Signed_overflow" "\<not> in_int_range wake"
  | (full) "internal_sleep k = Inr (set_retvalue DSOS_ESLEEP k)" "pools_room (pools k) timer_pool = 0"
  | (asleep) t k' L' where "internal_sleep k = Inr k'"
      "L' = L(timer_list := insert_timer (timer_items k) wake t (L timer_list),
         waiting_list := L waiting_list @ [running k], ready_list := tl (L ready_list))"
      "timer_items k' t = \<lparr>awakening_time = wake, t_pcb = running k\<rparr>"
      "\<And>u. u \<noteq> t \<Longrightarrow> timer_items k' u = timer_items k u"
      "L ready_list \<noteq> [] \<Longrightarrow> kinv k' L' \<and> running k' = hd (L ready_list)"
      "L ready_list = [] \<Longrightarrow> kinv_idle k' L' \<and> running k' = NULL"
      "status (pcbs k' (running k)) = Waiting" "shutdown_now k' = shutdown_now k"
      "t \<notin> set (L timer_list)" "pools_room (pools k') pcb_pool = pools_room (pools k) pcb_pool"
      "pools_live (pools k') pcb_pool = pools_live (pools k) pcb_pool" "last_pid k' = last_pid k"
      "log_file k' = log_file k"
proof -
  note K = kinvD [OF inv]
  note S = sched_okD [OF K(2)]
  let ?me = "running k"
  have tm: "timer (pcbs k ?me) = NULL" using timer_okD(5) [OF K(4) S(1)] .
  let ?us = "takeWhile (\<lambda>t. awakening_time (timer_items k t) \<le> wake) (L timer_list)"
  let ?vs = "dropWhile (\<lambda>t. awakening_time (timer_items k t) \<le> wake) (L timer_list)"
  have uv: "L timer_list = ?us @ ?vs" by simp
  have scan: "timer_scan (links k) (timer_items k) wake (lh_first (heads k timer_list)) NULL =
      Some (last_of NULL ?us)"
    using timer_scan_seg [OF dllD(2) [OF list_repD(1) [OF K(7)]]]
    by (simp add: list_repD(5) [OF K(7)])
  show thesis
  proof (cases "in_int_range wake")
    case False
    then have "internal_sleep k = Inl Signed_overflow"
      using S(3) tm wake by (simp add: internal_sleep_def)
    with False show thesis by (rule overflow [rotated])
  next
    case range: True
    show thesis
    proof (rule TimerItem_alloc_exec [OF inv, of wake ?me])
      assume room: "pools_room (pools k) timer_pool = 0"
        and "TimerItem_alloc k wake ?me = Inr (NULL, k)"
      then have "internal_sleep k = Inr (set_retvalue DSOS_ESLEEP k)"
        using S(3) tm wake range scan by (simp add: internal_sleep_def TimerList_add_def)
      from this room show thesis by (rule full)
    next
      fix t ps lk
      let ?ti = "(timer_items k)(t := \<lparr>awakening_time = wake, t_pcb = ?me\<rparr>)"
      let ?k1 = "k\<lparr>pools := ps, links := lk, timer_items := ?ti\<rparr>"
      assume 1: "TimerItem_alloc k wake ?me = Inr (t, ?k1)" "t \<noteq> NULL" "kinv ?k1 L" "loose lk L t"
        "t \<in> pools_live ps timer_pool" "t \<notin> set (L timer_list)"
        "pools_room ps pcb_pool = pools_room (pools k) pcb_pool"
        "pools_live ps pcb_pool = pools_live (pools k) pcb_pool"
      note K1 = kinvD [OF 1(3)]
      note S1 = sched_okD [OF K1(2)]
      have p: "last_of NULL ?us = NULL \<or> last_of NULL ?us \<in> set (L timer_list)"
        using set_takeWhileD last_of_in [of ?us NULL] by (cases "?us = []") (auto dest: set_takeWhileD)
      have ins: "insert_after (last_of NULL ?us) t (L timer_list) =
          insert_timer (timer_items k) wake t (L timer_list)"
        using insert_after_last_of [of ?us ?vs t] list_repD(3,4) [OF K(7), of timer_list]
        by (simp add: insert_timer_def)
      have t1: "list_rep (links ?k1) (heads ?k1) L" "loose (links ?k1) L t"
        using K1(7) 1(4) by simp_all
      obtain lk2 hd2 where
        2: "List_insert ?k1 timer_list (last_of NULL ?us) t = Inr (t, ?k1\<lparr>links := lk2, heads := hd2\<rparr>)"
          "list_rep lk2 hd2 (L(timer_list := insert_timer (timer_items k) wake t (L timer_list)))"
          "\<forall>a. loose (links ?k1) L a \<longrightarrow> a \<noteq> t \<longrightarrow>
             loose lk2 (L(timer_list := insert_timer (timer_items k) wake t (L timer_list))) a"
        using insert_exec [where k = ?k1, OF t1 p] by (auto simp: ins)
      let ?k2 = "upd_pcb ?me (\<lambda>x. x\<lparr>status := Waiting\<rparr>) (?k1\<lparr>links := lk2, heads := hd2\<rparr>)"
        and ?L2 = "L(timer_list := insert_timer (timer_items k) wake t (L timer_list))"
      have mt: "?me \<noteq> t" using pools_live_disjoint [OF K1(8), of t timer_pool pcb_pool] 1(5) S1(1) by auto
      have t2: "list_rep (links ?k2) (heads ?k2) ?L2" "loose (links ?k2) ?L2 ?me"
        using 2(2,3) S1(2) mt by simp_all
      obtain lk3 hd3 where
        3: "List_insert ?k2 waiting_list (lh_last (heads ?k2 waiting_list)) ?me =
            Inr (?me, ?k2\<lparr>links := lk3, heads := hd3\<rparr>)"
          "list_rep lk3 hd3 (?L2(waiting_list := ?L2 waiting_list @ [?me]))"
          "\<forall>a. loose (links ?k2) ?L2 a \<longrightarrow> a \<noteq> ?me \<longrightarrow>
             loose lk3 (?L2(waiting_list := ?L2 waiting_list @ [?me])) a"
        using append_exec [where k = ?k2, OF t2, of waiting_list] by blast
      let ?k3 = "?k2\<lparr>links := lk3, heads := hd3\<rparr>"
      let ?L3 = "L(timer_list := insert_timer (timer_items k) wake t (L timer_list),
        waiting_list := L waiting_list @ [?me])"
      have ti: "insert_timer ?ti wake t (L timer_list) = insert_timer (timer_items k) wake t (L timer_list)"
        unfolding insert_timer_def using 1(6)
        by (intro arg_cong2 [where f = append] arg_cong2 [where f = Cons] takeWhile_cong dropWhile_cong)
          auto
      have "kinv_idle ((upd_pcb ?me (\<lambda>x. x\<lparr>status := Waiting\<rparr>) ?k1)\<lparr>links := lk3, heads := hd3\<rparr>) ?L3"
        using sleep_park_kinv [OF 1(3), of t wake ?L3 lk3 hd3] 1(4,5) num 3(2,3) 2(3)
        by (simp add: ti)
      then have idle: "kinv_idle ?k3 ?L3" by (simp add: upd_pcb_def)
      have step: "internal_sleep k =
          (if lh_first (heads ?k3 ready_list) \<noteq> NULL then
             andthen (List_detach ?k3 ready_list (lh_first (heads ?k3 ready_list)))
               (\<lambda>(next_running, k4). Inr (k4\<lparr>running := next_running\<rparr>))
           else Inr (?k3\<lparr>running := NULL\<rparr>))"
        using S(3) tm wake range scan 1(1,2) 2(1) 3(1)
        by (simp add: internal_sleep_def TimerList_add_def Let_def)
      show thesis
      proof (cases "L ready_list")
        case Nil
        have "lh_first (heads ?k3 ready_list) = NULL"
          using first_empty [OF kinv_idleD(9) [OF idle], of ready_list] Nil by simp
        then have "internal_sleep k = Inr (?k3\<lparr>running := NULL\<rparr>)" using step by simp
        moreover have "?L3(ready_list := tl (L ready_list)) = ?L3" using Nil by (simp add: fun_eq_iff)
        with idle have "kinv_idle (?k3\<lparr>running := NULL\<rparr>) (?L3(ready_list := tl (L ready_list)))"
          by simp
        ultimately show thesis
          by (intro asleep [OF _ refl, of "?k3\<lparr>running := NULL\<rparr>" t]) (use Nil 1(6-8) in simp_all)
      next
        case (Cons r rs)
        then have "?L3 ready_list = r # rs" by simp
        from pick_exec [OF idle this] obtain lk4 hd4 where
          4: "lh_first (heads ?k3 ready_list) = r" "r \<noteq> NULL"
            "List_detach ?k3 ready_list r = Inr (r, ?k3\<lparr>links := lk4, heads := hd4\<rparr>)"
            "kinv (?k3\<lparr>links := lk4, heads := hd4, running := r\<rparr>) (?L3(ready_list := rs))"
          by blast
        then have "internal_sleep k = Inr (?k3\<lparr>links := lk4, heads := hd4, running := r\<rparr>)"
          using step by simp
        then show thesis
          by (rule asleep [OF _ refl, of _ t]) (use Cons 1(6-8) 4(4) in simp_all)
      qed
    qed
  qed
qed

end
