(* ===== verification/Ownership.thy ===== *)
theory Ownership
  imports Kernel_Inv
begin

text \<open>
  The kernel as its processes see it: which are still there, and the semaphores each has open.
\<close>

text \<open>The running process, and those that will run or wait for something.\<close>

definition alive :: "kernel \<Rightarrow> (hloc \<Rightarrow> addr list) \<Rightarrow> addr \<Rightarrow> bool" where
  "alive k L q \<longleftrightarrow> q = running k \<or> q \<in> set (L ready_list) \<or> q \<in> set (L waiting_list)"

text \<open>The descriptor numbers of a process, each with the number of its semaphore.\<close>

definition opened :: "kernel \<Rightarrow> (hloc \<Rightarrow> addr list) \<Rightarrow> addr \<Rightarrow> (int \<times> int) set" where
  "opened k L q =
     (\<lambda>d. (sd_fd (sem_descriptors k d), sem_id (semaphores k (sd_semaphore (sem_descriptors k d))))) `
       set (L (PCB_sem_descriptors q))"

lemma opened_cong:
  assumes "kinv k L" and "L' (PCB_sem_descriptors q) = L (PCB_sem_descriptors q)"
    and "\<And>d. d \<in> set (L (PCB_sem_descriptors q)) \<Longrightarrow> sem_descriptors k' d = sem_descriptors k d"
    and "\<And>s. s \<in> set (L semaphores_list) \<Longrightarrow> sem_id (semaphores k' s) = sem_id (semaphores k s)"
  shows "opened k' L' q = opened k L q"
  unfolding opened_def assms(2)
  by (rule image_cong [OF refl]) (simp add: assms(3,4) sem_descriptorD(1) [OF kinvD(5) [OF assms(1)] _ refl])

lemma openedE:
  assumes "(fd, n) \<in> opened k L q"
  obtains d where "d \<in> set (L (PCB_sem_descriptors q))" "sd_fd (sem_descriptors k d) = fd"
    "sem_id (semaphores k (sd_semaphore (sem_descriptors k d))) = n"
  using assms by (auto simp: opened_def)

text \<open>Numbers stand for one semaphore each, and the other way round.\<close>

lemma opened_unique:
  assumes inv: "kinv k L" and "(fd, n) \<in> opened k L q"
  shows "(fd, m) \<in> opened k L q \<Longrightarrow> m = n" "(fd', n) \<in> opened k L q \<Longrightarrow> fd' = fd" "0 \<le> fd"
    "\<exists>s \<in> set (L semaphores_list). sem_id (semaphores k s) = n"
proof -
  note S = kinvD(5) [OF inv]
  obtain d where d: "d \<in> set (L (PCB_sem_descriptors q))" "sd_fd (sem_descriptors k d) = fd"
    "sem_id (semaphores k (sd_semaphore (sem_descriptors k d))) = n"
    using assms(2) by (rule openedE)
  show "m = n" if "(fd, m) \<in> opened k L q"
    using that
  proof (rule openedE)
    fix e
    assume e: "e \<in> set (L (PCB_sem_descriptors q))" "sd_fd (sem_descriptors k e) = fd"
      "sem_id (semaphores k (sd_semaphore (sem_descriptors k e))) = m"
    have "e = d" using sem_fdD(1) [OF S e(1) d(1)] e(2) d(2) by simp
    then show "m = n" using e(3) d(3) by simp
  qed
  show "fd' = fd" if "(fd', n) \<in> opened k L q"
    using that
  proof (rule openedE)
    fix e
    assume e: "e \<in> set (L (PCB_sem_descriptors q))" "sd_fd (sem_descriptors k e) = fd'"
      "sem_id (semaphores k (sd_semaphore (sem_descriptors k e))) = n"
    have "sd_semaphore (sem_descriptors k e) = sd_semaphore (sem_descriptors k d)"
      using sem_okD(5) [OF S] e(3) d(3) sem_descriptorD(1) [OF S e(1) refl]
        sem_descriptorD(1) [OF S d(1) refl]
      by (auto simp: sem_ids_ok_def inj_on_def)
    then show "fd' = fd" using sem_fdD(2) [OF S e(1) d(1)] e(2) d(2) by simp
  qed
  show "0 \<le> fd" using sem_okD(3) [OF S] d by (auto simp: sem_fds_ok_def)
  show "\<exists>s \<in> set (L semaphores_list). sem_id (semaphores k s) = n"
    using sem_descriptorD(1) [OF S d(1) refl] d(3) by blast
qed

text \<open>A step that opens and closes nothing, and makes no process.\<close>

definition steady ::
    "kernel \<Rightarrow> (hloc \<Rightarrow> addr list) \<Rightarrow> kernel \<Rightarrow> (hloc \<Rightarrow> addr list) \<Rightarrow> bool" where
  "steady k L k' L' \<longleftrightarrow> kinv k' L' \<and>
     (\<forall>q. q \<noteq> running k \<longrightarrow> alive k' L' q = alive k L q) \<and>
     set (L' waiting_list) \<subseteq> insert (running k) (set (L waiting_list)) \<and>
     (\<forall>q. opened k' L' q = opened k L q) \<and> set (L' semaphores_list) = set (L semaphores_list) \<and>
     (\<forall>s \<in> set (L semaphores_list). sem_id (semaphores k' s) = sem_id (semaphores k s))"

lemma steadyI:
  assumes "kinv k L" and "kinv k' L'"
    and "\<And>q. q \<noteq> running k \<Longrightarrow> alive k' L' q = alive k L q"
    and "set (L' waiting_list) \<subseteq> insert (running k) (set (L waiting_list))"
    and "\<And>q. L' (PCB_sem_descriptors q) = L (PCB_sem_descriptors q)"
    and "L' semaphores_list = L semaphores_list"
    and "sem_descriptors k' = sem_descriptors k"
    and "\<And>s. sem_id (semaphores k' s) = sem_id (semaphores k s)"
  shows "steady k L k' L'"
proof -
  have "opened k' L' q = opened k L q" for q
    by (rule opened_cong [OF assms(1)]) (use assms(5,7,8) in simp_all)
  then show ?thesis using assms(2-4,6,8) by (simp add: steady_def)
qed

lemma steadyD:
  assumes "steady k L k' L'"
  shows "kinv k' L'" "q \<noteq> running k \<Longrightarrow> alive k' L' q = alive k L q"
    "set (L' waiting_list) \<subseteq> insert (running k) (set (L waiting_list))"
    "opened k' L' q = opened k L q" "set (L' semaphores_list) = set (L semaphores_list)"
    "s \<in> set (L semaphores_list) \<Longrightarrow> sem_id (semaphores k' s) = sem_id (semaphores k s)"
  using assms by (simp_all add: steady_def)

lemma steady_set_retvalue [simp]: "steady k L (set_retvalue v k') L' = steady k L k' L'"
  by (simp add: steady_def alive_def opened_def)

lemma steady_refl: "kinv k L \<Longrightarrow> steady k L k L"
  by (rule steadyI) auto

end
