(* ===== verification/Sem_Correct.thy ===== *)
theory Sem_Correct
  imports Sem_Syscalls Ownership
begin

text \<open>
  The semaphore calls on a kernel that satisfies the invariant: their results, branch by
  branch, and the preservation of the invariant.
\<close>

lemma byFd_exec:
  assumes "kinv k L"
  shows "SemDescriptorList_byFd k h f =
    Inr (scan_result (\<lambda>a. sd_fd (sem_descriptors k a) = f) (L h))"
  unfolding SemDescriptorList_byFd_def by (rule list_rep_search_self) (rule kinvD(7) [OF assms])

lemma byFd_found:
  assumes "kinv k L" and "d \<in> set (L (PCB_sem_descriptors p))"
    and "sd_fd (sem_descriptors k d) = f"
  shows "SemDescriptorList_byFd k (PCB_sem_descriptors p) f = Inr d"
  unfolding byFd_exec [OF assms(1)]
  using assms sem_fdD(1) [OF kinvD(5) [OF assms(1)]] by (auto intro: scan_result_unique)

lemma byFd_missing:
  assumes "kinv k L" and "\<forall>d \<in> set (L (PCB_sem_descriptors p)). sd_fd (sem_descriptors k d) \<noteq> f"
  shows "SemDescriptorList_byFd k (PCB_sem_descriptors p) f = Inr NULL"
  unfolding byFd_exec [OF assms(1)]
  using assms list_repD(4) [OF kinvD(7) [OF assms(1)]] by (simp add: scan_result_NULL)

lemma kinv_sem_nonnull:
  assumes "kinv k L" and "d \<in> set (L (PCB_sem_descriptors p))"
    and "s = sd_semaphore (sem_descriptors k d)"
  shows "d \<noteq> NULL" "s \<noteq> NULL"
  using kinv_nonnull [OF assms(1)] sem_descriptorD(1) [OF kinvD(5) [OF assms(1)] assms(2,3)] assms(2)
  by blast+

lemma running_wait_ptr_loose:
  assumes inv: "kinv k L" and d: "d \<in> set (L (PCB_sem_descriptors (running k)))"
  shows "loose (links k) L (sd_wait_ptr (sem_descriptors k d))"
    and "sd_wait_ptr (sem_descriptors k d) \<noteq> running k"
proof -
  let ?x = "sd_wait_ptr (sem_descriptors k d)"
  note D = sem_descriptorD [OF kinvD(5) [OF inv] d refl]
  note S = sched_okD [OF kinvD(2) [OF inv]]
  have "?x \<notin> set (L (Semaphore_waiting s))" for s
    using sem_waitingD(4) [OF kinvD(5) [OF inv] _ refl refl, of ?x s] D(2,6) S(4) by auto
  with D(7) show "loose (links k) L ?x" by blast
  show "?x \<noteq> running k"
    using pools_live_disjoint [OF kinvD(8) [OF inv], of _ pcb_pool sem_descriptor_ptr_pool]
      D(5) S(1) by auto
qed

section \<open>Post\<close>

text \<open>The kernel after a post that wakes nobody, and after one that wakes \<open>q\<close>.\<close>

lemma semPost_plain:
  assumes inv: "kinv k L" and d: "d \<in> set (L (PCB_sem_descriptors (running k)))"
    and fd: "int_of_long (syscall_arg k 0) = sd_fd (sem_descriptors k d)"
    and s: "s = sd_semaphore (sem_descriptors k d)"
    and plain: "0 \<le> sem_count (semaphores k s) \<or> L (Semaphore_waiting s) = []"
  shows "internal_semPost k =
    (if in_int_range (sem_count (semaphores k s) + 1)
     then Inr (set_retvalue 0 (upd_sem s (\<lambda>x. x\<lparr>sem_count := sem_count (semaphores k s) + 1\<rparr>) k))
     else Inl Signed_overflow)"
proof -
  note S = sched_okD [OF kinvD(2) [OF inv]]
  have "s \<in> set (L semaphores_list)" using sem_descriptorD(1) [OF kinvD(5) [OF inv] d s] .
  then have nz: "s \<noteq> NULL" using list_repD(4) [OF kinvD(7) [OF inv], of semaphores_list] by metis
  have fst: "lh_first (heads k (Semaphore_waiting s)) = NULL \<longleftrightarrow> L (Semaphore_waiting s) = []"
    by (rule first_empty) (rule kinvD(7) [OF inv])
  have dz: "d \<noteq> NULL"
    using d list_repD(4) [OF kinvD(7) [OF inv], of "PCB_sem_descriptors (running k)"] by metis
  show ?thesis
    using S(3) nz dz plain
    by (auto simp: internal_semPost_def fd byFd_found [OF inv d refl] s [symmetric] fst)
qed

lemma semPost_wake:
  assumes inv: "kinv k L" and d: "d \<in> set (L (PCB_sem_descriptors (running k)))"
    and fd: "int_of_long (syscall_arg k 0) = sd_fd (sem_descriptors k d)"
    and s: "s = sd_semaphore (sem_descriptors k d)"
    and neg: "sem_count (semaphores k s) < 0" and w: "L (Semaphore_waiting s) = x # xs"
    and q: "q = sd_pcb (sem_descriptors k (sem_descriptor_ptrs k x))"
  obtains lk hds L' k' where
    "L' = L(Semaphore_waiting s := xs, waiting_list := remove1 q (L waiting_list),
            ready_list := L ready_list @ [q])"
    "k' = set_retvalue 0 (upd_sem s (\<lambda>x. x\<lparr>sem_count := sem_count (semaphores k s) + 1\<rparr>)
            (upd_pcb q (\<lambda>p. p\<lparr>status := Ready\<rparr>) (k\<lparr>links := lk, heads := hds\<rparr>)))"
    "internal_semPost k =
       (if in_int_range (sem_count (semaphores k s) + 1) then Inr k' else Inl Signed_overflow)"
    "list_rep lk hds L'"
    "\<And>y. loose (links k) L y \<Longrightarrow> loose lk L' y" "loose lk L' x" "q \<noteq> running k"
    "q \<in> set (L waiting_list)"
proof -
  note S = sched_okD [OF kinvD(2) [OF inv]]
  note R = kinvD(7) [OF inv]
  have x: "x \<in> set (L (Semaphore_waiting s))" using w by simp
  note W = sem_waitingD [OF kinvD(5) [OF inv] x refl q]
  have "s \<in> set (L semaphores_list)" using sem_descriptorD(1) [OF kinvD(5) [OF inv] d s] .
  then have nz: "s \<noteq> NULL" using list_repD(4) [OF R, of semaphores_list] by metis
  have dz: "d \<noteq> NULL" using d list_repD(4) [OF R, of "PCB_sem_descriptors (running k)"] by metis
  have hz: "sem_descriptor_ptrs k x \<noteq> NULL"
    using W(1) list_repD(4) [OF R, of "PCB_sem_descriptors q"] by metis
  from detach_first_exec [where k = k, OF R w] obtain lk1 hd1 where
    1: "lh_first (heads k (Semaphore_waiting s)) = x" "x \<noteq> NULL"
      "List_detach k (Semaphore_waiting s) x = Inr (x, k\<lparr>links := lk1, heads := hd1\<rparr>)"
      "list_rep lk1 hd1 (L(Semaphore_waiting s := xs))"
      "loose lk1 (L(Semaphore_waiting s := xs)) x"
      "\<forall>y. loose (links k) L y \<longrightarrow> loose lk1 (L(Semaphore_waiting s := xs)) y" by blast
  let ?k1 = "k\<lparr>links := lk1, heads := hd1\<rparr>" and ?L1 = "L(Semaphore_waiting s := xs)"
  have "list_rep (links ?k1) (heads ?k1) ?L1" "q \<in> set (?L1 waiting_list)"
    using 1(4) W(4) by simp_all
  from detach_exec [where k = ?k1, OF this] obtain lk2 hd2 where
    2: "List_detach ?k1 waiting_list q = Inr (q, ?k1\<lparr>links := lk2, heads := hd2\<rparr>)"
      "list_rep lk2 hd2 (?L1(waiting_list := remove1 q (?L1 waiting_list)))"
      "loose lk2 (?L1(waiting_list := remove1 q (?L1 waiting_list))) q"
      "\<forall>y. loose (links ?k1) ?L1 y \<longrightarrow>
         loose lk2 (?L1(waiting_list := remove1 q (?L1 waiting_list))) y" by blast
  let ?k2 = "k\<lparr>links := lk2, heads := hd2\<rparr>"
    and ?L2 = "?L1(waiting_list := remove1 q (L waiting_list))"
  have "list_rep (links ?k2) (heads ?k2) ?L2" "loose (links ?k2) ?L2 q"
    using 2(2,3) by simp_all
  from append_exec [where k = ?k2 and h = ready_list, OF this] obtain lk3 hd3 where
    3: "List_insert ?k2 ready_list (lh_last (heads ?k2 ready_list)) q
          = Inr (q, ?k2\<lparr>links := lk3, heads := hd3\<rparr>)"
      "list_rep lk3 hd3 (?L2(ready_list := ?L2 ready_list @ [q]))"
      "\<forall>y. loose (links ?k2) ?L2 y \<longrightarrow> y \<noteq> q \<longrightarrow>
         loose lk3 (?L2(ready_list := ?L2 ready_list @ [q])) y" by blast
  have nl: "y \<noteq> q" if "loose (links k) L y" for y using W(4) that by (auto simp: loose_def)
  have xq: "x \<noteq> q" using x W(4) list_repD(2) [OF R, of "Semaphore_waiting s" waiting_list] by auto
  show thesis
  proof (rule that [OF refl refl])
    show "internal_semPost k =
        (if in_int_range (sem_count (semaphores k s) + 1)
         then Inr (set_retvalue 0
           (upd_sem s (\<lambda>x. x\<lparr>sem_count := sem_count (semaphores k s) + 1\<rparr>)
             (upd_pcb q (\<lambda>p. p\<lparr>status := Ready\<rparr>) (k\<lparr>links := lk3, heads := hd3\<rparr>))))
         else Inl Signed_overflow)"
      using S(3) nz dz hz neg 1(1-3) 2(1) 3(1)
      by (simp add: internal_semPost_def fd byFd_found [OF inv d refl] s [symmetric] q [symmetric]
          upd_pcb_def)
    show "list_rep lk3 hd3 (L(Semaphore_waiting s := xs,
        waiting_list := remove1 q (L waiting_list), ready_list := L ready_list @ [q]))"
      using 3(2) by simp
    show "loose lk3 (L(Semaphore_waiting s := xs,
        waiting_list := remove1 q (L waiting_list), ready_list := L ready_list @ [q])) y"
      if "loose (links k) L y" for y
      using 3(3) 2(4) 1(6) that nl [OF that] by simp
    show "loose lk3 (L(Semaphore_waiting s := xs,
        waiting_list := remove1 q (L waiting_list), ready_list := L ready_list @ [q])) x"
      using 3(3) 2(4) 1(5) xq by simp
    show "q \<noteq> running k" using W(4) S(4) by auto
    show "q \<in> set (L waiting_list)" by (rule W(4))
  qed
qed

lemma semPost_wake_kinv:
  assumes inv: "kinv k L" and s: "s \<in> set (L semaphores_list)"
    and neg: "sem_count (semaphores k s) < 0" and w: "L (Semaphore_waiting s) = x # xs"
    and q: "q = sd_pcb (sem_descriptors k (sem_descriptor_ptrs k x))"
    and L': "L' = L(Semaphore_waiting s := xs, waiting_list := remove1 q (L waiting_list),
            ready_list := L ready_list @ [q])"
    and rep: "list_rep lk hds L'" 
    and loose: "\<forall>y. loose (links k) L y \<longrightarrow> loose lk L' y" "loose lk L' x"
    and k': "k' = (upd_sem s (\<lambda>x. x\<lparr>sem_count := sem_count (semaphores k s) + 1\<rparr>)
            (upd_pcb q (\<lambda>p. p\<lparr>status := Ready\<rparr>) (k\<lparr>links := lk, heads := hds\<rparr>)))"
  shows "kinv k' L'"
proof -
  note K = kinvD [OF inv]
  have x: "x \<in> set (L (Semaphore_waiting s))" using w by simp
  note W = sem_waitingD [OF K(5) x refl q]
  note S = sched_okD [OF K(2)]
  note R = list_repD [OF K(7)]
  have dis: "distinct (x # xs)" using R(3) [of "Semaphore_waiting s"] w by simp
  have qw: "q \<in> pools_live (pools k) pcb_pool" using typed_listsD [OF K(9) W(4)] by simp
  have qr: "q \<noteq> running k" using W(4) S(4) by auto
  have qi: "q \<notin> set (L ready_list)" "q \<notin> set (L zombie_list)" using W(4) R(2) by blast+
  have "typed_lists (pools_live (pools k)) L'"
    unfolding L'
    by (rule typed_lists_add [where x = q], rule typed_lists_sub, rule typed_lists_sub, rule K(9))
      (use w qw in \<open>auto dest: in_set_remove1D\<close>)
  then have "lists_ok k' L'"
    using K(8) rep unfolding lists_ok_def k' kernel_upd_defs by simp
  moreover have "place_ok k' L'"
    using S(11) qr qi R(3) loose(1) unfolding place_ok_def k' L' kernel_upd_defs by auto
  moreover have "init_ok k' L'"
    by (rule init_ok_cong [OF S(12)]) (use S(12) in \<open>auto simp: k' L' kernel_upd_defs init_ok_def\<close>)
  moreover have "pids_ok (pcbs k') (last_pid k') (pools_live (pools k') pcb_pool)"
    unfolding k' kernel_upd_defs by (simp, rule pids_ok_cong [OF S(13)]) auto
  moreover have "tree_ok k' L'"
    by (rule tree_ok_cong [OF K(3)]) (simp_all add: k' L' kernel_upd_defs)
  moreover have "timer_ok k' L'"
    by (rule timer_ok_cong [OF K(4)])
      (use timer_okD [OF K(4)] W(5) R(3) in
        \<open>auto simp: k' L' kernel_upd_defs syscall_numbers\<close>)
  moreover have "sem_links_ok k' L'"
    by (rule sem_links_ok_cong [OF sem_okD(1) [OF K(5)]]) (simp_all add: k' L' kernel_upd_defs)
  moreover have "wait_ptrs_ok k' L'"
    unfolding wait_ptrs_ok_def
  proof (intro allI impI)
    fix p d
    assume "d \<in> set (L' (PCB_sem_descriptors p))"
    then have "d \<in> set (L (PCB_sem_descriptors p))" by (simp add: L')
    from sem_descriptorD(7) [OF K(5) this refl]
    have "loose lk L' (sd_wait_ptr (sem_descriptors k d)) \<or> sd_wait_ptr (sem_descriptors k d)
        \<in> set (L' (Semaphore_waiting (sd_semaphore (sem_descriptors k d))))"
      using loose w by (cases "sd_semaphore (sem_descriptors k d) = s") (auto simp: L')
    then show "loose (links k') L' (sd_wait_ptr (sem_descriptors k' d)) \<or>
        sd_wait_ptr (sem_descriptors k' d)
          \<in> set (L' (Semaphore_waiting (sd_semaphore (sem_descriptors k' d))))"
      by (simp add: k' kernel_upd_defs)
  qed
  moreover have "sem_fds_ok k' L'"
    by (rule sem_fds_ok_cong [OF sem_okD(3) [OF K(5)]]) (simp_all add: k' L' kernel_upd_defs)
  moreover have "waiters_ok k' L'"
    unfolding waiters_ok_def Let_def
  proof (intro allI impI)
    fix u y
    assume "y \<in> set (L' (Semaphore_waiting u))"
    then have y: "y \<in> set (L (Semaphore_waiting u))" "y \<noteq> x"
      using w dis R(2) [of "Semaphore_waiting u" "Semaphore_waiting s"] x
      by (auto simp: L' split: if_splits)
    note Y = sem_waitingD [OF K(5) y(1) refl refl]
    from W(6) [OF y(1)] y(2) have "sd_pcb (sem_descriptors k (sem_descriptor_ptrs k y)) \<noteq> q"
      by blast
    then show "sem_descriptor_ptrs k' y
          \<in> set (L' (PCB_sem_descriptors (sd_pcb (sem_descriptors k' (sem_descriptor_ptrs k' y))))) \<and>
        sd_wait_ptr (sem_descriptors k' (sem_descriptor_ptrs k' y)) = y \<and>
        sd_semaphore (sem_descriptors k' (sem_descriptor_ptrs k' y)) = u \<and>
        sd_pcb (sem_descriptors k' (sem_descriptor_ptrs k' y)) \<in> set (L' waiting_list) \<and>
        syscall_num (pcbs k' (sd_pcb (sem_descriptors k' (sem_descriptor_ptrs k' y)))) =
          DSOS_CALL_SEMWAIT"
      using Y(1-5) by (simp add: k' L' kernel_upd_defs)
  qed
  moreover have "owners_ok k' L'"
    by (rule owners_ok_cong) (use sem_okD(4) [OF K(5)] w in
        \<open>auto simp: k' L' kernel_upd_defs sem_queues_ok_def\<close>)
  moreover have "queue_lengths_ok k' L'"
    unfolding queue_lengths_ok_def
  proof
    fix u
    assume "u \<in> set (L' semaphores_list)"
    then have u: "u \<in> set (L semaphores_list)" by (simp add: L')
    show "int (length (L' (Semaphore_waiting u))) \<le> max 0 (- sem_count (semaphores k' u))"
      using sem_queue_length [OF K(5) u] w neg
      by (cases "u = s") (simp_all add: L' k' kernel_upd_defs)
  qed
  moreover have "sem_ids_ok k' L'"
    by (rule sem_ids_ok_cong [OF sem_okD(5) [OF K(5)]]) (simp_all add: k' L' kernel_upd_defs)
  moreover have "res_ok k' L'"
    by (rule res_ok_cong [OF K(6)]) (simp_all add: k' L' kernel_upd_defs)
  ultimately show ?thesis by (simp add: kinv_def sem_ok_def sem_queues_ok_def sched_ok_def)
qed

section \<open>Wait\<close>

lemma semWait_block:
  assumes inv: "kinv k L" and d: "d \<in> set (L (PCB_sem_descriptors (running k)))"
    and fd: "int_of_long (syscall_arg k 0) = sd_fd (sem_descriptors k d)"
    and s: "s = sd_semaphore (sem_descriptors k d)" and x: "x = sd_wait_ptr (sem_descriptors k d)"
    and cnt: "sem_count (semaphores k s) \<le> 0" and r: "L ready_list = r # rs"
  obtains lk hds L' k' where
    "L' = L(Semaphore_waiting s := L (Semaphore_waiting s) @ [x],
            waiting_list := L waiting_list @ [running k], ready_list := rs)"
    "k' = set_retvalue 0 (upd_sem s (\<lambda>x. x\<lparr>sem_count := sem_count (semaphores k s) - 1\<rparr>)
            ((upd_pcb (running k) (\<lambda>p. p\<lparr>status := Waiting\<rparr>) k)
              \<lparr>links := lk, heads := hds, running := r\<rparr>))"
    "internal_semWait k =
       (if in_int_range (sem_count (semaphores k s) - 1) then Inr k' else Inl Signed_overflow)"
    "list_rep lk hds L'"
    "\<And>y. loose (links k) L y \<Longrightarrow> y \<noteq> running k \<Longrightarrow> y \<noteq> x \<Longrightarrow> loose lk L' y" "loose lk L' r"
proof -
  note S = sched_okD [OF kinvD(2) [OF inv]]
  note R = kinvD(7) [OF inv]
  note N = kinv_sem_nonnull [OF inv d s]
  note X = running_wait_ptr_loose [OF inv d, folded x]
  let ?h = "Semaphore_waiting s"
  obtain lk1 hd1 where
    1: "List_insert k ?h (lh_last (heads k ?h)) x = Inr (x, k\<lparr>links := lk1, heads := hd1\<rparr>)"
      "list_rep lk1 hd1 (L(?h := L ?h @ [x]))"
      "\<forall>y. loose (links k) L y \<longrightarrow> y \<noteq> x \<longrightarrow> loose lk1 (L(?h := L ?h @ [x])) y"
    using append_exec [where k = k, OF R X(1), of ?h] by blast
  let ?k1 = "upd_pcb (running k) (\<lambda>p. p\<lparr>status := Waiting\<rparr>) (k\<lparr>links := lk1, heads := hd1\<rparr>)" and ?L1 = "L(?h := L ?h @ [x])"
  have t: "list_rep (links ?k1) (heads ?k1) ?L1" "loose (links ?k1) ?L1 (running k)"
    using 1(2,3) S(2) X(2) by (auto simp: upd_pcb_def)
  obtain lk2 hd2 where
    2: "List_insert ?k1 waiting_list (lh_last (heads ?k1 waiting_list)) (running k) = Inr (running k, ?k1\<lparr>links := lk2, heads := hd2\<rparr>)"
      "list_rep lk2 hd2 (?L1(waiting_list := ?L1 waiting_list @ [running k]))"
      "\<forall>y. loose (links ?k1) ?L1 y \<longrightarrow> y \<noteq> running k \<longrightarrow> loose lk2 (?L1(waiting_list := ?L1 waiting_list @ [running k])) y"
    using append_exec [where k = ?k1, OF t, of waiting_list] by blast
  let ?k2 = "?k1\<lparr>links := lk2, heads := hd2\<rparr>" and ?L2 = "?L1(waiting_list := L waiting_list @ [running k])"
  have t: "list_rep (links ?k2) (heads ?k2) ?L2" "?L2 ready_list = r # rs" using 2(2) r by auto
  obtain lk3 hd3 where
    3: "lh_first (heads ?k2 ready_list) = r" "r \<noteq> NULL"
      "List_detach ?k2 ready_list r = Inr (r, ?k2\<lparr>links := lk3, heads := hd3\<rparr>)"
      "list_rep lk3 hd3 (?L2(ready_list := rs))" "loose lk3 (?L2(ready_list := rs)) r"
      "\<forall>y. loose (links ?k2) ?L2 y \<longrightarrow> loose lk3 (?L2(ready_list := rs)) y"
    using detach_first_exec [where k = ?k2, OF t] by blast
  show thesis
  proof (rule that [OF refl refl])
    show "internal_semWait k =
        (if in_int_range (sem_count (semaphores k s) - 1)
         then Inr (set_retvalue 0
           (upd_sem s (\<lambda>x. x\<lparr>sem_count := sem_count (semaphores k s) - 1\<rparr>)
             ((upd_pcb (running k) (\<lambda>p. p\<lparr>status := Waiting\<rparr>) k)
               \<lparr>links := lk3, heads := hd3, running := r\<rparr>)))
         else Inl Signed_overflow)"
      using S(3) N cnt 1(1) 2(1) 3(1-3)
      by (simp add: internal_semWait_def semWait_finish_def fd byFd_found [OF inv d refl] s [symmetric] x [symmetric] upd_pcb_def Let_def)
  qed (use 1(3) 2(3) 3(4-6) in \<open>auto simp: upd_pcb_def\<close>)
qed
lemma semWait_block_kinv:
  assumes inv: "kinv k L" and d: "d \<in> set (L (PCB_sem_descriptors (running k)))"
    and num: "syscall_num (pcbs k (running k)) = DSOS_CALL_SEMWAIT"
    and s: "s = sd_semaphore (sem_descriptors k d)" and x: "x = sd_wait_ptr (sem_descriptors k d)"
    and cnt: "sem_count (semaphores k s) \<le> 0" and r: "L ready_list = r # rs"
    and L': "L' = L(Semaphore_waiting s := L (Semaphore_waiting s) @ [x],
            waiting_list := L waiting_list @ [running k], ready_list := rs)"
    and rep: "list_rep lk hds L'"
    and loose: "\<And>y. loose (links k) L y \<Longrightarrow> y \<noteq> running k \<Longrightarrow> y \<noteq> x \<Longrightarrow> loose lk L' y"
      "loose lk L' r"
    and k': "k' = upd_sem s (\<lambda>x. x\<lparr>sem_count := sem_count (semaphores k s) - 1\<rparr>)
            ((upd_pcb (running k) (\<lambda>p. p\<lparr>status := Waiting\<rparr>) k)
              \<lparr>links := lk, heads := hds, running := r\<rparr>)"
  shows "kinv k' L'"
proof -
  note K = kinvD [OF inv]
  note S = sched_okD [OF K(2)]
  note R = list_repD [OF K(7)]
  note D = sem_descriptorD [OF K(5) d s]
  have rr: "r \<in> set (L ready_list)" "r \<notin> set rs" using r R(3) [of ready_list] by simp_all
  then have rn: "r \<noteq> running k" "r \<noteq> NULL" "r \<in> pools_live (pools k) pcb_pool"
    using S(4) kinv_nonnull [OF inv] typed_listsD [OF K(9), of r ready_list] by auto
  have owner: "sem_descriptor_ptrs k x = d" "sd_pcb (sem_descriptors k d) = running k"
    using D(2,6) x by simp_all
  have "typed_lists (pools_live (pools k)) L'"
    unfolding L'
    by (rule typed_lists_sub, rule typed_lists_add [where x = "running k"],
        rule typed_lists_add [where x = x], rule K(9))
      (use D(5) S(1) r x in auto)
  then have "lists_ok k' L'"
    using K(8) rep unfolding lists_ok_def k' kernel_upd_defs by simp
  moreover have "place_ok k' L'"
    using S(1,3,11) S(4) [of ready_list] S(4) [of waiting_list] S(4) [of zombie_list] rr rn r loose(2)
    unfolding place_ok_def k' L' kernel_upd_defs by auto
  moreover have "init_ok k' L'"
    by (rule init_ok_cong [OF S(12)]) (use S(12) in \<open>auto simp: k' L' kernel_upd_defs init_ok_def\<close>)
  moreover have "pids_ok (pcbs k') (last_pid k') (pools_live (pools k') pcb_pool)"
    unfolding k' kernel_upd_defs by (simp, rule pids_ok_cong [OF S(13)]) auto
  moreover have "tree_ok k' L'"
    by (rule tree_ok_cong [OF K(3)]) (simp_all add: k' L' kernel_upd_defs)
  moreover have "timer_ok k' L'"
    by (rule timer_ok_cong [OF K(4)])
      (use timer_okD [OF K(4)] in \<open>auto simp: k' L' kernel_upd_defs syscall_numbers\<close>)
  moreover have "sem_links_ok k' L'"
    by (rule sem_links_ok_cong [OF sem_okD(1) [OF K(5)]]) (simp_all add: k' L' kernel_upd_defs)
  moreover have "wait_ptrs_ok k' L'"
    unfolding wait_ptrs_ok_def
  proof (intro allI impI)
    fix p e
    assume "e \<in> set (L' (PCB_sem_descriptors p))"
    then have e: "e \<in> set (L (PCB_sem_descriptors p))" by (simp add: L')
    note E = sem_descriptorD [OF K(5) e refl]
    have "sd_wait_ptr (sem_descriptors k e) \<noteq> running k"
      using pools_live_disjoint [OF K(8) E(5), of pcb_pool] S(1) by auto
    moreover have "sd_wait_ptr (sem_descriptors k e) \<noteq> x" if "e \<noteq> d"
      using that E(6) owner(1) by auto
    moreover have "set (L (Semaphore_waiting u)) \<subseteq> set (L' (Semaphore_waiting u))"
      "x \<in> set (L' (Semaphore_waiting s))" for u
      by (auto simp: L')
    ultimately have "loose lk L' (sd_wait_ptr (sem_descriptors k e)) \<or>
        sd_wait_ptr (sem_descriptors k e)
        \<in> set (L' (Semaphore_waiting (sd_semaphore (sem_descriptors k e))))"
      using E(7) loose(1) s x by (metis subsetD)
    then show "loose (links k') L' (sd_wait_ptr (sem_descriptors k' e)) \<or>
        sd_wait_ptr (sem_descriptors k' e)
          \<in> set (L' (Semaphore_waiting (sd_semaphore (sem_descriptors k' e))))"
      by (simp add: k' kernel_upd_defs)
  qed
  moreover have "sem_fds_ok k' L'"
    by (rule sem_fds_ok_cong [OF sem_okD(3) [OF K(5)]]) (simp_all add: k' L' kernel_upd_defs)
  moreover have "waiters_ok k' L'"
    unfolding waiters_ok_def Let_def
  proof (intro allI impI)
    fix u y
    assume "y \<in> set (L' (Semaphore_waiting u))"
    then consider "y \<in> set (L (Semaphore_waiting u))" | "y = x" "u = s"
      by (auto simp: L' split: if_splits)
    then show "sem_descriptor_ptrs k' y
          \<in> set (L' (PCB_sem_descriptors (sd_pcb (sem_descriptors k' (sem_descriptor_ptrs k' y))))) \<and>
        sd_wait_ptr (sem_descriptors k' (sem_descriptor_ptrs k' y)) = y \<and>
        sd_semaphore (sem_descriptors k' (sem_descriptor_ptrs k' y)) = u \<and>
        sd_pcb (sem_descriptors k' (sem_descriptor_ptrs k' y)) \<in> set (L' waiting_list) \<and>
        syscall_num (pcbs k' (sd_pcb (sem_descriptors k' (sem_descriptor_ptrs k' y)))) =
          DSOS_CALL_SEMWAIT"
    proof cases
      case 1
      show ?thesis
        using sem_waitingD(1-5) [OF K(5) 1 refl refl] num by (simp add: k' L' kernel_upd_defs)
    next
      case 2
      show ?thesis using 2 owner d s x num by (simp add: k' L' kernel_upd_defs)
    qed
  qed
  moreover have "owners_ok k' L'"
    unfolding owners_ok_def
  proof (intro allI impI)
    fix u v y z
    assume y: "y \<in> set (L' (Semaphore_waiting u))" and z: "z \<in> set (L' (Semaphore_waiting v))"
      and eq: "sd_pcb (sem_descriptors k' (sem_descriptor_ptrs k' y)) =
        sd_pcb (sem_descriptors k' (sem_descriptor_ptrs k' z))"
    then have eq': "sd_pcb (sem_descriptors k (sem_descriptor_ptrs k y)) =
        sd_pcb (sem_descriptors k (sem_descriptor_ptrs k z))" by (simp add: k' kernel_upd_defs)
    have o: "sd_pcb (sem_descriptors k (sem_descriptor_ptrs k a)) \<noteq> running k"
      if "a \<in> set (L (Semaphore_waiting b))" for a b
      using sem_waitingD(4) [OF K(5) that refl refl] S(4) by auto
    from y z have "y \<in> set (L (Semaphore_waiting u)) \<or> y = x"
      "z \<in> set (L (Semaphore_waiting v)) \<or> z = x" by (auto simp: L' split: if_splits)
    then show "y = z"
      using eq' o owner sem_waitingD(6) [OF K(5) _ refl refl] by metis
  qed
  moreover have "queue_lengths_ok k' L'"
    unfolding queue_lengths_ok_def
  proof
    fix u
    assume "u \<in> set (L' semaphores_list)"
    then have u: "u \<in> set (L semaphores_list)" by (simp add: L')
    show "int (length (L' (Semaphore_waiting u))) \<le> max 0 (- sem_count (semaphores k' u))"
      using sem_queue_length [OF K(5) u] cnt
      by (cases "u = s") (simp_all add: L' k' kernel_upd_defs)
  qed
  moreover have "sem_ids_ok k' L'"
    by (rule sem_ids_ok_cong [OF sem_okD(5) [OF K(5)]]) (simp_all add: k' L' kernel_upd_defs)
  moreover have "res_ok k' L'"
    by (rule res_ok_cong [OF K(6)]) (simp_all add: k' L' kernel_upd_defs)
  ultimately show ?thesis by (simp add: kinv_def sem_ok_def sem_queues_ok_def sched_ok_def)
qed

lemma kinv_sem_count:
  assumes inv: "kinv k L"
    and len: "s \<in> set (L semaphores_list) \<Longrightarrow> int (length (L (Semaphore_waiting s))) \<le> max 0 (- c)"
  shows "kinv (upd_sem s (\<lambda>x. x\<lparr>sem_count := c\<rparr>) k) L" (is "kinv ?k L")
proof -
  note K = kinvD [OF inv]
  note S = sched_okD [OF K(2)]
  have "lists_ok ?k L" using K(1) by (simp add: lists_ok_def upd_sem_def)
  moreover have "place_ok ?k L" using S(11) by (simp add: place_ok_def upd_sem_def)
  moreover have "init_ok ?k L" using S(12) by (simp add: init_ok_def upd_sem_def)
  moreover have "pids_ok (pcbs ?k) (last_pid ?k) (pools_live (pools ?k) pcb_pool)"
    using S(13) by (simp add: upd_sem_def)
  moreover have "tree_ok ?k L" by (rule tree_ok_cong [OF K(3)]) (simp_all add: upd_sem_def)
  moreover have "timer_ok ?k L"
    by (rule timer_ok_cong [OF K(4)]) (use timer_okD [OF K(4)] in \<open>simp_all add: upd_sem_def\<close>)
  moreover have "sem_links_ok ?k L"
    by (rule sem_links_ok_cong [OF sem_okD(1) [OF K(5)]]) (simp_all add: upd_sem_def)
  moreover have "wait_ptrs_ok ?k L"
    by (rule wait_ptrs_ok_cong [OF sem_okD(2) [OF K(5)]]) (simp_all add: upd_sem_def)
  moreover have "sem_fds_ok ?k L"
    by (rule sem_fds_ok_cong [OF sem_okD(3) [OF K(5)]]) (simp_all add: upd_sem_def)
  moreover have "waiters_ok ?k L"
    by (rule waiters_ok_cong [where k = k and L = L])
      (use sem_okD(4) [OF K(5)] in \<open>simp_all add: upd_sem_def sem_queues_ok_def\<close>)
  moreover have "owners_ok ?k L"
    by (rule owners_ok_cong [where k = k and L = L])
      (use sem_okD(4) [OF K(5)] in \<open>simp_all add: upd_sem_def sem_queues_ok_def\<close>)
  moreover have "queue_lengths_ok ?k L"
    using len sem_queue_length [OF K(5)] by (simp add: queue_lengths_ok_def upd_sem_def)
  moreover have "sem_ids_ok ?k L"
    by (rule sem_ids_ok_cong [OF sem_okD(5) [OF K(5)]]) (simp_all add: upd_sem_def)
  moreover have "res_ok ?k L" by (rule res_ok_cong [OF K(6)]) (simp_all add: upd_sem_def)
  ultimately show ?thesis by (simp add: kinv_def sem_ok_def sem_queues_ok_def sched_ok_def)
qed

lemma semPost_plain_kinv:
  assumes inv: "kinv k L" and s: "s \<in> set (L semaphores_list)"
    and plain: "0 \<le> sem_count (semaphores k s) \<or> L (Semaphore_waiting s) = []"
  shows "kinv (upd_sem s (\<lambda>x. x\<lparr>sem_count := sem_count (semaphores k s) + 1\<rparr>) k) L"
  using sem_queue_length [OF kinvD(5) [OF inv] s] plain by (intro kinv_sem_count [OF inv]) auto

lemma semWait_pass:
  assumes inv: "kinv k L" and d: "d \<in> set (L (PCB_sem_descriptors (running k)))"
    and fd: "int_of_long (syscall_arg k 0) = sd_fd (sem_descriptors k d)"
    and s: "s = sd_semaphore (sem_descriptors k d)"
    and cnt: "0 < sem_count (semaphores k s)"
  shows "internal_semWait k =
    (if in_int_range (sem_count (semaphores k s) - 1)
     then Inr (set_retvalue 0 (upd_sem s (\<lambda>x. x\<lparr>sem_count := sem_count (semaphores k s) - 1\<rparr>) k))
     else Inl Signed_overflow)"
    and "kinv (upd_sem s (\<lambda>x. x\<lparr>sem_count := sem_count (semaphores k s) - 1\<rparr>) k) L"
proof -
  note S = sched_okD [OF kinvD(2) [OF inv]]
  note N = kinv_sem_nonnull [OF inv d s]
  have "s \<in> set (L semaphores_list)" using sem_descriptorD(1) [OF kinvD(5) [OF inv] d s] .
  show "internal_semWait k =
    (if in_int_range (sem_count (semaphores k s) - 1)
     then Inr (set_retvalue 0 (upd_sem s (\<lambda>x. x\<lparr>sem_count := sem_count (semaphores k s) - 1\<rparr>) k))
     else Inl Signed_overflow)"
    using S(3) N cnt
    by (simp add: internal_semWait_def semWait_finish_def fd byFd_found [OF inv d refl]
        s [symmetric])
  show "kinv (upd_sem s (\<lambda>x. x\<lparr>sem_count := sem_count (semaphores k s) - 1\<rparr>) k) L"
    by (rule kinv_sem_count [OF inv]) (use sem_queue_length [OF kinvD(5) [OF inv]] cnt in fastforce)
qed

lemma sem_missing:
  assumes inv: "kinv k L"
    and no: "\<forall>d \<in> set (L (PCB_sem_descriptors (running k))).
      sd_fd (sem_descriptors k d) \<noteq> int_of_long (syscall_arg k 0)"
  shows "internal_semWait k = Inr (set_retvalue DSOS_ENOTMYSEM k)"
    "internal_semPost k = Inr (set_retvalue DSOS_ENOTMYSEM k)"
    "internal_semClose k = Inr (set_retvalue DSOS_ENOTMYSEM k)"
  using sched_okD(3) [OF kinvD(2) [OF inv]] byFd_missing [OF inv no]
  by (simp_all add: internal_semWait_def internal_semPost_def internal_semClose_def)

lemma semWait_deadlock:
  assumes inv: "kinv k L" and d: "d \<in> set (L (PCB_sem_descriptors (running k)))"
    and fd: "int_of_long (syscall_arg k 0) = sd_fd (sem_descriptors k d)"
    and s: "s = sd_semaphore (sem_descriptors k d)"
    and cnt: "sem_count (semaphores k s) \<le> 0" and r: "L ready_list = []"
  obtains k' where "internal_semWait k = Inr k'" "shutdown_now k' = 1" "running k' = running k"
    "semaphores k' = semaphores k"
proof -
  note S = sched_okD [OF kinvD(2) [OF inv]]
  note R = kinvD(7) [OF inv]
  note N = kinv_sem_nonnull [OF inv d s]
  define x where "x = sd_wait_ptr (sem_descriptors k d)"
  note X = running_wait_ptr_loose [OF inv d, folded x_def]
  let ?h = "Semaphore_waiting s"
  obtain lk1 hd1 where
    1: "List_insert k ?h (lh_last (heads k ?h)) x = Inr (x, k\<lparr>links := lk1, heads := hd1\<rparr>)"
      "list_rep lk1 hd1 (L(?h := L ?h @ [x]))"
      "\<forall>y. loose (links k) L y \<longrightarrow> y \<noteq> x \<longrightarrow> loose lk1 (L(?h := L ?h @ [x])) y"
    using append_exec [where k = k, OF R X(1), of ?h] by blast
  let ?k1 = "upd_pcb (running k) (\<lambda>p. p\<lparr>status := Waiting\<rparr>) (k\<lparr>links := lk1, heads := hd1\<rparr>)"
    and ?L1 = "L(?h := L ?h @ [x])"
  have t: "list_rep (links ?k1) (heads ?k1) ?L1" "loose (links ?k1) ?L1 (running k)"
    using 1(2,3) S(2) X(2) by (auto simp: upd_pcb_def)
  obtain lk2 hd2 where
    2: "List_insert ?k1 waiting_list (lh_last (heads ?k1 waiting_list)) (running k) =
        Inr (running k, ?k1\<lparr>links := lk2, heads := hd2\<rparr>)"
      "list_rep lk2 hd2 (?L1(waiting_list := ?L1 waiting_list @ [running k]))"
    using append_exec [where k = ?k1, OF t, of waiting_list] by blast
  let ?k2 = "?k1\<lparr>links := lk2, heads := hd2\<rparr>"
  have "lh_first (heads ?k2 ready_list) = NULL"
    using first_empty [where k = ?k2 and h = ready_list and
      L = "?L1(waiting_list := ?L1 waiting_list @ [running k])"] 2(2) r by simp
  then have "internal_semWait k = kernel_shutdown ?k2"
    using S(3) N cnt 1(1) 2(1)
    by (simp add: internal_semWait_def fd byFd_found [OF inv d refl] s [symmetric]
        x_def [symmetric] upd_pcb_def Let_def)
  then have "internal_semWait k = Inr (upd_pcb (running k)
      (\<lambda>p. p\<lparr>syscall_num := DSOS_CALL_SHUTDOWN, cpu_state := Saved_context\<rparr>) ?k2\<lparr>shutdown_now := 1\<rparr>)"
    using S(3) by (simp add: kernel_shutdown_def internal_shutdown_def upd_pcb_def)
  from this show thesis by (rule that) (simp_all add: upd_pcb_def)
qed

text \<open>Both calls keep the invariant, or shut the system down.\<close>

lemma semPost_steady:
  assumes inv: "kinv k L" and ok: "internal_semPost k = Inr k'"
  obtains L' where "steady k L k' L'" "running k' = running k"
proof (cases "\<exists>d \<in> set (L (PCB_sem_descriptors (running k))).
    int_of_long (syscall_arg k 0) = sd_fd (sem_descriptors k d)")
  case False
  then have "\<forall>d \<in> set (L (PCB_sem_descriptors (running k))).
      sd_fd (sem_descriptors k d) \<noteq> int_of_long (syscall_arg k 0)" by auto
  from sem_missing(2) [OF inv this] ok have "k' = set_retvalue DSOS_ENOTMYSEM k" by simp
  then show thesis using that [of L] steady_refl [OF inv] by simp
next
  case True
  then obtain d where d: "d \<in> set (L (PCB_sem_descriptors (running k)))"
    and fd: "int_of_long (syscall_arg k 0) = sd_fd (sem_descriptors k d)" by blast
  let ?s = "sd_semaphore (sem_descriptors k d)"
  have s: "?s \<in> set (L semaphores_list)" by (rule sem_descriptorD(1) [OF kinvD(5) [OF inv] d refl])
  show thesis
  proof (cases "0 \<le> sem_count (semaphores k ?s) \<or> L (Semaphore_waiting ?s) = []")
    case True
    let ?k = "upd_sem ?s (\<lambda>x. x\<lparr>sem_count := sem_count (semaphores k ?s) + 1\<rparr>) k"
    have "steady k L ?k L"
      by (rule steadyI [OF inv semPost_plain_kinv [OF inv s True]]) (auto simp: alive_def)
    with semPost_plain [OF inv d fd refl True] ok that [of L] show ?thesis by (simp split: if_splits)
  next
    case False
    then obtain x xs where w: "L (Semaphore_waiting ?s) = x # xs" by (cases "L (Semaphore_waiting ?s)") auto
    have neg: "sem_count (semaphores k ?s) < 0" using False by simp
    show ?thesis
    proof (rule semPost_wake [OF inv d fd refl neg w refl])
      fix lk hds L1 k1
      assume a: "L1 = L(Semaphore_waiting ?s := xs, waiting_list :=
              remove1 (sd_pcb (sem_descriptors k (sem_descriptor_ptrs k x))) (L waiting_list),
              ready_list := L ready_list @ [sd_pcb (sem_descriptors k (sem_descriptor_ptrs k x))])"
        "k1 = set_retvalue 0 (upd_sem ?s (\<lambda>x. x\<lparr>sem_count := sem_count (semaphores k ?s) + 1\<rparr>)
            (upd_pcb (sd_pcb (sem_descriptors k (sem_descriptor_ptrs k x)))
              (\<lambda>p. p\<lparr>status := Ready\<rparr>) (k\<lparr>links := lk, heads := hds\<rparr>)))"
        "internal_semPost k = (if in_int_range (sem_count (semaphores k ?s) + 1) then Inr k1
           else Inl Signed_overflow)"
        "list_rep lk hds L1" "\<And>y. loose (links k) L y \<Longrightarrow> loose lk L1 y" "loose lk L1 x"
        "sd_pcb (sem_descriptors k (sem_descriptor_ptrs k x)) \<in> set (L waiting_list)"
      have "kinv k1 L1"
        unfolding a(2) kinv_set_retvalue
        by (rule semPost_wake_kinv [OF inv s neg w refl a(1,4) _ a(6) refl]) (use a(5) in simp)
      then have "steady k L k1 L1"
        by (rule steadyI [OF inv])
          (use a(7) in \<open>auto simp: a(1,2) alive_def dest: in_set_remove1D\<close>)
      moreover have "k' = k1" "running k1 = running k" using a(3) ok by (simp_all add: a(2) split: if_splits)
      ultimately show thesis using that [of L1] by simp
    qed
  qed
qed

lemma semPost_preserves:
  assumes "kinv k L" and "internal_semPost k = Inr k'"
  obtains L' where "kinv k' L'"
  by (rule semPost_steady [OF assms]) (rule that, erule steadyD(1))

lemma semWait_steady:
  assumes inv: "kinv k L" and num: "syscall_num (pcbs k (running k)) = DSOS_CALL_SEMWAIT"
    and ok: "internal_semWait k = Inr k'"
  obtains (shutdown) "shutdown_now k' = 1"
  | (kept) L' where "steady k L k' L'" "alive k' L' (running k)"
proof (cases "\<exists>d \<in> set (L (PCB_sem_descriptors (running k))).
    int_of_long (syscall_arg k 0) = sd_fd (sem_descriptors k d)")
  case False
  then have "\<forall>d \<in> set (L (PCB_sem_descriptors (running k))).
      sd_fd (sem_descriptors k d) \<noteq> int_of_long (syscall_arg k 0)" by auto
  from sem_missing(1) [OF inv this] ok have "k' = set_retvalue DSOS_ENOTMYSEM k" by simp
  then show thesis using kept [of L] steady_refl [OF inv] by (simp add: alive_def)
next
  case True
  then obtain d where d: "d \<in> set (L (PCB_sem_descriptors (running k)))"
    and fd: "int_of_long (syscall_arg k 0) = sd_fd (sem_descriptors k d)" by blast
  let ?s = "sd_semaphore (sem_descriptors k d)"
  show thesis
  proof (cases "0 < sem_count (semaphores k ?s)")
    case True
    let ?k = "upd_sem ?s (\<lambda>x. x\<lparr>sem_count := sem_count (semaphores k ?s) - 1\<rparr>) k"
    have "steady k L ?k L"
      by (rule steadyI [OF inv semWait_pass(2) [OF inv d fd refl True]]) (auto simp: alive_def)
    with semWait_pass(1) [OF inv d fd refl True] ok kept [of L]
    show ?thesis by (auto simp: alive_def split: if_splits)
  next
    case False
    then have cnt: "sem_count (semaphores k ?s) \<le> 0" by simp
    show ?thesis
    proof (cases "L ready_list")
      case Nil
      obtain k1 where "internal_semWait k = Inr k1" "shutdown_now k1 = 1"
        using semWait_deadlock [OF inv d fd refl cnt Nil] by blast
      with ok shutdown show ?thesis by simp
    next
      case (Cons r rs)
      show ?thesis
      proof (rule semWait_block [OF inv d fd refl refl cnt Cons])
        fix lk hds L1 k1
        assume a: "L1 = L(Semaphore_waiting ?s := L (Semaphore_waiting ?s) @ [sd_wait_ptr (sem_descriptors k d)],
            waiting_list := L waiting_list @ [running k], ready_list := rs)"
        "k1 = set_retvalue 0 (upd_sem ?s (\<lambda>x. x\<lparr>sem_count := sem_count (semaphores k ?s) - 1\<rparr>)
            ((upd_pcb (running k) (\<lambda>p. p\<lparr>status := Waiting\<rparr>) k)
              \<lparr>links := lk, heads := hds, running := r\<rparr>))"
        "internal_semWait k = (if in_int_range (sem_count (semaphores k ?s) - 1) then Inr k1
           else Inl Signed_overflow)"
        "list_rep lk hds L1"
        "\<And>y. loose (links k) L y \<Longrightarrow> y \<noteq> running k \<Longrightarrow> y \<noteq> sd_wait_ptr (sem_descriptors k d) \<Longrightarrow>
           loose lk L1 y" "loose lk L1 r"
        have "kinv k1 L1"
          unfolding a(2) kinv_set_retvalue
          by (rule semWait_block_kinv [OF inv d num refl refl cnt Cons a(1,4-6) refl])
        then have "steady k L k1 L1"
          by (rule steadyI [OF inv]) (auto simp: a(1,2) alive_def Cons)
        moreover have "k' = k1" "alive k1 L1 (running k)"
          using a(3) ok by (auto simp: a(1) alive_def split: if_splits)
        ultimately show thesis using kept [of L1] by simp
      qed
    qed
  qed
qed

lemma semWait_preserves:
  assumes "kinv k L" and "syscall_num (pcbs k (running k)) = DSOS_CALL_SEMWAIT"
    and "internal_semWait k = Inr k'"
  obtains (shutdown) "shutdown_now k' = 1" | (kept) L' where "kinv k' L'"
  by (rule semWait_steady [OF assms]) (rule shutdown, assumption, rule kept, erule steadyD(1))

end
