(* ===== verification/Sem_Open.thy ===== *)
theory Sem_Open
  imports Sem_Correct
begin

text \<open>
  \<open>internal_semOpen\<close> on a kernel that satisfies the invariant: its allocations, the cases of
  its searches, its results and the preservation of the invariant.
\<close>

text \<open>
  The two allocations of \<open>semOpen_descriptor\<close>: the new block is free, nothing refers to it,
  and the invariant holds.
\<close>

lemma SemDescriptor_alloc_exec:
  assumes inv: "kinv k L"
  obtains (full) "SemDescriptor_alloc k f s p = Inr (NULL, k)" "pools_room (pools k) sem_descriptor_pool = 0"
  | (new) d ps lk sds where
      "SemDescriptor_alloc k f s p = Inr (d, k\<lparr>pools := ps, links := lk, sem_descriptors := sds\<rparr>)"
      "d \<noteq> NULL" "kinv (k\<lparr>pools := ps, links := lk, sem_descriptors := sds\<rparr>) L" "loose lk L d"
      "d \<in> pools_live ps sem_descriptor_pool" "sd_fd (sds d) = f" "sd_semaphore (sds d) = s"
      "sd_pcb (sds d) = p" "\<And>e. e \<noteq> d \<Longrightarrow> sds e = sem_descriptors k e"
      "\<And>i. d \<notin> pools_live (pools k) i" 
      "pools_live ps = (pools_live (pools k))
         (sem_descriptor_pool := insert d (pools_live (pools k) sem_descriptor_pool))"
      "\<And>y. loose (links k) L y \<Longrightarrow> loose lk L y"
      "pools_room ps = (pools_room (pools k))
         (sem_descriptor_pool := pools_room (pools k) sem_descriptor_pool - 1)"
proof (rule alloc_exec [OF kinvD(1) [OF inv], of sem_descriptor_pool])
  assume "pool_get k sem_descriptor_pool = Inr (NULL, k)" "pools_room (pools k) sem_descriptor_pool = 0"
  then show thesis by (intro full) (simp_all add: SemDescriptor_alloc_def)
next
  fix d ps lk
  assume a: "pool_get k sem_descriptor_pool = Inr (d, k\<lparr>pools := ps\<rparr>)" "d \<noteq> NULL"
    "\<And>j. d \<notin> pools_live (pools k) j" "pools_ok ps"
    "pools_live ps = (pools_live (pools k))
       (sem_descriptor_pool := insert d (pools_live (pools k) sem_descriptor_pool))"
    "pools_room ps = (pools_room (pools k))
       (sem_descriptor_pool := pools_room (pools k) sem_descriptor_pool - 1)"
    "lk = (links k)(d := \<lparr>li_prev = NULL, li_next = NULL\<rparr>)"
    "list_rep lk (heads k) L" "loose lk L d" "\<And>y. loose (links k) L y \<Longrightarrow> loose lk L y"
  let ?sds = "(sem_descriptors k)
    (d := (sem_descriptors k d)\<lparr>sd_fd := f, sd_semaphore := s, sd_pcb := p\<rparr>)"
  show thesis
  proof (rule new)
    show "SemDescriptor_alloc k f s p =
        Inr (d, k\<lparr>pools := ps, links := lk, sem_descriptors := ?sds\<rparr>)"
      using a(1,2) by (simp add: SemDescriptor_alloc_def null_links_def upd_semdesc_def a(7))
    show "kinv (k\<lparr>pools := ps, links := lk, sem_descriptors := ?sds\<rparr>) L"
      by (rule kinv_extend [OF inv])
        (use a(3,4,8,10) res_okD(6) [OF kinvD(6) [OF inv]] in \<open>auto simp: a(5,6)\<close>)
  qed (use a(2,3,5,6,9,10) in auto)
qed

lemma SemDescriptorPtr_alloc_exec:
  assumes inv: "kinv k L"
  obtains (full) "SemDescriptorPtr_alloc k d = Inr (NULL, k)"
      "pools_room (pools k) sem_descriptor_ptr_pool = 0"
  | (new) x ps lk where
      "SemDescriptorPtr_alloc k d = Inr (x, k\<lparr>pools := ps, links := lk,
         sem_descriptor_ptrs := (sem_descriptor_ptrs k)(x := d)\<rparr>)"
      "x \<noteq> NULL" "kinv (k\<lparr>pools := ps, links := lk,
         sem_descriptor_ptrs := (sem_descriptor_ptrs k)(x := d)\<rparr>) L" "loose lk L x"
      "x \<in> pools_live ps sem_descriptor_ptr_pool" 
      "pools_live ps = (pools_live (pools k))
         (sem_descriptor_ptr_pool := insert x (pools_live (pools k) sem_descriptor_ptr_pool))"
      "\<And>y. loose (links k) L y \<Longrightarrow> loose lk L y" "\<And>i. x \<notin> pools_live (pools k) i"
      "pools_room ps = (pools_room (pools k))
         (sem_descriptor_ptr_pool := pools_room (pools k) sem_descriptor_ptr_pool - 1)"
proof (rule alloc_exec [OF kinvD(1) [OF inv], of sem_descriptor_ptr_pool])
  assume "pool_get k sem_descriptor_ptr_pool = Inr (NULL, k)"
    "pools_room (pools k) sem_descriptor_ptr_pool = 0"
  then show thesis by (intro full) (simp_all add: SemDescriptorPtr_alloc_def)
next
  fix x ps lk
  assume a: "pool_get k sem_descriptor_ptr_pool = Inr (x, k\<lparr>pools := ps\<rparr>)" "x \<noteq> NULL"
    "\<And>j. x \<notin> pools_live (pools k) j" "pools_ok ps"
    "pools_live ps = (pools_live (pools k))
       (sem_descriptor_ptr_pool := insert x (pools_live (pools k) sem_descriptor_ptr_pool))"
    "pools_room ps = (pools_room (pools k))
       (sem_descriptor_ptr_pool := pools_room (pools k) sem_descriptor_ptr_pool - 1)"
    "lk = (links k)(x := \<lparr>li_prev = NULL, li_next = NULL\<rparr>)"
    "list_rep lk (heads k) L" "loose lk L x" "\<And>y. loose (links k) L y \<Longrightarrow> loose lk L y"
  show thesis
  proof (rule new)
    show "SemDescriptorPtr_alloc k d = Inr (x, k\<lparr>pools := ps, links := lk,
         sem_descriptor_ptrs := (sem_descriptor_ptrs k)(x := d)\<rparr>)"
      using a(1,2) by (simp add: SemDescriptorPtr_alloc_def null_links_def a(7))
    show "kinv (k\<lparr>pools := ps, links := lk,
         sem_descriptor_ptrs := (sem_descriptor_ptrs k)(x := d)\<rparr>) L"
      by (rule kinv_extend [OF inv])
        (use a(3,4,8,10) res_okD(6) [OF kinvD(6) [OF inv]] in \<open>auto simp: a(5,6)\<close>)
  qed (use a(2,3,5,6,9,10) in auto)
qed

text \<open>Linking a finished descriptor into the lists of its process and of its semaphore.\<close>

lemma semOpen_link_kinv:
  assumes inv: "kinv k L" and s: "s \<in> set (L semaphores_list)"
    and d: "loose (links k) L d" "d \<in> pools_live (pools k) sem_descriptor_pool"
    and x: "loose (links k) L x" "x \<in> pools_live (pools k) sem_descriptor_ptr_pool"
    and y: "loose (links k) L y" "y \<in> pools_live (pools k) sem_descriptor_ptr_pool" "y \<noteq> x"
    and sd: "sd_pcb (sem_descriptors k d) = p" "sd_semaphore (sem_descriptors k d) = s"
      "sd_ptr (sem_descriptors k d) = x" "sd_wait_ptr (sem_descriptors k d) = y"
      "0 \<le> sd_fd (sem_descriptors k d)" "sd_fd (sem_descriptors k d) < last_sem_fd (pcbs k p)"
    and ptrs: "sem_descriptor_ptrs k x = d" "sem_descriptor_ptrs k y = d"
    and new: "\<And>e. e \<in> set (L (PCB_sem_descriptors p)) \<Longrightarrow>
      sd_fd (sem_descriptors k e) \<noteq> sd_fd (sem_descriptors k d) \<and>
      sd_semaphore (sem_descriptors k e) \<noteq> s"
    and L': "L' = L(PCB_sem_descriptors p := L (PCB_sem_descriptors p) @ [d],
      Semaphore_descriptors s := L (Semaphore_descriptors s) @ [x])"
    and rep: "list_rep lk hds L'"
    and loose: "\<And>a. loose (links k) L a \<Longrightarrow> a \<noteq> d \<Longrightarrow> a \<noteq> x \<Longrightarrow> loose lk L' a"
    and run: "loose lk L' (running k)"
    and k': "k' = k\<lparr>links := lk, heads := hds\<rparr>"
  shows "kinv k' L'"
proof -
  note K = kinvD [OF inv]
  note S = sched_okD [OF K(2)]
  have out: "d \<notin> set (L h)" "x \<notin> set (L h)" "y \<notin> set (L h)" for h
    using d x y by (simp_all add: loose_def)
  have dx: "d \<noteq> x" "d \<noteq> y"
    using pools_live_disjoint [OF K(8) d(2), of sem_descriptor_ptr_pool] x(2) y(2) by auto
  have "typed_lists (pools_live (pools k)) L'"
    unfolding L' by (rule typed_lists_add [where x = x], rule typed_lists_add [where x = d], rule K(9))
      (use d x in auto)
  then have "lists_ok k' L'" using K(8) rep unfolding lists_ok_def k' by simp
  moreover have "place_ok k' L'"
    using S(11) run by (simp add: place_ok_def k' L')
  moreover have "init_ok k' L'"
    by (rule init_ok_cong [OF S(12)]) (use S(12) in \<open>auto simp: k' L' init_ok_def\<close>)
  moreover have "pids_ok (pcbs k') (last_pid k') (pools_live (pools k') pcb_pool)"
    using S(13) by (simp add: k')
  moreover have "tree_ok k' L'" by (rule tree_ok_cong [OF K(3)]) (simp_all add: k' L')
  moreover have "timer_ok k' L'"
    by (rule timer_ok_cong [OF K(4)]) (use timer_okD [OF K(4)] in \<open>simp_all add: k' L'\<close>)
  moreover have "sem_links_ok k' L'"
    unfolding sem_links_ok_def Let_def
  proof (intro conjI allI impI)
    fix q e
    assume "e \<in> set (L' (PCB_sem_descriptors q))"
    then consider "e \<in> set (L (PCB_sem_descriptors q))" | "e = d" "q = p"
      by (auto simp: L' split: if_splits)
    then have *: "sd_semaphore (sem_descriptors k e) \<in> set (L semaphores_list) \<and>
        sd_pcb (sem_descriptors k e) = q \<and>
        sd_ptr (sem_descriptors k e) \<in> set (L' (Semaphore_descriptors (sd_semaphore (sem_descriptors k e)))) \<and>
        sem_descriptor_ptrs k (sd_ptr (sem_descriptors k e)) = e \<and>
        sd_wait_ptr (sem_descriptors k e) \<in> pools_live (pools k) sem_descriptor_ptr_pool \<and>
        sem_descriptor_ptrs k (sd_wait_ptr (sem_descriptors k e)) = e"
    proof cases
      case 1
      show ?thesis using sem_descriptorD(1-6) [OF K(5) 1 refl] by (auto simp: L')
    next
      case 2
      show ?thesis using 2 s sd ptrs y(2) by (simp add: L')
    qed
    show "sd_semaphore (sem_descriptors k' e) \<in> set (L' semaphores_list)"
      "sd_pcb (sem_descriptors k' e) = q"
      "sd_ptr (sem_descriptors k' e) \<in> set (L' (Semaphore_descriptors (sd_semaphore (sem_descriptors k' e))))"
      "sem_descriptor_ptrs k' (sd_ptr (sem_descriptors k' e)) = e"
      "sd_wait_ptr (sem_descriptors k' e) \<in> pools_live (pools k') sem_descriptor_ptr_pool"
      "sem_descriptor_ptrs k' (sd_wait_ptr (sem_descriptors k' e)) = e"
      using * by (simp_all add: k') (simp add: L')
  next
    fix u z
    assume "z \<in> set (L' (Semaphore_descriptors u))"
    then consider "z \<in> set (L (Semaphore_descriptors u))" | "z = x" "u = s"
      by (auto simp: L' split: if_splits)
    then have "sd_ptr (sem_descriptors k (sem_descriptor_ptrs k z)) = z \<and>
      sd_semaphore (sem_descriptors k (sem_descriptor_ptrs k z)) = u \<and>
      sem_descriptor_ptrs k z \<in> pools_live (pools k) sem_descriptor_pool \<and>
      u \<in> set (L semaphores_list)"
      by cases (use sem_ptrD [OF K(5)] sd ptrs d(2) s in auto)
    then show "sd_ptr (sem_descriptors k' (sem_descriptor_ptrs k' z)) = z"
      "sd_semaphore (sem_descriptors k' (sem_descriptor_ptrs k' z)) = u"
      "sem_descriptor_ptrs k' z \<in> pools_live (pools k') sem_descriptor_pool"
      "u \<in> set (L' semaphores_list)"
      by (simp_all add: k') (simp add: L')
  qed
  moreover have "wait_ptrs_ok k' L'"
    unfolding wait_ptrs_ok_def
  proof (intro allI impI)
    fix q e
    assume "e \<in> set (L' (PCB_sem_descriptors q))"
    then consider "e \<in> set (L (PCB_sem_descriptors q))" | "e = d" "q = p"
      by (auto simp: L' split: if_splits)
    then have "loose lk L' (sd_wait_ptr (sem_descriptors k e)) \<or> sd_wait_ptr (sem_descriptors k e)
        \<in> set (L' (Semaphore_waiting (sd_semaphore (sem_descriptors k e))))"
    proof cases
      case 1
      note E = sem_descriptorD [OF K(5) 1 refl]
      have "e \<noteq> d" using 1 out by auto
      then have "sd_wait_ptr (sem_descriptors k e) \<noteq> x" using E(6) ptrs(1) by auto
      moreover have "sd_wait_ptr (sem_descriptors k e) \<noteq> d"
        using pools_live_disjoint [OF K(8) d(2), of sem_descriptor_ptr_pool] E(5) by auto
      ultimately show ?thesis using E(7) loose by (auto simp: L')
    next
      case 2
      show ?thesis using 2 sd(4) loose [OF y(1)] dx y(3) by auto
    qed
    then show "loose (links k') L' (sd_wait_ptr (sem_descriptors k' e)) \<or>
        sd_wait_ptr (sem_descriptors k' e)
          \<in> set (L' (Semaphore_waiting (sd_semaphore (sem_descriptors k' e))))"
      by (simp add: k')
  qed
  moreover have "sem_fds_ok k' L'"
    unfolding sem_fds_ok_def
  proof (intro conjI allI impI, goal_cases)
    case (1 q e f)
    have *: "e \<in> set (L (PCB_sem_descriptors q)) \<or> e = d \<and> q = p"
      "f \<in> set (L (PCB_sem_descriptors q)) \<or> f = d \<and> q = p"
      using 1(1,2) by (auto simp: L' split: if_splits)
    from 1(3) have "sd_semaphore (sem_descriptors k e) = sd_semaphore (sem_descriptors k f) \<or>
      sd_fd (sem_descriptors k e) = sd_fd (sem_descriptors k f)" by (simp add: k')
    with * new sd(2) sem_fdD(1,2) [OF K(5), of e q f] show ?case by metis
  next
    case (2 q e)
    then show ?case using sem_fdD(3) [OF K(5), of e q e] sd(5) by (auto simp: L' k' split: if_splits)
  next
    case (3 q e)
    then show ?case using sem_fdD(4) [OF K(5), of e q e] sd(6) by (auto simp: L' k' split: if_splits)
  next
    case (4 q)
    then show ?case using sem_okD(3) [OF K(5)] by (simp add: sem_fds_ok_def k')
  qed
  moreover have "waiters_ok k' L'"
    unfolding waiters_ok_def Let_def
  proof (intro allI impI, goal_cases)
    case (1 u z)
    then have "z \<in> set (L (Semaphore_waiting u))" by (simp add: L')
    from sem_waitingD(1-5) [OF K(5) this refl refl] show ?case by (auto simp: k' L')
  qed
  moreover have "owners_ok k' L'"
    by (rule owners_ok_cong) (use sem_okD(4) [OF K(5)] in \<open>auto simp: k' L' sem_queues_ok_def\<close>)
  moreover have "queue_lengths_ok k' L'"
    by (rule queue_lengths_ok_cong)
      (use sem_okD(4) [OF K(5)] in \<open>auto simp: k' L' sem_queues_ok_def\<close>)
  moreover have "sem_ids_ok k' L'"
    by (rule sem_ids_ok_cong [OF sem_okD(5) [OF K(5)]]) (simp_all add: k' L')
  moreover have "res_ok k' L'"
    by (rule res_ok_cong [OF K(6)]) (simp_all add: k' L')
  ultimately show ?thesis by (simp add: kinv_def sem_ok_def sem_queues_ok_def sched_ok_def)
qed

lemma kinv_last_sem_fd:
  "kinv k L \<Longrightarrow> last_sem_fd (pcbs k p) \<le> n \<Longrightarrow> kinv (upd_pcb p (\<lambda>x. x\<lparr>last_sem_fd := n\<rparr>) k) L"
  by (rule kinv_extend) (use kinvD(7,8) res_okD(6) [OF kinvD(6)] in auto)

lemma semOpen_descriptor_exec:
  assumes inv: "kinv k L" and s: "s \<in> set (L semaphores_list)"
    and new: "\<And>e. e \<in> set (L (PCB_sem_descriptors (running k))) \<Longrightarrow>
      sd_semaphore (sem_descriptors k e) \<noteq> s"
    and f: "f = last_sem_fd (pcbs k (running k))"
  obtains (failed) c k' where "semOpen_descriptor k s = Inr (set_retvalue c k')" "kinv k' L"
      "c \<in> {DSOS_ECREATEFD, DSOS_ECREATEPTR}" "running k' = running k"
      "pools_room (pools k) sem_descriptor_pool = 0 \<or> pools_room (pools k) sem_descriptor_ptr_pool < 2"
  | (overflow) "semOpen_descriptor k s = Inl Signed_overflow" "\<not> in_int_range (f + 1)"
  | (opened) d x k' where "semOpen_descriptor k s = Inr (set_retvalue f k')"
      "kinv k' (L(PCB_sem_descriptors (running k) := L (PCB_sem_descriptors (running k)) @ [d],
         Semaphore_descriptors s := L (Semaphore_descriptors s) @ [x]))"
      "sd_fd (sem_descriptors k' d) = f" "sd_semaphore (sem_descriptors k' d) = s"
      "running k' = running k" "semaphores k' = semaphores k"
      "last_sem_fd (pcbs k' (running k)) = f + 1" "in_int_range (f + 1)"
proof (rule SemDescriptor_alloc_exec [OF inv, of f s "running k"])
  assume room: "pools_room (pools k) sem_descriptor_pool = 0"
    and "SemDescriptor_alloc k f s (running k) = Inr (NULL, k)"
  then have "semOpen_descriptor k s = Inr (set_retvalue DSOS_ECREATEFD k)"
    by (simp add: semOpen_descriptor_def f)
  then show thesis using failed inv room by blast
next
  fix d ps lk sds
  let ?me = "running k"
  let ?k1 = "k\<lparr>pools := ps, links := lk, sem_descriptors := sds\<rparr>"
  assume 1: "SemDescriptor_alloc k f s ?me = Inr (d, ?k1)" "d \<noteq> NULL" "kinv ?k1 L"
    "loose lk L d" "d \<in> pools_live ps sem_descriptor_pool" "sd_fd (sds d) = f"
    "sd_semaphore (sds d) = s" "sd_pcb (sds d) = ?me"
    "\<And>e. e \<noteq> d \<Longrightarrow> sds e = sem_descriptors k e"
    "\<And>i. d \<notin> pools_live (pools k) i"
    "pools_live ps = (pools_live (pools k))
         (sem_descriptor_pool := insert d (pools_live (pools k) sem_descriptor_pool))"
    "\<And>y. loose (links k) L y \<Longrightarrow> loose lk L y"
    "pools_room ps = (pools_room (pools k))
       (sem_descriptor_pool := pools_room (pools k) sem_descriptor_pool - 1)"
  show thesis
  proof (cases "in_int_range (f + 1)")
    case False
    then have "semOpen_descriptor k s = Inl Signed_overflow"
      using 1(1,2) by (simp add: semOpen_descriptor_def f)
    with False show thesis by (intro overflow)
  next
    case range: True
    let ?k2 = "upd_pcb ?me (\<lambda>p. p\<lparr>last_sem_fd := f + 1\<rparr>) ?k1"
    have inv2: "kinv ?k2 L" by (rule kinv_last_sem_fd [OF 1(3)]) (simp add: f)
    show thesis
    proof (rule SemDescriptorPtr_alloc_exec [OF inv2, of d])
      assume "pools_room (pools ?k2) sem_descriptor_ptr_pool = 0"
      then have room: "pools_room (pools k) sem_descriptor_ptr_pool < 2" by (simp add: 1(13))
      assume "SemDescriptorPtr_alloc ?k2 d = Inr (NULL, ?k2)"
      then have "semOpen_descriptor k s = Inr (set_retvalue DSOS_ECREATEPTR ?k2)"
        using 1(1,2) range by (simp add: semOpen_descriptor_def f Let_def)
      moreover have "running ?k2 = running k" by simp
      ultimately show thesis using failed inv2 room by blast
    next
      fix x ps3 lk3
      let ?k3 = "?k2\<lparr>pools := ps3, links := lk3,
        sem_descriptor_ptrs := (sem_descriptor_ptrs ?k2)(x := d)\<rparr>"
      assume 3: "SemDescriptorPtr_alloc ?k2 d = Inr (x, ?k3)" "x \<noteq> NULL" "kinv ?k3 L"
        "loose lk3 L x" "x \<in> pools_live ps3 sem_descriptor_ptr_pool"
        "pools_live ps3 = (pools_live (pools ?k2))
         (sem_descriptor_ptr_pool := insert x (pools_live (pools ?k2) sem_descriptor_ptr_pool))"
        "\<And>y. loose (links ?k2) L y \<Longrightarrow> loose lk3 L y" "\<And>i. x \<notin> pools_live (pools ?k2) i"
        "pools_room ps3 = (pools_room (pools ?k2))
           (sem_descriptor_ptr_pool := pools_room (pools ?k2) sem_descriptor_ptr_pool - 1)"
      let ?k4 = "upd_semdesc d (\<lambda>e. e\<lparr>sd_ptr := x\<rparr>) ?k3"
      have xk: "x \<notin> pools_live (pools k) i" for i using 3(8) [of i] by (auto simp: 1(11) split: if_splits)
      note K3 = kinvD [OF 3(3)]
      have inv4: "kinv ?k4 L"
        by (rule kinv_extend [OF inv])
          (use K3(7,8) res_okD(6) [OF K3(6)] 1(9,10,12) 3(7) xk f in \<open>auto simp: 1(11) 3(6)\<close>)
      show thesis
      proof (rule SemDescriptorPtr_alloc_exec [OF inv4, of d])
        assume "pools_room (pools ?k4) sem_descriptor_ptr_pool = 0"
        then have room: "pools_room (pools k) sem_descriptor_ptr_pool < 2" by (simp add: 1(13) 3(9))
        assume "SemDescriptorPtr_alloc ?k4 d = Inr (NULL, ?k4)"
        then have "semOpen_descriptor k s = Inr (set_retvalue DSOS_ECREATEPTR ?k4)"
          using 1(1,2) 3(1,2) range by (simp add: semOpen_descriptor_def f Let_def)
        moreover have "running ?k4 = running k" by simp
        ultimately show thesis using failed inv4 room by blast
      next
        fix y ps5 lk5
        let ?k5 = "?k4\<lparr>pools := ps5, links := lk5,
          sem_descriptor_ptrs := (sem_descriptor_ptrs ?k4)(y := d)\<rparr>"
        assume 5: "SemDescriptorPtr_alloc ?k4 d = Inr (y, ?k5)" "y \<noteq> NULL" "kinv ?k5 L"
          "loose lk5 L y" "y \<in> pools_live ps5 sem_descriptor_ptr_pool"
          "pools_live ps5 = (pools_live (pools ?k4))
             (sem_descriptor_ptr_pool := insert y (pools_live (pools ?k4) sem_descriptor_ptr_pool))"
          "\<And>z. loose (links ?k4) L z \<Longrightarrow> loose lk5 L z" "\<And>i. y \<notin> pools_live (pools ?k4) i"
        let ?k6 = "upd_semdesc d (\<lambda>e. e\<lparr>sd_wait_ptr := y\<rparr>) ?k5"
        have yk: "y \<notin> pools_live ps3 i" "y \<notin> pools_live (pools k) i" for i
          using 5(8) [of i] by (auto simp: 1(11) 3(6) split: if_splits)
        note K5 = kinvD [OF 5(3)]
        have inv6: "kinv ?k6 L"
          by (rule kinv_extend [OF inv])
            (use K5(7,8) res_okD(6) [OF K5(6)] 1(9,10,12) 3(7) 5(7) xk yk f in
              \<open>auto simp: 1(11) 3(6) 5(6)\<close>)
        let ?h = "PCB_sem_descriptors ?me" and ?g = "Semaphore_descriptors s"
        have loose5: "loose lk5 L d" "loose lk5 L x" using 1(4) 3(4,7) 5(7) by simp_all
        obtain lk7 hd7 where
          7: "List_insert ?k6 ?h (lh_last (heads ?k6 ?h)) d = Inr (d, ?k6\<lparr>links := lk7, heads := hd7\<rparr>)"
            "list_rep lk7 hd7 (L(?h := L ?h @ [d]))"
            "\<forall>a. loose (links ?k6) L a \<longrightarrow> a \<noteq> d \<longrightarrow> loose lk7 (L(?h := L ?h @ [d])) a"
          using append_exec [where k = ?k6 and x = d and h = ?h, OF kinvD(7) [OF inv6]] loose5(1)
          by auto
        let ?k7 = "?k6\<lparr>links := lk7, heads := hd7\<rparr>" and ?L7 = "L(?h := L ?h @ [d])"
        have dx: "d \<noteq> x" "x \<noteq> y" "d \<noteq> y"
          using 3(8) [of sem_descriptor_pool] 5(8) [of sem_descriptor_ptr_pool]
            5(8) [of sem_descriptor_pool] by (auto simp: 1(11) 3(6))
        have t: "list_rep (links ?k7) (heads ?k7) ?L7" "loose (links ?k7) ?L7 x"
          using 7(2,3) loose5(2) dx by simp_all
        obtain lk8 hd8 where
          8: "List_insert ?k7 ?g (lh_last (heads ?k7 ?g)) x = Inr (x, ?k7\<lparr>links := lk8, heads := hd8\<rparr>)"
            "list_rep lk8 hd8 (?L7(?g := ?L7 ?g @ [x]))"
            "\<forall>a. loose (links ?k7) ?L7 a \<longrightarrow> a \<noteq> x \<longrightarrow> loose lk8 (?L7(?g := ?L7 ?g @ [x])) a"
          using append_exec [where k = ?k7, OF t, of ?g] by blast
        let ?k8 = "?k6\<lparr>links := lk8, heads := hd8\<rparr>"
        let ?L8 = "L(?h := L ?h @ [d], ?g := L ?g @ [x])"
        have run: "semOpen_descriptor k s = Inr (set_retvalue f ?k8)"
          using 1(1,2,6) 3(1,2) 5(1,2) 7(1) 8(1) range
          by (simp add: semOpen_descriptor_def f Let_def)
        have loose8: "loose lk8 ?L8 a" if "loose (links ?k6) L a" "a \<noteq> d" "a \<noteq> x" for a
          using that 7(3) 8(3) by simp
        have "d \<notin> set (L h)" for h using loose5(1) by (simp add: loose_def)
        then have old: "sem_descriptors ?k6 e = sem_descriptors k e" if "e \<in> set (L h)" for e h
          using that 1(9) by auto
        have "0 \<le> f" using sem_okD(3) [OF kinvD(5) [OF inv]] by (simp add: sem_fds_ok_def f)
        have "kinv ?k8 ?L8"
        proof (rule semOpen_link_kinv [OF inv6 s, of d x y ?me ?L8 lk8 hd8])
          show "loose lk8 ?L8 a" if "loose (links ?k6) L a" "a \<noteq> d" "a \<noteq> x" for a
            using that by (rule loose8)
          show "sd_fd (sem_descriptors ?k6 e) \<noteq> sd_fd (sem_descriptors ?k6 d) \<and>
              sd_semaphore (sem_descriptors ?k6 e) \<noteq> s"
            if "e \<in> set (L (PCB_sem_descriptors ?me))" for e
            using sem_fdD(4) [OF kinvD(5) [OF inv] that that] new [OF that] old [OF that] 1(6)
            by (simp add: f)
          have "?me \<noteq> d" "?me \<noteq> x"
            using sched_okD(1) [OF kinvD(2) [OF inv]] 1(10) xk by auto
          then show "loose lk8 ?L8 (running ?k6)"
            using loose8 sched_okD(2) [OF kinvD(2) [OF inv6]] by simp
        qed (use 1(5-8) 3(5) 5(4,5) loose5 dx 8(2) \<open>0 \<le> f\<close> f in \<open>simp_all add: 1(11) 3(6) 5(6)\<close>)
        with run show thesis
          by (rule opened) (use 1(6,7) f range in simp_all)
      qed
    qed
  qed
qed

lemma Semaphore_alloc_exec:
  assumes inv: "kinv k L"
  obtains (full) "Semaphore_alloc k i c = Inr (NULL, k)" "pools_room (pools k) semaphore_pool = 0"
  | (new) s ps lk hds where
      "Semaphore_alloc k i c = Inr (s, k\<lparr>heads := hds, pools := ps, links := lk,
         semaphores := (semaphores k)(s := \<lparr>sem_id = i, sem_count = c\<rparr>)\<rparr>)"
      "s \<noteq> NULL" "kinv (k\<lparr>heads := hds, pools := ps, links := lk,
         semaphores := (semaphores k)(s := \<lparr>sem_id = i, sem_count = c\<rparr>)\<rparr>) L" "loose lk L s"
      "s \<in> pools_live ps semaphore_pool"
      "\<And>j. j \<noteq> semaphore_pool \<Longrightarrow> pools_room ps j = pools_room (pools k) j"
proof (rule alloc_exec [OF kinvD(1) [OF inv], of semaphore_pool])
  assume "pool_get k semaphore_pool = Inr (NULL, k)" "pools_room (pools k) semaphore_pool = 0"
  then show thesis by (intro full) (simp_all add: Semaphore_alloc_def)
next
  fix s ps lk
  assume a: "pool_get k semaphore_pool = Inr (s, k\<lparr>pools := ps\<rparr>)" "s \<noteq> NULL"
    "\<And>j. s \<notin> pools_live (pools k) j" "pools_ok ps"
    "pools_live ps = (pools_live (pools k))
       (semaphore_pool := insert s (pools_live (pools k) semaphore_pool))"
    "pools_room ps = (pools_room (pools k))
       (semaphore_pool := pools_room (pools k) semaphore_pool - 1)"
    "lk = (links k)(s := \<lparr>li_prev = NULL, li_next = NULL\<rparr>)"
    "list_rep lk (heads k) L" "loose lk L s" "\<And>y. loose (links k) L y \<Longrightarrow> loose lk L y"
    "\<And>h. s \<notin> set (L h)"
  let ?hds = "(heads k)(Semaphore_descriptors s := \<lparr>lh_first = NULL, lh_last = NULL, lh_size = 0\<rparr>)"
  have "L (Semaphore_descriptors s) = []"
  proof (cases "L (Semaphore_descriptors s)")
    case (Cons x xs)
    then have "s \<in> set (L semaphores_list)"
      using sem_ptrD(4) [OF kinvD(5) [OF inv], of x s] by simp
    with a(11) show ?thesis by simp
  qed
  note R = head_init_same [OF a(8) this]
  show thesis
  proof (rule new)
    show "Semaphore_alloc k i c = Inr (s, k\<lparr>heads := ?hds, pools := ps, links := lk,
         semaphores := (semaphores k)(s := \<lparr>sem_id = i, sem_count = c\<rparr>)\<rparr>)"
      using a(1,2) by (simp add: Semaphore_alloc_def null_links_def List_init_def a(7))
    show "kinv (k\<lparr>heads := ?hds, pools := ps, links := lk,
         semaphores := (semaphores k)(s := \<lparr>sem_id = i, sem_count = c\<rparr>)\<rparr>) L"
      by (rule kinv_extend [OF inv])
        (use R a(3,4,10) res_okD(6) [OF kinvD(6) [OF inv]] in \<open>auto simp: a(5,6)\<close>)
  qed (use a(2,5,6,9) in simp_all)
qed

text \<open>A new semaphore enters the list of the system.\<close>

lemma semaphore_list_kinv:
  assumes inv: "kinv k L" and s: "loose (links k) L s" "s \<in> pools_live (pools k) semaphore_pool"
    and new: "\<And>u. u \<in> set (L semaphores_list) \<Longrightarrow>
      sem_id (semaphores k u) \<noteq> sem_id (semaphores k s)"
    and L': "L' = L(semaphores_list := L semaphores_list @ [s])"
    and rep: "list_rep lk hds L'"
    and loose: "\<And>a. loose (links k) L a \<Longrightarrow> a \<noteq> s \<Longrightarrow> loose lk L' a"
    and k': "k' = k\<lparr>links := lk, heads := hds\<rparr>"
  shows "kinv k' L'"
proof -
  note K = kinvD [OF inv]
  note S = sched_okD [OF K(2)]
  have out: "s \<notin> set (L h)" for h using s by (simp add: loose_def)
  have "running k \<noteq> s"
    using pools_live_disjoint [OF K(8) s(2), of pcb_pool] S(1) by auto
  then have run: "loose lk L' (running k)" using loose S(2) by simp
  have "typed_lists (pools_live (pools k)) L'"
    unfolding L' by (rule typed_lists_add [where x = s], rule K(9)) (use s in auto)
  then have "lists_ok k' L'" using K(8) rep unfolding lists_ok_def k' by simp
  moreover have "place_ok k' L'" using S(11) run by (simp add: place_ok_def k' L')
  moreover have "init_ok k' L'"
    by (rule init_ok_cong [OF S(12)]) (use S(12) in \<open>auto simp: k' L' init_ok_def\<close>)
  moreover have "pids_ok (pcbs k') (last_pid k') (pools_live (pools k') pcb_pool)"
    using S(13) by (simp add: k')
  moreover have "tree_ok k' L'" by (rule tree_ok_cong [OF K(3)]) (simp_all add: k' L')
  moreover have "timer_ok k' L'"
    by (rule timer_ok_cong [OF K(4)]) (use timer_okD [OF K(4)] in \<open>simp_all add: k' L'\<close>)
  moreover have "sem_links_ok k' L'"
    using sem_okD(1) [OF K(5)] by (simp add: sem_links_ok_def Let_def k' L')
  moreover have "wait_ptrs_ok k' L'"
  proof (rule wait_ptrs_ok_cong [OF sem_okD(2) [OF K(5)]])
    fix p d
    assume d: "d \<in> set (L (PCB_sem_descriptors p))"
      and l: "loose (links k) L (sd_wait_ptr (sem_descriptors k d))"
    have "sd_wait_ptr (sem_descriptors k d) \<noteq> s"
      using pools_live_disjoint [OF K(8) s(2), of sem_descriptor_ptr_pool]
        sem_descriptorD(5) [OF K(5) d refl] by auto
    with loose [OF l] show "loose (links k') L' (sd_wait_ptr (sem_descriptors k d))"
      by (simp add: k')
  qed (simp_all add: k' L')
  moreover have "sem_fds_ok k' L'"
    by (rule sem_fds_ok_cong [OF sem_okD(3) [OF K(5)]]) (simp_all add: k' L')
  moreover have "waiters_ok k' L'"
    by (rule waiters_ok_cong [where k = k and L = L])
      (use sem_okD(4) [OF K(5)] in \<open>simp_all add: k' L' sem_queues_ok_def\<close>)
  moreover have "owners_ok k' L'"
    by (rule owners_ok_cong [where k = k and L = L])
      (use sem_okD(4) [OF K(5)] in \<open>simp_all add: k' L' sem_queues_ok_def\<close>)
  moreover have "queue_lengths_ok k' L'"
    using sem_queue_length [OF K(5)] sem_queue_dead [OF K(5) out]
    by (simp add: queue_lengths_ok_def k' L')
  moreover have "sem_ids_ok k' L'"
    using sem_okD(5) [OF K(5)] new new [THEN not_sym] unfolding sem_ids_ok_def k' L'
    by (auto simp: inj_on_def)
  moreover have "res_ok k' L'" by (rule res_ok_cong [OF K(6)]) (simp_all add: k' L')
  ultimately show ?thesis by (simp add: kinv_def sem_ok_def sem_queues_ok_def sched_ok_def)
qed

text \<open>The three searches of \<open>internal_semOpen\<close>.\<close>

lemma MySearch_exec:
  assumes inv: "kinv k L"
  shows "MySearch k (PCB_sem_descriptors p) n =
    Inr (scan_result (\<lambda>d. n = sem_id (semaphores k (sd_semaphore (sem_descriptors k d))))
           (L (PCB_sem_descriptors p)))"
  unfolding MySearch_def
  by (rule list_rep_search [OF kinvD(7) [OF inv]]) (use kinv_sem_nonnull(2) [OF inv _ refl] in blast)

lemma SemaphoreList_byId_exec:
  assumes inv: "kinv k L"
  shows "SemaphoreList_byId k semaphores_list n =
    Inr (scan_result (\<lambda>s. sem_id (semaphores k s) = n) (L semaphores_list))"
  unfolding SemaphoreList_byId_def by (rule list_rep_search_self [OF kinvD(7) [OF inv]])

lemma semOpen_cases:
  assumes inv: "kinv k L" and n: "n = int_of_long (syscall_arg k 0)"
    and v: "v = int_of_long (syscall_arg k 1)"
  obtains (mine) d where "d \<in> set (L (PCB_sem_descriptors (running k)))"
      "sem_id (semaphores k (sd_semaphore (sem_descriptors k d))) = n"
      "internal_semOpen k = Inr (set_retvalue (sd_fd (sem_descriptors k d)) k)"
  | (known) s where "s \<in> set (L semaphores_list)" "sem_id (semaphores k s) = n"
      "\<And>e. e \<in> set (L (PCB_sem_descriptors (running k))) \<Longrightarrow> sd_semaphore (sem_descriptors k e) \<noteq> s"
      "internal_semOpen k = semOpen_descriptor k s"
  | (full) "internal_semOpen k = Inr (set_retvalue DSOS_ECREATESEM k)"
      "pools_room (pools k) semaphore_pool = 0"
      "\<And>s. s \<in> set (L semaphores_list) \<Longrightarrow> sem_id (semaphores k s) \<noteq> n"
  | (new) s k1 L1 where "L1 = L(semaphores_list := L semaphores_list @ [s])" "kinv k1 L1"
      "semaphores k1 = (semaphores k)(s := \<lparr>sem_id = n, sem_count = v\<rparr>)"
      "running k1 = running k" "pcbs k1 = pcbs k" "sem_descriptors k1 = sem_descriptors k"
      "\<And>e. e \<in> set (L (PCB_sem_descriptors (running k))) \<Longrightarrow> sd_semaphore (sem_descriptors k e) \<noteq> s"
      "internal_semOpen k = semOpen_descriptor k1 s"
      "\<And>u. u \<in> set (L semaphores_list) \<Longrightarrow> sem_id (semaphores k u) \<noteq> n" "s \<notin> set (L semaphores_list)"
      "\<And>j. j \<noteq> semaphore_pool \<Longrightarrow> pools_room (pools k1) j = pools_room (pools k) j"
proof -
  note K = kinvD [OF inv]
  note nz = sched_okD(3) [OF K(2)]
  let ?me = "running k"
  let ?t = "\<lambda>d. n = sem_id (semaphores k (sd_semaphore (sem_descriptors k d)))"
  let ?d = "scan_result ?t (L (PCB_sem_descriptors ?me))"
  let ?s = "scan_result (\<lambda>s. sem_id (semaphores k s) = n) (L semaphores_list)"
  show thesis
  proof (cases "?d = NULL")
    case False
    have "internal_semOpen k = Inr (set_retvalue (sd_fd (sem_descriptors k ?d)) k)"
      using nz False by (simp add: internal_semOpen_def MySearch_exec [OF inv] n [symmetric])
    with scan_result_nonnull [OF False] show thesis by (intro mine) auto
  next
    case True
    then have no: "\<not> ?t d" if "d \<in> set (L (PCB_sem_descriptors ?me))" for d
      using that list_repD(4) [OF K(7)] by (simp add: scan_result_NULL)
    have step: "internal_semOpen k = (if ?s \<noteq> NULL then semOpen_descriptor k ?s
      else andthen (Semaphore_alloc k n v) (\<lambda>(newSem, k1).
        if newSem = NULL then Inr (set_retvalue DSOS_ECREATESEM k1)
        else andthen (List_insert k1 semaphores_list (lh_last (heads k1 semaphores_list))
          newSem) (\<lambda>(_, k2). semOpen_descriptor k2 newSem)))"
      using nz True by (simp add: internal_semOpen_def MySearch_exec [OF inv]
          SemaphoreList_byId_exec [OF inv] n v)
    show thesis
    proof (cases "?s = NULL")
      case False
      then have "internal_semOpen k = semOpen_descriptor k ?s" using step by simp
      moreover have "sd_semaphore (sem_descriptors k e) \<noteq> ?s"
        if "e \<in> set (L (PCB_sem_descriptors ?me))" for e
        using no [OF that] scan_result_nonnull [OF False] by metis
      ultimately show thesis using scan_result_nonnull [OF False] by (intro known) auto
    next
      case sNULL: True
      then have fresh: "sem_id (semaphores k u) \<noteq> n" if "u \<in> set (L semaphores_list)" for u
        using that list_repD(4) [OF K(7)] by (simp add: scan_result_NULL)
      show thesis
      proof (rule Semaphore_alloc_exec [OF inv, of n v])
        assume "Semaphore_alloc k n v = Inr (NULL, k)" "pools_room (pools k) semaphore_pool = 0"
        then show thesis using step sNULL fresh by (intro full) simp_all
      next
        fix s ps lk hds
        let ?k1 = "k\<lparr>heads := hds, pools := ps, links := lk,
          semaphores := (semaphores k)(s := \<lparr>sem_id = n, sem_count = v\<rparr>)\<rparr>"
        let ?L1 = "L(semaphores_list := L semaphores_list @ [s])"
        assume a: "Semaphore_alloc k n v = Inr (s, ?k1)" "s \<noteq> NULL" "kinv ?k1 L" "loose lk L s"
          "s \<in> pools_live ps semaphore_pool"
          "\<And>j. j \<noteq> semaphore_pool \<Longrightarrow> pools_room ps j = pools_room (pools k) j"
        have l: "loose (links ?k1) L s" using a(4) by simp
        obtain lk2 hd2 where
          2: "List_insert ?k1 semaphores_list (lh_last (heads ?k1 semaphores_list)) s =
              Inr (s, ?k1\<lparr>links := lk2, heads := hd2\<rparr>)"
            "list_rep lk2 hd2 ?L1"
            "\<forall>a. loose (links ?k1) L a \<longrightarrow> a \<noteq> s \<longrightarrow> loose lk2 ?L1 a"
          using append_exec [where k = ?k1 and h = semaphores_list, OF kinvD(7) [OF a(3)] l] by blast
        have out: "s \<notin> set (L h)" for h using a(4) by (simp add: loose_def)
        have "kinv (?k1\<lparr>links := lk2, heads := hd2\<rparr>) ?L1"
          by (rule semaphore_list_kinv [OF a(3) l _ _ refl 2(2) _ refl])
            (use a(5) fresh out 2(3) in auto)
        moreover have "internal_semOpen k = semOpen_descriptor (?k1\<lparr>links := lk2, heads := hd2\<rparr>) s"
          using step sNULL a(1,2) 2(1) by simp
        moreover have "sd_semaphore (sem_descriptors k e) \<noteq> s"
          if "e \<in> set (L (PCB_sem_descriptors ?me))" for e
          using sem_descriptorD(1) [OF K(5) that refl] out by auto
        ultimately show thesis by (intro new [OF refl, of "?k1\<lparr>links := lk2, heads := hd2\<rparr>" s]) (use fresh out a(6) in simp_all)
      qed
    qed
  qed
qed

text \<open>Opening a number that no semaphore has, with room in the pools.\<close>

lemma semOpen_new_exec:
  assumes inv: "kinv k L" and n: "n = int_of_long (syscall_arg k 0)"
    and v: "v = int_of_long (syscall_arg k 1)" and f: "f = last_sem_fd (pcbs k (running k))"
    and range: "in_int_range (f + 1)"
    and fresh: "\<And>s. s \<in> set (L semaphores_list) \<Longrightarrow> sem_id (semaphores k s) \<noteq> n"
    and room: "0 < pools_room (pools k) semaphore_pool" "0 < pools_room (pools k) sem_descriptor_pool"
      "2 \<le> pools_room (pools k) sem_descriptor_ptr_pool"
  obtains s d x k' where "internal_semOpen k = Inr (set_retvalue f k')"
    "kinv k' (L(semaphores_list := L semaphores_list @ [s],
       PCB_sem_descriptors (running k) := L (PCB_sem_descriptors (running k)) @ [d],
       Semaphore_descriptors s := [x]))"
    "s \<notin> set (L semaphores_list)" "L (Semaphore_descriptors s) = []"
    "sd_fd (sem_descriptors k' d) = f" "sd_semaphore (sem_descriptors k' d) = s"
    "running k' = running k" "semaphores k' = (semaphores k)(s := \<lparr>sem_id = n, sem_count = v\<rparr>)"
    "last_sem_fd (pcbs k' (running k)) = f + 1"
proof (rule semOpen_cases [OF inv n v])
  fix s k1 L1
  assume L1: "L1 = L(semaphores_list := L semaphores_list @ [s])" and inv1: "kinv k1 L1"
    and 1: "semaphores k1 = (semaphores k)(s := \<lparr>sem_id = n, sem_count = v\<rparr>)"
      "running k1 = running k" "pcbs k1 = pcbs k" "sem_descriptors k1 = sem_descriptors k"
    and new: "\<And>e. e \<in> set (L (PCB_sem_descriptors (running k))) \<Longrightarrow> sd_semaphore (sem_descriptors k e) \<noteq> s"
    and ok: "internal_semOpen k = semOpen_descriptor k1 s" and s: "s \<notin> set (L semaphores_list)"
    and room1: "\<And>j. j \<noteq> semaphore_pool \<Longrightarrow> pools_room (pools k1) j = pools_room (pools k) j"
  have s1: "s \<in> set (L1 semaphores_list)" by (simp add: L1)
  have new1: "sd_semaphore (sem_descriptors k1 e) \<noteq> s"
    if "e \<in> set (L1 (PCB_sem_descriptors (running k1)))" for e
    using that new by (simp add: L1 1)
  have f1: "f = last_sem_fd (pcbs k1 (running k1))" by (simp add: 1 f)
  have none: "L (Semaphore_descriptors s) = []"
    using sem_ptrD(4) [OF kinvD(5) [OF inv], of _ s] s by (cases "L (Semaphore_descriptors s)") auto
  show thesis
  proof (rule semOpen_descriptor_exec [OF inv1 s1 new1 f1])
    fix d x k'
    assume "semOpen_descriptor k1 s = Inr (set_retvalue f k')"
      "kinv k' (L1(PCB_sem_descriptors (running k1) := L1 (PCB_sem_descriptors (running k1)) @ [d],
         Semaphore_descriptors s := L1 (Semaphore_descriptors s) @ [x]))"
      "sd_fd (sem_descriptors k' d) = f" "sd_semaphore (sem_descriptors k' d) = s"
      "running k' = running k1" "semaphores k' = semaphores k1" "last_sem_fd (pcbs k' (running k1)) = f + 1"
    then show thesis using ok s none by (intro that [of k' s d x]) (simp_all add: L1 1)
  qed (use range room room1 in simp_all)
next
  fix d
  assume "d \<in> set (L (PCB_sem_descriptors (running k)))"
    "sem_id (semaphores k (sd_semaphore (sem_descriptors k d))) = n"
  with sem_descriptorD(1) [OF kinvD(5) [OF inv] _ refl, of d] fresh show thesis by blast
qed (use fresh room in auto)

lemma semOpen_preserves:
  assumes inv: "kinv k L" and ok: "internal_semOpen k = Inr k'"
  obtains L' where "kinv k' L'"
proof (rule semOpen_cases [OF inv refl refl])
  fix d
  assume "internal_semOpen k = Inr (set_retvalue (sd_fd (sem_descriptors k d)) k)"
  with ok inv have "kinv k' L" by auto
  then show thesis by (rule that)
next
  assume "internal_semOpen k = Inr (set_retvalue DSOS_ECREATESEM k)"
  with ok inv have "kinv k' L" by auto
  then show thesis by (rule that)
next
  fix s
  assume s: "s \<in> set (L semaphores_list)"
    "\<And>e. e \<in> set (L (PCB_sem_descriptors (running k))) \<Longrightarrow> sd_semaphore (sem_descriptors k e) \<noteq> s"
    "internal_semOpen k = semOpen_descriptor k s"
  show thesis
    by (rule semOpen_descriptor_exec [OF inv s(1,2) refl]) (use that ok s(3) in auto)
next
  fix s k1 L1
  assume s: "L1 = L(semaphores_list := L semaphores_list @ [s])" "kinv k1 L1"
    "running k1 = running k" "sem_descriptors k1 = sem_descriptors k"
    "\<And>e. e \<in> set (L (PCB_sem_descriptors (running k))) \<Longrightarrow> sd_semaphore (sem_descriptors k e) \<noteq> s"
    "internal_semOpen k = semOpen_descriptor k1 s"
  show thesis
    by (rule semOpen_descriptor_exec [OF s(2), of s]) (use that ok s in auto)
qed

end
