(* ===== verification/Sem_Close.thy ===== *)
theory Sem_Close
  imports Sem_Correct
begin

text \<open>
  \<open>internal_semClose\<close> on a kernel that satisfies the invariant: the descriptor and its two list
  items are released, the semaphore with its last descriptor, and the invariant is kept.
\<close>

lemma semClose_kinv:
  assumes inv: "kinv k L" and d: "d \<in> set (L (PCB_sem_descriptors p))"
    and s: "s = sd_semaphore (sem_descriptors k d)" and x: "x = sd_ptr (sem_descriptors k d)"
    and y: "y = sd_wait_ptr (sem_descriptors k d)" "loose (links k) L y"
    and ss: "ss = (if remove1 x (L (Semaphore_descriptors s)) = []
                   then remove1 s (L semaphores_list) else L semaphores_list)"
    and L': "L' = L(PCB_sem_descriptors p := remove1 d (L (PCB_sem_descriptors p)),
      Semaphore_descriptors s := remove1 x (L (Semaphore_descriptors s)), semaphores_list := ss)"
    and rep: "list_rep lk hds L'"
    and loose: "\<And>a. loose (links k) L a \<Longrightarrow> loose lk L' a"
    and pools: "pools_ok ps" "pools_room ps descriptor_pool = pools_room ps descriptor_ptr_pool"
      "\<And>i. pools_live ps i = pools_live (pools k) i -
         (if i = sem_descriptor_pool then {d} else if i = sem_descriptor_ptr_pool then {x, y}
          else if i = semaphore_pool \<and> ss \<noteq> L semaphores_list then {s} else {})"
    and k': "k' = k\<lparr>links := lk, heads := hds, pools := ps\<rparr>"
  shows "kinv k' L'"
proof -
  note K = kinvD [OF inv]
  note S = sched_okD [OF K(2)]
  note R = list_repD [OF K(7)]
  note D = sem_descriptorD [OF K(5) d s]
  have dd: "distinct (L h)" for h by (rule R(3))
  have xy: "x \<noteq> y" using D(3) y x by (auto simp: loose_def)
  have ssub: "set ss \<subseteq> set (L semaphores_list)"
    and sin: "u \<in> set ss \<longleftrightarrow> u \<in> set (L semaphores_list) \<and>
      (remove1 x (L (Semaphore_descriptors s)) = [] \<longrightarrow> u \<noteq> s)" for u
    using dd [of semaphores_list] by (auto simp: ss)
  have ne: "ss \<noteq> L semaphores_list \<Longrightarrow> s \<notin> set ss" 
    using sin [of s] ss by (cases "remove1 x (L (Semaphore_descriptors s)) = []") simp_all
  have sub: "set (L' h) \<subseteq> set (L h)" for h using ssub by (auto simp: L' dd)
  have only: "a \<in> set (L g) \<Longrightarrow> a \<in> set (L h) \<Longrightarrow> g = h" for a g h using R(2) by metis
  have gone: "d \<notin> set (L' h)" "x \<notin> set (L' h)" "y \<notin> set (L' h)" for h
  proof -
    show "d \<notin> set (L' h)"
      using only [OF d, of h] sub [of h] by (cases "h = PCB_sem_descriptors p") (auto simp: L' dd)
    show "x \<notin> set (L' h)"
      using only [OF D(3), of h] sub [of h] x
      by (cases "h = Semaphore_descriptors s") (auto simp: L' dd)
    show "y \<notin> set (L' h)" using y(2) sub [of h] by (auto simp: loose_def)
  qed
  have gone_s: "s \<notin> set (L' h)" if "ss \<noteq> L semaphores_list" for h
    using only [OF D(1), of h] sub [of h] ne [OF that]
    by (cases "h = semaphores_list") (auto simp: L')
  have keep: "e \<in> set (L' (PCB_sem_descriptors q)) \<longleftrightarrow>
      e \<in> set (L (PCB_sem_descriptors q)) \<and> e \<noteq> d" for e q
    using gone(1) only [OF d, of "PCB_sem_descriptors q"] by (auto simp: L' dd)
  have keep_x: "z \<in> set (L' (Semaphore_descriptors u)) \<longleftrightarrow>
      z \<in> set (L (Semaphore_descriptors u)) \<and> z \<noteq> x" for z u
    using gone(2) only [OF D(3), of "Semaphore_descriptors u"] x by (auto simp: L' dd)
  have more: "u \<in> set ss" if "z \<in> set (L (Semaphore_descriptors u))" "z \<noteq> x"
      "u \<in> set (L semaphores_list)" for u z
  proof -
    have "z \<in> set (remove1 x (L (Semaphore_descriptors u)))" using that by simp
    then have "remove1 x (L (Semaphore_descriptors u)) \<noteq> []" by (metis empty_iff empty_set)
    then show ?thesis using that(3) unfolding sin by auto
  qed
  have wait: "L' (Semaphore_waiting u) = L (Semaphore_waiting u)" for u by (simp add: L')
  have "typed_lists (pools_live ps) L'"
    unfolding typed_lists_def
  proof (intro allI subsetI)
    fix h a
    assume a: "a \<in> set (L' h)"
    then have "a \<in> pools_live (pools k) (kind h)" using sub typed_listsD [OF K(9)] by blast
    with a gone gone_s show "a \<in> pools_live ps (kind h)" unfolding pools(3) by (auto split: if_splits)
  qed
  then have "lists_ok k' L'" using pools(1) rep by (simp add: lists_ok_def k')
  moreover have "place_ok k' L'"
    using S(11) loose by (simp add: place_ok_def k' L' pools(3))
  moreover have "init_ok k' L'"
    using S(12) by (simp add: init_ok_def k' L' pools(3))
  moreover have "pids_ok (pcbs k') (last_pid k') (pools_live (pools k') pcb_pool)"
    using S(13) by (simp add: k' pools(3))
  moreover have "tree_ok k' L'"
    by (rule tree_ok_cong [OF K(3)]) (simp_all add: k' L' pools(3))
  moreover have "timer_ok k' L'"
    by (rule timer_ok_cong [OF K(4)])
      (use timer_okD [OF K(4)] in \<open>simp_all add: k' L' pools(3)\<close>)
  moreover have "sem_links_ok k' L'"
    unfolding sem_links_ok_def Let_def
  proof (intro conjI allI impI)
    fix q e
    assume "e \<in> set (L' (PCB_sem_descriptors q))"
    then have e: "e \<in> set (L (PCB_sem_descriptors q))" "e \<noteq> d" using keep by simp_all
    note E = sem_descriptorD [OF K(5) e(1) refl]
    have nx: "sd_ptr (sem_descriptors k e) \<noteq> x" "sd_wait_ptr (sem_descriptors k e) \<noteq> x"
      "sd_wait_ptr (sem_descriptors k e) \<noteq> y"
      using E(4,6) D(4,6) e(2) x y(1) by auto
    have "sd_semaphore (sem_descriptors k e) \<in> set ss"
      using more [OF E(3) nx(1) E(1)] .
    then show "sd_semaphore (sem_descriptors k' e) \<in> set (L' semaphores_list)"
      by (simp add: k' L')
    show "sd_pcb (sem_descriptors k' e) = q" using E(2) by (simp add: k')
    show "sd_ptr (sem_descriptors k' e)
        \<in> set (L' (Semaphore_descriptors (sd_semaphore (sem_descriptors k' e))))"
      using E(3) nx keep_x by (simp add: k')
    show "sem_descriptor_ptrs k' (sd_ptr (sem_descriptors k' e)) = e" using E(4) by (simp add: k')
    show "sd_wait_ptr (sem_descriptors k' e) \<in> pools_live (pools k') sem_descriptor_ptr_pool"
      using E(5) nx by (simp add: k' pools(3))
    show "sem_descriptor_ptrs k' (sd_wait_ptr (sem_descriptors k' e)) = e"
      using E(6) by (simp add: k')
  next
    fix u z
    assume "z \<in> set (L' (Semaphore_descriptors u))"
    then have z: "z \<in> set (L (Semaphore_descriptors u))" "z \<noteq> x" using keep_x by simp_all
    note Z = sem_ptrD [OF K(5) z(1)]
    show "sd_ptr (sem_descriptors k' (sem_descriptor_ptrs k' z)) = z"
      "sd_semaphore (sem_descriptors k' (sem_descriptor_ptrs k' z)) = u"
      using Z by (simp_all add: k')
    have "sem_descriptor_ptrs k z \<noteq> d" using Z(1) z(2) x by auto
    then show "sem_descriptor_ptrs k' z \<in> pools_live (pools k') sem_descriptor_pool"
      using Z(3) by (simp add: k' pools(3))
    show "u \<in> set (L' semaphores_list)"
      using more [OF z Z(4)] by (simp add: L')
  qed
  moreover have "wait_ptrs_ok k' L'"
    unfolding wait_ptrs_ok_def
  proof (intro allI impI)
    fix q e
    assume "e \<in> set (L' (PCB_sem_descriptors q))"
    then have "e \<in> set (L (PCB_sem_descriptors q))" using keep by simp
    from sem_descriptorD(7) [OF K(5) this refl] loose
    show "loose (links k') L' (sd_wait_ptr (sem_descriptors k' e)) \<or>
        sd_wait_ptr (sem_descriptors k' e)
          \<in> set (L' (Semaphore_waiting (sd_semaphore (sem_descriptors k' e))))"
      by (auto simp: k' wait)
  qed
  moreover have "sem_fds_ok k' L'"
    by (rule sem_fds_ok_cong [OF sem_okD(3) [OF K(5)]]) (use keep in \<open>auto simp: k'\<close>)
  moreover have "waiters_ok k' L'"
    unfolding waiters_ok_def Let_def
  proof (intro allI impI, goal_cases)
    case (1 u z)
    then have z: "z \<in> set (L (Semaphore_waiting u))" by (simp add: wait)
    note W = sem_waitingD(1-5) [OF K(5) z refl refl]
    have "sem_descriptor_ptrs k z \<noteq> d" using W(2) y z by (auto simp: loose_def)
    with W keep show ?case by (simp add: k') (simp add: L')
  qed
  moreover have "owners_ok k' L'"
    by (rule owners_ok_cong) (use sem_okD(4) [OF K(5)] in \<open>auto simp: k' wait sem_queues_ok_def\<close>)
  moreover have "queue_lengths_ok k' L'"
    by (rule queue_lengths_ok_cong)
      (use sem_okD(4) [OF K(5)] ssub in \<open>auto simp: k' L' sem_queues_ok_def\<close>)
  moreover have "sem_ids_ok k' L'"
    by (rule sem_ids_ok_cong [OF sem_okD(5) [OF K(5)]]) (use ssub in \<open>simp_all add: k' L'\<close>)
  moreover have "res_ok k' L'"
    using K(6) pools(2) by (simp add: res_ok_def k' L' Let_def)
  ultimately show ?thesis by (simp add: kinv_def sem_ok_def sem_queues_ok_def sched_ok_def)
qed

text \<open>The whole call, with the lists it leaves.\<close>

lemma semClose_exec:
  assumes inv: "kinv k L" and d: "d \<in> set (L (PCB_sem_descriptors (running k)))"
    and fd: "int_of_long (syscall_arg k 0) = sd_fd (sem_descriptors k d)"
    and s: "s = sd_semaphore (sem_descriptors k d)" and x: "x = sd_ptr (sem_descriptors k d)"
  obtains k' where "internal_semClose k = Inr (set_retvalue 0 k')" "running k' = running k"
    "semaphores k' = semaphores k" "pcbs k' = pcbs k"
    "kinv k' (L(PCB_sem_descriptors (running k) := remove1 d (L (PCB_sem_descriptors (running k))),
      Semaphore_descriptors s := remove1 x (L (Semaphore_descriptors s)),
      semaphores_list := (if remove1 x (L (Semaphore_descriptors s)) = []
                          then remove1 s (L semaphores_list) else L semaphores_list)))"
proof -
  note K = kinvD [OF inv]
  note D = sem_descriptorD [OF K(5) d s]
  note nz = sched_okD(3) [OF K(2)] kinv_sem_nonnull [OF inv d s]
  define y where "y = sd_wait_ptr (sem_descriptors k d)"
  have y: "loose (links k) L y" using running_wait_ptr_loose(1) [OF inv d] by (simp add: y_def)
  let ?p = "PCB_sem_descriptors (running k)" and ?g = "Semaphore_descriptors s"
  have xg: "x \<in> set (L ?g)" using D(3) x by simp
  have xy: "y \<noteq> x" using xg y by (auto simp: loose_def)
  obtain lk1 hd1 where
    1: "List_detach k ?p d = Inr (d, k\<lparr>links := lk1, heads := hd1\<rparr>)"
      "list_rep lk1 hd1 (L(?p := remove1 d (L ?p)))"
      "\<forall>a. loose (links k) L a \<longrightarrow> loose lk1 (L(?p := remove1 d (L ?p))) a"
    using detach_exec [where k = k and h = ?p, OF K(7) d] by blast
  let ?k1 = "k\<lparr>links := lk1, heads := hd1\<rparr>" and ?L1 = "L(?p := remove1 d (L ?p))"
  have "d \<in> pools_live (pools k) sem_descriptor_pool" using typed_listsD [OF K(9) d] by simp
  then obtain ps2 where
    2: "SemDescriptor_free ?k1 d = Inr (0, ?k1\<lparr>pools := ps2\<rparr>)" "pools_ok ps2"
      "pools_live ps2 = (pools_live (pools k))(sem_descriptor_pool := pools_live (pools k) sem_descriptor_pool - {d})"
      "pools_room ps2 = (pools_room (pools k))(sem_descriptor_pool := Suc (pools_room (pools k) sem_descriptor_pool))"
    using pool_release_exec [of ?k1 d sem_descriptor_pool] K(8) by (auto simp: SemDescriptor_free_def)
  let ?k2 = "?k1\<lparr>pools := ps2\<rparr>"
  have t: "list_rep (links ?k2) (heads ?k2) ?L1" "x \<in> set (?L1 ?g)" using 1(2) xg by simp_all
  obtain lk3 hd3 where
    3: "List_detach ?k2 ?g x = Inr (x, ?k2\<lparr>links := lk3, heads := hd3\<rparr>)"
      "list_rep lk3 hd3 (?L1(?g := remove1 x (?L1 ?g)))"
      "\<forall>a. loose (links ?k2) ?L1 a \<longrightarrow> loose lk3 (?L1(?g := remove1 x (?L1 ?g))) a"
    using detach_exec [where k = ?k2 and h = ?g, OF t] by blast
  let ?k3 = "k\<lparr>pools := ps2, links := lk3, heads := hd3\<rparr>" and ?L3 = "?L1(?g := remove1 x (L ?g))"
  have "x \<in> pools_live (pools ?k3) sem_descriptor_ptr_pool"
    using typed_listsD [OF K(9) xg] by (simp add: 2(3))
  then obtain ps4 where
    4: "SemDescriptorPtr_free ?k3 x = Inr (0, ?k3\<lparr>pools := ps4\<rparr>)" "pools_ok ps4"
      "pools_live ps4 = (pools_live ps2)(sem_descriptor_ptr_pool := pools_live ps2 sem_descriptor_ptr_pool - {x})"
      "pools_room ps4 = (pools_room ps2)(sem_descriptor_ptr_pool := Suc (pools_room ps2 sem_descriptor_ptr_pool))"
    using pool_release_exec [of ?k3 x sem_descriptor_ptr_pool] 2(2)
    by (auto simp: SemDescriptorPtr_free_def)
  let ?k4 = "?k3\<lparr>pools := ps4\<rparr>"
  have "y \<in> pools_live (pools ?k4) sem_descriptor_ptr_pool"
    using D(5) xy by (simp add: 2(3) 4(3) y_def)
  then obtain ps5 where
    5: "SemDescriptorPtr_free ?k4 y = Inr (0, ?k4\<lparr>pools := ps5\<rparr>)" "pools_ok ps5"
      "pools_live ps5 = (pools_live ps4)(sem_descriptor_ptr_pool := pools_live ps4 sem_descriptor_ptr_pool - {y})"
      "pools_room ps5 = (pools_room ps4)(sem_descriptor_ptr_pool := Suc (pools_room ps4 sem_descriptor_ptr_pool))"
    using pool_release_exec [of ?k4 y sem_descriptor_ptr_pool] 4(2)
    by (auto simp: SemDescriptorPtr_free_def)
  let ?k5 = "k\<lparr>links := lk3, heads := hd3, pools := ps5\<rparr>"
  have R3: "list_rep lk3 hd3 ?L3" using 3(2) by simp
  have loose3: "loose lk3 ?L3 a" if "loose (links k) L a" for a using that 1(3) 3(3) by simp
  have size: "lh_size (heads ?k5 ?g) = int (length (remove1 x (L ?g)))"
    using list_repD(7) [OF R3, of ?g] by simp
  have run: "internal_semClose k =
      (if lh_size (heads ?k5 ?g) = 0 then
         andthen (List_detach ?k5 semaphores_list s) (\<lambda>(sem1, k6).
         andthen (Semaphore_free k6 sem1) (\<lambda>(ret, k7).
         if ret \<noteq> 0 then Inr (set_retvalue ret k7) else Inr (set_retvalue 0 k7)))
       else Inr (set_retvalue 0 ?k5))"
    using nz 1(1) 2(1) 3(1) 4(1) 5(1)
    by (simp add: internal_semClose_def fd byFd_found [OF inv d refl] s [symmetric] x [symmetric]
        y_def [symmetric] Let_def)
  have room: "pools_room ps5 descriptor_pool = pools_room ps5 descriptor_ptr_pool"
    using res_okD(6) [OF K(6)] by (simp add: 2(4) 4(4) 5(4))
  have live5: "pools_live ps5 i = pools_live (pools k) i - (if i = sem_descriptor_pool then {d}
      else if i = sem_descriptor_ptr_pool then {x, y} else {})" for i
    by (auto simp: 2(3) 4(3) 5(3))
  show thesis
  proof (cases "remove1 x (L ?g) = []")
    case False
    have same: "?L3(semaphores_list := L semaphores_list) = ?L3" by (simp add: fun_eq_iff)
    have "kinv ?k5 (?L3(semaphores_list := L semaphores_list))"
    proof (rule semClose_kinv [OF inv d s x y_def y _ refl _ _ 5(2) room _ refl])
      show "list_rep lk3 hd3 (?L3(semaphores_list := L semaphores_list))"
        unfolding same by (rule R3)
      show "loose lk3 (?L3(semaphores_list := L semaphores_list)) a" if "loose (links k) L a" for a
        unfolding same using that by (rule loose3)
    qed (use False live5 in auto)
    moreover have "internal_semClose k = Inr (set_retvalue 0 ?k5)" using run size False by simp
    ultimately show thesis by (intro that [of ?k5]) (use False in simp_all)
  next
    case True
    have sl: "s \<in> set (?L3 semaphores_list)" using D(1) by simp
    have R5: "list_rep (links ?k5) (heads ?k5) ?L3" using R3 by simp
    obtain lk6 hd6 where
      6: "List_detach ?k5 semaphores_list s = Inr (s, ?k5\<lparr>links := lk6, heads := hd6\<rparr>)"
        "list_rep lk6 hd6 (?L3(semaphores_list := remove1 s (?L3 semaphores_list)))"
        "\<forall>a. loose (links ?k5) ?L3 a \<longrightarrow>
           loose lk6 (?L3(semaphores_list := remove1 s (?L3 semaphores_list))) a"
      using detach_exec [where k = ?k5 and h = semaphores_list, OF R5 sl] by blast
    let ?k6 = "?k5\<lparr>links := lk6, heads := hd6\<rparr>"
      and ?L6 = "?L3(semaphores_list := remove1 s (L semaphores_list))"
    have "s \<in> pools_live (pools ?k6) semaphore_pool"
      using typed_listsD [OF K(9) D(1)] by (simp add: live5)
    then obtain ps7 where
      7: "pool_release ?k6 semaphore_pool s = Inr (0, ?k6\<lparr>pools := ps7\<rparr>)" "pools_ok ps7"
        "pools_live ps7 = (pools_live ps5)(semaphore_pool := pools_live ps5 semaphore_pool - {s})"
        "pools_room ps7 = (pools_room ps5)(semaphore_pool := Suc (pools_room ps5 semaphore_pool))"
      using pool_release_exec [of ?k6 s semaphore_pool] 5(2) by auto
    have "lh_first (heads ?k6 ?g) = NULL" "lh_last (heads ?k6 ?g) = NULL"
      using list_repD(5,6) [OF 6(2), of ?g] True by simp_all
    then have "internal_semClose k = Inr (set_retvalue 0 (?k6\<lparr>pools := ps7\<rparr>))"
      using run size True 6(1) 7(1) by (simp add: Semaphore_free_def)
    moreover have "remove1 s (L semaphores_list) \<noteq> L semaphores_list"
      using D(1) by (metis in_set_remove1_distinct list_repD(3) [OF K(7)])
    then have "kinv (k\<lparr>links := lk6, heads := hd6, pools := ps7\<rparr>) ?L6"
      by (intro semClose_kinv [OF inv d s x y_def y _ refl _ _ 7(2) _ _ refl])
        (use True 6(2,3) loose3 room in \<open>auto simp: live5 7(3,4)\<close>)
    ultimately show thesis
      by (intro that [of "k\<lparr>links := lk6, heads := hd6, pools := ps7\<rparr>"]) (use True in simp_all)
  qed
qed

lemma semClose_preserves:
  assumes inv: "kinv k L" and ok: "internal_semClose k = Inr k'"
  obtains L' where "kinv k' L'"
proof (cases "\<exists>d \<in> set (L (PCB_sem_descriptors (running k))).
    int_of_long (syscall_arg k 0) = sd_fd (sem_descriptors k d)")
  case False
  then have "\<forall>d \<in> set (L (PCB_sem_descriptors (running k))).
      sd_fd (sem_descriptors k d) \<noteq> int_of_long (syscall_arg k 0)" by auto
  from sem_missing(3) [OF inv this] ok have "k' = set_retvalue DSOS_ENOTMYSEM k" by simp
  then show thesis using that inv by simp
next
  case True
  then obtain d where d: "d \<in> set (L (PCB_sem_descriptors (running k)))"
    and fd: "int_of_long (syscall_arg k 0) = sd_fd (sem_descriptors k d)" by blast
  show thesis
    by (rule semClose_exec [OF inv d fd refl refl]) (use that ok in auto)
qed

end
