(* ===== verification/System_Correct.thy ===== *)
theory System_Correct
  imports Dispatch Process_Correct Exit_Correct Resource_Open Sched_Correct Sem_Open Sem_Close
begin

text \<open>
  The composition: every system call, through the trap, and every tick of the timer keep the
  invariant, so it holds along every run of the kernel.
\<close>

section \<open>A new init process\<close>

text \<open>
  The main context makes a process and runs it: at the start, when there is no other process,
  and again whenever a trap ends with no running process. What it needs is the invariant of a
  kernel that is between two processes, except that there need not be an \<open>init\<close>.
\<close>

lemma new_init_kinv:
  assumes lists: "lists_ok k1 L1" and place: "idle_place_ok k L"
    and pids: "pids_ok (pcbs k1) (last_pid k1) (pools_live (pools k1) pcb_pool)"
    and parts: "tree_ok k1 L1" "timer_ok k1 L1" "sem_ok k1 L1" "res_ok k1 L1"
    and p: "p \<noteq> NULL" "\<And>h. p \<notin> set (L h)" "loose (links k1) L1 p"
    and L1: "L1 = L(PCB_descriptors p := [], PCB_children p := [], PCB_sem_descriptors p := [])"
    and live: "pools_live (pools k1) pcb_pool = insert p (pools_live (pools k) pcb_pool)"
    and pc: "\<And>q. q \<noteq> p \<Longrightarrow> pcbs k1 q = pcbs k q" and par: "parent (pcbs k1 p) = NULL"
    and k': "k' = upd_pcb p (\<lambda>x. x\<lparr>status := Running, cpu_state := c\<rparr>)
      (k1\<lparr>running := p, init_pcb := p\<rparr>)"
  shows "kinv k' L1"
proof -
  have "lists_ok k' L1" using lists by (simp add: lists_ok_def k')
  moreover have "place_ok k' L1"
    using place p(2) [of ready_list] p(2) [of waiting_list] p(2) [of zombie_list] p(3) live pc
    unfolding place_ok_def idle_place_ok_def L1 k' by auto
  moreover have "init_ok k' L1"
    using p(1) p(2) [of zombie_list] live par by (simp add: init_ok_def k' L1)
  moreover have "pids_ok (pcbs k') (last_pid k') (pools_live (pools k') pcb_pool)"
    using pids_ok_cong [OF pids, of "pcbs k'"] by (simp add: k')
  moreover have "tree_ok k' L1" by (rule tree_ok_cong [OF parts(1)]) (simp_all add: k')
  moreover have "timer_ok k' L1"
    by (rule timer_ok_cong [OF parts(2)]) (use timer_okD [OF parts(2)] in \<open>auto simp: k'\<close>)
  moreover have "sem_ok k' L1" by (rule sem_ok_cong [OF parts(3)]) (simp_all add: k')
  moreover have "res_ok k' L1" by (rule res_ok_cong [OF parts(4)]) (simp_all add: k')
  ultimately show ?thesis by (simp add: kinv_def sched_ok_def)
qed

lemma main_context_exec:
  assumes lists: "lists_ok k L" and place: "idle_place_ok k L"
    and pids: "pids_ok (pcbs k) (last_pid k) (pools_live (pools k) pcb_pool)"
    and parts: "tree_ok k L" "timer_ok k L" "sem_ok k L" "res_ok k L"
    and down: "shutdown_now k = 0"
  obtains (full) "main_context_resumed k = Inl Null_deref" "pools_room (pools k) pcb_pool = 0"
  | (overflow) "main_context_resumed k = Inl Signed_overflow" "\<not> in_int_range (last_pid k + 1)"
  | (fresh) p k' where "main_context_resumed k = Inr (Resume p, k')" "running k' = p" "init_pcb k' = p"
      "kinv k' (L(PCB_descriptors p := [], PCB_children p := [], PCB_sem_descriptors p := []))"
      "p \<notin> pools_live (pools k) pcb_pool" "pid (pcbs k' p) = last_pid k" "status (pcbs k' p) = Running"
      "pools_live (pools k') pcb_pool = insert p (pools_live (pools k) pcb_pool)"
      "shutdown_now k' = 0" "disastrOS_time k' = disastrOS_time k" "last_pid k' = last_pid k + 1"
proof (rule PCB_alloc_exec [OF lists pids parts])
  assume "PCB_alloc k = Inl Null_deref" "pools_room (pools k) pcb_pool = 0"
  then show thesis using down by (intro full) (simp_all add: main_context_resumed_def)
next
  assume "PCB_alloc k = Inl Signed_overflow" "\<not> in_int_range (last_pid k + 1)"
  then show thesis using down by (intro overflow) (simp_all add: main_context_resumed_def)
next
  fix p k1 L1
  assume a: "PCB_alloc k = Inr (p, k1)" "p \<noteq> NULL" "\<And>i. p \<notin> pools_live (pools k) i"
    "L1 = L(PCB_descriptors p := [], PCB_children p := [], PCB_sem_descriptors p := [])"
    "lists_ok k1 L1" "pids_ok (pcbs k1) (last_pid k1) (pools_live (pools k1) pcb_pool)"
    "tree_ok k1 L1" "timer_ok k1 L1" "sem_ok k1 L1" "res_ok k1 L1"
    "pools_live (pools k1) = (pools_live (pools k))
       (pcb_pool := insert p (pools_live (pools k) pcb_pool))"
    "\<And>q. q \<noteq> p \<Longrightarrow> pcbs k1 q = pcbs k q" "pid (pcbs k1 p) = last_pid k"
    "parent (pcbs k1 p) = NULL" "loose (links k1) L1 p" "shutdown_now k1 = shutdown_now k"
    "disastrOS_time k1 = disastrOS_time k" "last_pid k1 = last_pid k + 1"
  have out: "p \<notin> set (L h)" for h
    using a(3) typed_listsD [OF lists_okD(3) [OF lists]] by blast
  let ?k' = "upd_pcb p (\<lambda>x. x\<lparr>status := Running,
      cpu_state := Fresh_context (start_f k1) (start_args k1)\<rparr>) (k1\<lparr>running := p, init_pcb := p\<rparr>)"
  have inv: "kinv ?k' L1"
    by (rule new_init_kinv [OF a(5) place a(6-10) a(2) out a(15) a(4) _ a(12,14) refl])
      (simp_all add: a(11))
  have run: "main_context_resumed k = Inr (Resume p, ?k')"
    using a(1) down by (simp add: main_context_resumed_def Let_def)
  show thesis
    by (rule fresh [OF run]) (use inv a(3,4,11,13,16-18) down in simp_all)
qed

lemma kinv_idle_main_context:
  assumes "kinv_idle k L" and "main_context_resumed k = Inr (c, k')"
  shows "c = Exited \<or> (\<exists>L'. kinv k' L' \<and> c = Resume (running k'))"
proof (cases "shutdown_now k = 0")
  case True
  note K = kinv_idleD [OF assms(1)]
  show ?thesis
    by (rule main_context_exec [OF K(1,2,4-8) True]) (use assms(2) in auto)
qed (use assms(2) in \<open>simp add: main_context_resumed_def\<close>)

section \<open>Every system call\<close>

text \<open>
  What a handler may leave behind: a kernel that runs a process, one where the system is to
  shut down, or one without a running process.
\<close>

definition settled :: "kernel \<Rightarrow> bool" where
  "settled k \<longleftrightarrow>
     shutdown_now k \<noteq> 0 \<or> (\<exists>L. kinv k L) \<or> (running k = NULL \<and> (\<exists>L. kinv_idle k L))"

lemma settledI: "kinv k L \<Longrightarrow> settled k"
  by (auto simp: settled_def)

lemma internal_schedule_preserves:
  assumes inv: "kinv k L" and ok: "internal_schedule k = Inr k'"
  shows "\<exists>L'. kinv k' L'"
  by (rule schedule_exec [OF inv]) (use ok in auto)

lemma internal_sleep_settled:
  assumes inv: "kinv k L" and num: "syscall_num (pcbs k (running k)) = DSOS_CALL_SLEEP"
    and ok: "internal_sleep k = Inr k'"
  shows "settled k'"
proof (rule sleep_exec [OF inv num refl])
  assume "internal_sleep k = Inr (set_retvalue DSOS_ESLEEP k)"
  with ok inv have "kinv k' L" by auto
  then show ?thesis by (rule settledI)
next
  fix t k1 L1
  assume "internal_sleep k = Inr k1"
    and "L ready_list \<noteq> [] \<Longrightarrow> kinv k1 L1 \<and> running k1 = hd (L ready_list)"
    and "L ready_list = [] \<Longrightarrow> kinv_idle k1 L1 \<and> running k1 = NULL"
  with ok show ?thesis by (cases "L ready_list = []") (auto simp: settled_def)
qed (use ok in auto)

text \<open>All handlers but that of \<open>sleep\<close> leave a running process.\<close>

lemma handler_runs:
  assumes inv: "kinv k L" and vec: "syscall_vector n = Some f" and n: "n \<noteq> DSOS_CALL_SLEEP"
    and num: "syscall_num (pcbs k (running k)) = n" and ok: "f k = Inr k'"
  shows "shutdown_now k' \<noteq> 0 \<or> (\<exists>L'. kinv k' L')"
proof -
  consider "f = internal_preempt" | "f = internal_fork" | "f = internal_spawn" | "f = internal_wait"
    | "f = internal_exit" | "f = internal_openResource"
    | "f = internal_closeResource" | "f = internal_destroyResource" | "f = internal_shutdown"
    | "f = internal_semOpen" | "f = internal_semClose" | "f = internal_semPost"
    | "n = DSOS_CALL_SEMWAIT" "f = internal_semWait"
    using vec n unfolding syscall_vector_def by (auto split: if_splits)
  then show ?thesis
  proof cases
    case 1
    with ok have "internal_schedule k = Inr k'" by (simp add: internal_preempt_def)
    then show ?thesis using internal_schedule_preserves [OF inv] by blast
  next
    case 2
    with ok internal_fork_preserves [OF inv] show ?thesis by blast
  next
    case 3
    with ok internal_spawn_preserves [OF inv] show ?thesis by blast
  next
    case 4
    with ok internal_wait_preserves [OF inv] show ?thesis by blast
  next
    case 5
    with ok internal_exit_preserves [OF inv] show ?thesis by blast
  next
    case 6
    with ok openResource_preserves [OF inv] show ?thesis by blast
  next
    case 7
    with ok closeResource_preserves [OF inv] show ?thesis by blast
  next
    case 8
    with ok destroyResource_preserves [OF inv] show ?thesis by blast
  next
    case 9
    with ok have "shutdown_now k' \<noteq> 0" by (auto simp: internal_shutdown_def)
    then show ?thesis ..
  next
    case 10
    with ok have "internal_semOpen k = Inr k'" by simp
    from semOpen_preserves [OF inv this] show ?thesis by blast
  next
    case 11
    with ok have "internal_semClose k = Inr k'" by simp
    from semClose_preserves [OF inv this] show ?thesis by blast
  next
    case 12
    with ok have "internal_semPost k = Inr k'" by simp
    from semPost_preserves [OF inv this] show ?thesis by blast
  next
    case 13
    with ok num have "syscall_num (pcbs k (running k)) = DSOS_CALL_SEMWAIT" "internal_semWait k = Inr k'"
      by simp_all
    from semWait_preserves [OF inv this] show ?thesis by (metis zero_neq_one)
  qed
qed

lemmas call_numbers =
  DSOS_CALL_PREEMPT_def DSOS_CALL_FORK_def DSOS_CALL_WAIT_def DSOS_CALL_EXIT_def DSOS_CALL_SPAWN_def
  DSOS_CALL_SLEEP_def DSOS_CALL_OPEN_RESOURCE_def DSOS_CALL_CLOSE_RESOURCE_def
  DSOS_CALL_DESTROY_RESOURCE_def DSOS_CALL_SHUTDOWN_def DSOS_CALL_SEMOPEN_def
  DSOS_CALL_SEMCLOSE_def DSOS_CALL_SEMPOST_def DSOS_CALL_SEMWAIT_def

lemma handler_settled:
  assumes inv: "kinv k L" and vec: "syscall_vector n = Some f"
    and num: "syscall_num (pcbs k (running k)) = n" and ok: "f k = Inr k'"
  shows "settled k'"
proof (cases "n = DSOS_CALL_SLEEP")
  case True
  with vec have "f = internal_sleep" by (simp add: syscall_vector_def call_numbers)
  with True num ok show ?thesis using internal_sleep_settled [OF inv] by blast
next
  case False
  from handler_runs [OF inv vec False num ok] show ?thesis by (auto simp: settled_def)
qed

lemma trap_preserves:
  assumes inv: "kinv k L" and ok: "disastrOS_trap k = Inr (c, k')"
  shows "c = Exited \<or> (\<exists>L'. kinv k' L' \<and> c = Resume (running k'))"
proof -
  note S = sched_okD [OF kinvD(2) [OF inv]]
  let ?n = "syscall_num (pcbs k (running k))"
  obtain k1 where
    1: "(if ?n < 0 \<or> DSOS_MAX_SYSCALLS < ?n then Inr (set_retvalue DSOS_ESYSCALL_OUT_OF_RANGE k)
         else if ?n = DSOS_MAX_SYSCALLS then Inl Out_of_bounds
         else case syscall_vector ?n of
                None \<Rightarrow> Inr (set_retvalue DSOS_ESYSCALL_NOT_IMPLEMENTED k)
              | Some my_syscall \<Rightarrow> my_syscall k) = Inr k1"
      "(if shutdown_now k1 \<noteq> 0 then main_context_resumed k1
        else if log_file k1 \<and> running k1 = NULL then Inl Null_deref
        else if running k1 \<noteq> NULL then Inr (Resume (running k1), k1)
        else main_context_resumed k1) = Inr (c, k')"
    using ok S(3) unfolding disastrOS_trap_def by (auto simp: res_simps Let_def)
  have "settled k1"
    using 1(1) inv handler_settled [OF inv _ refl]
    by (auto split: if_splits option.splits intro: settledI)
  then consider "shutdown_now k1 \<noteq> 0" | L' where "kinv k1 L'" | L' where "running k1 = NULL" "kinv_idle k1 L'"
    by (auto simp: settled_def)
  then show ?thesis
  proof cases
    case 1
    then show ?thesis using \<open>(if shutdown_now k1 \<noteq> 0 then _ else _) = _\<close>
      by (simp add: main_context_resumed_def)
  next
    case 2
    have "running k1 \<noteq> NULL" by (rule sched_okD(3) [OF kinvD(2) [OF 2]])
    with 1(2) 2 show ?thesis
      by (cases "shutdown_now k1 = 0") (auto simp: main_context_resumed_def)
  next
    case 3
    with 1(2) have "main_context_resumed k1 = Inr (c, k')"
      by (cases "shutdown_now k1 = 0") (auto split: if_splits)
    from kinv_idle_main_context [OF 3(2) this] show ?thesis .
  qed
qed

lemma syscall_preserves:
  assumes inv: "kinv k L" and ok: "disastrOS_syscall k n args = Inr (c, k')"
  shows "c = Exited \<or> (\<exists>L'. kinv k' L' \<and> (c = Resume (running k') \<or> (\<exists>v. c = Returned v) \<and> k' = k))"
proof -
  let ?f = "\<lambda>p. p\<lparr>syscall_args := (\<lambda>i. if i < syscall_numarg n then args i else syscall_args p i),
    syscall_num := n, cpu_state := Saved_context\<rparr>"
  have "kinv (upd_pcb (running k) ?f k) L" by (rule kinv_call [OF inv]) simp
  from trap_preserves [OF this] ok inv show ?thesis
    by (auto simp: disastrOS_syscall_def Let_def res_simps split: if_splits)
qed

section \<open>The timer\<close>

lemma kinv_clock [simp]: "kinv (k\<lparr>disastrOS_time := t\<rparr>) L = kinv k L"
  unfolding kinv_def lists_ok_def sched_ok_def place_ok_def init_ok_def tree_ok_def timer_ok_def
    sem_ok_def sem_links_ok_def wait_ptrs_ok_def sem_fds_ok_def sem_queues_ok_def waiters_ok_def
    owners_ok_def queue_lengths_ok_def sem_ids_ok_def res_ok_def
  by simp

lemma tick_preserves:
  assumes inv: "kinv k L" and ok: "timerInterrupt k = Inr k'"
  shows "\<exists>L'. kinv k' L'"
proof -
  let ?k = "(upd_pcb (running k) (\<lambda>p. p\<lparr>cpu_state := Saved_context\<rparr>) k)
    \<lparr>disastrOS_time := disastrOS_time k + 1\<rparr>"
  have "kinv ?k L" using inv by (simp add: kinv_irrelevant)
  moreover have "internal_schedule ?k = Inr k'"
    using ok by (auto simp: timerInterrupt_def res_simps Let_def)
  ultimately show ?thesis by (rule internal_schedule_preserves)
qed

section \<open>Runs\<close>

lemma step_preserves:
  assumes inv: "kinv k L" and ok: "kernel_step k e = Inr (c, k')"
  shows "c = Exited \<or> (\<exists>L'. kinv k' L')"
proof (cases e)
  case (Syscall n args)
  with ok have "disastrOS_syscall k n args = Inr (c, k')" by (simp add: kernel_step_def)
  from syscall_preserves [OF inv this] show ?thesis by blast
next
  case Tick
  with ok tick_preserves [OF inv, of k'] show ?thesis
    by (auto simp: kernel_step_def res_simps)
qed

end
