(* ===== verification/Safety.thy ===== *)
theory Safety
  imports System_Correct
begin

text \<open>
  Which faults a system call can run into. Every definition of the kernel says where the C code
  would dereference a null pointer, overflow, fail an assertion, leave an array or loop for ever;
  here it is shown which of these can happen in a state that satisfies the invariant.
\<close>

section \<open>Results that fault in known ways only\<close>

definition faults_in :: "fault set \<Rightarrow> 'a res \<Rightarrow> bool" where
  "faults_in F r = (case r of Inl e \<Rightarrow> e \<in> F | Inr _ \<Rightarrow> True)"

lemma faults_in_Inl [simp]: "faults_in F (Inl e) \<longleftrightarrow> e \<in> F"
  by (simp add: faults_in_def)

lemma faults_in_Inr [simp]: "faults_in F (Inr x)"
  by (simp add: faults_in_def)

lemma faults_in_andthen:
  "faults_in F r \<Longrightarrow> (\<And>x. r = Inr x \<Longrightarrow> faults_in F (f x)) \<Longrightarrow> faults_in F (andthen r f)"
  by (cases r) simp_all

lemma faults_in_range: "faults_in F (if b then Inr x else Inl e) \<longleftrightarrow> b \<or> e \<in> F"
  by simp

section \<open>The handlers\<close>

lemma schedule_faults: "kinv k L \<Longrightarrow> faults_in F (internal_schedule k)"
  by (erule schedule_exec) simp_all

lemma make_child_faults:
  assumes "kinv k L"
  shows "faults_in {Null_deref, Signed_overflow} (internal_fork k)"
    "faults_in {Null_deref, Signed_overflow} (internal_spawn k)"
  by (rule make_child_exec [OF assms]; simp add: Let_def)+

lemma wait_faults:
  assumes "kinv k L"
  shows "faults_in {Null_deref} (internal_wait k)"
proof (rule internal_wait_cases [OF assms refl refl refl])
  let ?x = "wait_choice k (int_of_long (syscall_arg k 0)) NULL (L (PCB_children (running k)))"
  assume a: "?x \<in> set (L (PCB_children (running k)))" "status (pcbs k (pcb_ptrs k ?x)) = Zombie"
    "internal_wait k = wait_reap k ?x (pcb_ptrs k ?x) (syscall_arg k 1)"
  show ?thesis by (rule wait_reap_exec [OF assms a(1) refl a(2), of "syscall_arg k 1"]) (simp add: a(3))
next
  assume "internal_wait k = wait_block k"
  then show ?thesis by (rule_tac wait_block_exec [OF assms]) simp_all
qed simp

lemma exit_faults:
  assumes inv: "kinv k L"
    and "running k \<noteq> init_pcb k \<or> L (PCB_children (init_pcb k)) = []"
  shows "faults_in {Null_deref} (internal_exit k)"
proof (cases "running k = init_pcb k")
  case True
  with assms(2) show ?thesis by (simp add: internal_exit_init [OF inv])
next
  case me: False
  let ?me = "running k" and ?par = "parent (pcbs k (running k))"
  show ?thesis
  proof (cases "?par = NULL")
    case True
    then show ?thesis by (simp add: internal_exit_orphan [OF inv me])
  next
    case False
    show ?thesis
    proof (rule exit_prefix_exec [OF inv refl me refl refl False])
      fix k4 L4 g
      assume 4: "kinv_idle k4 L4"
        "internal_exit k = (if awaited_by_parent k ?me then exit_to_parent k4 ?me else exit_to_next k4)"
        "L4 = L(PCB_children ?me := [],
           PCB_children (init_pcb k) := L (PCB_children (init_pcb k)) @ L (PCB_children ?me),
           zombie_list := L zombie_list @ [?me])"
        "pcbs k4 = (\<lambda>p. (pcbs k p)\<lparr>signals := g p\<rparr>)
           (?me := (pcbs k ?me)\<lparr>signals := g ?me, return_value := int_of_long (syscall_arg k 0),
              status := Zombie\<rparr>)"
      show ?thesis
      proof (cases "awaited_by_parent k ?me")
        case True
        then have w: "status (pcbs k ?par) = Waiting" "syscall_num (pcbs k ?par) = DSOS_CALL_WAIT"
          by (simp_all add: awaited_by_parent_def Let_def)
        then have p: "?me \<in> set (L4 zombie_list)" "?par = parent (pcbs k4 ?me)"
          "?par \<in> set (L4 waiting_list)" "syscall_num (pcbs k4 ?par) = DSOS_CALL_WAIT"
          using awaited_facts [OF inv w(1)] by (simp_all add: 4(3,4))
        show ?thesis using 4(2) True by (rule_tac exit_to_parent_exec [OF 4(1) p]) simp_all
      next
        case False
        then show ?thesis using 4(2) by (rule_tac exit_to_next_exec [OF 4(1)]) simp_all
      qed
    qed
  qed
qed

lemma sleep_faults:
  assumes "kinv k L" and "syscall_num (pcbs k (running k)) = DSOS_CALL_SLEEP"
  shows "faults_in {Null_deref, Signed_overflow} (internal_sleep k)"
  by (rule sleep_exec [OF assms refl]) simp_all

lemma openResource_descriptor_faults:
  assumes "kinv k L" and "r = NULL \<or> r \<in> set (L resources_list)"
  shows "faults_in {Null_deref, Signed_overflow} (openResource_descriptor k r ty m)"
  by (rule openResource_descriptor_exec [OF assms refl, of ty m]) simp_all

lemma openResource_faults:
  assumes inv: "kinv k L"
  shows "faults_in {Null_deref, Signed_overflow} (internal_openResource k)"
proof (rule openResource_cases [OF inv refl refl refl])
  fix r k1
  assume "kinv k1 (L(resources_list := L resources_list @ [r]))"
    "internal_openResource k = openResource_descriptor k1 r (int_of_long (syscall_arg k 1))
       (int_of_long (syscall_arg k 2))"
  then show ?thesis using openResource_descriptor_faults [of k1 _ r] by simp
next
  fix r
  assume "r \<in> set (L resources_list)" "internal_openResource k =
    openResource_descriptor k r (int_of_long (syscall_arg k 1)) (int_of_long (syscall_arg k 2))"
  then show ?thesis using openResource_descriptor_faults [OF inv, of r] by simp
qed simp_all

lemma closeResource_faults:
  assumes inv: "kinv k L"
  shows "faults_in F (internal_closeResource k)"
proof (cases "\<exists>d \<in> set (L (PCB_descriptors (running k))).
    int_of_long (syscall_arg k 0) = d_fd (descriptors k d)")
  case True
  then obtain d where "d \<in> set (L (PCB_descriptors (running k)))"
    "int_of_long (syscall_arg k 0) = d_fd (descriptors k d)" by blast
  from closeResource_exec [OF inv this refl refl] show ?thesis by (metis faults_in_Inr)
next
  case False
  then show ?thesis by (subst closeResource_missing [OF inv]) auto
qed

lemma destroyResource_faults:
  assumes inv: "kinv k L"
  shows "faults_in F (internal_destroyResource k)"
proof (cases "\<exists>r \<in> set (L resources_list). int_of_long (syscall_arg k 0) = res_id (resources k r)")
  case True
  then obtain r where r: "r \<in> set (L resources_list)"
    "int_of_long (syscall_arg k 0) = res_id (resources k r)" by blast
  show ?thesis by (rule destroyResource_exec [OF inv r]) simp_all
next
  case False
  then show ?thesis by (subst destroyResource_missing [OF inv]) auto
qed

lemma semOpen_descriptor_faults:
  assumes "kinv k L" and "s \<in> set (L semaphores_list)"
    and "\<And>e. e \<in> set (L (PCB_sem_descriptors (running k))) \<Longrightarrow>
      sd_semaphore (sem_descriptors k e) \<noteq> s"
  shows "faults_in {Signed_overflow} (semOpen_descriptor k s)"
  by (rule semOpen_descriptor_exec [OF assms refl]) simp_all

lemma semOpen_faults:
  assumes inv: "kinv k L"
  shows "faults_in {Signed_overflow} (internal_semOpen k)"
proof (rule semOpen_cases [OF inv refl refl])
  fix s
  assume "s \<in> set (L semaphores_list)" "internal_semOpen k = semOpen_descriptor k s"
    and "\<And>e. e \<in> set (L (PCB_sem_descriptors (running k))) \<Longrightarrow> sd_semaphore (sem_descriptors k e) \<noteq> s"
  then show ?thesis using semOpen_descriptor_faults [OF inv, of s] by simp
next
  fix s k1 L1
  assume "L1 = L(semaphores_list := L semaphores_list @ [s])" "kinv k1 L1" "running k1 = running k"
    "sem_descriptors k1 = sem_descriptors k" "internal_semOpen k = semOpen_descriptor k1 s"
    and "\<And>e. e \<in> set (L (PCB_sem_descriptors (running k))) \<Longrightarrow> sd_semaphore (sem_descriptors k e) \<noteq> s"
  then show ?thesis using semOpen_descriptor_faults [of k1 L1 s] by simp
qed simp_all

lemma no_descriptorD:
  "\<not> (\<exists>d \<in> D. f = sd_fd (sem_descriptors k d)) \<Longrightarrow> \<forall>d \<in> D. sd_fd (sem_descriptors k d) \<noteq> f"
  by auto

lemma semClose_faults:
  assumes inv: "kinv k L"
  shows "faults_in F (internal_semClose k)"
proof (cases "\<exists>d \<in> set (L (PCB_sem_descriptors (running k))).
    int_of_long (syscall_arg k 0) = sd_fd (sem_descriptors k d)")
  case True
  then obtain d where "d \<in> set (L (PCB_sem_descriptors (running k)))"
    "int_of_long (syscall_arg k 0) = sd_fd (sem_descriptors k d)" by blast
  from semClose_exec [OF inv this refl refl] show ?thesis by (metis faults_in_Inr)
qed (simp add: sem_missing(3) [OF inv no_descriptorD])

lemma semPost_faults:
  assumes inv: "kinv k L"
  shows "faults_in {Signed_overflow} (internal_semPost k)"
proof (cases "\<exists>d \<in> set (L (PCB_sem_descriptors (running k))).
    int_of_long (syscall_arg k 0) = sd_fd (sem_descriptors k d)")
  case True
  then obtain d where d: "d \<in> set (L (PCB_sem_descriptors (running k)))"
    "int_of_long (syscall_arg k 0) = sd_fd (sem_descriptors k d)" by blast
  let ?s = "sd_semaphore (sem_descriptors k d)"
  show ?thesis
  proof (cases "0 \<le> sem_count (semaphores k ?s) \<or> L (Semaphore_waiting ?s) = []")
    case True
    show ?thesis by (subst semPost_plain [OF inv d refl True]) simp
  next
    case False
    then obtain x xs where w: "L (Semaphore_waiting ?s) = x # xs" "sem_count (semaphores k ?s) < 0"
      by (cases "L (Semaphore_waiting ?s)") auto
    show ?thesis by (rule semPost_wake [OF inv d refl w(2,1) refl]) simp
  qed
qed (simp add: sem_missing(2) [OF inv no_descriptorD])

lemma semWait_faults:
  assumes inv: "kinv k L"
  shows "faults_in {Signed_overflow} (internal_semWait k)"
proof (cases "\<exists>d \<in> set (L (PCB_sem_descriptors (running k))).
    int_of_long (syscall_arg k 0) = sd_fd (sem_descriptors k d)")
  case True
  then obtain d where d: "d \<in> set (L (PCB_sem_descriptors (running k)))"
    "int_of_long (syscall_arg k 0) = sd_fd (sem_descriptors k d)" by blast
  let ?s = "sd_semaphore (sem_descriptors k d)"
  show ?thesis
  proof (cases "0 < sem_count (semaphores k ?s)")
    case True
    show ?thesis by (subst semWait_pass(1) [OF inv d refl True]) simp
  next
    case False
    then have c: "sem_count (semaphores k ?s) \<le> 0" by simp
    show ?thesis
    proof (cases "L ready_list")
      case Nil
      show ?thesis by (rule semWait_deadlock [OF inv d refl c Nil]) simp
    next
      case (Cons r rs)
      show ?thesis by (rule semWait_block [OF inv d refl refl c Cons]) simp
    qed
  qed
qed (simp add: sem_missing(1) [OF inv no_descriptorD])

section \<open>Every system call\<close>

text \<open>The faults of each call, by its number.\<close>

definition call_faults :: "int \<Rightarrow> fault set" where
  "call_faults n =
     (if n \<in> {DSOS_CALL_FORK, DSOS_CALL_SPAWN, DSOS_CALL_SLEEP, DSOS_CALL_OPEN_RESOURCE}
      then {Null_deref, Signed_overflow}
      else if n \<in> {DSOS_CALL_WAIT, DSOS_CALL_EXIT} then {Null_deref}
      else if n \<in> {DSOS_CALL_SEMOPEN, DSOS_CALL_SEMPOST, DSOS_CALL_SEMWAIT} then {Signed_overflow}
      else {})"

lemma handler_faults:
  assumes inv: "kinv k L" and vec: "syscall_vector n = Some f"
    and num: "syscall_num (pcbs k (running k)) = n"
    and "n = DSOS_CALL_EXIT \<Longrightarrow> running k \<noteq> init_pcb k \<or> L (PCB_children (init_pcb k)) = []"
  shows "faults_in (call_faults n) (f k)"
proof -
  consider "f = internal_preempt" | "n = DSOS_CALL_FORK" "f = internal_fork"
    | "n = DSOS_CALL_SPAWN" "f = internal_spawn" | "n = DSOS_CALL_WAIT" "f = internal_wait"
    | "n = DSOS_CALL_EXIT" "f = internal_exit" | "n = DSOS_CALL_SLEEP" "f = internal_sleep"
    | "n = DSOS_CALL_OPEN_RESOURCE" "f = internal_openResource"
    | "f = internal_closeResource" | "f = internal_destroyResource" | "f = internal_shutdown"
    | "n = DSOS_CALL_SEMOPEN" "f = internal_semOpen" | "f = internal_semClose"
    | "n = DSOS_CALL_SEMPOST" "f = internal_semPost" | "n = DSOS_CALL_SEMWAIT" "f = internal_semWait"
    using vec unfolding syscall_vector_def by (auto split: if_splits)
  then show ?thesis
  proof cases
    case 1
    then show ?thesis by (simp add: internal_preempt_def schedule_faults [OF inv])
  next
    case 2
    then show ?thesis using make_child_faults(1) [OF inv] by (simp add: call_faults_def)
  next
    case 3
    then show ?thesis using make_child_faults(2) [OF inv] by (simp add: call_faults_def)
  next
    case 4
    then show ?thesis using wait_faults [OF inv] by (simp add: call_faults_def call_numbers)
  next
    case 5
    then show ?thesis using exit_faults [OF inv] assms(4) by (simp add: call_faults_def call_numbers)
  next
    case 6
    then show ?thesis using sleep_faults [OF inv] num by (simp add: call_faults_def)
  next
    case 7
    then show ?thesis using openResource_faults [OF inv] by (simp add: call_faults_def)
  next
    case 8
    then show ?thesis by (simp add: closeResource_faults [OF inv])
  next
    case 9
    then show ?thesis by (simp add: destroyResource_faults [OF inv])
  next
    case 10
    then show ?thesis by (simp add: internal_shutdown_def)
  next
    case 11
    then show ?thesis using semOpen_faults [OF inv] by (simp add: call_faults_def call_numbers)
  next
    case 12
    then show ?thesis by (simp add: semClose_faults [OF inv])
  next
    case 13
    then show ?thesis using semPost_faults [OF inv] by (simp add: call_faults_def call_numbers)
  next
    case 14
    then show ?thesis using semWait_faults [OF inv] by (simp add: call_faults_def call_numbers)
  qed
qed

lemma main_context_faults:
  assumes "kinv_idle k L"
  shows "faults_in {Null_deref, Signed_overflow} (main_context_resumed k)"
proof (cases "shutdown_now k = 0")
  case True
  note K = kinv_idleD [OF assms]
  show ?thesis by (rule main_context_exec [OF K(1,2,4-8) True]) simp_all
qed (simp add: main_context_resumed_def)

lemma trap_faults:
  assumes inv: "kinv k L" and n: "n = syscall_num (pcbs k (running k))" "n \<noteq> DSOS_MAX_SYSCALLS"
    and ex: "n = DSOS_CALL_EXIT \<Longrightarrow> running k \<noteq> init_pcb k \<or> L (PCB_children (init_pcb k)) = []"
  shows "faults_in (call_faults n) (disastrOS_trap k)"
proof -
  note S = sched_okD [OF kinvD(2) [OF inv]]
  let ?go = "if n < 0 \<or> DSOS_MAX_SYSCALLS < n then Inr (set_retvalue DSOS_ESYSCALL_OUT_OF_RANGE k)
         else if n = DSOS_MAX_SYSCALLS then Inl Out_of_bounds
         else case syscall_vector n of
                None \<Rightarrow> Inr (set_retvalue DSOS_ESYSCALL_NOT_IMPLEMENTED k)
              | Some my_syscall \<Rightarrow> my_syscall k"
  let ?fin = "\<lambda>k1. if shutdown_now k1 \<noteq> 0 then main_context_resumed k1
        else if log_file k1 \<and> running k1 = NULL then Inl Null_deref
        else if running k1 \<noteq> NULL then Inr (Resume (running k1), k1)
        else main_context_resumed k1"
  have trap: "disastrOS_trap k = andthen ?go ?fin"
    using S(3) by (simp add: disastrOS_trap_def n(1) Let_def)
  have "faults_in (call_faults n) ?go"
    using handler_faults [OF inv _ n(1) [symmetric] ex] n(2) by (auto split: option.splits)
  moreover have "faults_in (call_faults n) (?fin k1)" if go: "?go = Inr k1" for k1
  proof -
    have down: "faults_in (call_faults n) (?fin k1)" if "shutdown_now k1 \<noteq> 0"
      using that by (simp add: main_context_resumed_def)
    have runs: "faults_in (call_faults n) (?fin k1)" if "kinv k1 L'" for L'
      using sched_okD(3) [OF kinvD(2) [OF that]] by (simp add: main_context_resumed_def)
    show ?thesis
    proof (cases "n = DSOS_CALL_SLEEP")
      case True
      then have "settled k1"
        using go inv handler_settled [OF inv _ n(1) [symmetric]]
        by (auto split: if_splits option.splits intro: settledI)
      then consider "shutdown_now k1 \<noteq> 0" | L' where "kinv k1 L'"
        | L' where "shutdown_now k1 = 0" "running k1 = NULL" "kinv_idle k1 L'"
        by (auto simp: settled_def)
      then show ?thesis
      proof cases
        case 3
        have "call_faults n = {Null_deref, Signed_overflow}" using True by (simp add: call_faults_def)
        with 3 main_context_faults [OF 3(3)] show ?thesis by simp
      qed (use down runs in blast)+
    next
      case False
      then have "shutdown_now k1 \<noteq> 0 \<or> (\<exists>L'. kinv k1 L')"
        using go inv handler_runs [OF inv _ _ n(1) [symmetric]] kinv_set_retvalue [of _ k L]
        by (auto split: if_splits option.splits)
      with down runs show ?thesis by blast
    qed
  qed
  ultimately show ?thesis unfolding trap by (rule faults_in_andthen)
qed

lemma syscall_faults_in:
  assumes inv: "kinv k L" and n: "n \<noteq> DSOS_MAX_SYSCALLS"
    and ex: "n = DSOS_CALL_EXIT \<Longrightarrow> running k \<noteq> init_pcb k \<or> L (PCB_children (init_pcb k)) = []"
  shows "faults_in (call_faults n) (disastrOS_syscall k n args)"
proof -
  let ?f = "\<lambda>p. p\<lparr>syscall_args := (\<lambda>i. if i < syscall_numarg n then args i else syscall_args p i),
    syscall_num := n, cpu_state := Saved_context\<rparr>"
  have "kinv (upd_pcb (running k) ?f k) L" by (rule kinv_call [OF inv]) simp
  from trap_faults [OF this, of n] n ex sched_okD(3) [OF kinvD(2) [OF inv]]
  show ?thesis by (simp add: disastrOS_syscall_def Let_def)
qed

end
