(* ===== verification/Boot.thy ===== *)
theory Boot
  imports System_Correct
begin

text \<open>
  The start of the system: from zeroed memory and under a layout in which the static buffers
  are disjoint, \<open>disastrOS_start\<close> reaches a kernel that satisfies the invariant, so the
  invariant holds in every state a run of the system reaches.
\<close>

section \<open>Layouts\<close>

text \<open>
  The documented guarantees of the compiler and the linker: sizes are positive and those of
  small structs, no buffer is at address 0, and two static buffers do not overlap.
\<close>

definition layout_ok :: "layout \<Rightarrow> bool" where
  "layout_ok ly \<longleftrightarrow>
     (\<forall>i. 0 < sizeof_block ly i \<and> sizeof_block ly i < 65000 \<and> 0 < buffer_base ly i) \<and>
     (\<forall>i j. i \<noteq> j \<longrightarrow>
        buffer_base ly i + 1024 * sizeof_block ly i \<le> buffer_base ly j \<or>
        buffer_base ly j + 1024 * sizeof_block ly j \<le> buffer_base ly i)"

definition fresh_pool :: "layout \<Rightarrow> pool_id \<Rightarrow> PoolAllocator \<Rightarrow> bool" where
  "fresh_pool ly i a \<longleftrightarrow> pool_inv a \<and> live_blocks a = {} \<and> pool_room a = 1024 \<and>
     pool_span a \<subseteq> {buffer_base ly i..<buffer_base ly i + 1024 * sizeof_block ly i}"

lemma pool_init_exec:
  assumes ly: "layout_ok ly" and cap: "1024 \<le> cap" "cap \<le> 32768"
  obtains a where "pool_init ly i 1024 cap k = Inr (k\<lparr>pools := (pools k)(i := a)\<rparr>)" "fresh_pool ly i a"
proof -
  let ?s = "sizeof_block ly i" and ?b = "buffer_base ly i"
  have s: "0 < ?s" "?s < 65000" "0 < ?b" using ly by (simp_all add: layout_ok_def)
  have "cap * (?s + 4) \<le> 32768 * 65004" by (rule mult_mono) (use cap s in auto)
  moreover have "0 \<le> cap * (?s + 4)" using cap s by simp
  ultimately have mem: "int_of_long (cap * (?s + SIZEOF_INT)) = cap * (?s + SIZEOF_INT)"
    by (intro int_of_long_id) (simp add: in_int_range_def SIZEOF_INT_def)
  have "int 1024 * (?s + SIZEOF_INT) \<le> cap * (?s + SIZEOF_INT)"
    by (rule mult_right_mono) (use cap s in \<open>simp_all add: SIZEOF_INT_def\<close>)
  moreover have "int 1024 * (?s + SIZEOF_INT) < 2 ^ 31" using s by (simp add: SIZEOF_INT_def)
  ultimately obtain a where
    a: "PoolAllocator_init (pools k i) ?s (int 1024) ?b (cap * (?s + SIZEOF_INT)) = Inr (Success, a)"
      "pool_wf a (map int [0..<1024])" "size_max a = int 1024" "item_size a = ?s" "buffer a = ?b"
    using init_pool_wf [of 1024 ?s ?b "cap * (?s + SIZEOF_INT)" "pools k i"] s by auto
  have "live_blocks a = {}"
    unfolding live_blocks_wf [OF a(2)] a(3) by (auto simp: image_int_atLeastLessThan)
  moreover have "pool_span a \<subseteq> {?b..<?b + 1024 * ?s}"
  proof
    fix x
    assume "x \<in> pool_span a"
    then obtain j where j: "x = ?b + j * ?s" "0 \<le> j" "j < 1024"
      by (auto simp: pool_span_def block_at_def a)
    have "j * ?s \<le> 1023 * ?s" by (rule mult_right_mono) (use j s in auto)
    moreover have "0 \<le> j * ?s" using j s by simp
    ultimately show "x \<in> {?b..<?b + 1024 * ?s}" using j s by simp
  qed
  moreover have "pool_inv a" "pool_room a = 1024"
    using a(2) pool_room_wf [OF a(2)] by (auto simp: pool_inv_def)
  ultimately have "fresh_pool ly i a" by (simp add: fresh_pool_def)
  moreover have "pool_init ly i 1024 cap k = Inr (k\<lparr>pools := (pools k)(i := a)\<rparr>)"
    using a(1) by (simp add: pool_init_def mem)
  ultimately show thesis by (rule that [rotated])
qed

section \<open>The pools after the start\<close>

lemma fresh_pools_ok:
  assumes ly: "layout_ok ly" and fresh: "\<And>i. fresh_pool ly i (ps i)"
  shows "pools_ok ps" "pools_live ps = (\<lambda>_. {})" "pools_room ps = (\<lambda>_. 1024)"
proof -
  have "pool_span (ps i) \<inter> pool_span (ps j) = {}" if "i \<noteq> j" for i j
  proof -
    have "buffer_base ly i + 1024 * sizeof_block ly i \<le> buffer_base ly j \<or>
        buffer_base ly j + 1024 * sizeof_block ly j \<le> buffer_base ly i"
      using ly that by (simp add: layout_ok_def)
    then have "{buffer_base ly i..<buffer_base ly i + 1024 * sizeof_block ly i} \<inter>
        {buffer_base ly j..<buffer_base ly j + 1024 * sizeof_block ly j} = {}" by auto
    then show ?thesis using fresh [of i] fresh [of j] unfolding fresh_pool_def by blast
  qed
  then show "pools_ok ps" using fresh by (simp add: pools_ok_def fresh_pool_def)
  show "pools_live ps = (\<lambda>_. {})" "pools_room ps = (\<lambda>_. 1024)"
    using fresh by (simp_all add: fun_eq_iff pools_live_def pools_room_def fresh_pool_def)
qed

text \<open>The nine initialisations: every pool is fresh, and nothing else has changed.\<close>

lemma start_pools_exec:
  assumes ly: "layout_ok ly"
  obtains ps where "\<And>i. fresh_pool ly i (ps i)"
    "andthen (PCB_init ly k) (\<lambda>k1.
     andthen (Timer_init ly k1) (\<lambda>k2.
     andthen (Resource_init ly k2) (\<lambda>k3.
     andthen (Descriptor_init ly k3) (\<lambda>k4.
     andthen (Semaphore_init ly k4) (\<lambda>k5.
     andthen (SemDescriptor_init ly k5) f))))) = f (k\<lparr>pools := ps\<rparr>)"
proof -
  have c: "(1024::int) \<le> 1024" "(1024::int) \<le> 32768" by simp_all
  have c2: "(1024::int) \<le> 32768" "(32768::int) \<le> 32768" by simp_all
  note limits = MAX_NUM_PROCESSES_def MAX_NUM_RESOURCES_def MAX_NUM_SEMAPHORES_def
  obtain a1 where 1: "pool_init ly pcb_pool 1024 1024 k = Inr (k\<lparr>pools := (pools k)(pcb_pool := a1)\<rparr>)"
    "fresh_pool ly pcb_pool a1" by (rule pool_init_exec [OF ly c])
  define k1 where "k1 = k\<lparr>pools := (pools k)(pcb_pool := a1)\<rparr>"
  obtain a2 where 2: "pool_init ly pcb_ptr_pool 1024 1024 k1 =
      Inr (k1\<lparr>pools := (pools k1)(pcb_ptr_pool := a2)\<rparr>)"
    "fresh_pool ly pcb_ptr_pool a2" by (rule pool_init_exec [OF ly c])
  define k2 where "k2 = k1\<lparr>pools := (pools k1)(pcb_ptr_pool := a2)\<rparr>"
  obtain a3 where 3: "pool_init ly timer_pool 1024 1024 k2 =
      Inr (k2\<lparr>pools := (pools k2)(timer_pool := a3)\<rparr>)"
    "fresh_pool ly timer_pool a3" by (rule pool_init_exec [OF ly c])
  define k3 where "k3 = k2\<lparr>pools := (pools k2)(timer_pool := a3)\<rparr>"
  obtain a4 where 4: "pool_init ly resource_pool 1024 1024 k3 =
      Inr (k3\<lparr>pools := (pools k3)(resource_pool := a4)\<rparr>)"
    "fresh_pool ly resource_pool a4" by (rule pool_init_exec [OF ly c])
  define k4 where "k4 = k3\<lparr>pools := (pools k3)(resource_pool := a4)\<rparr>"
  obtain a5 where 5: "pool_init ly descriptor_pool 1024 32768 k4 =
      Inr (k4\<lparr>pools := (pools k4)(descriptor_pool := a5)\<rparr>)"
    "fresh_pool ly descriptor_pool a5" by (rule pool_init_exec [OF ly c2])
  define k5 where "k5 = k4\<lparr>pools := (pools k4)(descriptor_pool := a5)\<rparr>"
  obtain a6 where 6: "pool_init ly descriptor_ptr_pool 1024 32768 k5 =
      Inr (k5\<lparr>pools := (pools k5)(descriptor_ptr_pool := a6)\<rparr>)"
    "fresh_pool ly descriptor_ptr_pool a6" by (rule pool_init_exec [OF ly c2])
  define k6 where "k6 = k5\<lparr>pools := (pools k5)(descriptor_ptr_pool := a6)\<rparr>"
  obtain a7 where 7: "pool_init ly semaphore_pool 1024 1024 k6 =
      Inr (k6\<lparr>pools := (pools k6)(semaphore_pool := a7)\<rparr>)"
    "fresh_pool ly semaphore_pool a7" by (rule pool_init_exec [OF ly c])
  define k7 where "k7 = k6\<lparr>pools := (pools k6)(semaphore_pool := a7)\<rparr>"
  obtain a8 where 8: "pool_init ly sem_descriptor_pool 1024 32768 k7 =
      Inr (k7\<lparr>pools := (pools k7)(sem_descriptor_pool := a8)\<rparr>)"
    "fresh_pool ly sem_descriptor_pool a8" by (rule pool_init_exec [OF ly c2])
  define k8 where "k8 = k7\<lparr>pools := (pools k7)(sem_descriptor_pool := a8)\<rparr>"
  obtain a9 where 9: "pool_init ly sem_descriptor_ptr_pool 1024 32768 k8 =
      Inr (k8\<lparr>pools := (pools k8)(sem_descriptor_ptr_pool := a9)\<rparr>)"
    "fresh_pool ly sem_descriptor_ptr_pool a9" by (rule pool_init_exec [OF ly c2])
  let ?ps = "(pools k8)(sem_descriptor_ptr_pool := a9)"
  show thesis
  proof (rule that [of ?ps])
    show "fresh_pool ly i (?ps i)" for i
      using 1(2) 2(2) 3(2) 4(2) 5(2) 6(2) 7(2) 8(2) 9(2)
      by (cases i) (simp_all add: k8_def k7_def k6_def k5_def k4_def k3_def k2_def k1_def)
    show "andthen (PCB_init ly k) (\<lambda>k1.
     andthen (Timer_init ly k1) (\<lambda>k2.
     andthen (Resource_init ly k2) (\<lambda>k3.
     andthen (Descriptor_init ly k3) (\<lambda>k4.
     andthen (Semaphore_init ly k4) (\<lambda>k5.
     andthen (SemDescriptor_init ly k5) f))))) = f (k\<lparr>pools := ?ps\<rparr>)"
      using 1(1) 2(1) 3(1) 4(1) 5(1) 6(1) 7(1) 8(1) 9(1)
      by (simp add: PCB_init_def Timer_init_def Resource_init_def Descriptor_init_def
          Semaphore_init_def SemDescriptor_init_def limits MAX_NUM_DESCRIPTORS_def
          MAX_NUM_SEMDESCRIPTORS_def MAX_NUM_DESCRIPTORS_PER_PROCESS_def
          MAX_NUM_SEMDESCRIPTORS_PER_PROCESS_def k1_def [symmetric] k2_def [symmetric]
          k3_def [symmetric] k4_def [symmetric] k5_def [symmetric] k6_def [symmetric]
          k7_def [symmetric] k8_def [symmetric])
        (simp add: k8_def k7_def k6_def k5_def k4_def k3_def k2_def k1_def)
  qed
qed

section \<open>The start\<close>

lemma start_runs:
  assumes ly: "layout_ok ly"
  obtains ps where "\<And>i. fresh_pool ly i (ps i)"
    "disastrOS_start ly f a logfile boot_kernel =
      main_context_resumed (boot_kernel\<lparr>pools := ps, start_f := f, start_args := a, log_file := logfile\<rparr>)"
proof -
  define g where "g = (\<lambda>k6 :: kernel.
     let k7 = k6\<lparr>init_pcb := NULL, running := NULL\<rparr>;
         k8 = List_init k7 ready_list;
         k9 = List_init k8 waiting_list;
         k10 = List_init k9 zombie_list;
         k11 = List_init k10 resources_list;
         k12 = List_init k11 semaphores_list;
         k13 = List_init k12 timer_list
     in main_context_resumed (k13\<lparr>start_f := f, start_args := a, log_file := logfile\<rparr>))"
  obtain ps where ps: "\<And>i. fresh_pool ly i (ps i)"
    and go: "andthen (PCB_init ly boot_kernel) (\<lambda>k1.
     andthen (Timer_init ly k1) (\<lambda>k2.
     andthen (Resource_init ly k2) (\<lambda>k3.
     andthen (Descriptor_init ly k3) (\<lambda>k4.
     andthen (Semaphore_init ly k4) (\<lambda>k5.
     andthen (SemDescriptor_init ly k5) g))))) = g (boot_kernel\<lparr>pools := ps\<rparr>)"
    by (rule start_pools_exec [OF ly, of boot_kernel g]) (rule that)
  have "disastrOS_start ly f a logfile boot_kernel = g (boot_kernel\<lparr>pools := ps\<rparr>)"
    unfolding disastrOS_start_def g_def by (rule go [unfolded g_def])
  also have "\<dots> = main_context_resumed
      (boot_kernel\<lparr>pools := ps, start_f := f, start_args := a, log_file := logfile\<rparr>)"
    unfolding g_def Let_def List_init_def
    by (rule arg_cong [where f = main_context_resumed]) (simp add: boot_kernel_def fun_eq_iff)
  finally show ?thesis by (rule that [OF ps])
qed

lemma start_exec:
  assumes ly: "layout_ok ly"
  obtains p k where "disastrOS_start ly f a logfile boot_kernel = Inr (Resume p, k)"
    "running k = p" "init_pcb k = p" "kinv k (\<lambda>_. [])" "pid (pcbs k p) = 0" "shutdown_now k = 0"
    "status (pcbs k p) = Running" "disastrOS_time k = 0" "last_pid k = 1"
proof -
  obtain ps where ps: "\<And>i. fresh_pool ly i (ps i)"
    and run: "disastrOS_start ly f a logfile boot_kernel =
      main_context_resumed (boot_kernel\<lparr>pools := ps, start_f := f, start_args := a, log_file := logfile\<rparr>)"
    by (rule start_runs [OF ly, of f a logfile]) (rule that)
  let ?k = "boot_kernel\<lparr>pools := ps, start_f := f, start_args := a, log_file := logfile\<rparr>"
  let ?L = "\<lambda>_::hloc. [] :: addr list"
  note P = fresh_pools_ok [OF ly ps]
  have rep: "list_rep (links ?k) (heads ?k) ?L"
    by (simp add: list_rep_def dll_def boot_kernel_def)
  have lists: "lists_ok ?k ?L" using rep P(1) by (simp add: lists_ok_def typed_lists_def)
  have place: "idle_place_ok ?k ?L" by (simp add: idle_place_ok_def P(2) boot_kernel_def)
  have pids: "pids_ok (pcbs ?k) (last_pid ?k) (pools_live (pools ?k) pcb_pool)"
    by (simp add: pids_ok_def P(2))
  have parts: "tree_ok ?k ?L" "timer_ok ?k ?L" "sem_ok ?k ?L" "res_ok ?k ?L"
    by (simp_all add: tree_ok_def timer_ok_def sem_ok_def sem_links_ok_def wait_ptrs_ok_def
        sem_fds_ok_def sem_queues_ok_def waiters_ok_def owners_ok_def queue_lengths_ok_def
        sem_ids_ok_def res_ok_def P(2,3) boot_kernel_def)
  have down: "shutdown_now ?k = 0" by (simp add: boot_kernel_def)
  show thesis
  proof (rule main_context_exec [OF lists place pids parts down])
    assume "pools_room (pools ?k) pcb_pool = 0"
    then show thesis by (simp add: P(3))
  next
    assume "\<not> in_int_range (last_pid ?k + 1)"
    then show thesis by (simp add: boot_kernel_def in_int_range_def)
  next
    fix p k
    assume a: "main_context_resumed ?k = Inr (Resume p, k)" "running k = p" "init_pcb k = p"
      "kinv k (?L(PCB_descriptors p := [], PCB_children p := [], PCB_sem_descriptors p := []))"
      "pid (pcbs k p) = last_pid ?k" "status (pcbs k p) = Running" "shutdown_now k = 0"
      "disastrOS_time k = disastrOS_time ?k" "last_pid k = last_pid ?k + 1"
    have L: "?L(PCB_descriptors p := [], PCB_children p := [], PCB_sem_descriptors p := []) = ?L"
      by (simp add: fun_eq_iff)
    show thesis
      by (rule that [OF _ a(2,3)]) (use a run in \<open>simp_all add: L boot_kernel_def\<close>)
  qed
qed

section \<open>Transition systems with an invariant\<close>

locale invariant_system =
  fixes trans :: "'s \<Rightarrow> 'e \<Rightarrow> 's \<Rightarrow> bool"
    and run :: "'s \<Rightarrow> 'e list \<Rightarrow> 's \<Rightarrow> bool"
    and ok :: "'s \<Rightarrow> bool"
  assumes run_nil: "run s [] s' \<Longrightarrow> s' = s"
    and run_cons: "run s (e # es) s' \<Longrightarrow> \<exists>s1. trans s e s1 \<and> run s1 es s'"
    and trans_ok: "ok s \<Longrightarrow> trans s e s' \<Longrightarrow> ok s'"
begin

lemma run_ok: "ok s \<Longrightarrow> run s es s' \<Longrightarrow> ok s'"
  by (induction es arbitrary: s) (use run_nil run_cons trans_ok in blast)+

lemma run_step_ok: "ok s \<Longrightarrow> run s es s' \<Longrightarrow> trans s' e s'' \<Longrightarrow> ok s' \<and> ok s''"
  using run_ok trans_ok by blast

end

inductive_cases kernel_run_nilE: "kernel_run k [] k'"
inductive_cases kernel_run_consE: "kernel_run k (e # es) k'"

definition kernel_trans :: "kernel \<Rightarrow> event \<Rightarrow> kernel \<Rightarrow> bool" where
  "kernel_trans k e k' \<longleftrightarrow> (\<exists>c. kernel_step k e = Inr (c, k') \<and> c \<noteq> Exited)"

definition kernel_ok :: "kernel \<Rightarrow> bool" where
  "kernel_ok k \<longleftrightarrow> (\<exists>L. kinv k L)"

interpretation kernel_system: invariant_system kernel_trans kernel_run kernel_ok
proof unfold_locales
  show "k' = k" if "kernel_run k [] k'" for k k' using that by (rule kernel_run_nilE)
  show "\<exists>k1. kernel_trans k e k1 \<and> kernel_run k1 es k'" if "kernel_run k (e # es) k'" for k e es k'
    using that by (auto simp: kernel_trans_def elim: kernel_run_consE)
  show "kernel_ok k'" if "kernel_ok k" "kernel_trans k e k'" for k e k'
    using that step_preserves unfolding kernel_ok_def kernel_trans_def by blast
qed

end
