(* ===== verification/Demo.thy ===== *)
theory Demo
  imports Kernel_Inv
begin

text \<open>
  A concrete kernel that satisfies the invariant. \<open>demo_kernel\<close> is a system with
  five processes (one running, one ready, one blocked on a semaphore, one asleep, one zombie),
  two semaphores and two resources: the state on which the properties of the development are
  instantiated. Its variant without a ready process is \<open>demo_kernel True\<close>.
\<close>

section \<open>The example\<close>

fun demo_base :: "pool_id \<Rightarrow> addr" where
  "demo_base pcb_pool = 100"
| "demo_base pcb_ptr_pool = 200"
| "demo_base timer_pool = 300"
| "demo_base resource_pool = 400"
| "demo_base descriptor_pool = 500"
| "demo_base descriptor_ptr_pool = 600"
| "demo_base semaphore_pool = 700"
| "demo_base sem_descriptor_pool = 800"
| "demo_base sem_descriptor_ptr_pool = 900"

fun demo_used :: "pool_id \<Rightarrow> nat" where
  "demo_used pcb_pool = 5"
| "demo_used pcb_ptr_pool = 4"
| "demo_used timer_pool = 1"
| "demo_used resource_pool = 2"
| "demo_used descriptor_pool = 1"
| "demo_used descriptor_ptr_pool = 1"
| "demo_used semaphore_pool = 2"
| "demo_used sem_descriptor_pool = 3"
| "demo_used sem_descriptor_ptr_pool = 6"

definition demo_pools :: "pool_id \<Rightarrow> PoolAllocator" where
  "demo_pools i = small_pool (demo_base i) (demo_used i)"

text \<open>Process 101 is ready, or a zombie when \<open>idle\<close>.\<close>

fun demo_lists :: "bool \<Rightarrow> hloc \<Rightarrow> addr list" where
  "demo_lists idle ready_list = (if idle then [] else [101])"
| "demo_lists idle waiting_list = [102, 103]"
| "demo_lists idle zombie_list = (if idle then [104, 101] else [104])"
| "demo_lists idle resources_list = [400, 401]"
| "demo_lists idle timer_list = [300]"
| "demo_lists idle semaphores_list = [700, 701]"
| "demo_lists idle (PCB_children p) = (if p = 100 then [200, 201, 202, 203] else [])"
| "demo_lists idle (PCB_descriptors p) = (if p = 100 then [500] else [])"
| "demo_lists idle (PCB_sem_descriptors p) =
     (if p = 100 then [800, 801] else if p = 102 then [802] else [])"
| "demo_lists idle (Resource_descriptors r) = (if r = 400 then [600] else [])"
| "demo_lists idle (Semaphore_descriptors s) =
     (if s = 700 then [900, 904] else if s = 701 then [902] else [])"
| "demo_lists idle (Semaphore_waiting s) = (if s = 700 then [905] else [])"

definition demo_locs :: "hloc list" where
  "demo_locs =
     [ready_list, waiting_list, zombie_list, resources_list, timer_list, semaphores_list,
      PCB_children 100, PCB_descriptors 100, PCB_sem_descriptors 100, PCB_sem_descriptors 102,
      Resource_descriptors 400, Semaphore_descriptors 700, Semaphore_descriptors 701,
      Semaphore_waiting 700]"

definition demo_status :: "bool \<Rightarrow> addr \<Rightarrow> ProcessStatus" where
  "demo_status idle p =
     (if p = 100 then Running
      else if p = 101 then (if idle then Zombie else Ready)
      else if p = 102 \<or> p = 103 then Waiting
      else if p = 104 then Zombie
      else Invalid)"

definition demo_pcbs :: "bool \<Rightarrow> addr \<Rightarrow> PCB" where
  "demo_pcbs idle p =
     \<lparr>pid = p - 100, return_value = 7, status = demo_status idle p, signals = 0,
      signals_mask = -1, parent = (if 100 < p \<and> p < 105 then 100 else NULL),
      cpu_state = Saved_context, timer = NULL, last_fd = (if p = 100 then 1 else 0),
      last_sem_fd = (if p = 100 then 2 else if p = 102 then 1 else 0),
      syscall_num = (if p = 102 then DSOS_CALL_SEMWAIT else if p = 103 then DSOS_CALL_SLEEP else 0),
      syscall_args = (\<lambda>_. 0), syscall_retvalue = 0\<rparr>"

definition demo_kernel :: "bool \<Rightarrow> kernel" where
  "demo_kernel idle =
     \<lparr>links = links_of demo_locs (demo_lists idle), heads = heads_of (demo_lists idle),
      pools = demo_pools, pcbs = demo_pcbs idle, pcb_ptrs = (\<lambda>x. x - 99),
      timer_items = (\<lambda>_. \<lparr>awakening_time = 5, t_pcb = 103\<rparr>),
      resources = (\<lambda>r. \<lparr>res_id = r - 393, res_type = 0\<rparr>),
      descriptors = (\<lambda>_. \<lparr>d_pcb = 100, d_resource = 400, d_fd = 0, d_ptr = 600\<rparr>),
      descriptor_ptrs = (\<lambda>_. 500),
      semaphores = (\<lambda>s. \<lparr>sem_id = s - 699, sem_count = (if s = 700 then -1 else 1)\<rparr>),
      sem_descriptors = (\<lambda>d.
        \<lparr>sd_pcb = (if d = 802 then 102 else 100), sd_semaphore = (if d = 801 then 701 else 700),
         sd_fd = (if d = 801 then 1 else 0), sd_ptr = 900 + 2 * (d - 800),
         sd_wait_ptr = 901 + 2 * (d - 800)\<rparr>),
      sem_descriptor_ptrs = (\<lambda>x. 800 + (x - 900) div 2),
      init_pcb = 100, running = 100, last_pid = 5, disastrOS_time = 3, shutdown_now = 0,
      log_file = False, start_f = NULL, start_args = NULL, user_mem = (\<lambda>_. 0)\<rparr>"

lemma demo_base_pos: "0 < demo_base i"
  by (cases i) simp_all

lemma demo_used_small: "demo_used i < 8"
  by (cases i) simp_all

lemma demo_live: "pools_live demo_pools i = {demo_base i..<demo_base i + int (demo_used i)}"
  using small_pool_facts(2) [OF demo_base_pos demo_used_small]
  by (simp add: pools_live_def demo_pools_def)

lemma demo_room: "pools_room demo_pools i = 8 - demo_used i"
  using small_pool_facts(3) [OF demo_base_pos demo_used_small]
  by (simp add: pools_room_def demo_pools_def)

lemma demo_live_sets:
  "pools_live demo_pools pcb_pool = {100, 101, 102, 103, 104}"
  "pools_live demo_pools pcb_ptr_pool = {200, 201, 202, 203}"
  "pools_live demo_pools timer_pool = {300}"
  "pools_live demo_pools resource_pool = {400, 401}"
  "pools_live demo_pools descriptor_pool = {500}"
  "pools_live demo_pools descriptor_ptr_pool = {600}"
  "pools_live demo_pools semaphore_pool = {700, 701}"
  "pools_live demo_pools sem_descriptor_pool = {800, 801, 802}"
  "pools_live demo_pools sem_descriptor_ptr_pool = {900, 901, 902, 903, 904, 905}"
  by (auto simp: demo_live)

lemma demo_pools_ok: "pools_ok demo_pools"
  unfolding pools_ok_def
proof (intro conjI allI impI)
  fix i j :: pool_id
  note F = small_pool_facts [OF demo_base_pos demo_used_small]
  show "pool_inv (demo_pools i)" using F(1) by (simp add: demo_pools_def)
  assume "i \<noteq> j"
  then have "demo_base i + 8 \<le> demo_base j \<or> demo_base j + 8 \<le> demo_base i"
    by (cases i; cases j) simp_all
  then show "pool_span (demo_pools i) \<inter> pool_span (demo_pools j) = {}"
    by (auto simp: demo_pools_def F(4))
qed

lemma demo_lists_outside: "h \<notin> set demo_locs \<Longrightarrow> demo_lists idle h = []"
  by (cases h) (auto simp: demo_locs_def)

lemma demo_list_rep:
  "list_rep (links_of demo_locs (demo_lists idle)) (heads_of (demo_lists idle)) (demo_lists idle)"
  by (rule list_rep_of) (auto simp: demo_lists_outside demo_locs_def)

lemma demo_loose:
  "x \<noteq> NULL \<Longrightarrow> \<forall>h \<in> set demo_locs. x \<notin> set (demo_lists idle h) \<Longrightarrow>
     loose (links (demo_kernel idle)) (demo_lists idle) x"
  using loose_of [OF _ _ demo_lists_outside] by (simp add: demo_kernel_def)

lemma demo_kinv: "kinv (demo_kernel idle) (demo_lists idle)" (is "kinv ?k ?L")
proof -
  have "typed_lists (pools_live demo_pools) ?L"
    unfolding typed_lists_def
  proof
    fix h
    show "set (?L h) \<subseteq> pools_live demo_pools (kind h)"
      by (cases h) (auto simp: demo_live_sets split: if_splits)
  qed
  then have "lists_ok ?k ?L"
    by (simp add: lists_ok_def demo_kernel_def demo_list_rep demo_pools_ok)
  moreover have "loose (links ?k) ?L 100"
    by (rule demo_loose) (simp_all add: demo_locs_def)
  then have "place_ok ?k ?L"
    by (auto simp: place_ok_def demo_live_sets demo_kernel_def demo_pcbs_def demo_status_def)
  moreover have "init_ok ?k ?L"
    by (simp add: init_ok_def demo_live_sets demo_kernel_def demo_pcbs_def)
  moreover have "pids_ok (pcbs ?k) (last_pid ?k) (pools_live (pools ?k) pcb_pool)"
    by (simp add: pids_ok_def demo_live_sets demo_kernel_def demo_pcbs_def inj_on_def)
  moreover have "tree_ok ?k ?L"
    by (auto simp: tree_ok_def demo_live_sets demo_kernel_def)
  moreover have "timer_ok ?k ?L"
    by (simp add: timer_ok_def demo_live_sets demo_kernel_def demo_pcbs_def)
  moreover have "sem_links_ok ?k ?L"
    by (auto simp: sem_links_ok_def demo_live_sets demo_kernel_def split: if_splits)
  moreover have "loose (links ?k) ?L 901" "loose (links ?k) ?L 903"
    by (rule demo_loose; simp add: demo_locs_def)+
  then have "wait_ptrs_ok ?k ?L"
    unfolding wait_ptrs_ok_def by (auto simp: demo_kernel_def split: if_splits)
  moreover have "sem_fds_ok ?k ?L"
    by (auto simp: sem_fds_ok_def demo_kernel_def demo_pcbs_def split: if_splits)
  moreover have "waiters_ok ?k ?L"
    by (auto simp: waiters_ok_def demo_kernel_def demo_pcbs_def split: if_splits)
  moreover have "owners_ok ?k ?L"
    by (auto simp: owners_ok_def split: if_splits)
  moreover have "queue_lengths_ok ?k ?L"
    by (simp add: queue_lengths_ok_def demo_kernel_def)
  moreover have "sem_ids_ok ?k ?L"
    by (simp add: sem_ids_ok_def demo_kernel_def)
  moreover have "res_ok ?k ?L"
    by (auto simp: res_ok_def demo_kernel_def demo_pcbs_def demo_room split: if_splits)
  ultimately show ?thesis by (simp add: kinv_def sem_ok_def sem_queues_ok_def sched_ok_def)
qed

text \<open>The example in the middle of the system call \<open>n\<close> with the argument \<open>a\<close>.\<close>

definition demo_call :: "bool \<Rightarrow> int \<Rightarrow> int \<Rightarrow> kernel" where
  "demo_call idle n a =
     upd_pcb 100 (\<lambda>p. p\<lparr>syscall_num := n, syscall_args := (\<lambda>_. 0)(0 := a)\<rparr>) (demo_kernel idle)"

lemma demo_call_kinv: "kinv (demo_call idle n a) (demo_lists idle)"
proof -
  have "running (demo_kernel idle) = 100" by (simp add: demo_kernel_def)
  moreover have "kinv (upd_pcb (running (demo_kernel idle))
      (\<lambda>p. p\<lparr>syscall_num := n, syscall_args := (\<lambda>_. 0)(0 := a)\<rparr>) (demo_kernel idle)) (demo_lists idle)"
    by (rule kinv_call [OF demo_kinv]) simp
  ultimately show ?thesis by (simp add: demo_call_def)
qed

lemma demo_call_simps [simp]:
  "running (demo_call idle n a) = 100"
  "sem_descriptors (demo_call idle n a) = sem_descriptors (demo_kernel idle)"
  "sem_descriptor_ptrs (demo_call idle n a) = sem_descriptor_ptrs (demo_kernel idle)"
  "semaphores (demo_call idle n a) = semaphores (demo_kernel idle)"
  "resources (demo_call idle n a) = resources (demo_kernel idle)"
  "descriptors (demo_call idle n a) = descriptors (demo_kernel idle)"
  "timer_items (demo_call idle n a) = timer_items (demo_kernel idle)"
  "pools (demo_call idle n a) = demo_pools"
  "syscall_arg (demo_call idle n a) 0 = a"
  "syscall_num (pcbs (demo_call idle n a) 100) = n"
  "disastrOS_time (demo_call idle n a) = 3" "shutdown_now (demo_call idle n a) = 0"
  by (simp_all add: demo_call_def demo_kernel_def upd_pcb_def syscall_arg_def)

lemma demo_kernel_simps [simp]:
  "sd_pcb (sem_descriptors (demo_kernel idle) d) = (if d = 802 then 102 else 100)"
  "sd_semaphore (sem_descriptors (demo_kernel idle) d) = (if d = 801 then 701 else 700)"
  "sd_fd (sem_descriptors (demo_kernel idle) d) = (if d = 801 then 1 else 0)"
  "sd_wait_ptr (sem_descriptors (demo_kernel idle) d) = 901 + 2 * (d - 800)"
  "sem_descriptor_ptrs (demo_kernel idle) x = 800 + (x - 900) div 2"
  "sem_count (semaphores (demo_kernel idle) s) = (if s = 700 then -1 else 1)"
  "sem_id (semaphores (demo_kernel idle) s) = s - 699"
  "res_id (resources (demo_kernel idle) r) = r - 393"
  "res_type (resources (demo_kernel idle) r) = 0"
  by (simp_all add: demo_kernel_def)

end
