(* ===== verification/Process_Theorems.thy ===== *)
theory Process_Theorems
  imports Process_Correct Exit_Correct Demo
begin

text \<open>
  The properties of the process calls, each with an instance on the example kernel.
\<close>

lemma store_user_sel [simp]:
  "running (store_user p v k) = running k" "pcbs (store_user p v k) = pcbs k"
  "pools (store_user p v k) = pools k" "pcb_ptrs (store_user p v k) = pcb_ptrs k"
  "user_mem (store_user p v k) = (if p = NULL then user_mem k else (user_mem k)(p := v))"
  by (simp_all add: store_user_def)

lemma demo_more [simp]:
  "pools_room demo_pools i = 8 - demo_used i" "pools_live demo_pools i = {demo_base i..<demo_base i + int (demo_used i)}"
  "last_pid (demo_call idle n a) = 5" "init_pcb (demo_call idle n a) = 100"
  "pcb_ptrs (demo_call idle n a) x = x - 99"
  "pid (pcbs (demo_call idle n a) p) = p - 100"
  "status (pcbs (demo_call idle n a) p) = demo_status idle p"
  "parent (pcbs (demo_call idle n a) p) = (if 100 < p \<and> p < 105 then 100 else NULL)"
  by (simp_all add: demo_live demo_room demo_call_def demo_kernel_def demo_pcbs_def upd_pcb_def)

text \<open>
  C15: \<open>spawn\<close> makes a process with the next number, ready to run the given function. It is
  the last of the ready processes and of the children of the caller, which gets its number.
\<close>

theorem spawn_creates:
  assumes "kinv k L" and "0 < pools_room (pools k) pcb_pool" and "0 < pools_room (pools k) pcb_ptr_pool"
    and "in_int_range (last_pid k + 1)"
  shows "\<exists>p x k' L'. internal_spawn k = Inr k' \<and> kinv k' L' \<and>
    p \<notin> pools_live (pools k) pcb_pool \<and>
    pools_live (pools k') pcb_pool = insert p (pools_live (pools k) pcb_pool) \<and>
    L' ready_list = L ready_list @ [p] \<and>
    L' (PCB_children (running k)) = L (PCB_children (running k)) @ [x] \<and> pcb_ptrs k' x = p \<and>
    pid (pcbs k' p) = last_pid k \<and> last_pid k' = last_pid k + 1 \<and> parent (pcbs k' p) = running k \<and>
    status (pcbs k' p) = Ready \<and>
    cpu_state (pcbs k' p) = Fresh_context (syscall_arg k 0) (syscall_arg k 1) \<and>
    running k' = running k \<and> syscall_retvalue (pcbs k' (running k)) = last_pid k"
proof (rule make_child_exec [OF assms(1)])
  fix p x k1 L1
  assume a: "internal_spawn k = Inr (let k6 = set_retvalue (pid (pcbs k1 p)) k1 in
         upd_pcb p (\<lambda>q. q\<lparr>cpu_state := Fresh_context (syscall_arg k6 0) (syscall_arg k6 1)\<rparr>) k6)"
    and inv: "kinv k1 L1" and p: "p \<notin> pools_live (pools k) pcb_pool"
    and L1: "L1 = L(PCB_descriptors p := [], PCB_children p := [], PCB_sem_descriptors p := [],
         PCB_children (running k) := L (PCB_children (running k)) @ [x],
         ready_list := L ready_list @ [p])"
    and b: "pools_live (pools k1) pcb_pool = insert p (pools_live (pools k) pcb_pool)"
      "\<And>q. q \<noteq> p \<Longrightarrow> pcbs k1 q = pcbs k q" "pid (pcbs k1 p) = last_pid k"
      "last_pid k1 = last_pid k + 1" "parent (pcbs k1 p) = running k" "status (pcbs k1 p) = Ready"
      "running k1 = running k" "pcb_ptrs k1 = (pcb_ptrs k)(x := p)" "p \<noteq> running k"
  let ?k' = "let k6 = set_retvalue (pid (pcbs k1 p)) k1 in
         upd_pcb p (\<lambda>q. q\<lparr>cpu_state := Fresh_context (syscall_arg k6 0) (syscall_arg k6 1)\<rparr>) k6"
  have "kinv ?k' L1" using inv by (simp add: Let_def kinv_irrelevant)
  with a p b show ?thesis
    by (intro exI [of _ p] exI [of _ x] exI [of _ ?k'] exI [of _ L1] conjI)
      (simp_all add: Let_def L1 syscall_arg_def set_retvalue_def)
qed (use assms in auto)

theorem spawn_creates_witness:
  "\<exists>p k'. internal_spawn (demo_call False DSOS_CALL_SPAWN 77) = Inr k' \<and>
     cpu_state (pcbs k' p) = Fresh_context 77 0 \<and> pid (pcbs k' p) = 5 \<and>
     syscall_retvalue (pcbs k' 100) = 5"
proof -
  have "syscall_arg (demo_call False DSOS_CALL_SPAWN 77) 1 = 0"
    by (simp add: syscall_arg_def demo_call_def demo_kernel_def)
  then show ?thesis
    using spawn_creates [OF demo_call_kinv, of False DSOS_CALL_SPAWN 77]
    by (auto simp: in_int_range_def)
qed

text \<open>
  \<open>fork\<close> makes a process like \<open>spawn\<close>, but gives it no context of its own: the new
  process is ready with whatever context its block held before.
\<close>

theorem fork_inherits_no_context:
  assumes "kinv k L" and "0 < pools_room (pools k) pcb_pool" and "0 < pools_room (pools k) pcb_ptr_pool"
    and "in_int_range (last_pid k + 1)"
  shows "\<exists>p k' L'. internal_fork k = Inr k' \<and> kinv k' L' \<and>
    p \<notin> pools_live (pools k) pcb_pool \<and> L' ready_list = L ready_list @ [p] \<and>
    pid (pcbs k' p) = last_pid k \<and> syscall_retvalue (pcbs k' (running k)) = last_pid k \<and>
    cpu_state (pcbs k' p) = cpu_state (pcbs k p)"
proof (rule make_child_exec [OF assms(1)])
  fix p x k1 L1
  assume a: "internal_fork k = Inr (set_retvalue (pid (pcbs k1 p)) k1)"
    and inv: "kinv k1 L1" and p: "p \<notin> pools_live (pools k) pcb_pool"
    and L1: "L1 = L(PCB_descriptors p := [], PCB_children p := [], PCB_sem_descriptors p := [],
         PCB_children (running k) := L (PCB_children (running k)) @ [x],
         ready_list := L ready_list @ [p])"
    and b: "pid (pcbs k1 p) = last_pid k" "running k1 = running k" "p \<noteq> running k"
      "cpu_state (pcbs k1 p) = cpu_state (pcbs k p)"
  let ?k' = "set_retvalue (pid (pcbs k1 p)) k1"
  have "kinv ?k' L1" using inv by simp
  with a p b show ?thesis
    by (intro exI [of _ p] exI [of _ ?k'] exI [of _ L1] conjI)
      (simp_all add: L1 set_retvalue_def)
qed (use assms in auto)

theorem fork_inherits_no_context_witness:
  "\<exists>p k'. internal_fork (demo_call False DSOS_CALL_FORK 0) = Inr k' \<and> pid (pcbs k' p) = 5 \<and>
     cpu_state (pcbs k' p) = cpu_state (demo_pcbs False p)"
  using fork_inherits_no_context [OF demo_call_kinv, of False DSOS_CALL_FORK 0]
  by (auto simp: in_int_range_def) (auto simp: demo_call_def demo_kernel_def demo_pcbs_def)

text \<open>
  C37: while the numbers of processes fit an \<open>int\<close>, neither \<open>spawn\<close> nor \<open>fork\<close> reports \<open>DSOS_ESPAWN\<close> when no PCB or no list item for it
  is free: they dereference the null pointer the allocator has returned. When one of them
  returns, both were free and it has made a process, whose number is its result.
\<close>

theorem spawn_exhausted_faults:
  assumes "kinv k L" and "in_int_range (last_pid k + 1)" and "call \<in> {internal_spawn, internal_fork}"
  shows "(pools_room (pools k) pcb_pool = 0 \<or> pools_room (pools k) pcb_ptr_pool = 0 \<longrightarrow>
      call k = Inl Null_deref) \<and>
    (\<forall>k'. call k = Inr k' \<longrightarrow>
      0 < pools_room (pools k) pcb_pool \<and> 0 < pools_room (pools k) pcb_ptr_pool \<and>
      (\<exists>p. p \<notin> pools_live (pools k) pcb_pool \<and>
         pools_live (pools k') pcb_pool = insert p (pools_live (pools k) pcb_pool) \<and>
         syscall_retvalue (pcbs k' (running k')) = pid (pcbs k' p)))"
proof (rule make_child_exec [OF assms(1)])
  fix e
  assume "internal_fork k = Inl e" "internal_spawn k = Inl e" "in_int_range (last_pid k + 1) \<Longrightarrow> e = Null_deref"
  then show ?thesis using assms(2,3) by auto
next
  fix p x k1 L1
  assume a: "internal_fork k = Inr (set_retvalue (pid (pcbs k1 p)) k1)"
    "internal_spawn k = Inr (let k6 = set_retvalue (pid (pcbs k1 p)) k1 in
         upd_pcb p (\<lambda>q. q\<lparr>cpu_state := Fresh_context (syscall_arg k6 0) (syscall_arg k6 1)\<rparr>) k6)"
    and p: "p \<notin> pools_live (pools k) pcb_pool"
      "pools_live (pools k1) pcb_pool = insert p (pools_live (pools k) pcb_pool)"
    and room: "0 < pools_room (pools k) pcb_pool" "0 < pools_room (pools k) pcb_ptr_pool"
    and r: "running k1 = running k" "p \<noteq> running k"
  have "\<exists>q. q \<notin> pools_live (pools k) pcb_pool \<and>
      pools_live (pools k') pcb_pool = insert q (pools_live (pools k) pcb_pool) \<and>
      syscall_retvalue (pcbs k' (running k')) = pid (pcbs k' q)" if "call k = Inr k'" for k'
  proof (intro exI [of _ p] conjI)
    have k': "k' = set_retvalue (pid (pcbs k1 p)) k1 \<or>
        (\<exists>c. k' = upd_pcb p (\<lambda>q. q\<lparr>cpu_state := c\<rparr>) (set_retvalue (pid (pcbs k1 p)) k1))"
      using that assms(3) a by (auto simp: Let_def)
    show "p \<notin> pools_live (pools k) pcb_pool" by (rule p(1))
    show "pools_live (pools k') pcb_pool = insert p (pools_live (pools k) pcb_pool)"
      using k' p(2) by (elim disjE exE) simp_all
    show "syscall_retvalue (pcbs k' (running k')) = pid (pcbs k' p)"
      using k' r by (elim disjE exE) (simp_all add: set_retvalue_def)
  qed
  then show ?thesis using room by auto
qed

lemma spawn_room:
  assumes "kinv k L" and "0 < pools_room (pools k) pcb_pool" and "0 < pools_room (pools k) pcb_ptr_pool"
    and "in_int_range (last_pid k + 1)"
  obtains k' L' where "internal_spawn k = Inr k'" "kinv k' L'" "last_pid k' = last_pid k + 1"
    "pools_room (pools k') pcb_pool = pools_room (pools k) pcb_pool - 1"
    "pools_room (pools k') pcb_ptr_pool = pools_room (pools k) pcb_ptr_pool - 1"
  by (rule make_child_exec [OF assms(1)])
    (use assms(2-) in \<open>auto simp: Let_def kinv_irrelevant intro!: that\<close>)

theorem spawn_exhausted_faults_witness:
  "\<exists>k1 k2 k3. internal_spawn (demo_call False DSOS_CALL_SPAWN 77) = Inr k1 \<and>
     internal_spawn k1 = Inr k2 \<and> internal_spawn k2 = Inr k3 \<and>
     internal_spawn k3 = Inl Null_deref \<and> internal_fork k3 = Inl Null_deref"
proof -
  obtain k1 L1 where 1: "internal_spawn (demo_call False DSOS_CALL_SPAWN 77) = Inr k1" "kinv k1 L1"
    "last_pid k1 = 6" "pools_room (pools k1) pcb_pool = 2" "pools_room (pools k1) pcb_ptr_pool = 3"
    by (rule spawn_room [OF demo_call_kinv, of False DSOS_CALL_SPAWN 77]) (auto simp: in_int_range_def)
  obtain k2 L2 where 2: "internal_spawn k1 = Inr k2" "kinv k2 L2"
    "last_pid k2 = 7" "pools_room (pools k2) pcb_pool = 1" "pools_room (pools k2) pcb_ptr_pool = 2"
    by (rule spawn_room [OF 1(2)]) (auto simp: in_int_range_def 1(3-))
  obtain k3 L3 where 3: "internal_spawn k2 = Inr k3" "kinv k3 L3" "pools_room (pools k3) pcb_pool = 0"
    "last_pid k3 = 8"
    by (rule spawn_room [OF 2(2)]) (auto simp: in_int_range_def 2(3-))
  have "in_int_range (last_pid k3 + 1)" by (simp add: 3(4) in_int_range_def)
  from spawn_exhausted_faults [OF 3(2) this, of internal_spawn]
    spawn_exhausted_faults [OF 3(2) this, of internal_fork] 3(3)
  have "internal_spawn k3 = Inl Null_deref \<and> internal_fork k3 = Inl Null_deref" by simp
  with 1(1) 2(1) 3(1) show ?thesis by blast
qed

text \<open>
  \<open>wait\<close> without a child returns \<open>DSOS_EWAIT\<close> and changes nothing else.
\<close>

theorem wait_without_child:
  assumes "kinv k L" and "L (PCB_children (running k)) = []"
  shows "internal_wait k = Inr (set_retvalue DSOS_EWAIT k)"
  by (rule internal_wait_cases [OF assms(1) refl refl refl]) (use assms(2) in auto)

text \<open>The example after process 100 has blocked in \<open>wait\<close> for process 101, which runs.\<close>

lemma demo_blocked:
  obtains k1 where "internal_wait (demo_call False DSOS_CALL_WAIT 1) = Inr k1" "running k1 = 101"
    "kinv k1 ((demo_lists False)(ready_list := [], waiting_list := [102, 103, 100]))"
    "pcbs k1 = (pcbs (demo_call False DSOS_CALL_WAIT 1))
       (100 := (pcbs (demo_call False DSOS_CALL_WAIT 1) 100)\<lparr>status := Waiting\<rparr>)"
    "pools k1 = demo_pools" "init_pcb k1 = 100" "pcb_ptrs k1 = (\<lambda>x. x - 99)"
proof -
  let ?k = "demo_call False DSOS_CALL_WAIT 1"
  have n: "1 = int_of_long (syscall_arg ?k 0)" by (simp add: int_of_long_id in_int_range_def)
  have x: "200 = wait_choice ?k 1 NULL (demo_lists False (PCB_children (running ?k)))"
    by (simp add: wanted_def)
  have z: "101 = pcb_ptrs ?k 200" by simp
  have run: "internal_wait ?k = wait_block ?k"
    by (rule internal_wait_cases [OF demo_call_kinv n x z]) (simp_all add: demo_status_def)
  show thesis
  proof (rule wait_block_exec [OF demo_call_kinv, of False DSOS_CALL_WAIT 1])
    fix r rs k1
    assume "demo_lists False ready_list = r # rs" "wait_block ?k = Inr k1" "running k1 = r"
      "kinv k1 ((demo_lists False)(ready_list := rs,
         waiting_list := demo_lists False waiting_list @ [running ?k]))"
      "pcbs k1 = (pcbs ?k)(running ?k := (pcbs ?k (running ?k))\<lparr>status := Waiting\<rparr>)"
      "pools k1 = pools ?k" "pcb_ptrs k1 = pcb_ptrs ?k" "init_pcb k1 = init_pcb ?k"
    with run show thesis by (intro that [of k1]) (simp_all add: fun_eq_iff)
  qed simp
qed

theorem wait_without_child_witness:
  "\<exists>k1. internal_wait (demo_call False DSOS_CALL_WAIT 1) = Inr k1 \<and>
     internal_wait k1 = Inr (set_retvalue DSOS_EWAIT k1)"
proof -
  obtain k1 where k1: "internal_wait (demo_call False DSOS_CALL_WAIT 1) = Inr k1" "running k1 = 101"
    "kinv k1 ((demo_lists False)(ready_list := [], waiting_list := [102, 103, 100]))"
    by (rule demo_blocked)
  from wait_without_child [OF k1(3)] k1(1,2) show ?thesis by simp
qed

text \<open>
  C16: \<open>wait\<close> collects a zombie: with the argument 0 the first zombie among the children, with a
  number the child that has it, when this is a zombie. The caller gets its number and its exit
  value, and the zombie, its PCB and the item that stood for it are gone.
\<close>

theorem wait_collects_zombie:
  assumes "kinv k L" and "n = int_of_long (syscall_arg k 0)"
    and "List.find (\<lambda>x. if n = 0 then status (pcbs k (pcb_ptrs k x)) = Zombie
        else pid (pcbs k (pcb_ptrs k x)) = n) (L (PCB_children (running k))) = Some x"
    and "z = pcb_ptrs k x" and "status (pcbs k z) = Zombie"
  shows "\<exists>k'. internal_wait k = Inr k' \<and> running k' = running k \<and>
    kinv k' (L(PCB_children (running k) := remove1 x (L (PCB_children (running k))),
               zombie_list := remove1 z (L zombie_list))) \<and>
    syscall_retvalue (pcbs k' (running k)) = pid (pcbs k z) \<and>
    pools_live (pools k') pcb_pool = pools_live (pools k) pcb_pool - {z} \<and>
    pools_live (pools k') pcb_ptr_pool = pools_live (pools k) pcb_ptr_pool - {x} \<and>
    (syscall_arg k 1 \<noteq> NULL \<longrightarrow> user_mem k' (syscall_arg k 1) = return_value (pcbs k z))"
proof -
  let ?xs = "L (PCB_children (running k))"
  have xs: "?xs \<noteq> []" using assms(3) by auto
  have w: "wanted k n = (\<lambda>x. if n = 0 then status (pcbs k (pcb_ptrs k x)) = Zombie
      else pid (pcbs k (pcb_ptrs k x)) = n)"
    by (simp add: wanted_def fun_eq_iff)
  have x: "wait_choice k n NULL ?xs = x"
    using wait_choice_eq [OF xs, of k n] assms(3) unfolding w by simp
  note st = assms(5)
  show ?thesis
  proof (rule internal_wait_cases [OF assms(1,2) x [symmetric] assms(4)])
    assume a: "x \<in> set ?xs" "internal_wait k = wait_reap k x z (syscall_arg k 1)"
    show ?thesis
    proof (rule wait_reap_exec [OF assms(1) a(1) assms(4) st, of "syscall_arg k 1"])
      fix k1
      assume b: "wait_reap k x z (syscall_arg k 1) = Inr (store_user (syscall_arg k 1)
          (return_value (pcbs k z)) (set_retvalue (pid (pcbs k z)) k1))"
        "kinv k1 (L(PCB_children (running k) := remove1 x ?xs, zombie_list := remove1 z (L zombie_list)))"
        "running k1 = running k" "pools_live (pools k1) pcb_pool = pools_live (pools k) pcb_pool - {z}"
        "pools_live (pools k1) pcb_ptr_pool = pools_live (pools k) pcb_ptr_pool - {x}"
      show ?thesis
        using a(2) b by simp
    qed
  qed (use xs st in auto)
qed

theorem wait_collects_zombie_witness:
  "(\<exists>k'. internal_wait (demo_call False DSOS_CALL_WAIT 0) = Inr k' \<and>
      syscall_retvalue (pcbs k' 100) = 4 \<and> 104 \<notin> pools_live (pools k') pcb_pool) \<and>
   (\<exists>k'. internal_wait (demo_call False DSOS_CALL_WAIT 4) = Inr k' \<and>
      syscall_retvalue (pcbs k' 100) = 4 \<and> 104 \<notin> pools_live (pools k') pcb_pool)"
proof -
  have one: "\<exists>k'. internal_wait (demo_call False DSOS_CALL_WAIT n) = Inr k' \<and>
      syscall_retvalue (pcbs k' 100) = 4 \<and> 104 \<notin> pools_live (pools k') pcb_pool"
    if n: "n = 0 \<or> n = 4" for n
  proof -
    let ?k = "demo_call False DSOS_CALL_WAIT n"
    have 1: "n = int_of_long (syscall_arg ?k 0)" using n by (auto simp: int_of_long_id in_int_range_def)
    have 2: "List.find (\<lambda>x. if n = 0 then status (pcbs ?k (pcb_ptrs ?k x)) = Zombie
        else pid (pcbs ?k (pcb_ptrs ?k x)) = n) (demo_lists False (PCB_children (running ?k))) = Some 203"
      using n by (auto simp: demo_status_def)
    have 3: "104 = pcb_ptrs ?k 203" "status (pcbs ?k 104) = Zombie" by (simp_all add: demo_status_def)
    from wait_collects_zombie [OF demo_call_kinv 1 2 3] show ?thesis by fastforce
  qed
  from one [of 0] one [of 4] show ?thesis by simp
qed

text \<open>
  C35: \<open>wait\<close> for a number that no child has is refused only when the caller has no children at
  all. Otherwise the last child in its list stands in for the process asked for: a zombie is
  collected, and while it is not one the caller goes to sleep.
\<close>

theorem wait_collects_wrong_process:
  assumes "kinv k L" and "n = int_of_long (syscall_arg k 0)" and "n \<noteq> 0"
    and "xs = L (PCB_children (running k))" and "z = pcb_ptrs k (last xs)"
    and "\<forall>y \<in> set xs. pid (pcbs k (pcb_ptrs k y)) \<noteq> n"
  shows "(xs = [] \<longrightarrow> internal_wait k = Inr (set_retvalue DSOS_EWAIT k)) \<and>
    (xs \<noteq> [] \<and> status (pcbs k z) = Zombie \<longrightarrow>
      (\<exists>k'. internal_wait k = Inr k' \<and> syscall_retvalue (pcbs k' (running k)) = pid (pcbs k z) \<and>
         pools_live (pools k') pcb_pool = pools_live (pools k) pcb_pool - {z})) \<and>
    (xs \<noteq> [] \<and> status (pcbs k z) \<noteq> Zombie \<and> L ready_list \<noteq> [] \<longrightarrow>
      (\<exists>k'. internal_wait k = Inr k' \<and> running k' = hd (L ready_list) \<and>
         kinv k' (L(ready_list := tl (L ready_list), waiting_list := L waiting_list @ [running k]))))"
proof (cases "xs = []")
  case True
  then show ?thesis using wait_without_child [OF assms(1)] assms(4) by simp
next
  case ne: False
  have "List.find (wanted k n) xs = None"
    using assms(3,6) by (auto simp: find_None_iff wanted_def)
  then have x: "wait_choice k n NULL (L (PCB_children (running k))) = last xs"
    using wait_choice_eq [OF ne, of k n] by (simp add: assms(4))
  show ?thesis
  proof (rule internal_wait_cases [OF assms(1,2) x [symmetric] assms(5)])
    assume a: "last xs \<in> set (L (PCB_children (running k)))" "status (pcbs k z) = Zombie"
      "internal_wait k = wait_reap k (last xs) z (syscall_arg k 1)"
    show ?thesis
      by (rule wait_reap_exec [OF assms(1) a(1) assms(5) a(2), of "syscall_arg k 1"])
        (use a(2,3) ne in simp)
  next
    assume a: "status (pcbs k z) \<noteq> Zombie" "internal_wait k = wait_block k"
    show ?thesis
      by (rule wait_block_exec [OF assms(1)]) (use a ne in simp_all)
  qed (use ne assms(4) in simp)
qed

theorem wait_collects_wrong_process_witness:
  "\<exists>k'. internal_wait (demo_call False DSOS_CALL_WAIT 99) = Inr k' \<and>
     syscall_retvalue (pcbs k' 100) = 4"
proof -
  let ?k = "demo_call False DSOS_CALL_WAIT 99"
  have h: "99 = int_of_long (syscall_arg ?k 0)"
    "[200, 201, 202, 203] = demo_lists False (PCB_children (running ?k))"
    "104 = pcb_ptrs ?k (last [200, 201, 202, 203])"
    "\<forall>y \<in> set [200, 201, 202, 203]. pid (pcbs ?k (pcb_ptrs ?k y)) \<noteq> 99"
    by (simp_all add: int_of_long_id in_int_range_def)
  from wait_collects_wrong_process [OF demo_call_kinv h(1) _ h(2-4)] show ?thesis
    by (auto simp: demo_status_def)
qed

section \<open>Exit\<close>

text \<open>
  C17: the exit of a process whose parent waits for it hands the processor to the parent, which
  gets the number and the exit value; the process and its resources are gone, its children
  belong to \<open>init\<close>.
\<close>

theorem exit_wakes_parent:
  assumes "kinv k L" and "me = running k" and "me \<noteq> init_pcb k" and "par = parent (pcbs k me)"
    and "status (pcbs k par) = Waiting" and "syscall_num (pcbs k par) = DSOS_CALL_WAIT"
    and "syscall_args (pcbs k par) 0 = 0 \<or> syscall_args (pcbs k par) 0 = pid (pcbs k me)"
    and "x \<in> set (L (PCB_children par))" and "pcb_ptrs k x = me"
  shows "\<exists>k' L'. internal_exit k = Inr k' \<and> kinv k' L' \<and> running k' = par \<and>
    status (pcbs k' par) = Running \<and> syscall_retvalue (pcbs k' par) = pid (pcbs k me) \<and>
    (syscall_args (pcbs k par) 1 \<noteq> NULL \<longrightarrow>
       user_mem k' (syscall_args (pcbs k par) 1) = int_of_long (syscall_arg k 0)) \<and>
    L' waiting_list = remove1 par (L waiting_list) \<and> L' ready_list = L ready_list \<and>
    L' zombie_list = L zombie_list \<and> L' (PCB_descriptors me) = [] \<and>
    pools_live (pools k') pcb_pool = pools_live (pools k) pcb_pool - {me} \<and>
    pools_live (pools k') pcb_ptr_pool = pools_live (pools k) pcb_ptr_pool"
proof -
  note A = awaited_facts [OF assms(1,5)]
  note S = sched_okD [OF kinvD(2) [OF assms(1)]]
  have mz: "me \<notin> set (L zombie_list)" using S(4) assms(2) by simp
  have aw: "awaited_by_parent k me"
    using assms(5-7) by (simp add: awaited_by_parent_def assms(4) [symmetric])
  obtain k4 L4 g where
    4: "kinv_idle k4 L4"
      "internal_exit k = (if awaited_by_parent k me then exit_to_parent k4 me else exit_to_next k4)"
      "L4 = L(PCB_children me := [],
         PCB_children (init_pcb k) := L (PCB_children (init_pcb k)) @ L (PCB_children me),
         zombie_list := L zombie_list @ [me])"
      "pcbs k4 = (\<lambda>p. (pcbs k p)\<lparr>signals := g p\<rparr>)
         (me := (pcbs k me)\<lparr>signals := g me, return_value := int_of_long (syscall_arg k 0),
            status := Zombie\<rparr>)"
      "pools_live (pools k4) = pools_live (pools k)" "pcb_ptrs k4 = pcb_ptrs k" "user_mem k4 = user_mem k"
    by (rule exit_prefix_exec [OF assms(1-3) refl assms(4) A(3)]) blast
  have p: "me \<in> set (L4 zombie_list)" "par = parent (pcbs k4 me)" "par \<in> set (L4 waiting_list)"
    "syscall_num (pcbs k4 par) = DSOS_CALL_WAIT" "par \<noteq> me"
    using A assms(2,4,6) by (simp_all add: 4(3,4))
  have x: "x \<in> set (L4 (PCB_children par))" "pcb_ptrs k4 x = me"
    using assms(8,9) p(5) by (auto simp: 4(3,6))
  show ?thesis
  proof (rule exit_to_parent_exec [OF 4(1) p(1-4)])
    assume "\<And>y. y \<in> set (L4 (PCB_children par)) \<Longrightarrow> pcb_ptrs k4 y \<noteq> me"
    with x show ?thesis by blast
  next
    fix y k' L'
    assume a: "exit_to_parent k4 me = Inr k'" "kinv k' L'" "running k' = par"
      "pcbs k' = (pcbs k4)(par := (pcbs k4 par)\<lparr>status := Running,
         syscall_retvalue := pid (pcbs k4 me)\<rparr>)"
      "L' ready_list = L4 ready_list" "L' waiting_list = remove1 par (L4 waiting_list)"
      "L' zombie_list = remove1 me (L4 zombie_list)" "L' (PCB_descriptors me) = []"
      "pools_live (pools k') pcb_pool = pools_live (pools k4) pcb_pool - {me}"
      "pools_live (pools k') pcb_ptr_pool = pools_live (pools k4) pcb_ptr_pool"
      "user_mem k' = user_mem (store_user (syscall_args (pcbs k4 par) 1) (return_value (pcbs k4 me)) k4)"
    have z: "L' zombie_list = L zombie_list" using mz by (simp add: a(7) 4(3) remove1_append)
    show ?thesis
      by (intro exI [of _ k'] exI [of _ L'] conjI)
        (use a p(5) z aw in \<open>simp_all add: 4(2-7)\<close>)
  qed
qed

theorem exit_wakes_parent_witness:
  "\<exists>k1 k2. internal_wait (demo_call False DSOS_CALL_WAIT 1) = Inr k1 \<and> running k1 = 101 \<and>
     internal_exit k1 = Inr k2 \<and> running k2 = 100 \<and> syscall_retvalue (pcbs k2 100) = 1 \<and>
     101 \<notin> pools_live (pools k2) pcb_pool"
proof -
  obtain k1 where k1: "internal_wait (demo_call False DSOS_CALL_WAIT 1) = Inr k1" "running k1 = 101"
    "kinv k1 ((demo_lists False)(ready_list := [], waiting_list := [102, 103, 100]))"
    "pcbs k1 = (pcbs (demo_call False DSOS_CALL_WAIT 1))
       (100 := (pcbs (demo_call False DSOS_CALL_WAIT 1) 100)\<lparr>status := Waiting\<rparr>)"
    "pools k1 = demo_pools" "init_pcb k1 = 100" "pcb_ptrs k1 = (\<lambda>x. x - 99)"
    by (rule demo_blocked)
  have arg: "syscall_args (pcbs (demo_call False DSOS_CALL_WAIT 1) 100) 0 = 1"
    by (simp add: demo_call_def demo_kernel_def)
  have h: "101 = running k1" "101 \<noteq> init_pcb k1" "100 = parent (pcbs k1 101)"
    "status (pcbs k1 100) = Waiting" "syscall_num (pcbs k1 100) = DSOS_CALL_WAIT"
    "syscall_args (pcbs k1 100) 0 = 0 \<or> syscall_args (pcbs k1 100) 0 = pid (pcbs k1 101)"
    "200 \<in> set (((demo_lists False)(ready_list := [], waiting_list := [102, 103, 100])) (PCB_children 100))"
    "pcb_ptrs k1 200 = 101"
    using arg by (simp_all add: k1(2,4,6,7))
  from exit_wakes_parent [OF k1(3) h]
obtain k2 where "internal_exit k1 = Inr k2" "running k2 = 100"
    "syscall_retvalue (pcbs k2 100) = pid (pcbs k1 101)"
    "pools_live (pools k2) pcb_pool = pools_live (pools k1) pcb_pool - {101}" by blast
  with k1(1,2,4) show ?thesis by (intro exI [of _ k1] exI [of _ k2]) simp
qed

text \<open>
  C18: the exit of a process whose parent does not wait for it leaves a zombie at the end of the
  list of zombies, with its exit value; its children go to \<open>init\<close> and the first ready
  process runs.
\<close>

theorem exit_leaves_zombie:
  assumes "kinv k L" and "me = running k" and "me \<noteq> init_pcb k" and "parent (pcbs k me) \<noteq> NULL"
    and "\<not> awaited_by_parent k me" and "L ready_list = r # rs"
  shows "\<exists>k'. internal_exit k = Inr k' \<and> running k' = r \<and>
    kinv k' (L(PCB_children me := [],
      PCB_children (init_pcb k) := L (PCB_children (init_pcb k)) @ L (PCB_children me),
      zombie_list := L zombie_list @ [me], ready_list := rs)) \<and>
    status (pcbs k' me) = Zombie \<and> return_value (pcbs k' me) = int_of_long (syscall_arg k 0) \<and>
    pools_live (pools k') = pools_live (pools k)"
proof -
  note S = sched_okD [OF kinvD(2) [OF assms(1)]]
  have rm: "r \<noteq> me" using S(4) [of ready_list] assms(2,6) by auto
  obtain k4 L4 g where
    4: "kinv_idle k4 L4"
      "internal_exit k = (if awaited_by_parent k me then exit_to_parent k4 me else exit_to_next k4)"
      "L4 = L(PCB_children me := [],
         PCB_children (init_pcb k) := L (PCB_children (init_pcb k)) @ L (PCB_children me),
         zombie_list := L zombie_list @ [me])"
      "pcbs k4 = (\<lambda>p. (pcbs k p)\<lparr>signals := g p\<rparr>)
         (me := (pcbs k me)\<lparr>signals := g me, return_value := int_of_long (syscall_arg k 0),
            status := Zombie\<rparr>)"
      "pools_live (pools k4) = pools_live (pools k)"
    by (rule exit_prefix_exec [OF assms(1-3) refl refl assms(4)]) blast
  show ?thesis
  proof (rule exit_to_next_exec [OF 4(1)])
    assume "L4 ready_list = []"
    then show ?thesis using assms(6) by (simp add: 4(3))
  next
    fix r' rs' k'
    assume a: "L4 ready_list = r' # rs'" "exit_to_next k4 = Inr k'" "running k' = r'"
      "kinv k' (L4(ready_list := rs'))"
      "pcbs k' = (pcbs k4)(r' := (pcbs k4 r')\<lparr>status := Running\<rparr>)" "pools k' = pools k4"
    have "r' = r" "rs' = rs" using a(1) assms(6) by (simp_all add: 4(3))
    with a assms(5) rm show ?thesis
      by (intro exI [of _ k']) (simp add: 4)
  qed
qed

text \<open>The example after a fork and a \<open>wait\<close> for process 102: process 101 runs, one is ready.\<close>

lemma demo_forked:
  obtains k0 k1 p L1 where "internal_fork (demo_call False DSOS_CALL_WAIT 2) = Inr k0"
    "internal_wait k0 = Inr k1" "running k1 = 101" "kinv k1 L1" "L1 ready_list = [p]"
    "init_pcb k1 = 100" "parent (pcbs k1 101) = 100" "pid (pcbs k1 101) = 1"
    "syscall_args (pcbs k1 100) 0 = 2"
proof (rule make_child_exec [OF demo_call_kinv, of False DSOS_CALL_WAIT 2])
  let ?k = "demo_call False DSOS_CALL_WAIT 2"
  fix p x k' L'
  assume a: "internal_fork ?k = Inr (set_retvalue (pid (pcbs k' p)) k')" "kinv k' L'"
    "p \<notin> pools_live (pools ?k) pcb_pool" "x \<notin> pools_live (pools ?k) pcb_ptr_pool"
    "L' = (demo_lists False)(PCB_descriptors p := [], PCB_children p := [], PCB_sem_descriptors p := [],
       PCB_children (running ?k) := demo_lists False (PCB_children (running ?k)) @ [x],
       ready_list := demo_lists False ready_list @ [p])"
    "\<And>q. q \<noteq> p \<Longrightarrow> pcbs k' q = pcbs ?k q" "running k' = running ?k"
    "pcb_ptrs k' = (pcb_ptrs ?k)(x := p)" "init_pcb k' = init_pcb ?k"
  define k0 where "k0 = set_retvalue (pid (pcbs k' p)) k'"
  have inv0: "kinv k0 L'" using a(2) by (simp add: k0_def)
  have out: "p \<noteq> 100" "p \<noteq> 101" "p \<noteq> 102" "x \<noteq> 200" "x \<noteq> 201" using a(3,4) by auto
  have sel: "running k0 = 100" "pcb_ptrs k0 200 = 101" "pcb_ptrs k0 201 = 102" "init_pcb k0 = 100"
    "pid (pcbs k0 101) = 1" "pid (pcbs k0 102) = 2" "status (pcbs k0 102) = Waiting"
    "parent (pcbs k0 101) = 100" "syscall_args (pcbs k0 100) 0 = 2"
    using out
    by (simp_all add: k0_def a(6-9) demo_status_def)
      (simp add: demo_call_def demo_kernel_def)
  have arg: "int_of_long (syscall_arg k0 0) = 2"
    by (simp add: syscall_arg_def sel int_of_long_id in_int_range_def)
  have L: "L' (PCB_children 100) = [200, 201, 202, 203, x]" "L' ready_list = [101, p]"
    using out by (simp_all add: a(5))
  have x: "201 = wait_choice k0 2 NULL (L' (PCB_children (running k0)))"
    by (simp add: sel L wanted_def)
  have run: "internal_wait k0 = wait_block k0"
    by (rule internal_wait_cases [OF inv0 arg [symmetric] x refl]) (simp_all add: sel L)
  show thesis
  proof (rule wait_block_exec [OF inv0])
    fix r rs k1
    assume b: "L' ready_list = r # rs" "wait_block k0 = Inr k1" "running k1 = r"
      "kinv k1 (L'(ready_list := rs, waiting_list := L' waiting_list @ [running k0]))"
      "pcbs k1 = (pcbs k0)(running k0 := (pcbs k0 (running k0))\<lparr>status := Waiting\<rparr>)"
      "init_pcb k1 = init_pcb k0"
    then have "r = 101" "rs = [p]" by (simp_all add: L)
    with b run a(1) show thesis
      by (intro that [of k0 k1 "L'(ready_list := rs, waiting_list := L' waiting_list @ [running k0])" p])
        (auto simp: sel k0_def [symmetric])
  qed (simp add: L)
qed (simp_all add: in_int_range_def)

theorem exit_leaves_zombie_witness:
  "\<exists>k0 k1 k2. internal_fork (demo_call False DSOS_CALL_WAIT 2) = Inr k0 \<and>
     internal_wait k0 = Inr k1 \<and> running k1 = 101 \<and> internal_exit k1 = Inr k2 \<and>
     status (pcbs k2 101) = Zombie"
proof -
  obtain k0 k1 p L1 where k: "internal_fork (demo_call False DSOS_CALL_WAIT 2) = Inr k0"
    "internal_wait k0 = Inr k1" "running k1 = 101" "kinv k1 L1" "L1 ready_list = [p]"
    "init_pcb k1 = 100" "parent (pcbs k1 101) = 100" "pid (pcbs k1 101) = 1"
    "syscall_args (pcbs k1 100) 0 = 2"
    by (rule demo_forked)
  have "\<not> awaited_by_parent k1 101" by (simp add: awaited_by_parent_def k)
  with exit_leaves_zombie [OF k(4), of 101 p "[]"] k show ?thesis by auto
qed

text \<open>
  C36: \<open>init\<close> cannot end: with children the loop that would give them to \<open>init\<close>
  never ends, and without any the null parent is dereferenced.
\<close>

theorem exit_of_init_never_returns:
  assumes "kinv k L" and "running k = init_pcb k"
  shows "internal_exit k =
    Inl (if L (PCB_children (init_pcb k)) = [] then Null_deref else Diverges)"
  by (rule internal_exit_init [OF assms])

theorem exit_of_init_never_returns_witness:
  "internal_exit (demo_call False DSOS_CALL_EXIT 0) = Inl Diverges"
  using exit_of_init_never_returns [OF demo_call_kinv, of False DSOS_CALL_EXIT 0] by simp

end
