(* ===== verification/System_Theorems.thy ===== *)
theory System_Theorems
  imports Safety Boot Process_Theorems
begin

text \<open>
  The properties of the system as a whole: its start, the invariant of its runs, the faults of
  its calls and the dispatch of system calls.
\<close>

section \<open>An example of a layout\<close>

fun slot :: "pool_id \<Rightarrow> int" where
  "slot pcb_pool = 1"
| "slot pcb_ptr_pool = 2"
| "slot timer_pool = 3"
| "slot resource_pool = 4"
| "slot descriptor_pool = 5"
| "slot descriptor_ptr_pool = 6"
| "slot semaphore_pool = 7"
| "slot sem_descriptor_pool = 8"
| "slot sem_descriptor_ptr_pool = 9"

definition demo_layout :: layout where
  "demo_layout = \<lparr>sizeof_block = (\<lambda>_. 64), buffer_base = (\<lambda>i. 65536 * slot i)\<rparr>"

lemma slot_pos: "1 \<le> slot i"
  by (cases i) simp_all

lemma slot_inj: "i \<noteq> j \<Longrightarrow> slot i < slot j \<or> slot j < slot i"
  by (cases i; cases j) simp_all

lemma demo_layout_ok: "layout_ok demo_layout"
proof -
  have "65536 * slot i + 65536 \<le> 65536 * slot j \<or> 65536 * slot j + 65536 \<le> 65536 * slot i"
    if "i \<noteq> j" for i j using slot_inj [OF that] by linarith
  then show ?thesis
    using slot_pos by (simp add: layout_ok_def demo_layout_def) (metis zero_less_one order_less_le_trans)
qed

section \<open>The invariant\<close>

lemma start_ok:
  assumes "layout_ok ly" and "disastrOS_start ly f args logfile boot_kernel = Inr (c, k)"
  shows "kernel_ok k"
  by (rule start_exec [OF assms(1), of f args logfile])
    (use assms(2) in \<open>auto simp: kernel_ok_def\<close>)

text \<open>The example: the system starts and the timer ticks once.\<close>

lemma demo_tick_run:
  obtains k k' where "\<exists>c. disastrOS_start demo_layout 7 0 False boot_kernel = Inr (c, k)"
    "kernel_run k [Tick] k'"
proof (rule start_exec [OF demo_layout_ok, of 7 0 False])
  fix p k
  let ?k = "(upd_pcb (running k) (\<lambda>p. p\<lparr>cpu_state := Saved_context\<rparr>) k)\<lparr>disastrOS_time := 1\<rparr>"
  assume k: "disastrOS_start demo_layout 7 0 False boot_kernel = Inr (Resume p, k)"
    "kinv k (\<lambda>_. [])" "disastrOS_time k = 0"
  note S = sched_okD [OF kinvD(2) [OF k(2)]]
  have inv: "kinv ?k (\<lambda>_. [])" using k(2) by (simp add: kinv_irrelevant)
  have r: "in_int_range 1" by (simp add: in_int_range_def)
  show thesis
  proof (rule schedule_exec [OF inv])
    fix k'
    assume k': "internal_schedule ?k = Inr k'" "running k' = running ?k"
    have "timerInterrupt k = Inr k'"
      using S(3) k(3) k' r by (simp add: timerInterrupt_def Let_def)
    then have "kernel_run k [Tick] k'"
      by (intro run_cons [OF _ _ run_nil, where c = "Resume (running k')"])
        (simp_all add: kernel_step_def)
    with k(1) show thesis by (intro that) blast+
  next
    fix r rs
    assume "after_wake ?k (\<lambda>_. []) ready_list = r # rs"
    then show thesis by (simp add: after_wake_def woken_def)
  qed
qed

text \<open>
  C1: the invariant of the kernel holds in every state the system reaches: whatever calls the
  processes make and whenever the timer ticks, all lists are well formed and typed, every process
  is in one place, and the structures of processes, timers, semaphores and resources fit
  together.
\<close>

theorem kernel_invariant:
  assumes "layout_ok ly" and "disastrOS_start ly f args logfile boot_kernel = Inr (c, k)"
    and "kernel_run k es k'"
  shows "\<exists>L. kinv k' L"
proof -
  from kernel_system.run_ok [OF start_ok [OF assms(1,2)] assms(3)] show ?thesis by (simp add: kernel_ok_def)
qed

theorem kernel_invariant_witness:
  "\<exists>k k'. kernel_run k [Tick] k' \<and> (\<exists>L. kinv k' L)"
proof -
  obtain c k k' where k: "disastrOS_start demo_layout 7 0 False boot_kernel = Inr (c, k)"
    "kernel_run k [Tick] k'"
    by (rule demo_tick_run) blast
  from kernel_invariant [OF demo_layout_ok k] k(2) show ?thesis by blast
qed

text \<open>
  C10: the system starts: under any layout of its buffers \<open>disastrOS_start\<close> ends in the context
  of the process \<open>init\<close>, whose number is 0, which runs the given function, and all lists of
  the kernel are empty.
\<close>

theorem disastrOS_start_runs_init:
  assumes "layout_ok ly"
  shows "\<exists>p k. disastrOS_start ly f args logfile boot_kernel = Inr (Resume p, k) \<and>
    running k = p \<and> init_pcb k = p \<and> pid (pcbs k p) = 0 \<and> status (pcbs k p) = Running \<and>
    kinv k (\<lambda>_. [])"
  by (rule start_exec [OF assms, of f args logfile]) auto

theorem disastrOS_start_runs_init_witness:
  "\<exists>p k. disastrOS_start demo_layout 7 0 False boot_kernel = Inr (Resume p, k) \<and>
     pid (pcbs k p) = 0"
  using disastrOS_start_runs_init [OF demo_layout_ok] by blast

text \<open>
  C11: in every state the system reaches, the items of every list are blocks in use of the pool
  of their type, no item is in two lists or twice in one, and the lists can be walked from
  their heads in both directions.
\<close>

theorem kernel_lists_typed:
  assumes "layout_ok ly" and "disastrOS_start ly f args logfile boot_kernel = Inr (c, k)"
    and "kernel_run k es k'"
  shows "\<exists>L. (\<forall>h. dll (links k') (heads k' h) (L h) \<and> distinct (L h) \<and>
        set (L h) \<subseteq> pools_live (pools k') (kind h)) \<and>
      (\<forall>h h'. h \<noteq> h' \<longrightarrow> set (L h) \<inter> set (L h') = {})"
proof -
  from kernel_system.run_ok [OF start_ok [OF assms(1,2)] assms(3)] obtain L where inv: "kinv k' L"
    by (auto simp: kernel_ok_def)
  note K = kinvD [OF inv]
  show ?thesis
    by (intro exI [of _ L]) (use K(9) list_repD [OF K(7)] in \<open>auto simp: typed_lists_def\<close>)
qed

theorem kernel_lists_typed_witness:
  "\<exists>k k' xs. kernel_run k [Tick] k' \<and> dll (links k') (heads k' ready_list) xs \<and>
     set xs \<subseteq> pools_live (pools k') pcb_pool"
proof -
  obtain c k k' where k: "disastrOS_start demo_layout 7 0 False boot_kernel = Inr (c, k)"
    "kernel_run k [Tick] k'"
    by (rule demo_tick_run) blast
  from kernel_lists_typed [OF demo_layout_ok k] obtain L where
    "dll (links k') (heads k' ready_list) (L ready_list)"
    "set (L ready_list) \<subseteq> pools_live (pools k') (kind ready_list)" by blast
  with k(2) show ?thesis by auto
qed

text \<open>
  C7: no process is lost or in two places: in every state the system reaches there is a running
  process, every other live process is in exactly one of the ready, the waiting and the zombie
  list, and its status names the list.
\<close>

theorem processes_in_one_place:
  assumes "layout_ok ly" and "disastrOS_start ly f args logfile boot_kernel = Inr (c, k)"
    and "kernel_run k es k'"
  shows "\<exists>L. list_rep (links k') (heads k') L \<and> running k' \<in> pools_live (pools k') pcb_pool \<and>
    (\<forall>h. running k' \<notin> set (L h)) \<and>
    (\<forall>p \<in> pools_live (pools k') pcb_pool. p \<noteq> running k' \<longrightarrow>
       (p \<in> set (L ready_list)) = (status (pcbs k' p) = Ready) \<and>
       (p \<in> set (L waiting_list)) = (status (pcbs k' p) = Waiting) \<and>
       (p \<in> set (L zombie_list)) = (status (pcbs k' p) = Zombie) \<and>
       status (pcbs k' p) \<in> {Ready, Waiting, Zombie})"
proof -
  from kernel_system.run_ok [OF start_ok [OF assms(1,2)] assms(3)] obtain L where inv: "kinv k' L"
    by (auto simp: kernel_ok_def)
  note S = sched_okD [OF kinvD(2) [OF inv]]
  show ?thesis
    by (intro exI [of _ L])
      (use S(1,4,11) kinvD(7) [OF inv] in \<open>auto simp: place_ok_def\<close>)
qed

theorem processes_in_one_place_witness:
  "\<exists>k k'. kernel_run k [Tick] k' \<and> running k' \<in> pools_live (pools k') pcb_pool"
proof -
  obtain c k k' where k: "disastrOS_start demo_layout 7 0 False boot_kernel = Inr (c, k)"
    "kernel_run k [Tick] k'"
    by (rule demo_tick_run) blast
  from processes_in_one_place [OF demo_layout_ok k] k(2) show ?thesis by blast
qed

section \<open>Faults\<close>

text \<open>
  The only call that never ends: an exit of \<open>init\<close> while it has children.
\<close>

lemma exit_of_init_diverges:
  assumes "kinv k L" and "running k = init_pcb k" and "L (PCB_children (init_pcb k)) \<noteq> []"
  shows "disastrOS_syscall k DSOS_CALL_EXIT args = Inl Diverges"
proof -
  let ?f = "\<lambda>p. p\<lparr>syscall_args := (\<lambda>i. if i < syscall_numarg DSOS_CALL_EXIT then args i else syscall_args p i),
    syscall_num := DSOS_CALL_EXIT, cpu_state := Saved_context\<rparr>"
  let ?k = "upd_pcb (running k) ?f k"
  have "kinv ?k L" by (rule kinv_call [OF assms(1)]) simp
  from internal_exit_init [OF this] assms(2,3) have "internal_exit ?k = Inl Diverges" by simp
  moreover have "running k \<noteq> NULL" by (rule sched_okD(3) [OF kinvD(2) [OF assms(1)]])
  ultimately show ?thesis
    by (simp add: disastrOS_syscall_def disastrOS_trap_def Let_def call_numbers DSOS_MAX_SYSCALLS_def
        syscall_vector_def)
qed

text \<open>
  C3: which system calls of a well-formed kernel end, and how. The exit of \<open>init\<close> while it has children
  runs for ever, and the number \<open>DSOS_MAX_SYSCALLS\<close> reads beyond the tables. Every other call, whatever
  its number and its arguments, ends: it resumes the process that is running then, or the system is
  shut down, or the call is refused at once, or it faults in one of the ways \<open>call_faults\<close> lists
  for it: it dereferences a null pointer or overflows an \<open>int\<close>; no assertion fails in it and no loop
  runs for ever.
\<close>

theorem syscall_ends:
  assumes "kinv k L"
    and "endless \<longleftrightarrow> n = DSOS_CALL_EXIT \<and> running k = init_pcb k \<and> L (PCB_children (init_pcb k)) \<noteq> []"
  shows "(endless \<longrightarrow> disastrOS_syscall k n args = Inl Diverges) \<and>
    (n = DSOS_MAX_SYSCALLS \<longrightarrow> disastrOS_syscall k n args = Inl Out_of_bounds) \<and>
    (\<not> endless \<and> n \<noteq> DSOS_MAX_SYSCALLS \<longrightarrow>
      (\<exists>k' L'. disastrOS_syscall k n args = Inr (Resume (running k'), k') \<and> kinv k' L') \<or>
      (\<exists>k'. disastrOS_syscall k n args = Inr (Exited, k')) \<or>
      (\<exists>v. disastrOS_syscall k n args = Inr (Returned v, k)) \<or>
      (\<exists>e \<in> call_faults n. disastrOS_syscall k n args = Inl e))"
proof (intro conjI impI)
  show "disastrOS_syscall k n args = Inl Diverges" if endless
    using exit_of_init_diverges [OF assms(1)] that assms(2) by simp
  show "disastrOS_syscall k n args = Inl Out_of_bounds" if "n = DSOS_MAX_SYSCALLS"
    using sched_okD(3) [OF kinvD(2) [OF assms(1)]] that
    by (simp add: disastrOS_syscall_def DSOS_MAX_SYSCALLS_def)
  assume n: "\<not> endless \<and> n \<noteq> DSOS_MAX_SYSCALLS"
  show "(\<exists>k' L'. disastrOS_syscall k n args = Inr (Resume (running k'), k') \<and> kinv k' L') \<or>
      (\<exists>k'. disastrOS_syscall k n args = Inr (Exited, k')) \<or>
      (\<exists>v. disastrOS_syscall k n args = Inr (Returned v, k)) \<or>
      (\<exists>e \<in> call_faults n. disastrOS_syscall k n args = Inl e)"
  proof (cases "disastrOS_syscall k n args")
    case (Inl e)
    with syscall_faults_in [OF assms(1), of n args] assms(2) n show ?thesis by auto
  next
    case (Inr r)
    then obtain c k' where r: "disastrOS_syscall k n args = Inr (c, k')" by (cases r) simp
    from syscall_preserves [OF assms(1) r] r assms(1) show ?thesis by (cases c) auto
  qed
qed

theorem syscall_ends_witness:
  "disastrOS_syscall (demo_kernel False) DSOS_CALL_SEMPOST (\<lambda>_. 0) \<notin> {Inl Assert_failed, Inl Diverges} \<and>
   disastrOS_syscall (demo_kernel False) DSOS_CALL_EXIT (\<lambda>_. 0) = Inl Diverges"
proof -
  have init: "running (demo_kernel False) = init_pcb (demo_kernel False)"
    "demo_lists False (PCB_children (init_pcb (demo_kernel False))) \<noteq> []"
    by (simp_all add: demo_kernel_def)
  note S = syscall_ends [OF demo_kinv, of _ DSOS_CALL_SEMPOST False "\<lambda>_. 0"]
    syscall_ends [OF demo_kinv, of _ DSOS_CALL_EXIT False "\<lambda>_. 0"]
  show ?thesis
    using S(1) [OF refl] S(2) [OF refl] init
    by (auto simp: call_faults_def call_numbers DSOS_MAX_SYSCALLS_def)
qed

text \<open>
  The calls that give back what they were given never fail: preemption, shutdown, closing
  and destroying always return, whatever their arguments, as do calls no handler is installed
  for.
\<close>

theorem releasing_calls_return:
  assumes "kinv k L" and "call_faults n = {}" and "n \<noteq> DSOS_MAX_SYSCALLS"
  shows "\<exists>c k'. disastrOS_syscall k n args = Inr (c, k')"
proof -
  have "n \<noteq> DSOS_CALL_EXIT" using assms(2) by (auto simp: call_faults_def call_numbers)
  then have "faults_in {} (disastrOS_syscall k n args)"
    using syscall_faults_in [OF assms(1,3), of args] assms(2) by simp
  then show ?thesis by (cases "disastrOS_syscall k n args") auto
qed

theorem releasing_calls_return_witness:
  "\<exists>c k'. disastrOS_syscall (demo_kernel False) DSOS_CALL_SEMCLOSE (\<lambda>_. 0) = Inr (c, k')"
  by (rule releasing_calls_return [OF demo_kinv])
    (simp_all add: call_faults_def call_numbers DSOS_MAX_SYSCALLS_def)

text \<open>
  The guard of \<open>disastrOS_syscall\<close> lets the number \<open>DSOS_MAX_SYSCALLS\<close> through to tables
  that have no such entry; smaller and larger wrong numbers are refused.
\<close>

theorem syscall_number_guard:
  assumes "kinv k L" and "n < 0 \<or> DSOS_MAX_SYSCALLS < n"
  shows "disastrOS_syscall k n args = Inr (Returned DSOS_ESYSCALL_OUT_OF_RANGE, k) \<and>
    disastrOS_syscall k DSOS_MAX_SYSCALLS args = Inl Out_of_bounds"
  using sched_okD(3) [OF kinvD(2) [OF assms(1)]] assms(2)
  by (auto simp: disastrOS_syscall_def DSOS_MAX_SYSCALLS_def)

theorem syscall_number_guard_witness:
  "disastrOS_syscall (demo_kernel False) 33 (\<lambda>_. 0) =
     Inr (Returned DSOS_ESYSCALL_OUT_OF_RANGE, demo_kernel False)"
  using syscall_number_guard [OF demo_kinv, of 33] by (simp add: DSOS_MAX_SYSCALLS_def)

text \<open>
  A number in range that has no handler gives the caller the result
  \<open>DSOS_ESYSCALL_NOT_IMPLEMENTED\<close> and lets it run on.
\<close>

theorem syscall_not_implemented:
  assumes "kinv k L" and "0 \<le> n" and "n < DSOS_MAX_SYSCALLS" and "syscall_vector n = None"
    and "shutdown_now k = 0"
  shows "\<exists>k'. disastrOS_syscall k n args = Inr (Resume (running k), k') \<and> kinv k' L \<and>
    syscall_retvalue (pcbs k' (running k)) = DSOS_ESYSCALL_NOT_IMPLEMENTED"
proof -
  let ?f = "\<lambda>p. p\<lparr>syscall_args := (\<lambda>i. if i < syscall_numarg n then args i else syscall_args p i),
    syscall_num := n, cpu_state := Saved_context\<rparr>"
  have "kinv (upd_pcb (running k) ?f k) L" by (rule kinv_call [OF assms(1)]) simp
  with assms(2-5) sched_okD(3) [OF kinvD(2) [OF assms(1)]] show ?thesis
    by (simp add: disastrOS_syscall_def disastrOS_trap_def Let_def)
qed

theorem syscall_not_implemented_witness:
  "\<exists>k'. disastrOS_syscall (demo_kernel False) 0 (\<lambda>_. 0) = Inr (Resume 100, k') \<and>
     syscall_retvalue (pcbs k' 100) = DSOS_ESYSCALL_NOT_IMPLEMENTED"
proof -
  have "syscall_vector 0 = None" by (simp add: syscall_vector_def call_numbers)
  moreover have "running (demo_kernel False) = 100" "shutdown_now (demo_kernel False) = 0"
    by (simp_all add: demo_kernel_def)
  ultimately show ?thesis
    using syscall_not_implemented [OF demo_kinv, of 0 False "\<lambda>_. 0"]
    by (auto simp: DSOS_MAX_SYSCALLS_def)
qed

end
