(* ===== verification/Sched_Theorems.thy ===== *)
theory Sched_Theorems
  imports System_Correct Boot Process_Theorems
begin

text \<open>
  The properties of the scheduler, of sleeping and of the timer, each with an instance on the
  example kernel.
\<close>

lemma after_wake_none:
  assumes "\<forall>t \<in> set (L timer_list). disastrOS_time k < awakening_time (timer_items k t)"
  shows "after_wake k L = L"
proof -
  have "takeWhile (\<lambda>t. awakening_time (timer_items k t) \<le> disastrOS_time k) (L timer_list) = []"
    "dropWhile (\<lambda>t. awakening_time (timer_items k t) \<le> disastrOS_time k) (L timer_list) = L timer_list"
    using assms by (cases "L timer_list"; simp)+
  then show ?thesis by (simp add: after_wake_def woken_def fun_eq_iff)
qed

text \<open>
  When no timer has elapsed, \<open>preempt\<close> is round robin: the first ready process runs and
  the caller goes to the end of the ready list.
\<close>

theorem preempt_rotates:
  assumes "kinv k L" and "L ready_list = r # rs"
    and "\<forall>t \<in> set (L timer_list). disastrOS_time k < awakening_time (timer_items k t)"
  shows "\<exists>k'. internal_preempt k = Inr k' \<and> running k' = r \<and>
    kinv k' (L(ready_list := rs @ [running k])) \<and>
    status (pcbs k' r) = Running \<and> status (pcbs k' (running k)) = Ready"
proof -
  have same: "after_wake k L = L" by (rule after_wake_none) (use assms(3) in simp)
  show ?thesis
    by (rule schedule_exec [OF assms(1)]) (use assms(2) in \<open>auto simp: internal_preempt_def same\<close>)
qed

theorem preempt_rotates_witness:
  "\<exists>k'. internal_preempt (demo_call False DSOS_CALL_PREEMPT 0) = Inr k' \<and> running k' = 101 \<and>
     kinv k' ((demo_lists False)(ready_list := [100]))"
proof -
  have "\<forall>t \<in> set (demo_lists False timer_list). disastrOS_time (demo_call False DSOS_CALL_PREEMPT 0) <
      awakening_time (timer_items (demo_call False DSOS_CALL_PREEMPT 0) t)"
    by (simp add: demo_kernel_def)
  from preempt_rotates [OF demo_call_kinv _ this, of 101 "[]"] show ?thesis by auto
qed

text \<open>
  C12: the scheduler wakes the processes of all timers that have elapsed, and only those: in the
  order of their timers they go in front of the processes that were ready, and the first of
  them runs.
\<close>

theorem schedule_wakes_in_order:
  assumes "kinv k L" and "L timer_list = us @ vs" and "us \<noteq> []"
    and "\<forall>t \<in> set us. awakening_time (timer_items k t) \<le> disastrOS_time k"
    and "\<forall>t \<in> set vs. disastrOS_time k < awakening_time (timer_items k t)"
    and "ws = map (\<lambda>t. t_pcb (timer_items k t)) us"
  shows "\<exists>k'. internal_schedule k = Inr k' \<and> running k' = hd ws \<and>
    kinv k' (L(waiting_list := filter (\<lambda>p. p \<notin> set ws) (L waiting_list), timer_list := vs,
      ready_list := tl ws @ L ready_list @ [running k]))"
proof -
  let ?e = "\<lambda>t. awakening_time (timer_items k t) \<le> disastrOS_time k"
  have "takeWhile ?e (us @ vs) = us" "dropWhile ?e (us @ vs) = vs"
    using assms(4,5) by (cases vs; simp)+
  then have w: "after_wake k L = L(waiting_list := filter (\<lambda>p. p \<notin> set ws) (L waiting_list),
      ready_list := ws @ L ready_list, timer_list := vs)"
    by (simp add: after_wake_def woken_def assms(2,6))
  obtain w' where ws: "ws = hd ws # w'" using assms(3,6) by (cases us) auto
  show ?thesis
  proof (rule schedule_exec [OF assms(1)])
    assume "after_wake k L ready_list = []"
    then show ?thesis using ws by (simp add: w)
  next
    fix r rs k'
    assume a: "internal_schedule k = Inr k'" "after_wake k L ready_list = r # rs"
      "kinv k' ((after_wake k L)(ready_list := rs @ [running k]))" "running k' = r"
    have "r = hd ws" "rs = tl ws @ L ready_list"
      using a(2) ws by (simp_all add: w) (metis append_Cons list.inject list.sel(1,3))+
    with a show ?thesis by (simp add: w fun_upd_twist)
  qed
qed

text \<open>The example at a later time.\<close>

definition demo_later :: "int \<Rightarrow> kernel" where
  "demo_later t = (demo_call False DSOS_CALL_PREEMPT 0)\<lparr>disastrOS_time := t\<rparr>"

lemma demo_later_kinv: "kinv (demo_later t) (demo_lists False)"
  by (simp add: demo_later_def demo_call_kinv)

theorem schedule_wakes_in_order_witness:
  "\<exists>k'. internal_schedule (demo_later 5) = Inr k' \<and> running k' = 103 \<and>
     kinv k' ((demo_lists False)(waiting_list := [102], timer_list := [],
       ready_list := [101, 100]))"
  using schedule_wakes_in_order [OF demo_later_kinv, of "[300]" "[]" 5 "[103]"]
  by (simp add: demo_later_def demo_call_def demo_kernel_def upd_pcb_def)

text \<open>One tick without timers runs the first ready process.\<close>

lemma tick_rotates:
  assumes inv: "kinv k L" and none: "L timer_list = []" and r: "L ready_list = r # rs"
    and range: "in_int_range (disastrOS_time k + 1)"
  shows "\<exists>k'. kernel_step k Tick = Inr (Resume r, k') \<and> running k' = r \<and>
    kinv k' (L(ready_list := rs @ [running k])) \<and> disastrOS_time k' = disastrOS_time k + 1"
proof -
  let ?k = "(upd_pcb (running k) (\<lambda>p. p\<lparr>cpu_state := Saved_context\<rparr>) k)
    \<lparr>disastrOS_time := disastrOS_time k + 1\<rparr>"
  note S = sched_okD [OF kinvD(2) [OF inv]]
  have inv1: "kinv ?k L" using inv by (simp add: kinv_irrelevant)
  have same: "after_wake ?k L = L" by (rule after_wake_none) (simp add: none)
  have rz: "r \<noteq> NULL" using kinv_nonnull [OF inv, of r ready_list] r by simp
  show ?thesis
  proof (rule schedule_exec [OF inv1])
    fix r' rs' k'
    assume a: "internal_schedule ?k = Inr k'" "after_wake ?k L ready_list = r' # rs'"
      "kinv k' ((after_wake ?k L)(ready_list := rs' @ [running ?k]))" "running k' = r'"
      "disastrOS_time k' = disastrOS_time ?k"
    have "r' = r" "rs' = rs" using a(2) r by (simp_all add: same)
    with a S(3) rz range show ?thesis
      by (simp add: kernel_step_def timerInterrupt_def same)
  qed (simp add: same r)
qed

text \<open>
  C13: no ready process starves: without timers, a process with \<open>n\<close> others before it in the
  ready list runs after \<open>n + 1\<close> ticks.
\<close>

theorem ready_process_runs:
  assumes "kinv k L" and "L timer_list = []" and "L ready_list = xs @ p # ys"
    and "0 \<le> disastrOS_time k" and "in_int_range (disastrOS_time k + int (length xs) + 1)"
  shows "\<exists>k' L'. kernel_run k (replicate (Suc (length xs)) Tick) k' \<and> kinv k' L' \<and> running k' = p"
  using assms
proof (induction xs arbitrary: k L ys)
  case Nil
  have "in_int_range (disastrOS_time k + 1)" using Nil by simp
  with tick_rotates [OF Nil(1,2), of p ys] Nil(3) show ?case
    by (auto intro!: run_cons run_nil)
next
  case (Cons x xs)
  have "in_int_range (disastrOS_time k + 1)"
    using Cons.prems(4,5) by (auto simp: in_int_range_def)
  with tick_rotates [OF Cons.prems(1,2), of x "xs @ p # ys"] Cons.prems(3) obtain k1 where
    k1: "kernel_step k Tick = Inr (Resume x, k1)"
      "kinv k1 (L(ready_list := (xs @ p # ys) @ [running k]))"
      "disastrOS_time k1 = disastrOS_time k + 1" by auto
  have "\<exists>k' L'. kernel_run k1 (replicate (Suc (length xs)) Tick) k' \<and> kinv k' L' \<and> running k' = p"
    by (rule Cons.IH [OF k1(2), of "ys @ [running k]"])
      (use Cons.prems k1(3) in \<open>simp_all add: algebra_simps\<close>)
  then obtain k' L' where "kernel_run k1 (replicate (Suc (length xs)) Tick) k'" "kinv k' L'"
    "running k' = p" by blast
  moreover from run_cons [OF k1(1) _ this(1)]
  have "kernel_run k (replicate (Suc (length (x # xs))) Tick) k'" by simp
  ultimately show ?case by blast
qed

text \<open>The example after its only timer has elapsed.\<close>

lemma demo_awake:
  obtains k where "kinv k ((demo_lists False)(waiting_list := [102], timer_list := [],
    ready_list := [101, 100]))" "disastrOS_time k = 5"
proof (rule schedule_exec [OF demo_later_kinv [of 5]])
  have w: "after_wake (demo_later 5) (demo_lists False) =
      (demo_lists False)(waiting_list := [102], timer_list := [], ready_list := [103, 101])"
    by (simp add: after_wake_def woken_def demo_later_def demo_call_def demo_kernel_def upd_pcb_def
        fun_eq_iff)
  have now: "running (demo_later 5) = 100" "disastrOS_time (demo_later 5) = 5"
    by (simp_all add: demo_later_def)
  {
    assume "after_wake (demo_later 5) (demo_lists False) ready_list = []"
    then show thesis by (simp add: w)
  next
    fix r rs k
    assume a: "after_wake (demo_later 5) (demo_lists False) ready_list = r # rs"
      "kinv k ((after_wake (demo_later 5) (demo_lists False))(ready_list := rs @ [running (demo_later 5)]))"
      "disastrOS_time k = disastrOS_time (demo_later 5)"
    have "rs = [101]" using a(1) by (simp add: w)
    with a(2,3) show thesis
      by (intro that [of k]) (simp_all add: w now)
  }
qed

theorem ready_process_runs_witness:
  "\<exists>k es k'. es = [Tick, Tick] \<and> kernel_run k es k' \<and> running k' = 100"
proof -
  obtain k where k: "kinv k ((demo_lists False)(waiting_list := [102], timer_list := [],
    ready_list := [101, 100]))" "disastrOS_time k = 5" by (rule demo_awake)
  have "in_int_range (disastrOS_time k + int (length [101::addr]) + 1)"
    by (simp add: k(2) in_int_range_def)
  from ready_process_runs [OF k(1) _ _ _ this, of 100 "[]"] k(2) show ?thesis
    by (auto simp: numeral_2_eq_2)
qed

section \<open>Sleeping\<close>

text \<open>The keys of the timer list after an insertion.\<close>

lemma insert_timer_insort:
  assumes "sorted (map (\<lambda>t. awakening_time (ti t)) ts)" and "awakening_time (ti' t) = wake"
    and "\<And>u. u \<in> set ts \<Longrightarrow> ti' u = ti u"
  shows "map (\<lambda>t. awakening_time (ti' t)) (insert_timer ti wake t ts) =
    insort wake (map (\<lambda>t. awakening_time (ti t)) ts)"
  using assms(1,3)
proof (induction ts)
  case Nil
  then show ?case by (simp add: insert_timer_def assms(2))
next
  case (Cons u us)
  show ?case
  proof (cases "awakening_time (ti u) \<le> wake")
    case le: True
    then have e: "insert_timer ti wake t (u # us) = u # insert_timer ti wake t us"
      by (simp add: insert_timer_def)
    have i: "map (\<lambda>t. awakening_time (ti' t)) (insert_timer ti wake t us) =
        insort wake (map (\<lambda>t. awakening_time (ti t)) us)"
      using Cons by simp
    show ?thesis
    proof (cases "awakening_time (ti u) = wake")
      case True
      then have "insort wake (map (\<lambda>t. awakening_time (ti t)) us) = wake # map (\<lambda>t. awakening_time (ti t)) us"
        using Cons.prems(1) by (intro insort_is_Cons) auto
      with True i e Cons.prems(2) show ?thesis by simp
    next
      case False
      with le i e Cons.prems(2) show ?thesis by simp
    qed
  next
    case False
    with Cons.prems show ?thesis by (simp add: insert_timer_def assms(2))
  qed
qed

text \<open>
  C14: \<open>sleep\<close> with a ready process puts the caller at the end of the waiting list and runs the
  first ready process; the wake-up times of the pending timers are what inserting the new time
  in the sorted list of the old ones gives, the new timer being behind those of the same time.
\<close>

theorem sleep_sorts_timers:
  assumes "kinv k L" and "syscall_num (pcbs k (running k)) = DSOS_CALL_SLEEP"
    and "wake = disastrOS_time k + int_of_long (syscall_arg k 0)" and "in_int_range wake"
    and "0 < pools_room (pools k) timer_pool" and "L ready_list = r # rs"
  shows "\<exists>k' ts. internal_sleep k = Inr k' \<and> running k' = r \<and>
    kinv k' (L(timer_list := ts, waiting_list := L waiting_list @ [running k], ready_list := rs)) \<and>
    map (\<lambda>t. awakening_time (timer_items k' t)) ts =
      insort wake (map (\<lambda>t. awakening_time (timer_items k t)) (L timer_list)) \<and>
    (\<exists>us t vs. ts = us @ t # vs \<and> L timer_list = us @ vs \<and> t_pcb (timer_items k' t) = running k \<and>
       (\<forall>u \<in> set us. awakening_time (timer_items k u) \<le> wake) \<and>
       (\<forall>v \<in> set vs. wake < awakening_time (timer_items k v)))"
proof (rule sleep_exec [OF assms(1-3)])
  let ?e = "\<lambda>t. awakening_time (timer_items k t) \<le> wake"
  fix t k' L'
  assume a: "internal_sleep k = Inr k'"
    "L' = L(timer_list := insert_timer (timer_items k) wake t (L timer_list),
       waiting_list := L waiting_list @ [running k], ready_list := tl (L ready_list))"
    "timer_items k' t = \<lparr>awakening_time = wake, t_pcb = running k\<rparr>"
    "\<And>u. u \<noteq> t \<Longrightarrow> timer_items k' u = timer_items k u"
    "L ready_list \<noteq> [] \<Longrightarrow> kinv k' L' \<and> running k' = hd (L ready_list)" "t \<notin> set (L timer_list)"
  let ?ts = "insert_timer (timer_items k) wake t (L timer_list)"
  have s: "sorted (map (\<lambda>t. awakening_time (timer_items k t)) (L timer_list))"
    using timer_okD(4) [OF kinvD(4) [OF assms(1)]] .
  have "map (\<lambda>t. awakening_time (timer_items k' t)) ?ts =
      insort wake (map (\<lambda>t. awakening_time (timer_items k t)) (L timer_list))"
  proof (rule insert_timer_insort [OF s])
    show "timer_items k' u = timer_items k u" if "u \<in> set (L timer_list)" for u
      using that a(4) [of u] a(6) by metis
  qed (simp add: a(3))
  moreover have "\<forall>v \<in> set (dropWhile ?e (L timer_list)). wake < awakening_time (timer_items k v)"
  proof
    fix v
    assume v: "v \<in> set (dropWhile ?e (L timer_list))"
    then obtain w ws where w: "dropWhile ?e (L timer_list) = w # ws"
      by (cases "dropWhile ?e (L timer_list)") auto
    then have "\<not> ?e w" using hd_dropWhile [of ?e "L timer_list"] by simp
    moreover have "sorted (map (\<lambda>t. awakening_time (timer_items k t)) (w # ws))"
      using sorted_dropWhile [OF s, of "\<lambda>x. x \<le> wake"] w by (simp add: dropWhile_map o_def)
    ultimately show "wake < awakening_time (timer_items k v)" using v w by force
  qed
  moreover have "\<forall>u \<in> set (takeWhile ?e (L timer_list)). ?e u" by (auto dest: set_takeWhileD)
  ultimately show ?thesis using a(1-3,5) assms(6)
    by (intro exI [of _ k'] exI [of _ ?ts] conjI exI [of _ "takeWhile ?e (L timer_list)"]
        exI [of _ t] exI [of _ "dropWhile ?e (L timer_list)"]) (simp_all add: insert_timer_def)
qed (use assms(4,5) in simp_all)

theorem sleep_sorts_timers_witness:
  "\<exists>k'. internal_sleep (demo_call False DSOS_CALL_SLEEP 2) = Inr k' \<and> running k' = 101"
  using sleep_sorts_timers [OF demo_call_kinv, of False DSOS_CALL_SLEEP 2 5 101 "[]"]
  by (auto simp: int_of_long_id in_int_range_def)

text \<open>
  C34: when the caller of \<open>sleep\<close> is the only process that could run, the main context is
  resumed as if the system had just started: a second process \<open>init\<close> is made and runs.
\<close>

theorem sleep_alone_makes_new_init:
  assumes "kinv k L" and "L ready_list = []" and "log_file k = False" and "shutdown_now k = 0"
    and "in_int_range (disastrOS_time k + int_of_long t)"
    and "0 < pools_room (pools k) timer_pool" and "0 < pools_room (pools k) pcb_pool"
    and "in_int_range (last_pid k + 1)"
  shows "\<exists>p k' L'. disastrOS_sleep k t = Inr (Resume p, k') \<and> kinv k' L' \<and>
    p \<notin> pools_live (pools k) pcb_pool \<and> init_pcb k' = p \<and> pid (pcbs k' p) = last_pid k \<and>
    L' waiting_list = L waiting_list @ [running k]"
proof -
  let ?f = "\<lambda>p. p\<lparr>syscall_args := (\<lambda>i. if i < 1 then (no_args(0 := t)) i else syscall_args p i),
    syscall_num := DSOS_CALL_SLEEP, cpu_state := Saved_context\<rparr>"
  let ?k = "upd_pcb (running k) ?f k"
  have z: "running k \<noteq> NULL" by (rule sched_okD(3) [OF kinvD(2) [OF assms(1)]])
  have inv: "kinv ?k L" by (rule kinv_call [OF assms(1)]) simp
  have arg: "syscall_arg ?k 0 = t" by (simp add: syscall_arg_def)
  have step: "disastrOS_sleep k t = andthen (internal_sleep ?k) (\<lambda>k1.
      if shutdown_now k1 \<noteq> 0 then main_context_resumed k1
      else if log_file k1 \<and> running k1 = NULL then Inl Null_deref
      else if running k1 \<noteq> NULL then Inr (Resume (running k1), k1)
      else main_context_resumed k1)"
    using z by (simp add: disastrOS_sleep_def disastrOS_syscall_def disastrOS_trap_def Let_def
        syscall_vector_def syscall_numarg_def call_numbers DSOS_MAX_SYSCALLS_def)
  show ?thesis
  proof (rule sleep_exec [OF inv _ refl])
    fix u k1 L1
    assume a: "internal_sleep ?k = Inr k1"
      "L1 = L(timer_list := insert_timer (timer_items ?k) (disastrOS_time ?k + int_of_long (syscall_arg ?k 0)) u (L timer_list),
         waiting_list := L waiting_list @ [running ?k], ready_list := tl (L ready_list))"
      "L ready_list = [] \<Longrightarrow> kinv_idle k1 L1 \<and> running k1 = NULL" "shutdown_now k1 = shutdown_now ?k"
      "pools_room (pools k1) pcb_pool = pools_room (pools ?k) pcb_pool"
      "pools_live (pools k1) pcb_pool = pools_live (pools ?k) pcb_pool" "last_pid k1 = last_pid ?k"
      "log_file k1 = log_file ?k"
    have idle: "kinv_idle k1 L1" "running k1 = NULL" "shutdown_now k1 = 0"
      using a(3,4) assms(2,4) by simp_all
    note K = kinv_idleD [OF idle(1)]
    have go: "disastrOS_sleep k t = main_context_resumed k1"
      using step a(1,8) idle(2,3) assms(3) by simp
    show ?thesis
    proof (rule main_context_exec [OF K(1,2,4-8) idle(3)])
      fix p k'
      assume b: "main_context_resumed k1 = Inr (Resume p, k')" "init_pcb k' = p"
        "kinv k' (L1(PCB_descriptors p := [], PCB_children p := [], PCB_sem_descriptors p := []))"
        "p \<notin> pools_live (pools k1) pcb_pool" "pid (pcbs k' p) = last_pid k1"
      from go b(1) have "disastrOS_sleep k t = Inr (Resume p, k')" by simp
      moreover have "p \<notin> pools_live (pools k) pcb_pool" using b(4) a(6) by simp
      ultimately show ?thesis
        using b(2,3,5) a(2,7)
        by (intro exI [of _ p] exI [of _ k'] conjI
          exI [of _ "L1(PCB_descriptors p := [], PCB_children p := [], PCB_sem_descriptors p := [])"]) simp_all
    qed (use a(5,7) assms(7,8) in simp_all)
  qed (use assms(5,6) arg in simp_all)
qed

theorem sleep_alone_makes_new_init_witness:
  "\<exists>p k'. disastrOS_sleep (demo_kernel True) 2 = Inr (Resume p, k') \<and> init_pcb k' = p \<and>
     p \<notin> {100, 101, 102, 103, 104} \<and> pid (pcbs k' p) = 5"
  using sleep_alone_makes_new_init [OF demo_kinv, of True 2]
  by (auto simp: demo_kernel_def demo_room demo_live_sets int_of_long_id in_int_range_def)

end
