(* ===== verification/Sem_Abstract.thy ===== *)
theory Sem_Abstract
  imports Sem_Correct Demo
begin

text \<open>
  The abstract counting semaphore: a count and a first-in first-out queue of processes. The
  calls \<open>semWait\<close> and \<open>semPost\<close> refine its two operations, and what a semaphore is for, that no
  more processes pass than its count and the posts allow, is proved for every system that
  refines it (the locale \<open>counting_semaphore\<close>) and so for the kernel.
\<close>

section \<open>The specification\<close>

record counting_sem =
  cs_count :: int
  cs_queue :: "addr list"

definition cs_wait :: "addr \<Rightarrow> counting_sem \<Rightarrow> counting_sem" where
  "cs_wait p a =
     (if 0 < cs_count a then a\<lparr>cs_count := cs_count a - 1\<rparr>
      else \<lparr>cs_count = cs_count a - 1, cs_queue = cs_queue a @ [p]\<rparr>)"

definition cs_post :: "counting_sem \<Rightarrow> counting_sem" where
  "cs_post a =
     \<lparr>cs_count = cs_count a + 1,
      cs_queue = (if cs_count a < 0 then tl (cs_queue a) else cs_queue a)\<rparr>"

definition cs_balanced :: "counting_sem \<Rightarrow> bool" where
  "cs_balanced a \<longleftrightarrow> int (length (cs_queue a)) = max 0 (- cs_count a)"

lemma cs_balanced_wait: "cs_balanced a \<Longrightarrow> cs_balanced (cs_wait p a)"
  by (auto simp: cs_balanced_def cs_wait_def)

lemma cs_balanced_post: "cs_balanced a \<Longrightarrow> cs_balanced (cs_post a)"
  by (cases "cs_queue a") (auto simp: cs_balanced_def cs_post_def)

text \<open>What happens to a semaphore: a process waits, one posts, or it is not touched.\<close>

datatype sem_op = Wait_by addr | Post_by addr | Other

fun waits :: "sem_op list \<Rightarrow> nat" where
  "waits [] = 0"
| "waits (Wait_by p # es) = Suc (waits es)"
| "waits (_ # es) = waits es"

fun posts :: "sem_op list \<Rightarrow> nat" where
  "posts [] = 0"
| "posts (Post_by p # es) = Suc (posts es)"
| "posts (_ # es) = posts es"

inductive sem_run :: "('s \<Rightarrow> sem_op \<Rightarrow> 's \<Rightarrow> bool) \<Rightarrow> 's \<Rightarrow> sem_op list \<Rightarrow> 's \<Rightarrow> bool"
  for step :: "'s \<Rightarrow> sem_op \<Rightarrow> 's \<Rightarrow> bool"
where
  sem_run_nil: "sem_run step s [] s"
| sem_run_cons: "step s e s1 \<Longrightarrow> sem_run step s1 es s2 \<Longrightarrow> sem_run step s (e # es) s2"

locale counting_semaphore =
  fixes step :: "'s \<Rightarrow> sem_op \<Rightarrow> 's \<Rightarrow> bool" and view :: "'s \<Rightarrow> counting_sem"
  assumes wait_view: "step s (Wait_by p) s' \<Longrightarrow> view s' = cs_wait p (view s)"
    and post_view: "step s (Post_by p) s' \<Longrightarrow> view s' = cs_post (view s)"
    and other_view: "step s Other s' \<Longrightarrow> view s' = view s"
begin

lemma run_count:
  "sem_run step s es s' \<Longrightarrow>
     cs_count (view s') = cs_count (view s) - int (waits es) + int (posts es)"
proof (induction rule: sem_run.induct)
  case (sem_run_cons s e s1 es s2)
  then show ?case
    by (cases e) (auto dest!: wait_view post_view other_view simp: cs_wait_def cs_post_def)
qed simp

lemma run_balanced: "sem_run step s es s' \<Longrightarrow> cs_balanced (view s) \<Longrightarrow> cs_balanced (view s')"
proof (induction rule: sem_run.induct)
  case (sem_run_cons s e s1 es s2)
  have "cs_balanced (view s1)"
    using sem_run_cons.hyps(1) sem_run_cons.prems
    by (cases e) (auto dest!: wait_view post_view other_view simp: cs_balanced_wait cs_balanced_post)
  then show ?case by (rule sem_run_cons.IH)
qed

text \<open>
  The waits that have been let through, whether the process was queued before the run or came
  in it: no more than the count at the beginning and the posts allow, and exactly as many while
  somebody is in the queue.
\<close>

lemma run_admits:
  "sem_run step s es s' \<Longrightarrow>
     int (waits es) + int (length (cs_queue (view s))) - int (length (cs_queue (view s'))) \<le>
     max 0 (cs_count (view s)) - max 0 (cs_count (view s')) + int (posts es)"
proof (induction rule: sem_run.induct)
  case (sem_run_cons s e s1 es s2)
  show ?case
  proof (cases e)
    case (Wait_by p)
    with sem_run_cons.hyps(1) have "view s1 = cs_wait p (view s)" by (blast dest: wait_view)
    with sem_run_cons.IH Wait_by show ?thesis by (auto simp: cs_wait_def split: if_splits)
  next
    case (Post_by p)
    with sem_run_cons.hyps(1) have "view s1 = cs_post (view s)" by (blast dest: post_view)
    with sem_run_cons.IH Post_by show ?thesis
      by (cases "cs_queue (view s)") (auto simp: cs_post_def max_def split: if_splits)
  next
    case Other
    with sem_run_cons.hyps(1) have "view s1 = view s" by (blast dest: other_view)
    with sem_run_cons.IH Other show ?thesis by simp
  qed
qed simp

lemma run_admits_queued:
  assumes "sem_run step s es s'" and "cs_balanced (view s)" and "cs_queue (view s') \<noteq> []"
  shows "int (waits es) + int (length (cs_queue (view s))) - int (length (cs_queue (view s'))) =
     max 0 (cs_count (view s)) + int (posts es)"
  using run_balanced [OF assms(1,2)] run_count [OF assms(1)] assms(2,3)
  by (auto simp: cs_balanced_def max_def split: if_splits)

text \<open>First come, first served: the posts take the queue from its front.\<close>

lemma run_first_come:
  "sem_run step s es s' \<Longrightarrow> int (length (cs_queue (view s))) \<le> max 0 (- cs_count (view s)) \<Longrightarrow>
     \<exists>ys. cs_queue (view s') = drop (posts es) (cs_queue (view s)) @ ys \<and> set ys \<subseteq> {p. Wait_by p \<in> set es}"
proof (induction rule: sem_run.induct)
  case (sem_run_cons s e s1 es s2)
  let ?q = "cs_queue (view s)" and ?c = "cs_count (view s)"
  note len = sem_run_cons.prems
  show ?case
  proof (cases e)
    case (Wait_by p)
    define zs where "zs = (if 0 < ?c then [] else [p])"
    from sem_run_cons.hyps(1) Wait_by have v: "view s1 = cs_wait p (view s)" by (blast dest: wait_view)
    then have q: "cs_queue (view s1) = ?q @ zs" by (simp add: cs_wait_def zs_def)
    have "int (length (cs_queue (view s1))) \<le> max 0 (- cs_count (view s1))"
      using len by (auto simp: v cs_wait_def)
    from sem_run_cons.IH [OF this] obtain ys where
      ys: "cs_queue (view s2) = drop (posts es) (?q @ zs) @ ys" "set ys \<subseteq> {p. Wait_by p \<in> set es}"
      by (auto simp: q)
    have "set (drop n zs) \<subseteq> {p}" for n using set_drop_subset [of n zs] by (auto simp: zs_def split: if_splits)
    with ys show ?thesis by (auto simp: Wait_by intro!: exI [of _ "drop (posts es - length ?q) zs @ ys"])
  next
    case (Post_by p)
    from sem_run_cons.hyps(1) Post_by have v: "view s1 = cs_post (view s)" by (blast dest: post_view)
    have q: "cs_queue (view s1) = tl ?q"
      using len by (cases ?q) (auto simp: v cs_post_def)
    have "int (length (cs_queue (view s1))) \<le> max 0 (- cs_count (view s1))"
      using len by (cases ?q) (auto simp: v cs_post_def)
    from sem_run_cons.IH [OF this] show ?thesis by (auto simp: q Post_by drop_Suc)
  next
    case Other
    from sem_run_cons.hyps(1) Other have "view s1 = view s" by (blast dest: other_view)
    with sem_run_cons.IH len Other show ?thesis by auto
  qed
qed simp

end

section \<open>The kernel's semaphores\<close>

text \<open>The process a list item in the queue of a semaphore stands for, and the abstraction.\<close>

definition waiter :: "kernel \<Rightarrow> addr \<Rightarrow> addr" where
  "waiter k x = sd_pcb (sem_descriptors k (sem_descriptor_ptrs k x))"

definition sem_view :: "kernel \<Rightarrow> (hloc \<Rightarrow> addr list) \<Rightarrow> addr \<Rightarrow> counting_sem" where
  "sem_view k L s =
     \<lparr>cs_count = sem_count (semaphores k s), cs_queue = map (waiter k) (L (Semaphore_waiting s))\<rparr>"

text \<open>The argument of the running call is a descriptor of the caller for the semaphore.\<close>

definition calls_on :: "kernel \<Rightarrow> (hloc \<Rightarrow> addr list) \<Rightarrow> addr \<Rightarrow> bool" where
  "calls_on k L s \<longleftrightarrow>
     (\<exists>d \<in> set (L (PCB_sem_descriptors (running k))).
        int_of_long (syscall_arg k 0) = sd_fd (sem_descriptors k d) \<and>
        sd_semaphore (sem_descriptors k d) = s)"

lemma kinv_unique:
  assumes "kinv k L" and "kinv k L'"
  shows "L = L'"
proof -
  have "xs = ys" if "seg lk p xs NULL" "seg lk q ys NULL" "first_of xs NULL = first_of ys NULL"
    for lk p q xs ys
    using that
  proof (induction xs arbitrary: p q ys)
    case Nil
    then show ?case by (cases ys) auto
  next
    case (Cons x xs)
    then obtain zs where ys: "ys = x # zs" by (cases ys) auto
    have "xs = zs" by (rule Cons.IH) (use Cons.prems ys in auto)
    with ys show ?case by simp
  qed
  moreover note dllD [OF list_repD(1) [OF kinvD(7) [OF assms(1)]]]
    dllD [OF list_repD(1) [OF kinvD(7) [OF assms(2)]]]
  ultimately show ?thesis by (metis ext)
qed

text \<open>The other semaphores keep their state when one gets a new queue.\<close>

lemma semPost_view:
  assumes inv: "kinv k L" and on: "calls_on k L s" and ok: "internal_semPost k = Inr k'"
    and inv': "kinv k' L'"
  shows "sem_view k' L' s = cs_post (sem_view k L s)" "u \<noteq> s \<Longrightarrow> sem_view k' L' u = sem_view k L u"
proof -
  obtain d where d: "d \<in> set (L (PCB_sem_descriptors (running k)))"
    "int_of_long (syscall_arg k 0) = sd_fd (sem_descriptors k d)"
    and s: "s = sd_semaphore (sem_descriptors k d)" using on by (auto simp: calls_on_def)
  have sl: "s \<in> set (L semaphores_list)" by (rule sem_descriptorD(1) [OF kinvD(5) [OF inv] d(1) s])
  have "sem_view k' L' s = cs_post (sem_view k L s) \<and> (u \<noteq> s \<longrightarrow> sem_view k' L' u = sem_view k L u)"
  proof (cases "0 \<le> sem_count (semaphores k s) \<or> L (Semaphore_waiting s) = []")
    case True
    let ?k = "upd_sem s (\<lambda>x. x\<lparr>sem_count := sem_count (semaphores k s) + 1\<rparr>) k"
    have k': "k' = set_retvalue 0 ?k"
      using semPost_plain [OF inv d s True] ok by (auto split: if_splits)
    then have "L' = L"
      using semPost_plain_kinv [OF inv sl True] inv' by (intro kinv_unique [of k']) simp_all
    with True show ?thesis by (auto simp: k' sem_view_def cs_post_def waiter_def fun_eq_iff)
  next
    case False
    then obtain x xs where w: "L (Semaphore_waiting s) = x # xs" and neg: "sem_count (semaphores k s) < 0"
      by (cases "L (Semaphore_waiting s)") auto
    show ?thesis
    proof (rule semPost_wake [OF inv d s neg w refl])
      fix lk hds L1 k1
      assume a: "L1 = L(Semaphore_waiting s := xs, waiting_list :=
              remove1 (sd_pcb (sem_descriptors k (sem_descriptor_ptrs k x))) (L waiting_list),
              ready_list := L ready_list @ [sd_pcb (sem_descriptors k (sem_descriptor_ptrs k x))])"
        "k1 = set_retvalue 0 (upd_sem s (\<lambda>x. x\<lparr>sem_count := sem_count (semaphores k s) + 1\<rparr>)
            (upd_pcb (sd_pcb (sem_descriptors k (sem_descriptor_ptrs k x)))
              (\<lambda>p. p\<lparr>status := Ready\<rparr>) (k\<lparr>links := lk, heads := hds\<rparr>)))"
        "internal_semPost k = (if in_int_range (sem_count (semaphores k s) + 1) then Inr k1
           else Inl Signed_overflow)"
        "list_rep lk hds L1" "\<And>y. loose (links k) L y \<Longrightarrow> loose lk L1 y" "loose lk L1 x"
      have "kinv k1 L1"
        unfolding a(2) kinv_set_retvalue
        by (rule semPost_wake_kinv [OF inv sl neg w refl a(1,4) _ a(6) refl]) (use a(5) in simp)
      moreover have k': "k' = k1" using a(3) ok by (auto split: if_splits)
      ultimately have "L' = L1" using inv' kinv_unique by blast
      with neg w show ?thesis
        by (auto simp: k' a(1,2) sem_view_def cs_post_def waiter_def fun_eq_iff)
    qed
  qed
  then show "sem_view k' L' s = cs_post (sem_view k L s)" "u \<noteq> s \<Longrightarrow> sem_view k' L' u = sem_view k L u"
    by simp_all
qed

lemma semWait_view:
  assumes inv: "kinv k L" and on: "calls_on k L s" and ok: "internal_semWait k = Inr k'"
    and num: "syscall_num (pcbs k (running k)) = DSOS_CALL_SEMWAIT"
    and up: "shutdown_now k' = 0" and inv': "kinv k' L'"
  shows "sem_view k' L' s = cs_wait (running k) (sem_view k L s)"
    "u \<noteq> s \<Longrightarrow> sem_view k' L' u = sem_view k L u"
    "0 < sem_count (semaphores k s) \<Longrightarrow> L' = L \<and> running k' = running k"
    "sem_count (semaphores k s) \<le> 0 \<Longrightarrow> L ready_list \<noteq> [] \<and> running k' = hd (L ready_list) \<and>
       running k \<in> set (L' waiting_list)"
proof -
  obtain d where d: "d \<in> set (L (PCB_sem_descriptors (running k)))"
    "int_of_long (syscall_arg k 0) = sd_fd (sem_descriptors k d)"
    and s: "s = sd_semaphore (sem_descriptors k d)" using on by (auto simp: calls_on_def)
  have "sem_view k' L' s = cs_wait (running k) (sem_view k L s) \<and>
    (u \<noteq> s \<longrightarrow> sem_view k' L' u = sem_view k L u) \<and>
    (0 < sem_count (semaphores k s) \<longrightarrow> L' = L \<and> running k' = running k) \<and>
    (sem_count (semaphores k s) \<le> 0 \<longrightarrow> L ready_list \<noteq> [] \<and> running k' = hd (L ready_list) \<and>
       running k \<in> set (L' waiting_list))"
  proof (cases "0 < sem_count (semaphores k s)")
    case True
    let ?k = "upd_sem s (\<lambda>x. x\<lparr>sem_count := sem_count (semaphores k s) - 1\<rparr>) k"
    have k': "k' = set_retvalue 0 ?k"
      using semWait_pass(1) [OF inv d s True] ok by (auto split: if_splits)
    then have "L' = L"
      using semWait_pass(2) [OF inv d s True] inv' by (intro kinv_unique [of k']) simp_all
    with True show ?thesis by (auto simp: k' sem_view_def cs_wait_def waiter_def fun_eq_iff)
  next
    case False
    then have cnt: "sem_count (semaphores k s) \<le> 0" by simp
    show ?thesis
    proof (cases "L ready_list")
      case Nil
      from semWait_deadlock [OF inv d s cnt Nil] ok up show ?thesis by (metis Inr_inject zero_neq_one)
    next
      case (Cons r rs)
      show ?thesis
      proof (rule semWait_block [OF inv d s refl cnt Cons])
        fix lk hds L1 k1
        assume a: "L1 = L(Semaphore_waiting s := L (Semaphore_waiting s) @ [sd_wait_ptr (sem_descriptors k d)],
            waiting_list := L waiting_list @ [running k], ready_list := rs)"
          "k1 = set_retvalue 0 (upd_sem s (\<lambda>x. x\<lparr>sem_count := sem_count (semaphores k s) - 1\<rparr>)
            ((upd_pcb (running k) (\<lambda>p. p\<lparr>status := Waiting\<rparr>) k)
              \<lparr>links := lk, heads := hds, running := r\<rparr>))"
          "internal_semWait k = (if in_int_range (sem_count (semaphores k s) - 1) then Inr k1
             else Inl Signed_overflow)"
          "list_rep lk hds L1"
          "\<And>y. loose (links k) L y \<Longrightarrow> y \<noteq> running k \<Longrightarrow> y \<noteq> sd_wait_ptr (sem_descriptors k d) \<Longrightarrow>
             loose lk L1 y" "loose lk L1 r"
        have "kinv k1 L1"
          unfolding a(2) kinv_set_retvalue
          by (rule semWait_block_kinv [OF inv d(1) num s refl cnt Cons a(1,4-6) refl])
        moreover have k': "k' = k1" using a(3) ok by (auto split: if_splits)
        ultimately have "L' = L1" using inv' kinv_unique by blast
        moreover have "waiter k (sd_wait_ptr (sem_descriptors k d)) = running k"
          using sem_descriptorD(2,6) [OF kinvD(5) [OF inv] d(1) refl] by (simp add: waiter_def)
        ultimately show ?thesis using cnt Cons
          by (auto simp: k' a(1,2) sem_view_def cs_wait_def waiter_def fun_eq_iff)
      qed
    qed
  qed
  then show "sem_view k' L' s = cs_wait (running k) (sem_view k L s)"
    "u \<noteq> s \<Longrightarrow> sem_view k' L' u = sem_view k L u"
    "0 < sem_count (semaphores k s) \<Longrightarrow> L' = L \<and> running k' = running k"
    "sem_count (semaphores k s) \<le> 0 \<Longrightarrow> L ready_list \<noteq> [] \<and> running k' = hd (L ready_list) \<and>
       running k \<in> set (L' waiting_list)"
    by simp_all
qed

end
