(* ===== verification/Frames.thy ===== *)
theory Frames
  imports System_Correct
begin

text \<open>
  What the operations of the kernel leave alone: the records of the semaphores, the saved contexts
  and arguments of the processes, and the memory of the programs. Every operation has one lemma in
  the collection \<open>frames\<close>.
\<close>

definition sem_part ::
    "kernel \<Rightarrow> (addr \<Rightarrow> Semaphore) \<times> (addr \<Rightarrow> SemDescriptor) \<times> (addr \<Rightarrow> addr)" where
  "sem_part k = (semaphores k, sem_descriptors k, sem_descriptor_ptrs k)"

definition ctx_part ::
    "kernel \<Rightarrow> (addr \<Rightarrow> ucontext \<times> int \<times> (nat \<Rightarrow> int)) \<times> addr \<times> addr" where
  "ctx_part k =
     ((\<lambda>p. (cpu_state (pcbs k p), syscall_num (pcbs k p), syscall_args (pcbs k p))),
      start_f k, start_args k)"

lemma ctx_args:
  "ctx_part k' = ctx_part k \<Longrightarrow> syscall_args (pcbs k' p) = syscall_args (pcbs k p)"
  "ctx_part k' = ctx_part k \<Longrightarrow> syscall_num (pcbs k' p) = syscall_num (pcbs k p)"
  "ctx_part k' = ctx_part k \<Longrightarrow> cpu_state (pcbs k' p) = cpu_state (pcbs k p)"
  by (auto simp: ctx_part_def fun_eq_iff)

text \<open>All of it.\<close>

definition proc_part where
  "proc_part k = (ctx_part k, user_mem k)"

definition parts where
  "parts k = (sem_part k, proc_part k)"

lemma proc_part_eq:
  "proc_part k' = proc_part k \<longleftrightarrow> ctx_part k' = ctx_part k \<and> user_mem k' = user_mem k"
  by (simp add: proc_part_def)

lemma parts_eq:
  "parts k' = parts k \<longleftrightarrow>
     sem_part k' = sem_part k \<and> ctx_part k' = ctx_part k \<and> user_mem k' = user_mem k"
  by (simp add: parts_def proc_part_def)

lemma parts_proc: "parts k' = parts k \<Longrightarrow> proc_part k' = proc_part k"
  by (simp add: parts_def)

lemma sem_part_upd [simp]:
  "sem_part (upd_pcb p f k) = sem_part k" "sem_part (set_retvalue v k) = sem_part k"
  "sem_part (k\<lparr>running := q\<rparr>) = sem_part k" "sem_part (k\<lparr>init_pcb := q\<rparr>) = sem_part k"
  "sem_part (store_user r v k) = sem_part k" "sem_part (upd_desc d g k) = sem_part k"
  "sem_part (null_links p k) = sem_part k" "sem_part (List_init k h) = sem_part k"
  "sem_part (k\<lparr>pools := ps\<rparr>) = sem_part k" "sem_part (k\<lparr>pcb_ptrs := c\<rparr>) = sem_part k"
  "sem_part (k\<lparr>timer_items := ti\<rparr>) = sem_part k" "sem_part (k\<lparr>resources := rs\<rparr>) = sem_part k"
  "sem_part (k\<lparr>descriptor_ptrs := dp\<rparr>) = sem_part k" "sem_part (k\<lparr>last_pid := n\<rparr>) = sem_part k"
  "sem_part (k\<lparr>shutdown_now := b\<rparr>) = sem_part k" "sem_part (k\<lparr>disastrOS_time := t\<rparr>) = sem_part k"
  "sem_part (k\<lparr>links := lk, heads := hds\<rparr>) = sem_part k"
  by (simp_all add: sem_part_def store_user_def null_links_def List_init_def)

lemma ctx_part_upd [simp]:
  "(\<And>x. cpu_state (f x) = cpu_state x \<and> syscall_num (f x) = syscall_num x \<and>
     syscall_args (f x) = syscall_args x) \<Longrightarrow> ctx_part (upd_pcb p f k) = ctx_part k"
  "ctx_part (set_retvalue v k) = ctx_part k"
  "ctx_part (k\<lparr>running := q\<rparr>) = ctx_part k" "ctx_part (k\<lparr>init_pcb := q\<rparr>) = ctx_part k"
  "ctx_part (store_user r v k) = ctx_part k" "ctx_part (upd_desc d g k) = ctx_part k"
  "ctx_part (null_links p k) = ctx_part k" "ctx_part (List_init k h) = ctx_part k"
  "ctx_part (k\<lparr>pools := ps\<rparr>) = ctx_part k" "ctx_part (k\<lparr>pcb_ptrs := c\<rparr>) = ctx_part k"
  "ctx_part (k\<lparr>timer_items := ti\<rparr>) = ctx_part k" "ctx_part (k\<lparr>resources := rs\<rparr>) = ctx_part k"
  "ctx_part (k\<lparr>descriptor_ptrs := dp\<rparr>) = ctx_part k" "ctx_part (k\<lparr>last_pid := n\<rparr>) = ctx_part k"
  "ctx_part (k\<lparr>shutdown_now := b\<rparr>) = ctx_part k" "ctx_part (k\<lparr>disastrOS_time := t\<rparr>) = ctx_part k"
  "ctx_part (k\<lparr>links := lk, heads := hds\<rparr>) = ctx_part k"
  by (simp_all add: ctx_part_def fun_eq_iff store_user_def null_links_def List_init_def)

lemma user_mem_upd [simp]:
  "user_mem (null_links p k) = user_mem k" "user_mem (List_init k h) = user_mem k"
  "user_mem (store_user NULL v k) = user_mem k"
  by (simp_all add: store_user_def null_links_def List_init_def)

lemma parts_upd [simp]:
  "(\<And>x. cpu_state (f x) = cpu_state x \<and> syscall_num (f x) = syscall_num x \<and>
     syscall_args (f x) = syscall_args x) \<Longrightarrow> parts (upd_pcb p f k) = parts k"
  "parts (set_retvalue v k) = parts k"
  "parts (k\<lparr>running := q\<rparr>) = parts k" "parts (k\<lparr>init_pcb := q\<rparr>) = parts k"
  "parts (upd_desc d g k) = parts k" "parts (null_links p k) = parts k"
  "parts (List_init k h) = parts k" "parts (k\<lparr>pools := ps\<rparr>) = parts k"
  "parts (k\<lparr>pcb_ptrs := c\<rparr>) = parts k" "parts (k\<lparr>timer_items := ti\<rparr>) = parts k"
  "parts (k\<lparr>resources := rs\<rparr>) = parts k" "parts (k\<lparr>descriptor_ptrs := dp\<rparr>) = parts k"
  "parts (k\<lparr>last_pid := n\<rparr>) = parts k" "parts (k\<lparr>shutdown_now := b\<rparr>) = parts k"
  "parts (k\<lparr>disastrOS_time := t\<rparr>) = parts k" "parts (k\<lparr>links := lk, heads := hds\<rparr>) = parts k"
  by (simp_all add: parts_eq)

named_theorems frames \<open>what an operation leaves unchanged\<close>

lemma List_frames [frames]:
  "List_insert k h p x = Inr (y, k') \<Longrightarrow> parts k' = parts k"
  "List_detach k h x = Inr (y, k') \<Longrightarrow> y = x \<and> parts k' = parts k"
proof -
  have "parts (list_put k h p x) = parts k" "parts (list_cut k h x) = parts k"
    by (subst list_put_shape, simp) (subst list_cut_shape, simp)
  moreover have "List_detach k h x = Inr (y, k') \<Longrightarrow> y = x"
    by (simp add: List_detach_def deref_def Let_def split: if_splits)
  ultimately show "List_insert k h p x = Inr (y, k') \<Longrightarrow> parts k' = parts k"
    "List_detach k h x = Inr (y, k') \<Longrightarrow> y = x \<and> parts k' = parts k"
    by (simp_all add: list_put_def list_cut_def)
qed

lemma pool_frames [frames]:
  "pool_get k i = Inr (b, k') \<Longrightarrow> parts k' = parts k"
  "pool_release k i b = Inr (r, k') \<Longrightarrow> parts k' = parts k"
  by (auto simp: pool_get_def pool_release_def res_simps)

lemma block_frames [frames]:
  "PCB_alloc k = Inr (p, k') \<Longrightarrow> parts k' = parts k"
  "PCB_free k p = Inr (r, k') \<Longrightarrow> parts k' = parts k"
  "PCBPtr_alloc k p = Inr (x, k') \<Longrightarrow> parts k' = parts k"
  "PCBPtr_free k x = Inr (r, k') \<Longrightarrow> parts k' = parts k"
  "TimerItem_alloc k w p = Inr (x, k') \<Longrightarrow> parts k' = parts k"
  "TimerItem_free k x = Inr (r, k') \<Longrightarrow> parts k' = parts k"
  "Resource_alloc k i ty = Inr (x, k') \<Longrightarrow> parts k' = parts k"
  "Resource_free k x = Inr (r, k') \<Longrightarrow> parts k' = parts k"
  "Descriptor_alloc k fd res p = Inr (x, k') \<Longrightarrow> parts k' = parts k"
  "Descriptor_free k x = Inr (r, k') \<Longrightarrow> parts k' = parts k"
  "DescriptorPtr_alloc k p = Inr (x, k') \<Longrightarrow> parts k' = parts k"
  "DescriptorPtr_free k x = Inr (r, k') \<Longrightarrow> parts k' = parts k"
  "Semaphore_free k x = Inr (r, k') \<Longrightarrow> parts k' = parts k"
  "SemDescriptor_free k x = Inr (r, k') \<Longrightarrow> parts k' = parts k"
  "SemDescriptorPtr_free k x = Inr (r, k') \<Longrightarrow> parts k' = parts k"
  by (auto simp: PCB_alloc_def PCB_free_def PCBPtr_alloc_def PCBPtr_free_def TimerItem_alloc_def
      TimerItem_free_def Resource_alloc_def Resource_free_def Descriptor_alloc_def Descriptor_free_def
      DescriptorPtr_alloc_def DescriptorPtr_free_def Semaphore_free_def SemDescriptor_free_def
      SemDescriptorPtr_free_def res_simps Let_def split: if_splits dest!: pool_frames)

lemma timer_frames [frames]:
  "TimerList_add k h w p = Inr (x, k') \<Longrightarrow> parts k' = parts k"
  "TimerList_removeCurrent k h = Inr (r, k') \<Longrightarrow> parts k' = parts k"
  by (auto simp: TimerList_add_def TimerList_removeCurrent_def res_simps split: if_splits
      dest!: frames)

lemma wake_one_frame [frames]: "wake_one k t p = Inr (q, k') \<Longrightarrow> parts k' = parts k"
  by (auto simp: wake_one_def res_simps Let_def dest!: frames)

text \<open>The loops.\<close>

lemma wake_elapsed_keeps:
  "wake_elapsed k p = Some r \<Longrightarrow> r = Inr k' \<Longrightarrow> parts k' = parts k"
proof (induct arbitrary: k' rule: wake_elapsed.raw_induct [rotated, consumes 1, case_names step])
  case (step f k p r)
  then show ?case by (auto simp: Let_def split: if_splits sum.splits dest!: frames)
qed

lemma reparent_one_frame [frames]: "reparent_one k me = Inr k' \<Longrightarrow> parts k' = parts k"
  by (auto simp: reparent_one_def res_simps Let_def dest!: frames)

lemma reparent_children_keeps:
  "reparent_children k me = Some r \<Longrightarrow> r = Inr k' \<Longrightarrow> parts k' = parts k"
proof (induct arbitrary: k' rule: reparent_children.raw_induct [rotated, consumes 1, case_names step])
  case (step f k me r)
  then show ?case by (auto split: if_splits sum.splits dest!: frames)
qed

lemma release_timers_keeps:
  "release_timers k me aux = Some r \<Longrightarrow> r = Inr k' \<Longrightarrow> parts k' = parts k"
proof (induct arbitrary: k' rule: release_timers.raw_induct [rotated, consumes 1, case_names step])
  case (step f k me aux r)
  then show ?case
    by (auto simp: Let_def res_simps split: if_splits sum.splits dest!: frames)
qed

lemma release_descriptor_frame [frames]:
  "release_descriptor k me = Inr k' \<Longrightarrow> parts k' = parts k"
  by (auto simp: release_descriptor_def res_simps Let_def dest!: frames)

lemma release_descriptors_keeps:
  "release_descriptors k me = Some r \<Longrightarrow> r = Inr k' \<Longrightarrow> parts k' = parts k"
proof (induct arbitrary: k' rule: release_descriptors.raw_induct [rotated, consumes 1, case_names step])
  case (step f k me r)
  then show ?case by (auto split: if_splits sum.splits dest!: frames)
qed

lemma loop_frames [frames]:
  "wake_elapsed k p = Some (Inr k') \<Longrightarrow> parts k' = parts k"
  "reparent_children k me = Some (Inr k') \<Longrightarrow> parts k' = parts k"
  "release_timers k me aux = Some (Inr k') \<Longrightarrow> parts k' = parts k"
  "release_descriptors k me = Some (Inr k') \<Longrightarrow> parts k' = parts k"
  using wake_elapsed_keeps reparent_children_keeps release_timers_keeps release_descriptors_keeps
  by blast+

text \<open>The calls.\<close>

lemma schedule_frame [frames]: "internal_schedule k = Inr k' \<Longrightarrow> parts k' = parts k"
  by (auto simp: internal_schedule_def res_simps Let_def split: if_splits dest!: frames)

lemma exit_to_next_frame [frames]: "exit_to_next k = Inr k' \<Longrightarrow> parts k' = parts k"
  by (auto simp: exit_to_next_def res_simps Let_def dest!: frames)

lemma wait_block_frame [frames]: "wait_block k = Inr k' \<Longrightarrow> parts k' = parts k"
  by (auto simp: wait_block_def res_simps Let_def dest!: frames)

lemma openResource_descriptor_frame [frames]:
  "openResource_descriptor k r ty m = Inr k' \<Longrightarrow> parts k' = parts k"
  by (auto simp: openResource_descriptor_def res_simps Let_def split: if_splits dest!: frames)

lemma call_frames [frames]:
  "internal_preempt k = Inr k' \<Longrightarrow> parts k' = parts k"
  "internal_sleep k = Inr k' \<Longrightarrow> parts k' = parts k"
  "internal_fork k = Inr k' \<Longrightarrow> parts k' = parts k"
  "internal_openResource k = Inr k' \<Longrightarrow> parts k' = parts k"
  "internal_closeResource k = Inr k' \<Longrightarrow> parts k' = parts k"
  "internal_destroyResource k = Inr k' \<Longrightarrow> parts k' = parts k"
  "internal_shutdown k = Inr k' \<Longrightarrow> parts k' = parts k"
  "internal_semClose k = Inr k' \<Longrightarrow> parts k' = parts k"
  subgoal by (auto simp: internal_preempt_def dest!: frames)
  subgoal by (auto simp: internal_sleep_def res_simps Let_def split: if_splits dest!: frames)
  subgoal by (auto simp: internal_fork_def res_simps Let_def split: if_splits dest!: frames)
  subgoal by (auto simp: internal_openResource_def res_simps Let_def split: if_splits dest!: frames)
  subgoal by (auto simp: internal_closeResource_def res_simps Let_def split: if_splits dest!: frames)
  subgoal by (auto simp: internal_destroyResource_def res_simps Let_def split: if_splits dest!: frames)
  subgoal by (auto simp: internal_shutdown_def)
  subgoal by (auto simp: internal_semClose_def res_simps Let_def split: if_splits dest!: frames)
  done

text \<open>\<open>wait\<close> and \<open>exit\<close> may store a result for the parent.\<close>

lemma wait_reap_frame:
  "wait_reap k x z res = Inr k' \<Longrightarrow> sem_part k' = sem_part k \<and> ctx_part k' = ctx_part k \<and>
     (res = NULL \<longrightarrow> user_mem k' = user_mem k)"
  by (auto simp: wait_reap_def res_simps Let_def dest!: frames [unfolded parts_eq])

lemma wait_frame:
  "internal_wait k = Inr k' \<Longrightarrow> sem_part k' = sem_part k \<and> ctx_part k' = ctx_part k \<and>
     (syscall_arg k 1 = NULL \<longrightarrow> user_mem k' = user_mem k)"
  by (auto simp: internal_wait_def res_simps Let_def split: if_splits dest!: wait_reap_frame wait_block_frame [unfolded parts_eq])

lemma exit_to_parent_frame:
  assumes "exit_to_parent k me = Inr k'"
  shows "sem_part k' = sem_part k" "ctx_part k' = ctx_part k"
    "syscall_args (pcbs k (parent (pcbs k me))) 1 = NULL \<Longrightarrow> user_mem k' = user_mem k"
proof -
  show "sem_part k' = sem_part k" "ctx_part k' = ctx_part k"
    using assms by (auto simp: exit_to_parent_def res_simps Let_def dest!: frames [unfolded parts_eq])
  assume null: "syscall_args (pcbs k (parent (pcbs k me))) 1 = NULL"
  have args: "syscall_args (pcbs k1 (parent (pcbs k me))) (Suc 0) = NULL" if "ctx_part k1 = ctx_part k" for k1
    using ctx_args(1) [OF that] null by simp
  show "user_mem k' = user_mem k"
    using assms by (auto simp: exit_to_parent_def res_simps Let_def args dest!: frames [unfolded parts_eq])
qed

text \<open>No process waits for a child with a place for the result.\<close>

definition no_results :: "kernel \<Rightarrow> bool" where
  "no_results k \<longleftrightarrow>
     (\<forall>q. syscall_num (pcbs k q) = DSOS_CALL_WAIT \<longrightarrow> syscall_args (pcbs k q) 1 = NULL)"

lemma no_results_cong: "ctx_part k' = ctx_part k \<Longrightarrow> no_results k' = no_results k"
  by (simp add: no_results_def ctx_args [of k' k])

text \<open>\<open>internal_exit\<close> from the point where the process has become a zombie.\<close>

definition exit_tell :: "kernel \<Rightarrow> addr \<Rightarrow> kernel res" where
  "exit_tell k me =
     (let par = parent (pcbs k me);
          k1 = upd_pcb par (\<lambda>p. p\<lparr>signals := signals p OR (DSOS_SIGCHLD AND signals_mask p)\<rparr>) k in
      deref par
        (if status (pcbs k1 par) = Waiting \<and> syscall_num (pcbs k1 par) = DSOS_CALL_WAIT \<and>
            (syscall_args (pcbs k1 par) 0 = 0 \<or> syscall_args (pcbs k1 par) 0 = pid (pcbs k1 me))
         then exit_to_parent k1 me
         else exit_to_next k1))"

lemma internal_exit_tell:
  "internal_exit k =
     (let me = running k;
          k0 = upd_pcb me (\<lambda>p. p\<lparr>return_value := int_of_long (syscall_arg k 0)\<rparr>) k in
      deref me (c_assert (init_pcb k0 \<noteq> NULL)
        (andthen (loop_res (reparent_children k0 me)) (\<lambda>k1.
         let k2 = upd_pcb me (\<lambda>p. p\<lparr>status := Zombie\<rparr>) k1 in
         andthen (List_insert k2 zombie_list (lh_last (heads k2 zombie_list)) me) (\<lambda>r.
         exit_tell (snd r) me)))))"
  unfolding internal_exit_def exit_tell_def Let_def
  by (simp add: case_prod_unfold)

lemma exit_tell_frame:
  assumes "exit_tell k me = Inr k'"
  shows "sem_part k' = sem_part k" "ctx_part k' = ctx_part k" "no_results k \<Longrightarrow> user_mem k' = user_mem k"
proof -
  let ?par = "parent (pcbs k me)"
  define old where "old = upd_pcb ?par
    (\<lambda>p. p\<lparr>signals := signals p OR (DSOS_SIGCHLD AND signals_mask p)\<rparr>) k"
  have same: "parts old = parts k" by (simp add: old_def)
  then have old: "sem_part old = sem_part k" "ctx_part old = ctx_part k" "user_mem old = user_mem k"
    by (simp_all add: parts_eq)
  have par: "parent (pcbs old me) = ?par" by (simp add: old_def)
  from assms have "syscall_num (pcbs old ?par) = DSOS_CALL_WAIT \<and> exit_to_parent old me = Inr k' \<or>
      exit_to_next old = Inr k'"
    unfolding exit_tell_def Let_def old_def [symmetric] by (simp add: deref_eq_Inr split: if_splits)
  then have "sem_part k' = sem_part k \<and> ctx_part k' = ctx_part k \<and>
      (no_results k \<longrightarrow> user_mem k' = user_mem k)"
  proof
    assume a: "syscall_num (pcbs old ?par) = DSOS_CALL_WAIT \<and> exit_to_parent old me = Inr k'"
    then have f: "sem_part k' = sem_part old" "ctx_part k' = ctx_part old"
      "syscall_args (pcbs old ?par) 1 = NULL \<Longrightarrow> user_mem k' = user_mem old"
      using exit_to_parent_frame [of old me k'] by (simp_all add: par)
    have "no_results k \<longrightarrow> syscall_args (pcbs old ?par) 1 = NULL"
      using a no_results_cong [OF old(2)] unfolding no_results_def by blast
    then show ?thesis using f old by simp
  next
    assume "exit_to_next old = Inr k'"
    then show ?thesis using exit_to_next_frame [of old k'] old by (simp add: parts_eq)
  qed
  then show "sem_part k' = sem_part k" "ctx_part k' = ctx_part k" "no_results k \<Longrightarrow> user_mem k' = user_mem k"
    by blast+
qed

lemma exit_frame:
  assumes "internal_exit k = Inr k'"
  shows "sem_part k' = sem_part k" "ctx_part k' = ctx_part k" "no_results k \<Longrightarrow> user_mem k' = user_mem k"
proof -
  let ?me = "running k"
  let ?old = "upd_pcb ?me (\<lambda>p. p\<lparr>return_value := int_of_long (syscall_arg k 0)\<rparr>) k"
  obtain k1 r where
    1: "reparent_children ?old ?me = Some (Inr k1)"
    and 2: "List_insert (upd_pcb ?me (\<lambda>p. p\<lparr>status := Zombie\<rparr>) k1) zombie_list
       (lh_last (heads (upd_pcb ?me (\<lambda>p. p\<lparr>status := Zombie\<rparr>) k1) zombie_list)) ?me = Inr r"
    and 3: "exit_tell (snd r) ?me = Inr k'"
    using assms unfolding internal_exit_tell Let_def
    by (auto simp only: andthen_eq_Inr deref_eq_Inr c_assert_eq_Inr loop_res_eq_Inr)
  have "parts (snd r) = parts k"
    using loop_frames(2) [OF 1] List_frames(1) [of _ _ _ _ "fst r" "snd r"] 2 by simp
  then have same: "sem_part (snd r) = sem_part k" "ctx_part (snd r) = ctx_part k"
    "user_mem (snd r) = user_mem k" by (simp_all add: parts_eq)
  show "sem_part k' = sem_part k" "ctx_part k' = ctx_part k" "no_results k \<Longrightarrow> user_mem k' = user_mem k"
    using exit_tell_frame [OF 3] same no_results_cong [OF same(2)] by simp_all
qed

text \<open>\<open>spawn\<close> gives the new process a context of its own.\<close>

lemma ctx_part_context:
  "ctx_part k' = ctx_part k \<Longrightarrow> ctx_part (upd_pcb p (\<lambda>x. x\<lparr>cpu_state := c\<rparr>) k') =
     ctx_part (upd_pcb p (\<lambda>x. x\<lparr>cpu_state := c\<rparr>) k)"
  by (simp add: ctx_part_def fun_eq_iff)

lemma running_frames:
  "PCB_alloc k = Inr (p, k') \<Longrightarrow> running k' = running k"
  "PCBPtr_alloc k p = Inr (x, k') \<Longrightarrow> running k' = running k"
  "List_insert k h y x = Inr (z, k') \<Longrightarrow> running k' = running k"
  subgoal by (auto simp: PCB_alloc_def pool_get_def res_simps Let_def null_links_def List_init_def split: if_splits)
  subgoal by (auto simp: PCBPtr_alloc_def pool_get_def res_simps Let_def null_links_def split: if_splits)
  subgoal using arg_cong [OF list_put_shape [of k h y x], of running] by (simp add: list_put_def)
  done

lemma spawn_frame:
  assumes "internal_spawn k = Inr k'"
  shows "sem_part k' = sem_part k" "user_mem k' = user_mem k"
    "\<exists>p. ctx_part k' = ctx_part k \<or> ctx_part k' = ctx_part (upd_pcb p (\<lambda>x. x\<lparr>cpu_state :=
       Fresh_context (syscall_arg k 0) (syscall_arg k 1)\<rparr>) k)"
proof -
  obtain p k1 where 1: "PCB_alloc k = Inr (p, k1)" using assms
    by (auto simp: internal_spawn_def andthen_eq_Inr)
  have "parts k' = parts k \<or> (\<exists>k5. parts k5 = parts k \<and> running k5 = running k \<and>
    k' = upd_pcb p (\<lambda>x. x\<lparr>cpu_state := Fresh_context (syscall_arg k5 0) (syscall_arg k5 1)\<rparr>) k5)"
  proof (cases "p = NULL")
    case True
    then show ?thesis using assms 1 by (auto simp: internal_spawn_def deref_eq_Inr dest: frames)
  next
    case False
    let ?k2 = "upd_pcb p (\<lambda>p. p\<lparr>status := Ready, parent := running k1\<rparr>) k1"
    obtain x k3 where 2: "PCBPtr_alloc ?k2 p = Inr (x, k3)" using assms 1 False
      by (auto simp: internal_spawn_def andthen_eq_Inr Let_def)
    obtain y k4 where 3: "List_insert k3 (PCB_children (running k3))
        (lh_last (heads k3 (PCB_children (running k3)))) x = Inr (y, k4)"
      using assms 1 False 2
      by (auto simp: internal_spawn_def andthen_eq_Inr Let_def c_assert_eq_Inr deref_eq_Inr)
    obtain z k5 where 4: "List_insert k4 ready_list (lh_last (heads k4 ready_list)) p = Inr (z, k5)"
      using assms 1 False 2 3
      by (auto simp: internal_spawn_def andthen_eq_Inr Let_def c_assert_eq_Inr deref_eq_Inr)
    let ?k6 = "set_retvalue (pid (pcbs k5 p)) k5"
    have "k' = upd_pcb p (\<lambda>x. x\<lparr>cpu_state := Fresh_context (syscall_arg ?k6 0) (syscall_arg ?k6 1)\<rparr>) ?k6"
      using assms 1 False 2 3 4
      by (auto simp: internal_spawn_def Let_def c_assert_eq_Inr deref_eq_Inr)
    moreover have "parts ?k6 = parts k"
      using block_frames(1) [OF 1] block_frames(3) [OF 2] List_frames(1) [OF 3] List_frames(1) [OF 4]
      by simp
    moreover have "running ?k6 = running k"
      using running_frames(1) [OF 1] running_frames(2) [OF 2] running_frames(3) [OF 3]
        running_frames(3) [OF 4] by simp
    ultimately show ?thesis by blast
  qed
  then show "sem_part k' = sem_part k" "user_mem k' = user_mem k"
    by (auto simp: parts_eq)
  show "\<exists>p. ctx_part k' = ctx_part k \<or> ctx_part k' = ctx_part (upd_pcb p (\<lambda>x. x\<lparr>cpu_state :=
       Fresh_context (syscall_arg k 0) (syscall_arg k 1)\<rparr>) k)"
    using \<open>parts k' = parts k \<or> _\<close>
  proof (elim disjE exE conjE)
    assume "parts k' = parts k"
    then show ?thesis by (simp add: parts_eq)
  next
    fix k5
    assume a: "parts k5 = parts k" "running k5 = running k"
      "k' = upd_pcb p (\<lambda>x. x\<lparr>cpu_state := Fresh_context (syscall_arg k5 0) (syscall_arg k5 1)\<rparr>) k5"
    from a(1) have c: "ctx_part k5 = ctx_part k" by (simp add: parts_eq)
    have "syscall_arg k5 i = syscall_arg k i" for i
      using ctx_args(1) [OF c] a(2) by (simp add: syscall_arg_def)
    then show ?thesis using a(3) ctx_part_context [OF c] by (intro exI [of _ p]) simp
  qed
qed

text \<open>The system starts again, or ends.\<close>

lemma main_context_frame:
  assumes "main_context_resumed k = Inr (c, k')"
  shows "sem_part k' = sem_part k" "user_mem k' = user_mem k"
    "\<exists>p. ctx_part k' = ctx_part k \<or> ctx_part k' = ctx_part (upd_pcb p (\<lambda>x. x\<lparr>cpu_state :=
       Fresh_context (start_f k) (start_args k)\<rparr>) k)"
proof -
  have "shutdown_now k \<noteq> 0 \<and> k' = k \<or> (\<exists>p k1. parts k1 = parts k \<and>
      k' = upd_pcb p (\<lambda>x. x\<lparr>status := Running, cpu_state := Fresh_context (start_f k1) (start_args k1)\<rparr>)
        (k1\<lparr>running := p, init_pcb := p\<rparr>))"
    using assms by (auto simp: main_context_resumed_def andthen_eq_Inr Let_def dest!: block_frames(1)
        split: if_splits)
  then have "sem_part k' = sem_part k \<and> user_mem k' = user_mem k \<and>
    (\<exists>p. ctx_part k' = ctx_part k \<or> ctx_part k' = ctx_part (upd_pcb p (\<lambda>x. x\<lparr>cpu_state :=
       Fresh_context (start_f k) (start_args k)\<rparr>) k))"
  proof (elim disjE exE conjE)
    fix p k1
    assume a: "parts k1 = parts k"
      "k' = upd_pcb p (\<lambda>x. x\<lparr>status := Running, cpu_state := Fresh_context (start_f k1) (start_args k1)\<rparr>)
        (k1\<lparr>running := p, init_pcb := p\<rparr>)"
    from a(1) have c: "ctx_part k1 = ctx_part k" by (simp add: parts_eq)
    then have f: "start_f k1 = start_f k" "start_args k1 = start_args k" by (simp_all add: ctx_part_def)
    have "ctx_part k' = ctx_part (upd_pcb p (\<lambda>x. x\<lparr>cpu_state :=
       Fresh_context (start_f k) (start_args k)\<rparr>) k)"
      unfolding ctx_part_context [OF c, symmetric] a(2) f by (simp add: ctx_part_def fun_eq_iff)
    then show ?thesis using a by (auto simp: parts_eq)
  qed simp
  then show "sem_part k' = sem_part k" "user_mem k' = user_mem k"
    "\<exists>p. ctx_part k' = ctx_part k \<or> ctx_part k' = ctx_part (upd_pcb p (\<lambda>x. x\<lparr>cpu_state :=
       Fresh_context (start_f k) (start_args k)\<rparr>) k)"
    by blast+
qed

lemmas sem_call_frames =
  call_frames [unfolded parts_eq, THEN conjunct1] spawn_frame(1) exit_frame(1)
  wait_frame [THEN conjunct1] main_context_frame(1) schedule_frame [unfolded parts_eq, THEN conjunct1]

section \<open>The semaphore calls and the processes\<close>

lemma proc_part_upd [simp]:
  "proc_part (upd_sem s g k) = proc_part k" "proc_part (upd_semdesc d h k) = proc_part k"
  "proc_part (k\<lparr>semaphores := ss\<rparr>) = proc_part k" "proc_part (k\<lparr>sem_descriptors := ds\<rparr>) = proc_part k"
  "proc_part (k\<lparr>sem_descriptor_ptrs := xs\<rparr>) = proc_part k"
  by (simp_all add: proc_part_def ctx_part_def)

lemmas proc_upd [simp] = parts_upd [THEN parts_proc]

lemma sem_alloc_frames:
  "Semaphore_alloc k i n = Inr (s, k') \<Longrightarrow> proc_part k' = proc_part k"
  "SemDescriptor_alloc k fd s p = Inr (d, k') \<Longrightarrow> proc_part k' = proc_part k"
  "SemDescriptorPtr_alloc k d = Inr (x, k') \<Longrightarrow> proc_part k' = proc_part k"
  by (auto simp: Semaphore_alloc_def SemDescriptor_alloc_def SemDescriptorPtr_alloc_def res_simps Let_def
      split: if_splits dest!: pool_frames [THEN parts_proc])

lemmas sem_call_steps = sem_alloc_frames List_frames(1) [THEN parts_proc]

lemma semOpen_frame:
  "semOpen_descriptor k s = Inr k' \<Longrightarrow> proc_part k' = proc_part k"
  "internal_semOpen k = Inr k' \<Longrightarrow> proc_part k' = proc_part k"
proof -
  show descriptor: "semOpen_descriptor k s = Inr k' \<Longrightarrow> proc_part k' = proc_part k" for k s
    by (auto simp: semOpen_descriptor_def res_simps Let_def split: if_splits dest!: sem_call_steps)
  show "internal_semOpen k = Inr k' \<Longrightarrow> proc_part k' = proc_part k"
    by (auto simp: internal_semOpen_def res_simps Let_def split: if_splits
        dest!: sem_call_steps descriptor)
qed

lemma semWait_frame:
  assumes "internal_semWait k = Inr k'" "shutdown_now k' = 0"
  shows "proc_part k' = proc_part k"
proof -
  have finish: "semWait_finish k s = Inr k' \<Longrightarrow> proc_part k' = proc_part k" for k s
    by (auto simp: semWait_finish_def res_simps)
  have detach: "List_detach k h x = Inr (y, k1) \<Longrightarrow> proc_part k1 = proc_part k" for k h x y k1
    using List_frames(2) parts_proc by blast
  have "kernel_shutdown k \<noteq> Inr k'" for k
    using assms(2) by (auto simp: kernel_shutdown_def internal_shutdown_def res_simps)
  then show ?thesis using assms(1)
    by (auto simp: internal_semWait_def res_simps Let_def split: if_splits
        dest!: List_frames(1) [THEN parts_proc] detach finish)
qed

lemma semPost_frame: "internal_semPost k = Inr k' \<Longrightarrow> proc_part k' = proc_part k"
proof -
  have detach: "List_detach k h x = Inr (y, k1) \<Longrightarrow> proc_part k1 = proc_part k" for k h x y k1
    using List_frames(2) parts_proc by blast
  show "internal_semPost k = Inr k' \<Longrightarrow> proc_part k' = proc_part k"
    by (auto simp: internal_semPost_def res_simps Let_def split: if_splits
        dest!: List_frames(1) [THEN parts_proc] detach)
qed

end
