(* ===== verification/Sem_Frame.thy ===== *)
theory Sem_Frame
  imports Sem_Abstract Frames
begin

text \<open>
  What the other calls leave alone: no call but \<open>semWait\<close> and \<open>semPost\<close>, and no tick, changes the
  records or the queues of the semaphores that exist.
\<close>

section \<open>The records of the semaphores\<close>

text \<open>
  \<open>semOpen\<close> writes only to blocks that were free. \<open>kept old k\<close>: whatever was in use in \<open>old\<close> is still
  so in \<open>k\<close>, with the same contents.
\<close>

definition kept :: "kernel \<Rightarrow> kernel \<Rightarrow> bool" where
  "kept old k \<longleftrightarrow> pools_ok (pools k) \<and> (\<forall>j. pools_live (pools old) j \<subseteq> pools_live (pools k) j) \<and>
     (\<forall>s \<in> pools_live (pools old) semaphore_pool. semaphores k s = semaphores old s) \<and>
     (\<forall>d \<in> pools_live (pools old) sem_descriptor_pool. sem_descriptors k d = sem_descriptors old d) \<and>
     (\<forall>x \<in> pools_live (pools old) sem_descriptor_ptr_pool.
        sem_descriptor_ptrs k x = sem_descriptor_ptrs old x)"

lemma kept_upd [simp]:
  "kept old (upd_pcb p f k) = kept old k" "kept old (set_retvalue v k) = kept old k"
  "kept old (null_links p k) = kept old k" "kept old (List_init k h) = kept old k"
  "d \<notin> pools_live (pools old) sem_descriptor_pool \<Longrightarrow> kept old (upd_semdesc d g k) = kept old k"
  "x \<notin> pools_live (pools old) sem_descriptor_ptr_pool \<Longrightarrow>
     kept old (k\<lparr>sem_descriptor_ptrs := (sem_descriptor_ptrs k)(x := d)\<rparr>) = kept old k"
  "s \<notin> pools_live (pools old) semaphore_pool \<Longrightarrow>
     kept old (k\<lparr>semaphores := (semaphores k)(s := sv)\<rparr>) = kept old k"
  by (auto simp: kept_def null_links_def List_init_def)

lemma kept_insert: "List_insert k h p x = Inr (y, k') \<Longrightarrow> kept old k' = kept old k"
proof -
  have "kept old (list_put k h p x) = kept old k" by (subst list_put_shape) (simp add: kept_def)
  then show "List_insert k h p x = Inr (y, k') \<Longrightarrow> kept old k' = kept old k" by (simp add: list_put_def)
qed

lemma kept_get:
  assumes "pool_get k i = Inr (b, k')"
  shows "kept old k \<longrightarrow> kept old k' \<and> (b \<noteq> NULL \<longrightarrow> (\<forall>j. b \<notin> pools_live (pools old) j))"
proof
  assume k: "kept old k"
  then have ok: "pools_ok (pools k)" by (simp add: kept_def)
  show "kept old k' \<and> (b \<noteq> NULL \<longrightarrow> (\<forall>j. b \<notin> pools_live (pools old) j))"
  proof (rule pool_get_exec [OF ok, of i])
    assume "pool_get k i = Inr (NULL, k)"
    with assms k show ?thesis by simp
  next
    fix c ps
    assume "pool_get k i = Inr (c, k\<lparr>pools := ps\<rparr>)" and c: "\<And>j. c \<notin> pools_live (pools k) j" "pools_ok ps"
      "pools_live ps = (pools_live (pools k))(i := insert c (pools_live (pools k) i))"
    with assms have "k' = k\<lparr>pools := ps\<rparr>" "b = c" by simp_all
    with k c show ?thesis by (auto simp: kept_def)
  qed
qed

lemma kept_alloc:
  "SemDescriptor_alloc k f s p = Inr (d, k') \<Longrightarrow>
     kept old k \<longrightarrow> kept old k' \<and> (d \<noteq> NULL \<longrightarrow> (\<forall>j. d \<notin> pools_live (pools old) j))"
  "SemDescriptorPtr_alloc k d = Inr (x, k') \<Longrightarrow> kept old k \<longrightarrow> kept old k'"
  "Semaphore_alloc k i c = Inr (s, k') \<Longrightarrow> kept old k \<longrightarrow> kept old k'"
  by (auto simp: SemDescriptor_alloc_def SemDescriptorPtr_alloc_def Semaphore_alloc_def res_simps
      Let_def dest!: kept_get [where old = old] split: if_splits)

lemma kept_semOpen_descriptor:
  "semOpen_descriptor k s = Inr k' \<Longrightarrow> kept old k \<longrightarrow> kept old k'"
  unfolding semOpen_descriptor_def
  by (auto simp: res_simps Let_def kept_insert split: if_splits dest!: kept_alloc [where old = old])
    (metis kept_upd(2))+

lemma kept_semOpen:
  assumes "pools_ok (pools k)" and "internal_semOpen k = Inr k'"
  shows "kept k k'"
proof -
  have "kept k k" using assms(1) by (simp add: kept_def)
  with assms(2) show ?thesis unfolding internal_semOpen_def
    by (auto simp: res_simps Let_def kept_insert split: if_splits
        dest!: kept_alloc(3) [where old = k] kept_semOpen_descriptor [where old = k])
qed

section \<open>The queues\<close>

text \<open>A kernel with the invariant and the queues of \<open>L\<close>.\<close>

definition with_queues :: "(hloc \<Rightarrow> addr list) \<Rightarrow> kernel \<Rightarrow> bool" where
  "with_queues L k \<longleftrightarrow>
     (\<exists>L'. kinv k L' \<and> (\<forall>s. L' (Semaphore_waiting s) = L (Semaphore_waiting s)))"

lemma with_queuesI:
  "kinv k L' \<Longrightarrow> (\<And>s. L' (Semaphore_waiting s) = L (Semaphore_waiting s)) \<Longrightarrow> with_queues L k"
  by (auto simp: with_queues_def)

lemma with_queues_set_retvalue [simp]: "with_queues L (set_retvalue v k) = with_queues L k"
  by (simp add: with_queues_def)

lemma schedule_queues:
  assumes inv: "kinv k L" and ok: "internal_schedule k = Inr k'"
  shows "with_queues L k'"
  by (rule schedule_exec [OF inv]) (use ok in \<open>auto intro: with_queuesI simp: after_wake_def\<close>)

lemma child_queues:
  assumes inv: "kinv k L"
  shows "internal_fork k = Inr k' \<Longrightarrow> with_queues L k'" "internal_spawn k = Inr k' \<Longrightarrow> with_queues L k'"
proof -
  have "with_queues L k'" if "internal_fork k = Inr k' \<or> internal_spawn k = Inr k'"
  proof (rule make_child_exec [OF inv], goal_cases)
    case 1
    then show ?thesis using that by auto
  next
    case (2 p x k1 L1)
    have "with_queues L k1" by (rule with_queuesI [OF 2(3)]) (simp add: 2(6))
    with 2(1,2) that show ?thesis by (auto simp: with_queues_def Let_def kinv_irrelevant)
  qed
  then show "internal_fork k = Inr k' \<Longrightarrow> with_queues L k'" "internal_spawn k = Inr k' \<Longrightarrow> with_queues L k'"
    by blast+
qed

lemma wait_queues:
  assumes inv: "kinv k L" and ok: "internal_wait k = Inr k'"
  shows "with_queues L k'"
proof (rule internal_wait_cases [OF inv refl refl refl], goal_cases)
  case 1
  then show ?thesis using inv ok by (auto intro: with_queuesI)
next
  case 2
  show ?thesis
    by (rule wait_reap_exec [OF inv 2(1) refl 2(2), of "syscall_arg k 1"])
      (use 2(3) ok in \<open>auto intro: with_queuesI simp: kinv_irrelevant\<close>)
next
  case 3
  show ?thesis
    by (rule wait_block_exec [OF inv]) (use 3(3) ok in \<open>auto intro: with_queuesI\<close>)
qed

lemma exit_queues:
  assumes inv: "kinv k L" and ok: "internal_exit k = Inr k'"
  shows "with_queues L k'"
proof -
  have me: "running k \<noteq> init_pcb k" using internal_exit_init [OF inv] ok by auto
  let ?me = "running k" and ?par = "parent (pcbs k (running k))"
  have par: "?par \<noteq> NULL" using internal_exit_orphan [OF inv me] ok by auto
  obtain k4 L4 g where
    4: "kinv_idle k4 L4"
      "internal_exit k = (if awaited_by_parent k ?me then exit_to_parent k4 ?me else exit_to_next k4)"
      "L4 = L(PCB_children ?me := [],
         PCB_children (init_pcb k) := L (PCB_children (init_pcb k)) @ L (PCB_children ?me),
         zombie_list := L zombie_list @ [?me])"
      "pcbs k4 = (\<lambda>p. (pcbs k p)\<lparr>signals := g p\<rparr>)
         (?me := (pcbs k ?me)\<lparr>signals := g ?me, return_value := int_of_long (syscall_arg k 0),
            status := Zombie\<rparr>)"
    by (rule exit_prefix_exec [OF inv refl me refl refl par]) blast
  show ?thesis
  proof (cases "awaited_by_parent k ?me")
    case True
    then have w: "status (pcbs k ?par) = Waiting" "syscall_num (pcbs k ?par) = DSOS_CALL_WAIT"
      by (simp_all add: awaited_by_parent_def Let_def)
    then have p: "?me \<in> set (L4 zombie_list)" "?par = parent (pcbs k4 ?me)"
      "?par \<in> set (L4 waiting_list)" "syscall_num (pcbs k4 ?par) = DSOS_CALL_WAIT"
      using awaited_facts [OF inv w(1)] by (simp_all add: 4(3,4))
    have "exit_to_parent k4 ?me = Inr k'" using 4(2) True ok by simp
    then show ?thesis
      by (rule_tac exit_to_parent_exec [OF 4(1) p]) (auto intro: with_queuesI simp: 4(3))
  next
    case False
    then have "exit_to_next k4 = Inr k'" using 4(2) ok by simp
    then show ?thesis
      by (rule_tac exit_to_next_exec [OF 4(1)]) (auto intro: with_queuesI simp: 4(3))
  qed
qed

lemma closeResource_queues:
  assumes inv: "kinv k L" and ok: "internal_closeResource k = Inr k'"
  shows "with_queues L k'"
proof (cases "\<exists>d \<in> set (L (PCB_descriptors (running k))).
    int_of_long (syscall_arg k 0) = d_fd (descriptors k d)")
  case False
  then have "internal_closeResource k = Inr (set_retvalue DSOS_ERESOURCECLOSE k)"
    by (intro closeResource_missing [OF inv]) auto
  with ok inv show ?thesis by (auto intro: with_queuesI)
next
  case True
  then obtain d where d: "d \<in> set (L (PCB_descriptors (running k)))"
    and fd: "int_of_long (syscall_arg k 0) = d_fd (descriptors k d)" by blast
  show ?thesis
    by (rule closeResource_exec [OF inv d fd refl refl]) (use ok in \<open>auto intro: with_queuesI\<close>)
qed

lemma destroyResource_queues:
  assumes inv: "kinv k L" and ok: "internal_destroyResource k = Inr k'"
  shows "with_queues L k'"
proof (cases "\<exists>r \<in> set (L resources_list). int_of_long (syscall_arg k 0) = res_id (resources k r)")
  case False
  then have "internal_destroyResource k = Inr (set_retvalue DSOS_ERESOURCECLOSE k)"
    by (intro destroyResource_missing [OF inv]) auto
  with ok inv show ?thesis by (auto intro: with_queuesI)
next
  case True
  then obtain r where r: "r \<in> set (L resources_list)"
    and i: "int_of_long (syscall_arg k 0) = res_id (resources k r)" by blast
  show ?thesis
    by (rule destroyResource_exec [OF inv r i]) (use ok inv in \<open>auto intro: with_queuesI\<close>)
qed

lemma openResource_descriptor_queues:
  assumes "kinv k L" and "r = NULL \<or> r \<in> set (L resources_list)"
    and "openResource_descriptor k r ty m = Inr k'"
  shows "with_queues L k'"
  using assms(3) by (rule_tac openResource_descriptor_exec [OF assms(1,2) refl, of ty m])
    (use assms(1) in \<open>auto intro: with_queuesI\<close>)

lemma openResource_queues:
  assumes inv: "kinv k L" and ok: "internal_openResource k = Inr k'"
  shows "with_queues L k'"
proof (rule openResource_cases [OF inv refl refl refl], goal_cases)
  case (3 r k1)
  have "r = NULL \<or> r \<in> set ((L(resources_list := L resources_list @ [r])) resources_list)" by simp
  from openResource_descriptor_queues [OF 3(2) this] 3(6) ok
  have "with_queues (L(resources_list := L resources_list @ [r])) k'" by metis
  then show ?case by (simp add: with_queues_def)
next
  case (4 r)
  then have "r = NULL \<or> r \<in> set (L resources_list)" by simp
  from openResource_descriptor_queues [OF inv this] 4(4) ok show ?thesis by metis
qed (use inv ok in \<open>auto intro: with_queuesI\<close>)

lemma semClose_queues:
  assumes inv: "kinv k L" and ok: "internal_semClose k = Inr k'"
  shows "with_queues L k'"
proof (cases "\<exists>d \<in> set (L (PCB_sem_descriptors (running k))).
    int_of_long (syscall_arg k 0) = sd_fd (sem_descriptors k d)")
  case False
  then have "\<forall>d \<in> set (L (PCB_sem_descriptors (running k))).
      sd_fd (sem_descriptors k d) \<noteq> int_of_long (syscall_arg k 0)" by auto
  from sem_missing(3) [OF inv this] ok inv show ?thesis by (auto intro: with_queuesI)
next
  case True
  then obtain d where d: "d \<in> set (L (PCB_sem_descriptors (running k)))"
    and fd: "int_of_long (syscall_arg k 0) = sd_fd (sem_descriptors k d)" by blast
  show ?thesis
    by (rule semClose_exec [OF inv d fd refl refl]) (use ok in \<open>auto intro: with_queuesI\<close>)
qed

lemma semOpen_descriptor_queues:
  assumes "kinv k L" and "s \<in> set (L semaphores_list)"
    and "\<And>e. e \<in> set (L (PCB_sem_descriptors (running k))) \<Longrightarrow> sd_semaphore (sem_descriptors k e) \<noteq> s"
    and "semOpen_descriptor k s = Inr k'"
  shows "with_queues L k'"
  by (rule semOpen_descriptor_exec [OF assms(1-3) refl]) (use assms(4) in \<open>auto intro: with_queuesI\<close>)

lemma semOpen_queues:
  assumes inv: "kinv k L" and ok: "internal_semOpen k = Inr k'"
  shows "with_queues L k'"
proof (rule semOpen_cases [OF inv refl refl], goal_cases)
  case (2 s)
  with semOpen_descriptor_queues [OF inv 2(1,3)] ok show ?case by simp
next
  case (4 s k1 L1)
  have s: "s \<in> set (L1 semaphores_list)" by (simp add: 4(1))
  have new: "sd_semaphore (sem_descriptors k1 e) \<noteq> s"
    if "e \<in> set (L1 (PCB_sem_descriptors (running k1)))" for e
    using that 4(1,4,6,7) by simp
  have "semOpen_descriptor k1 s = Inr k'" using 4(8) ok by simp
  from semOpen_descriptor_queues [OF 4(2) s new this] have "with_queues L1 k'" .
  then show ?case by (simp add: with_queues_def 4(1))
qed (use inv ok in \<open>auto intro: with_queuesI\<close>)

end
