(* ===== verification/Sem_Runs.thy ===== *)
theory Sem_Runs
  imports Sem_Frame
begin

text \<open>
  The kernel as a semaphore sees it: every event of a run is one of the two operations of the
  abstract semaphore, or leaves its view unchanged.
\<close>

section \<open>The steps of the kernel\<close>

lemma queue_live:
  assumes inv: "kinv k L" and x: "x \<in> set (L (Semaphore_waiting s))"
  shows "x \<in> pools_live (pools k) sem_descriptor_ptr_pool"
    "sem_descriptor_ptrs k x \<in> pools_live (pools k) sem_descriptor_pool"
proof -
  note T = typed_listsD [OF kinvD(9) [OF inv]]
  show "x \<in> pools_live (pools k) sem_descriptor_ptr_pool" using T [OF x] by simp
  have "sem_descriptor_ptrs k x
      \<in> set (L (PCB_sem_descriptors (sd_pcb (sem_descriptors k (sem_descriptor_ptrs k x)))))"
    using sem_okD(4) [OF kinvD(5) [OF inv]] x
    by (auto simp: sem_queues_ok_def waiters_ok_def Let_def)
  from T [OF this] show "sem_descriptor_ptrs k x \<in> pools_live (pools k) sem_descriptor_pool" by simp
qed

text \<open>A step that keeps the records in use and the queues keeps the view of every semaphore.\<close>

lemma view_kept:
  assumes inv: "kinv k L" and s: "s \<in> set (L semaphores_list)" and inv': "kinv k' L'"
    and data: "kept k k' \<or> sem_part k' = sem_part k" and q: "with_queues L k'"
  shows "sem_view k' L' s = sem_view k L s"
proof -
  have L': "L' (Semaphore_waiting s) = L (Semaphore_waiting s)"
    using q kinv_unique [OF inv'] by (auto simp: with_queues_def)
  have "s \<in> pools_live (pools k) semaphore_pool"
    using typed_listsD [OF kinvD(9) [OF inv] s] by simp
  then have "semaphores k' s = semaphores k s" using data by (auto simp: kept_def sem_part_def)
  moreover have "waiter k' x = waiter k x" if "x \<in> set (L (Semaphore_waiting s))" for x
    using data queue_live [OF inv that] by (auto simp: kept_def sem_part_def waiter_def)
  ultimately show ?thesis by (simp add: sem_view_def L')
qed

text \<open>The handlers of all calls but \<open>semWait\<close>, \<open>semPost\<close> and \<open>sleep\<close>.\<close>

lemma handler_queues:
  assumes inv: "kinv k L" and vec: "syscall_vector n = Some f" and ok: "f k = Inr k'"
    and n: "n \<noteq> DSOS_CALL_SEMWAIT" "n \<noteq> DSOS_CALL_SEMPOST" "n \<noteq> DSOS_CALL_SLEEP"
    and up: "shutdown_now k' = 0"
  shows "with_queues L k' \<and> (kept k k' \<or> sem_part k' = sem_part k)"
proof -
  consider "f = internal_preempt" | "f = internal_fork" | "f = internal_spawn" | "f = internal_wait"
    | "f = internal_exit" | "f = internal_openResource" | "f = internal_closeResource"
    | "f = internal_destroyResource" | "f = internal_shutdown" | "f = internal_semOpen"
    | "f = internal_semClose"
    using vec n unfolding syscall_vector_def by (auto split: if_splits)
  then show ?thesis
    by cases
      (use inv ok up in \<open>auto simp: internal_preempt_def internal_shutdown_def
        dest: schedule_queues child_queues wait_queues exit_queues openResource_queues
          closeResource_queues destroyResource_queues semOpen_queues semClose_queues sem_call_frames
          kept_semOpen [OF kinvD(8)]\<close>)
qed

lemma sleep_view:
  assumes inv: "kinv k L" and s: "s \<in> set (L semaphores_list)"
    and num: "syscall_num (pcbs k (running k)) = DSOS_CALL_SLEEP" and ok: "internal_sleep k = Inr k1"
    and cont: "if running k1 \<noteq> NULL then k' = k1 else main_context_resumed k1 = Inr (c, k')"
    and c: "c \<noteq> Exited" and inv': "kinv k' L'"
  shows "sem_view k' L' s = sem_view k L s"
proof -
  have data: "sem_part k' = sem_part k"
    using call_frames(2) [OF ok] main_context_frame(1) [of k1 c k'] cont
    by (auto simp: parts_eq split: if_splits)
  have "with_queues L k'"
  proof (rule sleep_exec [OF inv num refl], goal_cases)
    case 1
    with ok show ?thesis by simp
  next
    case 2
    then have "k1 = set_retvalue DSOS_ESLEEP k" using ok by simp
    moreover have "running k \<noteq> NULL" by (rule sched_okD(3) [OF kinvD(2) [OF inv]])
    ultimately show ?thesis using inv cont by (auto intro: with_queuesI)
  next
    case (3 t k2 L2)
    then have k1: "k1 = k2" using ok by simp
    show ?thesis
    proof (cases "L ready_list = []")
      case False
      with 3(5) have k2: "kinv k2 L2" by blast
      then have "running k2 \<noteq> NULL" by (rule sched_okD(3) [OF kinvD(2)])
      with cont k1 k2 show ?thesis by (auto intro: with_queuesI simp: 3(2))
    next
      case True
      with 3(6) have idle: "kinv_idle k2 L2" "running k2 = NULL" by blast+
      then have run: "main_context_resumed k2 = Inr (c, k')" using cont k1 by simp
      then have up: "shutdown_now k2 = 0" using c by (auto simp: main_context_resumed_def split: if_splits)
      note K = kinv_idleD [OF idle(1)]
      show ?thesis
        by (rule main_context_exec [OF K(1,2,4-8) up])
          (use run in \<open>auto intro: with_queuesI simp: 3(2)\<close>)
    qed
  qed
  with view_kept [OF inv s inv'] data show ?thesis by blast
qed

text \<open>The trap as a semaphore sees it.\<close>

definition call_view :: "kernel \<Rightarrow> (hloc \<Rightarrow> addr list) \<Rightarrow> addr \<Rightarrow> counting_sem" where
  "call_view k L s =
     (if calls_on k L s then
        if syscall_num (pcbs k (running k)) = DSOS_CALL_SEMWAIT then cs_wait (running k) (sem_view k L s)
        else if syscall_num (pcbs k (running k)) = DSOS_CALL_SEMPOST then cs_post (sem_view k L s)
        else sem_view k L s
      else sem_view k L s)"

lemma not_on_other:
  assumes inv: "kinv k L" and "\<not> calls_on k L s"
  obtains (missing) "\<forall>d \<in> set (L (PCB_sem_descriptors (running k))).
      sd_fd (sem_descriptors k d) \<noteq> int_of_long (syscall_arg k 0)"
  | (other) u where "calls_on k L u" "s \<noteq> u"
  using assms(2) unfolding calls_on_def by metis

lemma semWait_call_view:
  assumes inv: "kinv k L" and num: "syscall_num (pcbs k (running k)) = DSOS_CALL_SEMWAIT"
    and ok: "internal_semWait k = Inr k'" and up: "shutdown_now k' = 0" and inv': "kinv k' L'"
  shows "sem_view k' L' s = call_view k L s"
proof (cases "calls_on k L s")
  case True
  with semWait_view(1) [OF inv True ok num up inv'] num show ?thesis by (simp add: call_view_def)
next
  case no: False
  show ?thesis
  proof (rule not_on_other [OF inv no])
    assume "\<forall>d \<in> set (L (PCB_sem_descriptors (running k))).
      sd_fd (sem_descriptors k d) \<noteq> int_of_long (syscall_arg k 0)"
    from sem_missing(1) [OF inv this] ok have k': "k' = set_retvalue DSOS_ENOTMYSEM k" by simp
    with inv' inv have "L' = L" using kinv_unique by simp
    with no show ?thesis
      by (simp add: k' call_view_def sem_view_def waiter_def fun_eq_iff)
  next
    fix u
    assume "calls_on k L u" "s \<noteq> u"
    from semWait_view(2) [OF inv this(1) ok num up inv' this(2)] no show ?thesis
      by (simp add: call_view_def)
  qed
qed

lemma semPost_call_view:
  assumes inv: "kinv k L" and num: "syscall_num (pcbs k (running k)) = DSOS_CALL_SEMPOST"
    and ok: "internal_semPost k = Inr k'" and inv': "kinv k' L'"
  shows "sem_view k' L' s = call_view k L s"
proof (cases "calls_on k L s")
  case True
  with semPost_view(1) [OF inv True ok inv'] num show ?thesis
    by (simp add: call_view_def DSOS_CALL_SEMPOST_def DSOS_CALL_SEMWAIT_def)
next
  case no: False
  show ?thesis
  proof (rule not_on_other [OF inv no])
    assume "\<forall>d \<in> set (L (PCB_sem_descriptors (running k))).
      sd_fd (sem_descriptors k d) \<noteq> int_of_long (syscall_arg k 0)"
    from sem_missing(2) [OF inv this] ok have k': "k' = set_retvalue DSOS_ENOTMYSEM k" by simp
    with inv' inv have "L' = L" using kinv_unique by simp
    with no show ?thesis
      by (simp add: k' call_view_def sem_view_def waiter_def fun_eq_iff)
  next
    fix u
    assume "calls_on k L u" "s \<noteq> u"
    from semPost_view(2) [OF inv this(1) ok inv' this(2)] no show ?thesis
      by (simp add: call_view_def)
  qed
qed

lemma trap_view:
  assumes inv: "kinv k L" and s: "s \<in> set (L semaphores_list)"
    and ok: "disastrOS_trap k = Inr (c, k')" and c: "c \<noteq> Exited" and inv': "kinv k' L'"
  shows "sem_view k' L' s = call_view k L s"
proof -
  let ?n = "syscall_num (pcbs k (running k))"
  have nz: "running k \<noteq> NULL" by (rule sched_okD(3) [OF kinvD(2) [OF inv]])
  obtain k1 where
    1: "(if ?n < 0 \<or> DSOS_MAX_SYSCALLS < ?n then Inr (set_retvalue DSOS_ESYSCALL_OUT_OF_RANGE k)
         else if ?n = DSOS_MAX_SYSCALLS then Inl Out_of_bounds
         else case syscall_vector ?n of
                None \<Rightarrow> Inr (set_retvalue DSOS_ESYSCALL_NOT_IMPLEMENTED k)
              | Some my_syscall \<Rightarrow> my_syscall k) = Inr k1"
      "(if shutdown_now k1 \<noteq> 0 then main_context_resumed k1
        else if log_file k1 \<and> running k1 = NULL then Inl Null_deref
        else if running k1 \<noteq> NULL then Inr (Resume (running k1), k1)
        else main_context_resumed k1) = Inr (c, k')"
    using ok nz unfolding disastrOS_trap_def by (auto simp: res_simps Let_def)
  have up: "shutdown_now k1 = 0"
    using 1(2) c by (cases "shutdown_now k1 = 0") (auto simp: main_context_resumed_def)
  have cont: "if running k1 \<noteq> NULL then k' = k1 else main_context_resumed k1 = Inr (c, k')"
    using 1(2) up by (auto split: if_splits)
  have same: "sem_view k' L' s = call_view k L s"
    if "with_queues L k1" "kept k k1 \<or> sem_part k1 = sem_part k"
      "?n \<noteq> DSOS_CALL_SEMWAIT" "?n \<noteq> DSOS_CALL_SEMPOST"
  proof -
    from that(1) obtain L1 where "kinv k1 L1" by (auto simp: with_queues_def)
    then have "running k1 \<noteq> NULL" by (rule sched_okD(3) [OF kinvD(2)])
    then have "k' = k1" using cont by simp
    with view_kept [OF inv s inv'] that show ?thesis by (simp add: call_view_def)
  qed
  show ?thesis
  proof (cases "syscall_vector ?n")
    case None
    then have n: "?n \<noteq> DSOS_CALL_SEMWAIT" "?n \<noteq> DSOS_CALL_SEMPOST"
      by (auto simp: syscall_vector_def call_numbers)
    from None 1(1) have "k1 = set_retvalue DSOS_ESYSCALL_OUT_OF_RANGE k \<or>
        k1 = set_retvalue DSOS_ESYSCALL_NOT_IMPLEMENTED k" by (auto split: if_splits)
    with inv have "with_queues L k1" "sem_part k1 = sem_part k" by (auto intro: with_queuesI)
    with n show ?thesis by (intro same) simp_all
  next
    case (Some f)
    then have "0 \<le> ?n \<and> ?n < DSOS_MAX_SYSCALLS"
      by (auto simp: syscall_vector_def call_numbers DSOS_MAX_SYSCALLS_def split: if_splits)
    with 1(1) Some have f: "f k = Inr k1" by simp
    consider (wait) "?n = DSOS_CALL_SEMWAIT" | (post) "?n = DSOS_CALL_SEMPOST"
      | (sleep) "?n = DSOS_CALL_SLEEP" | (rest) "?n \<noteq> DSOS_CALL_SEMWAIT" "?n \<noteq> DSOS_CALL_SEMPOST"
        "?n \<noteq> DSOS_CALL_SLEEP" by blast
    then show ?thesis
    proof cases
      case wait
      then have k1: "internal_semWait k = Inr k1" using Some f by (simp add: syscall_vector_def call_numbers)
      obtain L1 where "kinv k1 L1"
        using semWait_preserves [OF inv wait k1] up by (metis zero_neq_one)
      then have "running k1 \<noteq> NULL" by (rule sched_okD(3) [OF kinvD(2)])
      then have k': "k' = k1" using cont by simp
      show ?thesis unfolding k'
        by (rule semWait_call_view [OF inv wait k1 up]) (use inv' k' in simp)
    next
      case post
      then have k1: "internal_semPost k = Inr k1" using Some f by (simp add: syscall_vector_def call_numbers)
      obtain L1 where "kinv k1 L1" by (rule semPost_preserves [OF inv k1])
      then have "running k1 \<noteq> NULL" by (rule sched_okD(3) [OF kinvD(2)])
      then have k': "k' = k1" using cont by simp
      show ?thesis unfolding k'
        by (rule semPost_call_view [OF inv post k1]) (use inv' k' in simp)
    next
      case sleep
      then have k1: "internal_sleep k = Inr k1" using Some f by (simp add: syscall_vector_def call_numbers)
      from sleep_view [OF inv s sleep k1 cont c inv'] sleep show ?thesis
        by (simp add: call_view_def call_numbers)
    next
      case rest
      from handler_queues [OF inv Some f rest up] rest show ?thesis by (intro same) blast+
    qed
  qed
qed

text \<open>
  What a semaphore sees of an event: a call of \<open>semWait\<close> or \<open>semPost\<close> by the running process, with
  one of its descriptors for this semaphore; everything else leaves it alone.
\<close>

definition sem_op_of :: "kernel \<Rightarrow> (hloc \<Rightarrow> addr list) \<Rightarrow> addr \<Rightarrow> event \<Rightarrow> sem_op" where
  "sem_op_of k L s e =
     (case e of
        Syscall n args \<Rightarrow>
          if calls_on (called n args k) L s then
            if n = DSOS_CALL_SEMWAIT then Wait_by (running k)
            else if n = DSOS_CALL_SEMPOST then Post_by (running k) else Other
          else Other
      | Tick \<Rightarrow> Other)"

definition op_view :: "sem_op \<Rightarrow> counting_sem \<Rightarrow> counting_sem" where
  "op_view e a = (case e of Wait_by p \<Rightarrow> cs_wait p a | Post_by p \<Rightarrow> cs_post a | Other \<Rightarrow> a)"

lemma op_view_simps [simp]:
  "op_view (Wait_by p) a = cs_wait p a" "op_view (Post_by p) a = cs_post a" "op_view Other a = a"
  by (simp_all add: op_view_def)

lemma syscall_view:
  assumes inv: "kinv k L" and s: "s \<in> set (L semaphores_list)"
    and ok: "disastrOS_syscall k n args = Inr (c, k')" and c: "c \<noteq> Exited" and inv': "kinv k' L'"
  shows "sem_view k' L' s = op_view (sem_op_of k L s (Syscall n args)) (sem_view k L s)"
proof (cases "n < 0 \<or> DSOS_MAX_SYSCALLS < n")
  case True
  then have k': "k' = k" using ok sched_okD(3) [OF kinvD(2) [OF inv]]
    by (auto simp: disastrOS_syscall_def)
  with inv inv' have "L' = L" using kinv_unique by blast
  moreover have "n \<noteq> DSOS_CALL_SEMWAIT" "n \<noteq> DSOS_CALL_SEMPOST"
    using True by (auto simp: call_numbers DSOS_MAX_SYSCALLS_def)
  ultimately show ?thesis by (simp add: k' sem_op_of_def)
next
  case False
  let ?f = "\<lambda>p. p\<lparr>syscall_args := (\<lambda>i. if i < syscall_numarg n then args i else syscall_args p i),
    syscall_num := n, cpu_state := Saved_context\<rparr>"
  let ?k = "upd_pcb (running k) ?f k"
  have inv1: "kinv ?k L" by (rule kinv_call [OF inv]) simp
  have trap: "disastrOS_trap ?k = Inr (c, k')"
    using ok False sched_okD(3) [OF kinvD(2) [OF inv]]
    by (auto simp: disastrOS_syscall_def Let_def split: if_splits)
  have view: "sem_view ?k L s = sem_view k L s" by (simp add: sem_view_def waiter_def fun_eq_iff)
  have on: "calls_on ?k L s = calls_on (called n args k) L s"
    if "n = DSOS_CALL_SEMWAIT \<or> n = DSOS_CALL_SEMPOST"
    using that by (auto simp: calls_on_def syscall_arg_def syscall_numarg_def called_def call_numbers)
  have "sem_view k' L' s = call_view ?k L s" by (rule trap_view [OF inv1 s trap c inv'])
  also have "\<dots> = op_view (sem_op_of k L s (Syscall n args)) (sem_view k L s)"
    using on view by (auto simp: call_view_def sem_op_of_def)
  finally show ?thesis .
qed

lemma step_view:
  assumes inv: "kinv k L" and s: "s \<in> set (L semaphores_list)"
    and ok: "kernel_step k e = Inr (c, k')" and c: "c \<noteq> Exited" and inv': "kinv k' L'"
  shows "sem_view k' L' s = op_view (sem_op_of k L s e) (sem_view k L s)"
proof (cases e)
  case (Syscall n args)
  with ok have "disastrOS_syscall k n args = Inr (c, k')" by (simp add: kernel_step_def)
  from syscall_view [OF inv s this c inv'] Syscall show ?thesis by simp
next
  case Tick
  then have "timerInterrupt k = Inr k'" using ok by (auto simp: kernel_step_def res_simps)
  let ?k = "(upd_pcb (running k) (\<lambda>p. p\<lparr>cpu_state := Saved_context\<rparr>) k)
    \<lparr>disastrOS_time := disastrOS_time k + 1\<rparr>"
  have inv1: "kinv ?k L" using inv by (simp add: kinv_irrelevant)
  have "internal_schedule ?k = Inr k'"
    using \<open>timerInterrupt k = Inr k'\<close> by (auto simp: timerInterrupt_def res_simps Let_def)
  from schedule_queues [OF inv1 this] schedule_frame [OF this, unfolded parts_eq, THEN conjunct1]
  have "sem_view k' L' s = sem_view ?k L s" by (intro view_kept [OF inv1 s inv']) simp_all
  with Tick show ?thesis by (simp add: sem_op_of_def sem_view_def waiter_def fun_eq_iff)
qed

section \<open>The runs of the kernel\<close>

text \<open>
  A run during which the semaphore \<open>s\<close> exists all the time, with what the semaphore sees of it.
\<close>

inductive sem_history :: "addr \<Rightarrow> kernel \<Rightarrow> event list \<Rightarrow> sem_op list \<Rightarrow> kernel \<Rightarrow> bool" for s :: addr
where
  history_nil: "sem_history s k [] [] k"
| history_cons: "kinv k L \<Longrightarrow> s \<in> set (L semaphores_list) \<Longrightarrow> kernel_step k e = Inr (c, k1) \<Longrightarrow>
    c \<noteq> Exited \<Longrightarrow> sem_history s k1 es ops k2 \<Longrightarrow>
    sem_history s k (e # es) (sem_op_of k L s e # ops) k2"

text \<open>The steps of the kernel as steps of a system with a semaphore.\<close>

definition sem_step ::
    "addr \<Rightarrow> kernel \<times> (hloc \<Rightarrow> addr list) \<Rightarrow> sem_op \<Rightarrow> kernel \<times> (hloc \<Rightarrow> addr list) \<Rightarrow> bool" where
  "sem_step s st e st' \<longleftrightarrow>
     kinv (fst st) (snd st) \<and> kinv (fst st') (snd st') \<and> s \<in> set (snd st semaphores_list) \<and>
     (\<exists>ev c. kernel_step (fst st) ev = Inr (c, fst st') \<and> c \<noteq> Exited \<and>
        e = sem_op_of (fst st) (snd st) s ev)"

interpretation kernel_sem: counting_semaphore "sem_step s" "\<lambda>st. sem_view (fst st) (snd st) s" for s
proof unfold_locales
  fix st st' :: "kernel \<times> (hloc \<Rightarrow> addr list)" and p
  have step: "sem_view (fst st') (snd st') s = op_view e (sem_view (fst st) (snd st) s)"
    if "sem_step s st e st'" for e
    using that step_view [of "fst st" "snd st" s _ _ "fst st'" "snd st'"]
    unfolding sem_step_def by blast
  show "sem_view (fst st') (snd st') s = cs_wait p (sem_view (fst st) (snd st) s)"
    if "sem_step s st (Wait_by p) st'"
    using step [OF that] by simp
  show "sem_view (fst st') (snd st') s = cs_post (sem_view (fst st) (snd st) s)"
    if "sem_step s st (Post_by p) st'"
    using step [OF that] by simp
  show "sem_view (fst st') (snd st') s = sem_view (fst st) (snd st) s" if "sem_step s st Other st'"
    using step [OF that] by simp
qed

lemma history_run: "sem_history s k es ops k' \<Longrightarrow> kernel_run k es k'"
  by (induction rule: sem_history.induct) (auto intro: kernel_run.intros)

lemma history_sem_run:
  assumes "sem_history s k es ops k'" and "kinv k L" and "kinv k' L'"
  shows "sem_run (sem_step s) (k, L) ops (k', L')"
  using assms
proof (induction arbitrary: L rule: sem_history.induct)
  case (history_nil k)
  then have "L = L'" by (rule kinv_unique)
  then show ?case by (simp add: sem_run_nil)
next
  case (history_cons k M e c k1 es ops k2)
  have L: "L = M" by (rule kinv_unique [OF history_cons.prems(1) history_cons.hyps(1)])
  obtain L1 where L1: "kinv k1 L1"
    using step_preserves [OF history_cons.hyps(1,3)] history_cons.hyps(4) by blast
  have "sem_step s (k, L) (sem_op_of k M s e) (k1, L1)"
    using history_cons.hyps(1-4) L1 L by (auto simp: sem_step_def)
  from sem_run_cons [OF this history_cons.IH [OF L1 history_cons.prems(2)]] show ?case by (simp add: L)
qed

end
