(* ===== verification/Sem_Theorems.thy ===== *)
theory Sem_Theorems
  imports Sem_Runs Sem_Open Sem_Close Process_Theorems
begin

text \<open>
  The properties of the semaphore calls, each with an instance on the example kernel.
\<close>

text \<open>
  \<open>semWait\<close> on a semaphore that is positive decrements it, returns 0 and lets the caller
  run on; every list of the kernel is unchanged.
\<close>

theorem semWait_passes:
  assumes "kinv k L" and "d \<in> set (L (PCB_sem_descriptors (running k)))"
    and "int_of_long (syscall_arg k 0) = sd_fd (sem_descriptors k d)"
    and "s = sd_semaphore (sem_descriptors k d)" and "0 < sem_count (semaphores k s)"
    and "in_int_range (sem_count (semaphores k s))"
  shows "\<exists>k'. internal_semWait k = Inr k' \<and> kinv k' L \<and> running k' = running k \<and>
    semaphores k' = (semaphores k)
      (s := (semaphores k s)\<lparr>sem_count := sem_count (semaphores k s) - 1\<rparr>) \<and>
    syscall_retvalue (pcbs k' (running k)) = 0"
proof -
  have "in_int_range (sem_count (semaphores k s) - 1)"
    using assms(5,6) by (simp add: in_int_range_def)
  with semWait_pass [OF assms(1-5)] show ?thesis
    by (simp add: fun_eq_iff)
qed

theorem semWait_passes_witness:
  "\<exists>k'. internal_semWait (demo_call False DSOS_CALL_SEMWAIT 1) = Inr k' \<and>
     sem_count (semaphores k' 701) = 0"
  using semWait_passes [OF demo_call_kinv, of 801 False DSOS_CALL_SEMWAIT 1 701]
  by (auto simp: int_of_long_id in_int_range_def)

text \<open>
  C8: \<open>semWait\<close> on a semaphore that is not positive decrements it and blocks the caller: the
  caller's second list item goes to the end of the queue of the semaphore, the caller to the
  end of the waiting list, and the first ready process runs.
\<close>

theorem semWait_blocks:
  assumes "kinv k L" and "d \<in> set (L (PCB_sem_descriptors (running k)))"
    and "int_of_long (syscall_arg k 0) = sd_fd (sem_descriptors k d)"
    and "s = sd_semaphore (sem_descriptors k d)" and "sem_count (semaphores k s) \<le> 0"
    and "L ready_list = r # rs" and "in_int_range (sem_count (semaphores k s) - 1)"
    and "syscall_num (pcbs k (running k)) = DSOS_CALL_SEMWAIT"
  shows "\<exists>k'. internal_semWait k = Inr k' \<and> running k' = r \<and>
    kinv k' (L(Semaphore_waiting s := L (Semaphore_waiting s) @ [sd_wait_ptr (sem_descriptors k d)],
       waiting_list := L waiting_list @ [running k], ready_list := rs)) \<and>
    semaphores k' = (semaphores k)
      (s := (semaphores k s)\<lparr>sem_count := sem_count (semaphores k s) - 1\<rparr>) \<and>
    status (pcbs k' (running k)) = Waiting"
proof (rule semWait_block [OF assms(1-4) refl assms(5,6)])
  fix lk hds L' k'
  assume a: "L' = L(Semaphore_waiting s := L (Semaphore_waiting s) @ [sd_wait_ptr (sem_descriptors k d)],
      waiting_list := L waiting_list @ [running k], ready_list := rs)"
    "k' = set_retvalue 0 (upd_sem s (\<lambda>x. x\<lparr>sem_count := sem_count (semaphores k s) - 1\<rparr>)
      ((upd_pcb (running k) (\<lambda>p. p\<lparr>status := Waiting\<rparr>) k)\<lparr>links := lk, heads := hds, running := r\<rparr>))"
    "internal_semWait k =
       (if in_int_range (sem_count (semaphores k s) - 1) then Inr k' else Inl Signed_overflow)"
    "list_rep lk hds L'"
    "\<And>y. loose (links k) L y \<Longrightarrow> y \<noteq> running k \<Longrightarrow> y \<noteq> sd_wait_ptr (sem_descriptors k d) \<Longrightarrow>
       loose lk L' y" "loose lk L' r"
  have "kinv k' L'"
    unfolding a(2) kinv_set_retvalue
    by (rule semWait_block_kinv [OF assms(1,2,8,4) refl assms(5,6) a(1,4-6) refl])
  moreover have "running k' = r" "status (pcbs k' (running k)) = Waiting"
    "semaphores k' = (semaphores k)
      (s := (semaphores k s)\<lparr>sem_count := sem_count (semaphores k s) - 1\<rparr>)"
    by (simp_all add: a(2))
  ultimately show ?thesis using a(1,3) assms(7) by simp
qed

theorem semWait_blocks_witness:
  "\<exists>k'. internal_semWait (demo_call False DSOS_CALL_SEMWAIT 0) = Inr k' \<and> running k' = 101 \<and>
     sem_count (semaphores k' 700) = -2"
  using semWait_blocks [OF demo_call_kinv, of 800 False DSOS_CALL_SEMWAIT 0 700 101 "[]"]
  by (auto simp: int_of_long_id in_int_range_def)

text \<open>
  When the caller would have to block and no process is ready, \<open>semWait\<close> shuts the system
  down and leaves the semaphore as it was.
\<close>

theorem semWait_shuts_down:
  assumes "kinv k L" and "d \<in> set (L (PCB_sem_descriptors (running k)))"
    and "int_of_long (syscall_arg k 0) = sd_fd (sem_descriptors k d)"
    and "sem_count (semaphores k (sd_semaphore (sem_descriptors k d))) \<le> 0"
    and "L ready_list = []"
  shows "\<exists>k'. internal_semWait k = Inr k' \<and> shutdown_now k' = 1 \<and> running k' = running k \<and>
    semaphores k' = semaphores k"
  using semWait_deadlock [OF assms(1-3) refl assms(4,5)] by blast

theorem semWait_shuts_down_witness:
  "\<exists>k'. internal_semWait (demo_call True DSOS_CALL_SEMWAIT 0) = Inr k' \<and> shutdown_now k' = 1"
  using semWait_shuts_down [OF demo_call_kinv, of 800 True DSOS_CALL_SEMWAIT 0]
  by (auto simp: int_of_long_id in_int_range_def)

lemma semPost_wake_run:
  assumes "kinv k L" and "d \<in> set (L (PCB_sem_descriptors (running k)))"
    and "int_of_long (syscall_arg k 0) = sd_fd (sem_descriptors k d)"
    and "s = sd_semaphore (sem_descriptors k d)" and "sem_count (semaphores k s) < 0"
    and "L (Semaphore_waiting s) = x # xs"
    and "q = sd_pcb (sem_descriptors k (sem_descriptor_ptrs k x))"
    and "in_int_range (sem_count (semaphores k s))"
  shows "\<exists>k'. internal_semPost k = Inr k' \<and> running k' = running k \<and>
    kinv k' (L(Semaphore_waiting s := xs, waiting_list := remove1 q (L waiting_list),
       ready_list := L ready_list @ [q])) \<and>
    semaphores k' = (semaphores k)
      (s := (semaphores k s)\<lparr>sem_count := sem_count (semaphores k s) + 1\<rparr>) \<and>
    status (pcbs k' q) = Ready \<and> syscall_retvalue (pcbs k' (running k)) = 0"
proof (rule semPost_wake [OF assms(1-7)])
  fix lk hds L' k'
  assume a: "L' = L(Semaphore_waiting s := xs, waiting_list := remove1 q (L waiting_list),
      ready_list := L ready_list @ [q])"
    "k' = set_retvalue 0 (upd_sem s (\<lambda>x. x\<lparr>sem_count := sem_count (semaphores k s) + 1\<rparr>)
      (upd_pcb q (\<lambda>p. p\<lparr>status := Ready\<rparr>) (k\<lparr>links := lk, heads := hds\<rparr>)))"
    "internal_semPost k =
       (if in_int_range (sem_count (semaphores k s) + 1) then Inr k' else Inl Signed_overflow)"
    "list_rep lk hds L'" "\<And>y. loose (links k) L y \<Longrightarrow> loose lk L' y" "loose lk L' x"
  have s: "s \<in> set (L semaphores_list)"
    by (rule sem_descriptorD(1) [OF kinvD(5) [OF assms(1)] assms(2,4)])
  have "kinv k' L'"
    unfolding a(2) kinv_set_retvalue
    by (rule semPost_wake_kinv [OF assms(1) s assms(5-7) a(1,4) _ a(6) refl]) (use a(5) in simp)
  moreover have "in_int_range (sem_count (semaphores k s) + 1)"
    using assms(5,8) by (simp add: in_int_range_def)
  moreover have "running k' = running k" "status (pcbs k' q) = Ready"
    "semaphores k' = (semaphores k)
      (s := (semaphores k s)\<lparr>sem_count := sem_count (semaphores k s) + 1\<rparr>)"
    "syscall_retvalue (pcbs k' (running k)) = 0"
    by (simp_all add: a(2))
  ultimately show ?thesis using a(1,3) by simp
qed

text \<open>
  C9: \<open>semPost\<close> on a negative semaphore with a queue increments it and wakes the process that
  has waited longest: its list item leaves the front of the queue, the process moves from the
  waiting list to the end of the ready list and becomes \<open>Ready\<close>; the caller runs on with the
  result 0.
\<close>

theorem semPost_wakes_first:
  assumes "kinv k L" and "d \<in> set (L (PCB_sem_descriptors (running k)))"
    and "int_of_long (syscall_arg k 0) = sd_fd (sem_descriptors k d)"
    and "s = sd_semaphore (sem_descriptors k d)" and "sem_count (semaphores k s) < 0"
    and "L (Semaphore_waiting s) = x # xs"
    and "q = sd_pcb (sem_descriptors k (sem_descriptor_ptrs k x))"
    and "in_int_range (sem_count (semaphores k s))"
  shows "\<exists>k'. internal_semPost k = Inr k' \<and> running k' = running k \<and>
    kinv k' (L(Semaphore_waiting s := xs, waiting_list := remove1 q (L waiting_list),
       ready_list := L ready_list @ [q])) \<and>
    semaphores k' = (semaphores k)
      (s := (semaphores k s)\<lparr>sem_count := sem_count (semaphores k s) + 1\<rparr>) \<and>
    status (pcbs k' q) = Ready \<and> syscall_retvalue (pcbs k' (running k)) = 0"
  by (rule semPost_wake_run [OF assms])

theorem semPost_wakes_first_witness:
  "\<exists>k'. internal_semPost (demo_call False DSOS_CALL_SEMPOST 0) = Inr k' \<and>
     status (pcbs k' 102) = Ready \<and> sem_count (semaphores k' 700) = 0"
  using semPost_wakes_first
    [OF demo_call_kinv, of 800 False DSOS_CALL_SEMPOST 0 700 905 "[]" 102]
  by (auto simp: int_of_long_id in_int_range_def)

text \<open>
  \<open>semPost\<close> on a semaphore that is not negative, or whose queue is empty, increments it
  and returns 0; every list of the kernel is unchanged. At the largest \<open>int\<close> the increment
  overflows.
\<close>

theorem semPost_no_waiter:
  assumes "kinv k L" and "d \<in> set (L (PCB_sem_descriptors (running k)))"
    and "int_of_long (syscall_arg k 0) = sd_fd (sem_descriptors k d)"
    and "s = sd_semaphore (sem_descriptors k d)"
    and "0 \<le> sem_count (semaphores k s) \<or> L (Semaphore_waiting s) = []"
    and "in_int_range (sem_count (semaphores k s))"
  shows "if sem_count (semaphores k s) = 2 ^ 31 - 1 then internal_semPost k = Inl Signed_overflow
    else \<exists>k'. internal_semPost k = Inr k' \<and> kinv k' L \<and> running k' = running k \<and>
      semaphores k' = (semaphores k)
        (s := (semaphores k s)\<lparr>sem_count := sem_count (semaphores k s) + 1\<rparr>) \<and>
      syscall_retvalue (pcbs k' (running k)) = 0"
proof -
  have s: "s \<in> set (L semaphores_list)"
    by (rule sem_descriptorD(1) [OF kinvD(5) [OF assms(1)] assms(2,4)])
  have "in_int_range (sem_count (semaphores k s) + 1) \<longleftrightarrow> sem_count (semaphores k s) \<noteq> 2 ^ 31 - 1"
    using assms(6) by (auto simp: in_int_range_def)
  with semPost_plain [OF assms(1-5)] semPost_plain_kinv [OF assms(1) s assms(5)] show ?thesis
    by (simp add: fun_eq_iff)
qed

theorem semPost_no_waiter_witness:
  "\<exists>k'. internal_semPost (demo_call False DSOS_CALL_SEMPOST 1) = Inr k' \<and>
     sem_count (semaphores k' 701) = 2"
  using semPost_no_waiter [OF demo_call_kinv, of 801 False DSOS_CALL_SEMPOST 1 701]
  by (auto simp: int_of_long_id in_int_range_def)

text \<open>
  Waiting on, posting to and closing a number that is no descriptor of the caller return
  \<open>DSOS_ENOTMYSEM\<close> and change nothing else.
\<close>

theorem sem_calls_unknown_fd:
  assumes "kinv k L" and "\<forall>d \<in> set (L (PCB_sem_descriptors (running k))).
    sd_fd (sem_descriptors k d) \<noteq> int_of_long (syscall_arg k 0)"
  shows "internal_semWait k = Inr (set_retvalue DSOS_ENOTMYSEM k) \<and>
    internal_semPost k = Inr (set_retvalue DSOS_ENOTMYSEM k) \<and>
    internal_semClose k = Inr (set_retvalue DSOS_ENOTMYSEM k)"
  using sem_missing [OF assms] by simp

theorem sem_calls_unknown_fd_witness:
  "internal_semClose (demo_call False DSOS_CALL_SEMCLOSE 9) =
     Inr (set_retvalue DSOS_ENOTMYSEM (demo_call False DSOS_CALL_SEMCLOSE 9))"
  using sem_calls_unknown_fd [OF demo_call_kinv, of False DSOS_CALL_SEMCLOSE 9]
  by (simp add: int_of_long_id in_int_range_def)

section \<open>Refinement of the counting semaphore\<close>

text \<open>
  \<open>semWait\<close> refines the operation of the abstract counting semaphore: it passes and
  decrements, or appends the caller to the queue and gives the processor to the first ready
  process; all other semaphores keep their state.
\<close>

theorem semWait_refines:
  assumes "kinv k L" and "calls_on k L s" and "internal_semWait k = Inr k'"
    and "syscall_num (pcbs k (running k)) = DSOS_CALL_SEMWAIT" and "shutdown_now k' = 0"
  shows "\<exists>L'. kinv k' L' \<and> sem_view k' L' s = cs_wait (running k) (sem_view k L s) \<and>
    (\<forall>u. u \<noteq> s \<longrightarrow> sem_view k' L' u = sem_view k L u) \<and>
    (if 0 < cs_count (sem_view k L s) then running k' = running k
     else running k' = hd (L ready_list) \<and> running k \<in> set (L' waiting_list))"
proof (rule semWait_preserves [OF assms(1,4,3)])
  fix L'
  assume inv': "kinv k' L'"
  have c: "cs_count (sem_view k L s) = sem_count (semaphores k s)" by (simp add: sem_view_def)
  note V = semWait_view [OF assms(1,2,3,4,5) inv']
  show ?thesis using inv' V(1,3,4) V(2) by (auto simp: c intro!: exI [of _ L'])
qed (use assms(5) in simp)

theorem semWait_refines_witness:
  "\<exists>k' L'. internal_semWait (demo_call False DSOS_CALL_SEMWAIT 0) = Inr k' \<and> running k' = 101 \<and>
     cs_queue (sem_view k' L' 700) = [102, 100]"
proof -
  have d: "800 \<in> set (demo_lists False (PCB_sem_descriptors (running (demo_call False DSOS_CALL_SEMWAIT 0))))"
    "int_of_long (syscall_arg (demo_call False DSOS_CALL_SEMWAIT 0) 0) =
      sd_fd (sem_descriptors (demo_call False DSOS_CALL_SEMWAIT 0) 800)"
    "sem_count (semaphores (demo_call False DSOS_CALL_SEMWAIT 0) 700) \<le> 0"
    "demo_lists False ready_list = 101 # []"
    "700 = sd_semaphore (sem_descriptors (demo_call False DSOS_CALL_SEMWAIT 0) 800)"
    by (simp_all add: int_of_long_id in_int_range_def)
  show ?thesis
  proof (rule semWait_block [OF demo_call_kinv d(1,2,5) refl d(3,4)])
    fix lk hds L' k'
    assume k': "k' = set_retvalue 0
        (upd_sem 700 (\<lambda>x. x\<lparr>sem_count := sem_count (semaphores (demo_call False DSOS_CALL_SEMWAIT 0) 700) - 1\<rparr>)
          ((upd_pcb (running (demo_call False DSOS_CALL_SEMWAIT 0)) (\<lambda>p. p\<lparr>status := Waiting\<rparr>)
             (demo_call False DSOS_CALL_SEMWAIT 0))\<lparr>links := lk, heads := hds, running := 101\<rparr>))"
      and "internal_semWait (demo_call False DSOS_CALL_SEMWAIT 0) =
         (if in_int_range (sem_count (semaphores (demo_call False DSOS_CALL_SEMWAIT 0) 700) - 1)
          then Inr k' else Inl Signed_overflow)"
    then have ok: "internal_semWait (demo_call False DSOS_CALL_SEMWAIT 0) = Inr k'"
      by (simp add: in_int_range_def)
    have on: "calls_on (demo_call False DSOS_CALL_SEMWAIT 0) (demo_lists False) 700"
      using d(1,2,5) unfolding calls_on_def by metis
    have "shutdown_now k' = 0" by (simp add: k')
    from semWait_refines [OF demo_call_kinv on ok _ this] obtain L1 where
      "sem_view k' L1 700 = cs_wait 100 (sem_view (demo_call False DSOS_CALL_SEMWAIT 0) (demo_lists False) 700)"
      by auto
    with ok show ?thesis
      by (intro exI [of _ k'] exI [of _ L1])
        (simp add: k' cs_wait_def sem_view_def waiter_def)
  qed
qed

text \<open>
  \<open>semPost\<close> refines the operation of the abstract counting semaphore: it increments the
  count and takes the first process from the queue of a negative semaphore; all other semaphores
  keep their state and the caller runs on.
\<close>

theorem semPost_refines:
  assumes "kinv k L" and "calls_on k L s" and "internal_semPost k = Inr k'"
  shows "\<exists>L'. kinv k' L' \<and> sem_view k' L' s = cs_post (sem_view k L s) \<and>
    (\<forall>u. u \<noteq> s \<longrightarrow> sem_view k' L' u = sem_view k L u)"
proof (rule semPost_preserves [OF assms(1,3)])
  fix L'
  assume inv': "kinv k' L'"
  note V = semPost_view [OF assms inv']
  show ?thesis using inv' V(1) V(2) by (intro exI [of _ L']) simp
qed

lemma demo_calls_on:
  "calls_on (demo_call idle n 0) (demo_lists idle) 700" "calls_on (demo_call idle n 1) (demo_lists idle) 701"
  by (simp_all add: calls_on_def int_of_long_id in_int_range_def)

lemma demo_post:
  "internal_semPost (demo_call False n 1) = Inr (set_retvalue 0
     (upd_sem 701 (\<lambda>x. x\<lparr>sem_count := 2\<rparr>) (demo_call False n 1)))"
  using semPost_plain [OF demo_call_kinv, of 801 False n 1 701]
  by (simp add: int_of_long_id in_int_range_def)

theorem semPost_refines_witness:
  "\<exists>k' L'. internal_semPost (demo_call False DSOS_CALL_SEMPOST 1) = Inr k' \<and>
     sem_view k' L' 701 = \<lparr>cs_count = 2, cs_queue = []\<rparr>"
proof -
  from semPost_refines [OF demo_call_kinv demo_calls_on(2) demo_post] obtain L' where
    "sem_view (set_retvalue 0 (upd_sem 701 (\<lambda>x. x\<lparr>sem_count := 2\<rparr>) (demo_call False DSOS_CALL_SEMPOST 1))) L' 701 =
      cs_post (sem_view (demo_call False DSOS_CALL_SEMPOST 1) (demo_lists False) 701)" by blast
  with demo_post show ?thesis
    by (intro exI conjI) (assumption, simp add: cs_post_def sem_view_def)
qed

text \<open>
  C4: whatever a process calls and whenever the timer ticks, each semaphore of the kernel makes the
  step of the abstract one: a call of \<open>semWait\<close> or \<open>semPost\<close> with a descriptor for it is its wait or
  post, and no other call, of any process, nor a tick changes its count or its queue.
\<close>

theorem kernel_steps_refine_semaphore:
  assumes "kinv k L" and "s \<in> set (L semaphores_list)"
    and "kernel_step k e = Inr (c, k')" and "c \<noteq> Exited"
  shows "\<exists>L'. kinv k' L' \<and> sem_view k' L' s = op_view (sem_op_of k L s e) (sem_view k L s)"
proof -
  obtain L' where "kinv k' L'" using step_preserves [OF assms(1,3)] assms(4) by blast
  with step_view [OF assms] show ?thesis by blast
qed

text \<open>A post of process 100 on the semaphore 701 of the example, through the trap.\<close>

lemma demo_post_step:
  obtains k' where
    "kernel_step (demo_kernel False) (Syscall DSOS_CALL_SEMPOST (no_args(0 := 1))) = Inr (Resume 100, k')"
    "sem_op_of (demo_kernel False) (demo_lists False) 701 (Syscall DSOS_CALL_SEMPOST (no_args(0 := 1)))
       = Post_by 100"
    "kinv k' (demo_lists False)" "sem_count (semaphores k' 701) = 2"
proof -
  let ?f = "\<lambda>p. p\<lparr>syscall_args := (\<lambda>i. if i < 1 then (no_args(0 := 1)) i else syscall_args p i),
      syscall_num := DSOS_CALL_SEMPOST, cpu_state := Saved_context\<rparr>"
  let ?k = "upd_pcb 100 ?f (demo_kernel False)"
  let ?k' = "set_retvalue 0 (upd_sem 701 (\<lambda>x. x\<lparr>sem_count := 2\<rparr>) ?k)"
  have run: "running (demo_kernel False) = 100" by (simp add: demo_kernel_def)
  have "kinv (upd_pcb (running (demo_kernel False)) ?f (demo_kernel False)) (demo_lists False)"
    by (rule kinv_call [OF demo_kinv]) simp
  then have inv: "kinv ?k (demo_lists False)" by (simp only: run)
  have k: "running ?k = 100" "syscall_arg ?k 0 = 1" "sem_descriptors ?k 801 = sem_descriptors (demo_kernel False) 801"
    "sd_fd (sem_descriptors (demo_kernel False) 801) = 1"
    "sd_semaphore (sem_descriptors (demo_kernel False) 801) = 701"
    "sem_count (semaphores ?k 701) = 1"
    by (simp_all add: demo_kernel_def syscall_arg_def)
  have d: "801 \<in> set (demo_lists False (PCB_sem_descriptors (running ?k)))"
    "int_of_long (syscall_arg ?k 0) = sd_fd (sem_descriptors ?k 801)"
    "701 = sd_semaphore (sem_descriptors ?k 801)"
    "0 \<le> sem_count (semaphores ?k 701) \<or> demo_lists False (Semaphore_waiting 701) = []"
    unfolding k by (simp_all add: int_of_long_id in_int_range_def)
  have post: "internal_semPost ?k = Inr ?k'"
    using semPost_plain [OF inv d] unfolding k by (simp add: in_int_range_def)
  have "kernel_step (demo_kernel False) (Syscall DSOS_CALL_SEMPOST (no_args(0 := 1))) = Inr (Resume 100, ?k')"
    using post by (simp add: kernel_step_def disastrOS_syscall_def disastrOS_trap_def run syscall_numarg_def
        syscall_vector_def call_numbers DSOS_MAX_SYSCALLS_def Let_def demo_kernel_def)
  moreover have "sem_op_of (demo_kernel False) (demo_lists False) 701
      (Syscall DSOS_CALL_SEMPOST (no_args(0 := 1))) = Post_by 100"
    by (simp add: sem_op_of_def calls_on_def call_numbers run int_of_long_id in_int_range_def demo_kernel_def)
  moreover have "kinv ?k' (demo_lists False)"
    using semPost_plain_kinv [OF inv _ d(4)] unfolding k by simp
  ultimately show thesis by (rule that) simp
qed

theorem kernel_steps_refine_semaphore_witness:
  "\<exists>k' L'. kernel_step (demo_kernel False) (Syscall DSOS_CALL_SEMPOST (no_args(0 := 1))) = Inr (Resume 100, k') \<and>
     sem_view k' L' 701 = \<lparr>cs_count = 2, cs_queue = []\<rparr>"
proof (rule demo_post_step)
  fix k'
  assume k': "kernel_step (demo_kernel False) (Syscall DSOS_CALL_SEMPOST (no_args(0 := 1))) = Inr (Resume 100, k')"
    "sem_op_of (demo_kernel False) (demo_lists False) 701 (Syscall DSOS_CALL_SEMPOST (no_args(0 := 1)))
       = Post_by 100"
  have "701 \<in> set (demo_lists False semaphores_list)" by simp
  from kernel_steps_refine_semaphore [OF demo_kinv this k'(1)] obtain L' where
    "sem_view k' L' 701 = op_view (Post_by 100) (sem_view (demo_kernel False) (demo_lists False) 701)"
    by (auto simp: k'(2))
  then have "sem_view k' L' 701 = \<lparr>cs_count = 2, cs_queue = []\<rparr>"
    by (simp add: cs_post_def sem_view_def demo_kernel_def)
  with k'(1) show ?thesis by blast
qed

text \<open>The first process of the example waits on the semaphore that has one permit.\<close>

lemma demo_wait_step:
  obtains k' where
    "kernel_step (demo_kernel False) (Syscall DSOS_CALL_SEMWAIT (no_args(0 := 1))) = Inr (Resume 100, k')"
    "sem_op_of (demo_kernel False) (demo_lists False) 701 (Syscall DSOS_CALL_SEMWAIT (no_args(0 := 1)))
       = Wait_by 100"
    "kinv k' (demo_lists False)"
proof -
  let ?f = "\<lambda>p. p\<lparr>syscall_args := (\<lambda>i. if i < 1 then (no_args(0 := 1)) i else syscall_args p i),
      syscall_num := DSOS_CALL_SEMWAIT, cpu_state := Saved_context\<rparr>"
  let ?k = "upd_pcb 100 ?f (demo_kernel False)"
  let ?k' = "set_retvalue 0 (upd_sem 701 (\<lambda>x. x\<lparr>sem_count := 0\<rparr>) ?k)"
  have run: "running (demo_kernel False) = 100" by (simp add: demo_kernel_def)
  have "kinv (upd_pcb (running (demo_kernel False)) ?f (demo_kernel False)) (demo_lists False)"
    by (rule kinv_call [OF demo_kinv]) simp
  then have inv: "kinv ?k (demo_lists False)" by (simp only: run)
  have k: "running ?k = 100" "syscall_arg ?k 0 = 1" "sem_descriptors ?k 801 = sem_descriptors (demo_kernel False) 801"
    "sd_fd (sem_descriptors (demo_kernel False) 801) = 1"
    "sd_semaphore (sem_descriptors (demo_kernel False) 801) = 701"
    "sem_count (semaphores ?k 701) = 1"
    by (simp_all add: demo_kernel_def syscall_arg_def)
  have d: "801 \<in> set (demo_lists False (PCB_sem_descriptors (running ?k)))"
    "int_of_long (syscall_arg ?k 0) = sd_fd (sem_descriptors ?k 801)"
    "701 = sd_semaphore (sem_descriptors ?k 801)" "0 < sem_count (semaphores ?k 701)"
    unfolding k by (simp_all add: int_of_long_id in_int_range_def)
  have wait: "internal_semWait ?k = Inr ?k'"
    using semWait_pass(1) [OF inv d] unfolding k by (simp add: in_int_range_def)
  have "kernel_step (demo_kernel False) (Syscall DSOS_CALL_SEMWAIT (no_args(0 := 1))) = Inr (Resume 100, ?k')"
    using wait by (simp add: kernel_step_def disastrOS_syscall_def disastrOS_trap_def run syscall_numarg_def
        syscall_vector_def call_numbers DSOS_MAX_SYSCALLS_def Let_def demo_kernel_def)
  moreover have "sem_op_of (demo_kernel False) (demo_lists False) 701
      (Syscall DSOS_CALL_SEMWAIT (no_args(0 := 1))) = Wait_by 100"
    by (simp add: sem_op_of_def calls_on_def call_numbers run int_of_long_id in_int_range_def demo_kernel_def)
  moreover have "kinv ?k' (demo_lists False)"
    using semWait_pass(2) [OF inv d] unfolding k by simp
  ultimately show thesis by (rule that)
qed

text \<open>
  C2: what a semaphore is for: in every run of the kernel in which the semaphore exists, whatever its
  count and its queue are at the beginning, whatever the processes call and whenever the timer
  ticks, the processes that have been let through, those that were queued at the beginning among
  them, are never more than the permits that were free at the beginning, none if the count was
  negative, and the posts together. They are exactly as many while somebody is queued, if the
  queue was as long as the count said at the beginning; whoever is queued is in the waiting list.
\<close>

theorem semaphore_admits_at_most_count:
  assumes "sem_history s k es ops k'" and "kinv k L" and "kinv k' L'"
    and "admitted = int (waits ops) + int (length (L (Semaphore_waiting s))) -
      int (length (L' (Semaphore_waiting s)))"
  shows "kernel_run k es k' \<and>
    admitted \<le> max 0 (sem_count (semaphores k s)) + int (posts ops) \<and>
    (int (length (L (Semaphore_waiting s))) = max 0 (- sem_count (semaphores k s)) \<longrightarrow>
       L' (Semaphore_waiting s) \<noteq> [] \<longrightarrow>
       admitted = max 0 (sem_count (semaphores k s)) + int (posts ops)) \<and>
    waiter k' ` set (L' (Semaphore_waiting s)) \<subseteq> set (L' waiting_list)"
proof -
  note run = history_sem_run [OF assms(1-3)]
  have "waiter k' ` set (L' (Semaphore_waiting s)) \<subseteq> set (L' waiting_list)"
    using sem_okD(4) [OF kinvD(5) [OF assms(3)]]
    by (auto simp: sem_queues_ok_def waiters_ok_def Let_def waiter_def)
  moreover have "admitted \<le> max 0 (sem_count (semaphores k s)) + int (posts ops)"
    using kernel_sem.run_admits [OF run] by (simp add: sem_view_def assms(4))
  moreover have "admitted = max 0 (sem_count (semaphores k s)) + int (posts ops)"
    if "int (length (L (Semaphore_waiting s))) = max 0 (- sem_count (semaphores k s))"
      "L' (Semaphore_waiting s) \<noteq> []"
    using kernel_sem.run_admits_queued [OF run] that by (simp add: sem_view_def cs_balanced_def assms(4))
  ultimately show ?thesis using history_run [OF assms(1)] by blast
qed

theorem semaphore_admits_at_most_count_witness:
  "\<exists>k' L'. sem_history 701 (demo_kernel False) [Syscall DSOS_CALL_SEMWAIT (no_args(0 := 1))] [Wait_by 100] k' \<and>
     kinv k' L' \<and> sem_count (semaphores (demo_kernel False) 701) = 1 \<and>
     1 - int (length (L' (Semaphore_waiting 701))) \<le> 1"
proof (rule demo_wait_step)
  fix k'
  assume k': "kernel_step (demo_kernel False) (Syscall DSOS_CALL_SEMWAIT (no_args(0 := 1))) = Inr (Resume 100, k')"
    "sem_op_of (demo_kernel False) (demo_lists False) 701 (Syscall DSOS_CALL_SEMWAIT (no_args(0 := 1)))
       = Wait_by 100" "kinv k' (demo_lists False)"
  have "701 \<in> set (demo_lists False semaphores_list)" by simp
  from history_cons [OF demo_kinv this k'(1) _ history_nil]
  have run: "sem_history 701 (demo_kernel False) [Syscall DSOS_CALL_SEMWAIT (no_args(0 := 1))] [Wait_by 100] k'"
    by (simp add: k'(2))
  have one: "sem_count (semaphores (demo_kernel False) 701) = 1" by (simp add: demo_kernel_def)
  from semaphore_admits_at_most_count [OF run demo_kinv k'(3) refl]
  have "1 - int (length (demo_lists False (Semaphore_waiting 701))) \<le> 1" by (simp add: one)
  with run k'(3) one show ?thesis by blast
qed

text \<open>
  C6: First come, first served, and nobody starves: in every run of the kernel in which the semaphore
  exists, each post takes the process at the front of the queue, so after as many posts as there
  are processes up to a waiting one, that one has been woken; those that are still there keep
  their order, and only those that have waited since are behind them.
\<close>

theorem semaphore_first_come:
  assumes "sem_history s k es ops k'" and "kinv k L" and "kinv k' L'" and "s \<in> set (L semaphores_list)"
  shows "\<exists>ys. map (waiter k') (L' (Semaphore_waiting s)) =
      drop (posts ops) (map (waiter k) (L (Semaphore_waiting s))) @ ys \<and>
    set ys \<subseteq> {p. Wait_by p \<in> set ops}"
  using kernel_sem.run_first_come [OF history_sem_run [OF assms(1-3)]]
    sem_queue_length [OF kinvD(5) [OF assms(2)] assms(4)]
  by (simp add: sem_view_def)

lemma demo_wake_step:
  obtains k' L' where
    "kernel_step (demo_kernel False) (Syscall DSOS_CALL_SEMPOST no_args) = Inr (Resume 100, k')"
    "sem_op_of (demo_kernel False) (demo_lists False) 700 (Syscall DSOS_CALL_SEMPOST no_args) = Post_by 100"
    "kinv k' L'"
proof -
  let ?f = "\<lambda>p. p\<lparr>syscall_args := (\<lambda>i. if i < 1 then no_args i else syscall_args p i),
      syscall_num := DSOS_CALL_SEMPOST, cpu_state := Saved_context\<rparr>"
  let ?k = "upd_pcb 100 ?f (demo_kernel False)"
  have run: "running (demo_kernel False) = 100" by (simp add: demo_kernel_def)
  have "kinv (upd_pcb (running (demo_kernel False)) ?f (demo_kernel False)) (demo_lists False)"
    by (rule kinv_call [OF demo_kinv]) simp
  then have inv: "kinv ?k (demo_lists False)" by (simp only: run)
  have k: "running ?k = 100" "syscall_arg ?k 0 = 0" "shutdown_now ?k = 0" "log_file ?k = False"
    "sem_descriptors ?k = sem_descriptors (demo_kernel False)"
    "semaphores ?k = semaphores (demo_kernel False)"
    by (simp_all add: demo_kernel_def syscall_arg_def no_args_def)
  have facts: "800 \<in> set (demo_lists False (PCB_sem_descriptors (running ?k)))"
    "int_of_long (syscall_arg ?k 0) = sd_fd (sem_descriptors ?k 800)"
    "700 = sd_semaphore (sem_descriptors ?k 800)" "sem_count (semaphores ?k 700) < 0"
    "demo_lists False (Semaphore_waiting 700) = [905]" "in_int_range (sem_count (semaphores ?k 700))"
    unfolding k by (simp_all add: int_of_long_id in_int_range_def)
  obtain k' where post: "internal_semPost ?k = Inr k'" "running k' = 100" "\<exists>L'. kinv k' L'"
    using semPost_wake_run [OF inv facts(1-5) refl facts(6)] unfolding k by blast
  have same: "shutdown_now k' = 0" "log_file k' = False"
    by (rule semPost_wake [OF inv facts(1-5) refl], use post(1) facts(6) k in \<open>simp split: if_splits\<close>)+
  have "kernel_step (demo_kernel False) (Syscall DSOS_CALL_SEMPOST no_args) = Inr (Resume 100, k')"
    using post same by (simp add: kernel_step_def disastrOS_syscall_def disastrOS_trap_def run syscall_numarg_def
        syscall_vector_def call_numbers DSOS_MAX_SYSCALLS_def Let_def)
  moreover have "sem_op_of (demo_kernel False) (demo_lists False) 700
      (Syscall DSOS_CALL_SEMPOST no_args) = Post_by 100"
    by (simp add: sem_op_of_def calls_on_def call_numbers run int_of_long_id in_int_range_def no_args_def)
  ultimately show thesis using post(3) that by blast
qed

theorem semaphore_first_come_witness:
  "\<exists>k' L'. sem_history 700 (demo_kernel False) [Syscall DSOS_CALL_SEMPOST no_args] [Post_by 100] k' \<and>
     waiter (demo_kernel False) 905 = 102 \<and> kinv k' L' \<and> L' (Semaphore_waiting 700) = []"
proof (rule demo_wake_step)
  fix k' L'
  assume k': "kernel_step (demo_kernel False) (Syscall DSOS_CALL_SEMPOST no_args) = Inr (Resume 100, k')"
    "sem_op_of (demo_kernel False) (demo_lists False) 700 (Syscall DSOS_CALL_SEMPOST no_args) = Post_by 100"
    "kinv k' L'"
  have s: "700 \<in> set (demo_lists False semaphores_list)" by simp
  from history_cons [OF demo_kinv s k'(1) _ history_nil]
  have run: "sem_history 700 (demo_kernel False) [Syscall DSOS_CALL_SEMPOST no_args] [Post_by 100] k'"
    by (simp add: k'(2))
  from semaphore_first_come [OF run demo_kinv k'(3) s] have "L' (Semaphore_waiting 700) = []" by simp
  with run k'(3) show ?thesis by (intro exI [of _ k'] exI [of _ L']) (simp add: waiter_def)
qed

section \<open>Opening and closing\<close>

text \<open>
  \<open>semOpen\<close> on a number the caller has open returns the descriptor it already has and changes
  nothing else.
\<close>

theorem semOpen_again:
  assumes "kinv k L" and "d \<in> set (L (PCB_sem_descriptors (running k)))"
    and "sem_id (semaphores k (sd_semaphore (sem_descriptors k d))) = int_of_long (syscall_arg k 0)"
  shows "internal_semOpen k = Inr (set_retvalue (sd_fd (sem_descriptors k d)) k)"
proof (rule semOpen_cases [OF assms(1) refl refl])
  note D = sem_descriptorD [OF kinvD(5) [OF assms(1)]]
  note same = sem_okD(5) [OF kinvD(5) [OF assms(1)], unfolded sem_ids_ok_def]
  {
    fix e
    assume e: "e \<in> set (L (PCB_sem_descriptors (running k)))"
      "sem_id (semaphores k (sd_semaphore (sem_descriptors k e))) = int_of_long (syscall_arg k 0)"
      "internal_semOpen k = Inr (set_retvalue (sd_fd (sem_descriptors k e)) k)"
    have "sd_semaphore (sem_descriptors k e) = sd_semaphore (sem_descriptors k d)"
      using inj_onD [OF same] D(1) [OF e(1) refl] D(1) [OF assms(2) refl] e(2) assms(3) by simp
    then have "e = d" using sem_fdD(2) [OF kinvD(5) [OF assms(1)] e(1) assms(2)] by simp
    with e(3) show ?thesis by simp
  next
    fix s
    assume "s \<in> set (L semaphores_list)" "sem_id (semaphores k s) = int_of_long (syscall_arg k 0)"
      "\<And>e. e \<in> set (L (PCB_sem_descriptors (running k))) \<Longrightarrow> sd_semaphore (sem_descriptors k e) \<noteq> s"
    with inj_onD [OF same] D(1) [OF assms(2) refl] assms(2,3) show ?thesis by metis
  }
qed (use sem_descriptorD(1) [OF kinvD(5) [OF assms(1)] assms(2) refl] assms(3) in blast)+

theorem semOpen_again_witness:
  "internal_semOpen (demo_call False DSOS_CALL_SEMOPEN 2) =
     Inr (set_retvalue 1 (demo_call False DSOS_CALL_SEMOPEN 2))"
  using semOpen_again [OF demo_call_kinv, of 801 False DSOS_CALL_SEMOPEN 2]
  by (simp add: int_of_long_id in_int_range_def)

text \<open>Opening a number the caller does not have open.\<close>

lemma semOpen_makes:
  assumes "kinv k L" and "n = int_of_long (syscall_arg k 0)" and "v = int_of_long (syscall_arg k 1)"
    and "f = last_sem_fd (pcbs k (running k))" and "in_int_range (f + 1)"
    and "\<And>d. d \<in> set (L (PCB_sem_descriptors (running k))) \<Longrightarrow>
      sem_id (semaphores k (sd_semaphore (sem_descriptors k d))) \<noteq> n"
    and "0 < pools_room (pools k) semaphore_pool" and "0 < pools_room (pools k) sem_descriptor_pool"
    and "2 \<le> pools_room (pools k) sem_descriptor_ptr_pool"
  shows "\<exists>s d k' L'. internal_semOpen k = Inr (set_retvalue f k') \<and> kinv k' L' \<and>
       L' (PCB_sem_descriptors (running k)) = L (PCB_sem_descriptors (running k)) @ [d] \<and>
       sd_fd (sem_descriptors k' d) = f \<and> sd_semaphore (sem_descriptors k' d) = s \<and>
       sem_id (semaphores k' s) = n \<and> last_sem_fd (pcbs k' (running k)) = f + 1 \<and>
       (if s \<in> set (L semaphores_list)
        then L' semaphores_list = L semaphores_list \<and> semaphores k' = semaphores k
        else L' semaphores_list = L semaphores_list @ [s] \<and> sem_count (semaphores k' s) = v)"
proof (cases "\<exists>u \<in> set (L semaphores_list). sem_id (semaphores k u) = n")
  case False
  then have fresh: "sem_id (semaphores k u) \<noteq> n" if "u \<in> set (L semaphores_list)" for u
    using that by blast
  obtain s d x k' where a: "internal_semOpen k = Inr (set_retvalue f k')"
    "kinv k' (L(semaphores_list := L semaphores_list @ [s],
       PCB_sem_descriptors (running k) := L (PCB_sem_descriptors (running k)) @ [d],
       Semaphore_descriptors s := [x]))"
    "s \<notin> set (L semaphores_list)" "sd_fd (sem_descriptors k' d) = f"
    "sd_semaphore (sem_descriptors k' d) = s" "last_sem_fd (pcbs k' (running k)) = f + 1"
    "semaphores k' = (semaphores k)(s := \<lparr>sem_id = n, sem_count = v\<rparr>)"
    by (rule semOpen_new_exec [OF assms(1-5) fresh assms(7-9)])
  show ?thesis
    by (rule exI [of _ s], rule exI [of _ d], rule exI [of _ k'],
        rule exI [of _ "L(semaphores_list := L semaphores_list @ [s],
          PCB_sem_descriptors (running k) := L (PCB_sem_descriptors (running k)) @ [d],
          Semaphore_descriptors s := [x])"]) (use a in simp)
next
  case True
  then obtain u where u: "u \<in> set (L semaphores_list)" "sem_id (semaphores k u) = n" by blast
  show ?thesis
  proof (rule semOpen_cases [OF assms(1-3)])
    fix s
    assume s: "s \<in> set (L semaphores_list)" "sem_id (semaphores k s) = n"
      and new: "\<And>e. e \<in> set (L (PCB_sem_descriptors (running k))) \<Longrightarrow> sd_semaphore (sem_descriptors k e) \<noteq> s"
      and ok: "internal_semOpen k = semOpen_descriptor k s"
    show ?thesis
    proof (rule semOpen_descriptor_exec [OF assms(1) s(1) new assms(4)])
      fix d x k'
      let ?L' = "L(PCB_sem_descriptors (running k) := L (PCB_sem_descriptors (running k)) @ [d],
           Semaphore_descriptors s := L (Semaphore_descriptors s) @ [x])"
      assume "semOpen_descriptor k s = Inr (set_retvalue f k')" "kinv k' ?L'"
        "sd_fd (sem_descriptors k' d) = f" "sd_semaphore (sem_descriptors k' d) = s" "semaphores k' = semaphores k"
        "last_sem_fd (pcbs k' (running k)) = f + 1"
      then show ?thesis using ok s
        by (intro exI [of _ s] exI [of _ d] exI [of _ k'] exI [of _ ?L'] conjI) simp_all
    qed (use assms(5,8,9) in simp_all)
  qed (use u assms(6) in auto)
qed

text \<open>
  C19: \<open>semOpen\<close> on a number that the caller has open gives the number of the descriptor it has
  and changes nothing else. On another number it makes a descriptor with the next number of the
  caller, and the semaphore with the given value when no process has it open; an open semaphore
  keeps its count whatever the value. The call succeeds whenever the pools have the blocks it needs
  and the next number of the caller is in the range of an \<open>int\<close>.
\<close>

theorem semOpen_opens:
  assumes "kinv k L" and "n = int_of_long (syscall_arg k 0)" and "v = int_of_long (syscall_arg k 1)"
    and "f = last_sem_fd (pcbs k (running k))"
    and "open_here = {d \<in> set (L (PCB_sem_descriptors (running k))).
      sem_id (semaphores k (sd_semaphore (sem_descriptors k d))) = n}"
    and "room = (in_int_range (f + 1) \<and> 0 < pools_room (pools k) semaphore_pool \<and>
      0 < pools_room (pools k) sem_descriptor_pool \<and> 2 \<le> pools_room (pools k) sem_descriptor_ptr_pool)"
  shows "(\<forall>d \<in> open_here. internal_semOpen k = Inr (set_retvalue (sd_fd (sem_descriptors k d)) k)) \<and>
    (open_here = {} \<and> room \<longrightarrow>
      (\<exists>s d k' L'. internal_semOpen k = Inr (set_retvalue f k') \<and> kinv k' L' \<and>
         L' (PCB_sem_descriptors (running k)) = L (PCB_sem_descriptors (running k)) @ [d] \<and>
         sd_fd (sem_descriptors k' d) = f \<and> sd_semaphore (sem_descriptors k' d) = s \<and>
         sem_id (semaphores k' s) = n \<and> last_sem_fd (pcbs k' (running k)) = f + 1 \<and>
         (if s \<in> set (L semaphores_list)
          then L' semaphores_list = L semaphores_list \<and> semaphores k' = semaphores k
          else L' semaphores_list = L semaphores_list @ [s] \<and> sem_count (semaphores k' s) = v)))"
proof (intro conjI ballI impI)
  fix d
  assume "d \<in> open_here"
  then show "internal_semOpen k = Inr (set_retvalue (sd_fd (sem_descriptors k d)) k)"
    using semOpen_again [OF assms(1)] assms(2,5) by simp
next
  assume a: "open_here = {} \<and> room"
  then have "\<And>d. d \<in> set (L (PCB_sem_descriptors (running k))) \<Longrightarrow>
      sem_id (semaphores k (sd_semaphore (sem_descriptors k d))) \<noteq> n"
    unfolding assms(5) by blast
  then show "\<exists>s d k' L'. internal_semOpen k = Inr (set_retvalue f k') \<and> kinv k' L' \<and>
      L' (PCB_sem_descriptors (running k)) = L (PCB_sem_descriptors (running k)) @ [d] \<and>
      sd_fd (sem_descriptors k' d) = f \<and> sd_semaphore (sem_descriptors k' d) = s \<and>
      sem_id (semaphores k' s) = n \<and> last_sem_fd (pcbs k' (running k)) = f + 1 \<and>
      (if s \<in> set (L semaphores_list)
       then L' semaphores_list = L semaphores_list \<and> semaphores k' = semaphores k
       else L' semaphores_list = L semaphores_list @ [s] \<and> sem_count (semaphores k' s) = v)"
    using a unfolding assms(6) by (intro semOpen_makes [OF assms(1-4)]) blast+
qed

theorem semOpen_opens_witness:
  "internal_semOpen (demo_call False DSOS_CALL_SEMOPEN 2) =
     Inr (set_retvalue 1 (demo_call False DSOS_CALL_SEMOPEN 2)) \<and>
   (\<exists>k'. internal_semOpen (demo_call False DSOS_CALL_SEMOPEN 9) = Inr (set_retvalue 2 k'))"
proof -
  let ?k = "demo_call False DSOS_CALL_SEMOPEN 9" and ?k2 = "demo_call False DSOS_CALL_SEMOPEN 2"
  have f: "2 = last_sem_fd (pcbs ?k (running ?k))" "in_int_range (2 + 1)" "9 = int_of_long (syscall_arg ?k 0)"
    by (simp_all add: demo_call_def demo_kernel_def demo_pcbs_def in_int_range_def int_of_long_id upd_pcb_def
        syscall_arg_def)
  have two: "2 = int_of_long (syscall_arg ?k2 0)"
    by (simp add: int_of_long_id in_int_range_def)
  have ids: "{d \<in> set (demo_lists False (PCB_sem_descriptors (running ?k))).
      sem_id (semaphores ?k (sd_semaphore (sem_descriptors ?k d))) = 9} = {}" by auto
  have "\<exists>k'. internal_semOpen ?k = Inr (set_retvalue 2 k')"
    using semOpen_opens [OF demo_call_kinv f(3) refl f(1) refl refl] ids f(2) by auto
  moreover have "internal_semOpen ?k2 = Inr (set_retvalue 1 ?k2)"
    using semOpen_opens [OF demo_call_kinv two refl refl refl refl, THEN conjunct1, THEN bspec, of 801] by simp
  ultimately show ?thesis by blast
qed

text \<open>
  C21: \<open>semClose\<close> takes the descriptor from the caller and from the semaphore and leaves every
  count as it is; when it was the last descriptor of the semaphore, the semaphore leaves the
  system.
\<close>

theorem semClose_closes:
  assumes "kinv k L" and "d \<in> set (L (PCB_sem_descriptors (running k)))"
    and "int_of_long (syscall_arg k 0) = sd_fd (sem_descriptors k d)"
    and "s = sd_semaphore (sem_descriptors k d)" and "x = sd_ptr (sem_descriptors k d)"
  shows "\<exists>k'. internal_semClose k = Inr (set_retvalue 0 k') \<and> semaphores k' = semaphores k \<and>
    running k' = running k \<and>
    kinv k' (L(PCB_sem_descriptors (running k) := remove1 d (L (PCB_sem_descriptors (running k))),
      Semaphore_descriptors s := remove1 x (L (Semaphore_descriptors s)),
      semaphores_list := (if L (Semaphore_descriptors s) = [x]
                          then remove1 s (L semaphores_list) else L semaphores_list)))"
proof -
  have "x \<in> set (L (Semaphore_descriptors s))"
    using sem_descriptorD(3) [OF kinvD(5) [OF assms(1)] assms(2,4)] assms(5) by simp
  then have "remove1 x (L (Semaphore_descriptors s)) = [] \<longleftrightarrow> L (Semaphore_descriptors s) = [x]"
    by (cases "L (Semaphore_descriptors s)") auto
  with semClose_exec [OF assms] show ?thesis by (smt (verit))
qed

theorem semClose_closes_witness:
  "\<exists>k' L'. internal_semClose (demo_call False DSOS_CALL_SEMCLOSE 1) = Inr (set_retvalue 0 k') \<and>
     kinv k' L' \<and> L' semaphores_list = [700]"
proof -
  let ?k = "demo_call False DSOS_CALL_SEMCLOSE 1"
  have d: "801 \<in> set (demo_lists False (PCB_sem_descriptors (running ?k)))"
    "int_of_long (syscall_arg ?k 0) = sd_fd (sem_descriptors ?k 801)"
    "701 = sd_semaphore (sem_descriptors ?k 801)" "902 = sd_ptr (sem_descriptors ?k 801)"
    by (simp_all add: int_of_long_id in_int_range_def demo_kernel_def)
  from semClose_closes [OF demo_call_kinv d] obtain k' where
    "internal_semClose ?k = Inr (set_retvalue 0 k')"
    "kinv k' ((demo_lists False)(PCB_sem_descriptors (running ?k) :=
        remove1 801 (demo_lists False (PCB_sem_descriptors (running ?k))),
      Semaphore_descriptors 701 := remove1 902 (demo_lists False (Semaphore_descriptors 701)),
      semaphores_list := (if demo_lists False (Semaphore_descriptors 701) = [902]
        then remove1 701 (demo_lists False semaphores_list) else demo_lists False semaphores_list)))"
    by blast
  then show ?thesis by (intro exI conjI) (assumption, assumption, simp)
qed

text \<open>
  C20: closing a new semaphore right after opening it undoes the opening: the second call finds the
  descriptor the first one has returned, and every list of the kernel is as it was.
\<close>

theorem semOpen_semClose:
  assumes "kinv k L" and "f = last_sem_fd (pcbs k (running k))" and "in_int_range (f + 1)"
    and "\<And>s. s \<in> set (L semaphores_list) \<Longrightarrow> sem_id (semaphores k s) \<noteq> int_of_long (args 0)"
    and "0 < pools_room (pools k) semaphore_pool" and "0 < pools_room (pools k) sem_descriptor_pool"
    and "2 \<le> pools_room (pools k) sem_descriptor_ptr_pool"
  shows "\<exists>k1 k2. internal_semOpen (called DSOS_CALL_SEMOPEN args k) = Inr (set_retvalue f k1) \<and>
    internal_semClose (called DSOS_CALL_SEMCLOSE (\<lambda>_. f) (set_retvalue f k1)) = Inr (set_retvalue 0 k2) \<and>
    kinv k2 L"
proof -
  let ?k = "called DSOS_CALL_SEMOPEN args k" and ?me = "running k"
  have f: "f = last_sem_fd (pcbs ?k (running ?k))" by (simp add: assms(2))
  show ?thesis
  proof (rule semOpen_new_exec [OF kinv_called [OF assms(1)] refl refl f assms(3)])
    fix s d x k'
    let ?L' = "L(semaphores_list := L semaphores_list @ [s],
      PCB_sem_descriptors (running ?k) := L (PCB_sem_descriptors (running ?k)) @ [d],
      Semaphore_descriptors s := [x])"
    assume a: "internal_semOpen ?k = Inr (set_retvalue f k')" "kinv k' ?L'"
      "s \<notin> set (L semaphores_list)" "L (Semaphore_descriptors s) = []"
      "sd_fd (sem_descriptors k' d) = f" "sd_semaphore (sem_descriptors k' d) = s"
      "running k' = running ?k"
    let ?k2 = "called DSOS_CALL_SEMCLOSE (\<lambda>_. f) (set_retvalue f k')"
    have inv2: "kinv ?k2 ?L'" using a(2) by (simp add: kinv_called)
    have d: "d \<in> set (?L' (PCB_sem_descriptors (running ?k2)))" using a(7) by simp
    have "0 \<le> f"
      using sem_okD(3) [OF kinvD(5) [OF assms(1)]] by (simp add: sem_fds_ok_def assms(2))
    then have "in_int_range f" using assms(3) by (simp add: in_int_range_def)
    then have fd: "int_of_long (syscall_arg ?k2 0) = sd_fd (sem_descriptors ?k2 d)"
      using a(5) by (simp add: int_of_long_id)
    have sd: "s = sd_semaphore (sem_descriptors ?k2 d)" using a(6) by simp
    have x: "x = sd_ptr (sem_descriptors ?k2 d)"
      using sem_descriptorD(3) [OF kinvD(5) [OF inv2] d sd] by simp
    have "d \<notin> set (L (PCB_sem_descriptors ?me))"
      using list_repD(3) [OF kinvD(7) [OF a(2)], of "PCB_sem_descriptors ?me"] by simp
    then have same: "?L'(PCB_sem_descriptors (running ?k2) := remove1 d (?L' (PCB_sem_descriptors (running ?k2))),
        Semaphore_descriptors s := remove1 x (?L' (Semaphore_descriptors s)),
        semaphores_list := (if remove1 x (?L' (Semaphore_descriptors s)) = []
          then remove1 s (?L' semaphores_list) else ?L' semaphores_list)) = L"
      using a(3,4,7) by (simp add: fun_eq_iff remove1_append)
    obtain k2 where "internal_semClose ?k2 = Inr (set_retvalue 0 k2)" "kinv k2 L"
      by (rule semClose_exec [OF inv2 d fd sd x, unfolded same])
    with a(1) show ?thesis by (intro exI [of _ k'] exI [of _ k2]) simp
  qed (use assms(4-7) in simp_all)
qed

theorem semOpen_semClose_witness:
  "\<exists>k1 k2. internal_semOpen (called DSOS_CALL_SEMOPEN (\<lambda>_. 9) (demo_kernel False)) =
      Inr (set_retvalue 2 k1) \<and>
    internal_semClose (called DSOS_CALL_SEMCLOSE (\<lambda>_. 2) (set_retvalue 2 k1)) = Inr (set_retvalue 0 k2) \<and>
    kinv k2 (demo_lists False)"
proof -
  have "2 = last_sem_fd (pcbs (demo_kernel False) (running (demo_kernel False)))" "in_int_range (2 + 1)"
    by (simp_all add: demo_kernel_def demo_pcbs_def in_int_range_def)
  moreover have "sem_id (semaphores (demo_kernel False) s) \<noteq> int_of_long ((\<lambda>_. 9) (0::nat))"
    if "s \<in> set (demo_lists False semaphores_list)" for s
    using that by (auto simp: int_of_long_id in_int_range_def)
  moreover have "pools (demo_kernel False) = demo_pools" by (simp add: demo_kernel_def)
  ultimately show ?thesis
    using semOpen_semClose [OF demo_kinv, of 2 False "\<lambda>_. 9"] by simp
qed

text \<open>
  C33: the result of a wait that has blocked is written to the wrong process: the caller keeps the
  \<open>syscall_retvalue\<close> it had, and the process that is scheduled in its place gets the 0.
\<close>

theorem semWait_result_misplaced:
  assumes "kinv k L" and "d \<in> set (L (PCB_sem_descriptors (running k)))"
    and "int_of_long (syscall_arg k 0) = sd_fd (sem_descriptors k d)"
    and "s = sd_semaphore (sem_descriptors k d)" and "sem_count (semaphores k s) \<le> 0"
    and "L ready_list = r # rs" and "in_int_range (sem_count (semaphores k s) - 1)"
  shows "\<exists>k'. internal_semWait k = Inr k' \<and> running k' = r \<and> r \<noteq> running k \<and>
    syscall_retvalue (pcbs k' (running k)) = syscall_retvalue (pcbs k (running k)) \<and>
    syscall_retvalue (pcbs k' r) = 0 \<and> status (pcbs k' r) = Ready"
proof (rule semWait_block [OF assms(1-4) refl assms(5,6)])
  fix lk hds L' k'
  assume a: "k' = set_retvalue 0 (upd_sem s (\<lambda>x. x\<lparr>sem_count := sem_count (semaphores k s) - 1\<rparr>)
      ((upd_pcb (running k) (\<lambda>p. p\<lparr>status := Waiting\<rparr>) k)\<lparr>links := lk, heads := hds, running := r\<rparr>))"
    "internal_semWait k =
       (if in_int_range (sem_count (semaphores k s) - 1) then Inr k' else Inl Signed_overflow)"
  note S = sched_okD [OF kinvD(2) [OF assms(1)]]
  have "r \<noteq> running k" using S(4) [of ready_list] assms(6) by auto
  moreover have "status (pcbs k r) = Ready" using S(11) assms(6) by (simp add: place_ok_def)
  ultimately show ?thesis using a assms(7) by (intro exI [of _ k']) simp
qed

theorem semWait_result_misplaced_witness:
  "\<exists>k'. internal_semWait (demo_call False DSOS_CALL_SEMWAIT 0) = Inr k' \<and> running k' = 101 \<and>
     syscall_retvalue (pcbs k' 101) = 0 \<and> status (pcbs k' 101) = Ready"
  using semWait_result_misplaced [OF demo_call_kinv, of 800 False DSOS_CALL_SEMWAIT 0 700 101 "[]"]
  by (auto simp: int_of_long_id in_int_range_def)

end
