(* ===== verification/Resource_Theorems.thy ===== *)
theory Resource_Theorems
  imports Resource_Open Process_Theorems
begin

text \<open>
  The properties of the resource calls, each with an instance on the example kernel.
\<close>

unbundle bit_operations_syntax

lemma demo_kernel_res [simp]:
  "d_fd (descriptors (demo_kernel idle) d) = 0" "d_resource (descriptors (demo_kernel idle) d) = 400"
  "d_ptr (descriptors (demo_kernel idle) d) = 600" "running (demo_kernel idle) = 100"
  "pools (demo_kernel idle) = demo_pools"
  "last_fd (pcbs (demo_kernel idle) p) = (if p = 100 then 1 else 0)"
  by (simp_all add: demo_kernel_def demo_pcbs_def)

lemma small_id: "0 \<le> x \<Longrightarrow> x < 1000 \<Longrightarrow> int_of_long x = x"
  by (simp add: int_of_long_id in_int_range_def)

text \<open>The arguments of an opening call.\<close>

definition open_args :: "int \<Rightarrow> int \<Rightarrow> int \<Rightarrow> nat \<Rightarrow> int" where
  "open_args i ty m = (\<lambda>_. 0)(0 := i, 1 := ty, 2 := m)"

text \<open>
  Opening a resource that exists, of the same type and without \<open>DSOS_CREATE\<close>, gives the
  caller a descriptor with its next number, unless \<open>DSOS_EXCL\<close> is set and somebody has the
  resource open.
\<close>

theorem openResource_opens:
  assumes "kinv k L" and "r \<in> set (L resources_list)"
    and "int_of_long (syscall_arg k 0) = res_id (resources k r)"
    and "int_of_long (syscall_arg k 1) = res_type (resources k r)"
    and "m = int_of_long (syscall_arg k 2)" and "m AND DSOS_CREATE = 0"
    and "m AND DSOS_EXCL = 0 \<or> L (Resource_descriptors r) = []"
    and "f = last_fd (pcbs k (running k))" and "in_int_range (f + 1)"
    and "0 < pools_room (pools k) descriptor_pool"
  shows "\<exists>d x k'. internal_openResource k = Inr (set_retvalue f k') \<and>
    kinv k' (L(PCB_descriptors (running k) := L (PCB_descriptors (running k)) @ [d],
       Resource_descriptors r := L (Resource_descriptors r) @ [x])) \<and>
    d_fd (descriptors k' d) = f \<and> d_resource (descriptors k' d) = r \<and>
    last_fd (pcbs k' (running k)) = f + 1 \<and> resources k' = resources k"
proof (rule openResource_cases [OF assms(1) assms(3) [symmetric] assms(4) [symmetric] assms(5)])
  fix u
  assume u: "u \<in> set (L resources_list)" "res_id (resources k u) = res_id (resources k r)"
    "internal_openResource k = openResource_descriptor k u (res_type (resources k r)) m"
  have ur: "u = r" using inj_onD [OF res_okD(5) [OF kinvD(6) [OF assms(1)]]] u(1,2) assms(2) by simp
  have rz: "r \<noteq> NULL" by (rule kinv_nonnull [OF assms(1,2)])
  have rl: "r = NULL \<or> r \<in> set (L resources_list)" using assms(2) by simp
  show ?thesis
    by (rule openResource_descriptor_exec [OF assms(1) rl assms(8), of "res_type (resources k r)" m])
      (use u(3) ur assms(7,9,10) rz in auto)
qed (use assms(2,6) in auto)

theorem openResource_opens_witness:
  "\<exists>k'. internal_openResource (called DSOS_CALL_OPEN_RESOURCE (open_args 7 0 2) (demo_kernel False)) =
     Inr (set_retvalue 1 k') \<and> last_fd (pcbs k' 100) = 2"
proof -
  let ?k = "called DSOS_CALL_OPEN_RESOURCE (open_args 7 0 2) (demo_kernel False)"
  have h: "400 \<in> set (demo_lists False resources_list)"
    "int_of_long (syscall_arg ?k 0) = res_id (resources ?k 400)"
    "int_of_long (syscall_arg ?k 1) = res_type (resources ?k 400)"
    "2 = int_of_long (syscall_arg ?k 2)" "2 AND DSOS_CREATE = 0" "2 AND DSOS_EXCL = 0"
    "1 = last_fd (pcbs ?k (running ?k))" "in_int_range (1 + 1)"
    "0 < pools_room (pools ?k) descriptor_pool"
    by (simp_all add: open_args_def small_id DSOS_CREATE_def DSOS_EXCL_def in_int_range_def)
  from openResource_opens [OF kinv_called [OF demo_kinv] h(1-5) _ h(7-9)] h(6)
  show ?thesis by auto
qed

text \<open>
  Opening with \<open>DSOS_CREATE\<close> makes a resource of the given number and type and a descriptor
  of the caller for it.
\<close>

theorem openResource_creates:
  assumes "kinv k L" and "i = int_of_long (syscall_arg k 0)" and "ty = int_of_long (syscall_arg k 1)"
    and "m = int_of_long (syscall_arg k 2)" and "m AND DSOS_CREATE \<noteq> 0"
    and "\<And>u. u \<in> set (L resources_list) \<Longrightarrow> res_id (resources k u) \<noteq> i"
    and "f = last_fd (pcbs k (running k))" and "in_int_range (f + 1)"
    and "0 < pools_room (pools k) resource_pool" and "0 < pools_room (pools k) descriptor_pool"
  shows "\<exists>r d x k'. internal_openResource k = Inr (set_retvalue f k') \<and> r \<notin> set (L resources_list) \<and>
    kinv k' (L(resources_list := L resources_list @ [r],
       PCB_descriptors (running k) := L (PCB_descriptors (running k)) @ [d],
       Resource_descriptors r := [x])) \<and>
    resources k' = (resources k)(r := \<lparr>res_id = i, res_type = ty\<rparr>) \<and>
    d_fd (descriptors k' d) = f \<and> d_resource (descriptors k' d) = r"
proof (rule openResource_cases [OF assms(1-4)])
  fix r k1
  assume 1: "kinv k1 (L(resources_list := L resources_list @ [r]))"
    "resources k1 = (resources k)(r := \<lparr>res_id = i, res_type = ty\<rparr>)"
    "running k1 = running k" "pcbs k1 = pcbs k"
    "internal_openResource k = openResource_descriptor k1 r ty m" "r \<notin> set (L resources_list)"
    "\<And>j. j \<noteq> resource_pool \<Longrightarrow> pools_room (pools k1) j = pools_room (pools k) j"
  let ?L1 = "L(resources_list := L resources_list @ [r])"
  have rl: "r = NULL \<or> r \<in> set (?L1 resources_list)" by simp
  have rz: "r \<noteq> NULL" by (rule kinv_nonnull [OF 1(1), of _ resources_list]) simp
  have f1: "f = last_fd (pcbs k1 (running k1))" by (simp add: 1 assms(7))
  have none: "L (Resource_descriptors r) = []"
    using res_okD(7) [OF kinvD(6) [OF assms(1)], of _ r] 1(6) by (cases "L (Resource_descriptors r)") auto
  show ?thesis
  proof (rule openResource_descriptor_exec [OF 1(1) rl f1, of ty m])
    fix d x k'
    assume a: "openResource_descriptor k1 r ty m = Inr (set_retvalue f k')"
      "kinv k' (?L1(PCB_descriptors (running k1) := ?L1 (PCB_descriptors (running k1)) @ [d],
         Resource_descriptors r := ?L1 (Resource_descriptors r) @ [x]))"
      "d_fd (descriptors k' d) = f" "d_resource (descriptors k' d) = r" "resources k' = resources k1"
    then show ?thesis
      by (intro exI [of _ r] exI [of _ d] exI [of _ x] exI [of _ k']) (use 1 none in simp)
  qed (use assms(8,10) rz none 1(2,7) in simp_all)
qed (use assms(5,6,9) in auto)

theorem openResource_creates_witness:
  "\<exists>r k'. internal_openResource (called DSOS_CALL_OPEN_RESOURCE (open_args 9 5 1) (demo_kernel False)) =
     Inr (set_retvalue 1 k') \<and> resources k' r = \<lparr>res_id = 9, res_type = 5\<rparr>"
proof -
  let ?k = "called DSOS_CALL_OPEN_RESOURCE (open_args 9 5 1) (demo_kernel False)"
  have h: "9 = int_of_long (syscall_arg ?k 0)" "5 = int_of_long (syscall_arg ?k 1)"
    "1 = int_of_long (syscall_arg ?k 2)" "1 AND DSOS_CREATE \<noteq> 0"
    "1 = last_fd (pcbs ?k (running ?k))" "in_int_range (1 + 1)"
    "0 < pools_room (pools ?k) resource_pool" "0 < pools_room (pools ?k) descriptor_pool"
    by (simp_all add: open_args_def small_id DSOS_CREATE_def in_int_range_def)
  have "res_id (resources ?k u) \<noteq> 9" if "u \<in> set (demo_lists False resources_list)" for u
    using that by auto
  from openResource_creates [OF kinv_called [OF demo_kinv] h(1-4) this h(5-8)] obtain r k' where
    "internal_openResource ?k = Inr (set_retvalue 1 k')"
    "resources k' = (resources ?k)(r := \<lparr>res_id = 9, res_type = 5\<rparr>)" by blast
  then show ?thesis by (intro exI [of _ r] exI [of _ k']) simp
qed

text \<open>
  C23: what \<open>openResource\<close> refuses, each with its own error and without any other change: to create a
  number that exists, to open an unknown number or one of another type, and to open exclusively
  what is open already.
\<close>

theorem openResource_refuses:
  assumes "kinv k L" and "i = int_of_long (syscall_arg k 0)" and "ty = int_of_long (syscall_arg k 1)"
    and "m = int_of_long (syscall_arg k 2)"
    and "known = (\<exists>r \<in> set (L resources_list). res_id (resources k r) = i)"
    and "typed = (\<exists>r \<in> set (L resources_list). res_id (resources k r) = i \<and> res_type (resources k r) = ty)"
    and "in_use = (\<exists>r \<in> set (L resources_list). res_id (resources k r) = i \<and> L (Resource_descriptors r) \<noteq> [])"
  shows "(m AND DSOS_CREATE \<noteq> 0 \<and> known \<longrightarrow>
      internal_openResource k = Inr (set_retvalue DSOS_ERESOURCECREATE k)) \<and>
    (m AND DSOS_CREATE = 0 \<and> \<not> typed \<longrightarrow>
      internal_openResource k = Inr (set_retvalue DSOS_ERESOURCEOPEN k)) \<and>
    (m AND DSOS_CREATE = 0 \<and> typed \<and> m AND DSOS_EXCL \<noteq> 0 \<and> in_use \<longrightarrow>
      internal_openResource k = Inr (set_retvalue DSOS_ERESOURCENOEXCL k))"
proof (rule openResource_cases [OF assms(1-4)])
  fix r
  assume r: "m AND DSOS_CREATE = 0" "r \<in> set (L resources_list)" "res_id (resources k r) = i"
    "internal_openResource k = openResource_descriptor k r ty m"
  have only: "u = r" if "u \<in> set (L resources_list)" "res_id (resources k u) = i" for u
    using inj_onD [OF res_okD(5) [OF kinvD(6) [OF assms(1)]]] that r(2,3) by simp
  have use: "typed = (res_type (resources k r) = ty)" "in_use = (L (Resource_descriptors r) \<noteq> [])"
    unfolding assms(6,7) using only r(2,3) by blast+
  have rz: "r \<noteq> NULL" by (rule kinv_nonnull [OF assms(1) r(2)])
  have size: "lh_size (heads k (Resource_descriptors r)) = int (length (L (Resource_descriptors r)))"
    using dllD(5) [OF list_repD(1) [OF kinvD(7) [OF assms(1)]]] .
  show ?thesis
    unfolding r(4) use by (auto simp: openResource_descriptor_def rz size r(1))
qed (use assms(5,6) in auto)

theorem openResource_refuses_witness:
  "internal_openResource (called DSOS_CALL_OPEN_RESOURCE (open_args 7 0 4) (demo_kernel False)) =
     Inr (set_retvalue DSOS_ERESOURCENOEXCL
       (called DSOS_CALL_OPEN_RESOURCE (open_args 7 0 4) (demo_kernel False)))"
  using openResource_refuses [OF kinv_called [OF demo_kinv] refl refl refl refl refl refl,
      of DSOS_CALL_OPEN_RESOURCE "open_args 7 0 4" False]
  by (auto simp: open_args_def small_id DSOS_CREATE_def DSOS_EXCL_def)

text \<open>
  A resource cannot be opened with \<open>DSOS_WRITE\<close>: the bit of \<open>DSOS_CREATE\<close> is part of it, so the
  call asks for the creation of a resource that exists and is refused.
\<close>

theorem write_mode_creates:
  assumes "kinv k L" and "r \<in> set (L resources_list)"
    and "int_of_long (syscall_arg k 0) = res_id (resources k r)"
    and "int_of_long (syscall_arg k 2) = DSOS_WRITE"
  shows "internal_openResource k = Inr (set_retvalue DSOS_ERESOURCECREATE k)"
proof -
  have w: "int_of_long (syscall_arg k 2) AND DSOS_CREATE \<noteq> 0"
    by (simp add: assms(4) DSOS_WRITE_def DSOS_CREATE_def)
  have known: "\<not> (\<forall>u \<in> set (L resources_list). res_id (resources k u) \<noteq> int_of_long (syscall_arg k 0))"
    using assms(2,3) by auto
  show ?thesis
    by (rule openResource_cases [OF assms(1) refl refl refl]) (use w known in blast)+
qed

theorem write_mode_creates_witness:
  "internal_openResource (called DSOS_CALL_OPEN_RESOURCE (open_args 7 0 DSOS_WRITE) (demo_kernel False)) =
     Inr (set_retvalue DSOS_ERESOURCECREATE
       (called DSOS_CALL_OPEN_RESOURCE (open_args 7 0 DSOS_WRITE) (demo_kernel False)))"
proof -
  let ?k = "called DSOS_CALL_OPEN_RESOURCE (open_args 7 0 DSOS_WRITE) (demo_kernel False)"
  have "400 \<in> set (demo_lists False resources_list)"
    "int_of_long (syscall_arg ?k 0) = res_id (resources ?k 400)"
    "int_of_long (syscall_arg ?k 2) = DSOS_WRITE"
    by (simp_all add: open_args_def small_id DSOS_WRITE_def)
  from write_mode_creates [OF kinv_called [OF demo_kinv] this] show ?thesis .
qed

text \<open>A descriptor that is made and closed again.\<close>

lemma descriptor_open_close:
  assumes inv: "kinv k L" and r: "r \<in> set (L resources_list)"
    and m: "m AND DSOS_EXCL = 0 \<or> L (Resource_descriptors r) = []"
    and f: "f = last_fd (pcbs k (running k))" "in_int_range (f + 1)"
    and room: "0 < pools_room (pools k) descriptor_pool"
  obtains k1 k2 where "openResource_descriptor k r (res_type (resources k r)) m = Inr (set_retvalue f k1)"
    "internal_closeResource (called DSOS_CALL_CLOSE_RESOURCE (\<lambda>_. f) (set_retvalue f k1)) =
       Inr (set_retvalue 0 k2)" "kinv k2 L" "resources k2 = resources k"
proof -
  let ?me = "running k"
  have rz: "r \<noteq> NULL" by (rule kinv_nonnull [OF inv r])
  have rl: "r = NULL \<or> r \<in> set (L resources_list)" using r by simp
  show thesis
  proof (rule openResource_descriptor_exec [OF inv rl f(1), of "res_type (resources k r)" m])
    fix d x k'
    let ?L' = "L(PCB_descriptors ?me := L (PCB_descriptors ?me) @ [d],
         Resource_descriptors r := L (Resource_descriptors r) @ [x])"
    assume a: "openResource_descriptor k r (res_type (resources k r)) m = Inr (set_retvalue f k')"
      "kinv k' ?L'" "d_fd (descriptors k' d) = f" "d_resource (descriptors k' d) = r"
      "running k' = ?me" "d_ptr (descriptors k' d) = x" "resources k' = resources k"
    let ?k2 = "called DSOS_CALL_CLOSE_RESOURCE (\<lambda>_. f) (set_retvalue f k')"
    have inv2: "kinv ?k2 ?L'" using a(2) by (simp add: kinv_called)
    have d: "d \<in> set (?L' (PCB_descriptors (running ?k2)))" using a(5) by simp
    have "in_int_range f"
      using f res_okD(4) [OF kinvD(6) [OF inv], of ?me] by (simp add: in_int_range_def)
    then have fd: "int_of_long (syscall_arg ?k2 0) = d_fd (descriptors ?k2 d)"
      using a(3) by (simp add: int_of_long_id)
    have dr: "r = d_resource (descriptors ?k2 d)" using a(4) by simp
    note distinct = list_repD(3) [OF kinvD(7) [OF a(2)]]
    have dn: "d \<notin> set (L (PCB_descriptors ?me))" "x \<notin> set (L (Resource_descriptors r))"
      using distinct [of "PCB_descriptors ?me"] distinct [of "Resource_descriptors r"] by simp_all
    have x: "x = d_ptr (descriptors ?k2 d)" using a(6) by simp
    have same: "?L'(PCB_descriptors (running ?k2) := remove1 d (?L' (PCB_descriptors (running ?k2))),
        Resource_descriptors r := remove1 x (?L' (Resource_descriptors r))) = L"
      using dn a(5) by (simp add: fun_eq_iff remove1_append)
    obtain k2 where k2: "internal_closeResource ?k2 = Inr (set_retvalue 0 k2)" "kinv k2 L"
      "resources k2 = resources ?k2"
      by (rule closeResource_exec [OF inv2 d fd dr x, unfolded same])
    have "resources k2 = resources k" by (simp add: k2(3) a(7))
    with a(1) k2(1,2) show thesis by (rule that)
  qed (use m f(2) room rz in auto)
qed

text \<open>
  C22: closing right after opening: the second call finds the descriptor whose number the first one
  has returned. When a resource that exists is opened, every list of the kernel is as it was
  before the two calls; when the first call has created the resource, this stays in the system,
  without descriptors, and nothing else has changed.
\<close>

theorem openResource_closeResource:
  assumes "kinv k L" and "mode = int_of_long m"
    and "f = last_fd (pcbs k (running k))" and "in_int_range (f + 1)"
    and "0 < pools_room (pools k) descriptor_pool"
    and "opened = internal_openResource (called DSOS_CALL_OPEN_RESOURCE (open_args i ty m) k)"
    and "\<And>k1. closed k1 = internal_closeResource (called DSOS_CALL_CLOSE_RESOURCE (\<lambda>_. f) (set_retvalue f k1))"
  shows "(\<forall>r \<in> set (L resources_list).
      res_id (resources k r) = int_of_long i \<and> res_type (resources k r) = int_of_long ty \<and>
      mode AND DSOS_CREATE = 0 \<and> (mode AND DSOS_EXCL = 0 \<or> L (Resource_descriptors r) = []) \<longrightarrow>
      (\<exists>k1 k2. opened = Inr (set_retvalue f k1) \<and> closed k1 = Inr (set_retvalue 0 k2) \<and> kinv k2 L)) \<and>
    (mode AND DSOS_CREATE \<noteq> 0 \<and> (\<forall>u \<in> set (L resources_list). res_id (resources k u) \<noteq> int_of_long i) \<and>
      0 < pools_room (pools k) resource_pool \<longrightarrow>
      (\<exists>r k1 k2. opened = Inr (set_retvalue f k1) \<and> closed k1 = Inr (set_retvalue 0 k2) \<and>
         resources k2 = (resources k)(r := \<lparr>res_id = int_of_long i, res_type = int_of_long ty\<rparr>) \<and>
         kinv k2 (L(resources_list := L resources_list @ [r])) \<and> L (Resource_descriptors r) = []))"
proof -
  let ?k = "called DSOS_CALL_OPEN_RESOURCE (open_args i ty m) k"
  have inv: "kinv ?k L" by (rule kinv_called [OF assms(1)])
  have args: "int_of_long i = int_of_long (syscall_arg ?k 0)" "int_of_long ty = int_of_long (syscall_arg ?k 1)"
    "mode = int_of_long (syscall_arg ?k 2)"
    by (simp_all add: open_args_def assms(2))
  have f: "f = last_fd (pcbs ?k (running ?k))" by (simp add: assms(3))
  show ?thesis
  proof (intro conjI ballI impI)
    fix r
    assume r: "r \<in> set (L resources_list)"
      and c: "res_id (resources k r) = int_of_long i \<and> res_type (resources k r) = int_of_long ty \<and>
        mode AND DSOS_CREATE = 0 \<and> (mode AND DSOS_EXCL = 0 \<or> L (Resource_descriptors r) = [])"
    show "\<exists>k1 k2. opened = Inr (set_retvalue f k1) \<and> closed k1 = Inr (set_retvalue 0 k2) \<and> kinv k2 L"
    proof (rule openResource_cases [OF inv args])
      fix u
      assume u: "u \<in> set (L resources_list)" "res_id (resources ?k u) = int_of_long i"
        "internal_openResource ?k = openResource_descriptor ?k u (int_of_long ty) mode"
      have "u = r"
        using inj_onD [OF res_okD(5) [OF kinvD(6) [OF assms(1)]]] u(1,2) r c by simp
      then have op: "opened = openResource_descriptor ?k r (res_type (resources ?k r)) mode"
        using u(3) c by (simp add: assms(6))
      have m: "mode AND DSOS_EXCL = 0 \<or> L (Resource_descriptors r) = []" using c by blast
      show ?thesis
        by (rule descriptor_open_close [OF inv r m f assms(4)]) (use op assms(5,7) in auto)
    qed (use r c in auto)
  next
    assume c: "mode AND DSOS_CREATE \<noteq> 0 \<and>
      (\<forall>u \<in> set (L resources_list). res_id (resources k u) \<noteq> int_of_long i) \<and>
      0 < pools_room (pools k) resource_pool"
    show "\<exists>r k1 k2. opened = Inr (set_retvalue f k1) \<and> closed k1 = Inr (set_retvalue 0 k2) \<and>
       resources k2 = (resources k)(r := \<lparr>res_id = int_of_long i, res_type = int_of_long ty\<rparr>) \<and>
       kinv k2 (L(resources_list := L resources_list @ [r])) \<and> L (Resource_descriptors r) = []"
    proof (rule openResource_cases [OF inv args])
      fix r k1
      let ?L1 = "L(resources_list := L resources_list @ [r])"
      assume 1: "kinv k1 ?L1"
        "resources k1 = (resources ?k)(r := \<lparr>res_id = int_of_long i, res_type = int_of_long ty\<rparr>)"
        "running k1 = running ?k" "pcbs k1 = pcbs ?k"
        "internal_openResource ?k = openResource_descriptor k1 r (int_of_long ty) mode"
        "r \<notin> set (L resources_list)"
        "\<And>j. j \<noteq> resource_pool \<Longrightarrow> pools_room (pools k1) j = pools_room (pools ?k) j"
      have none: "L (Resource_descriptors r) = []"
        using res_okD(7) [OF kinvD(6) [OF assms(1)], of _ r] 1(6) by (cases "L (Resource_descriptors r)") auto
      have r: "r \<in> set (?L1 resources_list)" by simp
      have m: "mode AND DSOS_EXCL = 0 \<or> ?L1 (Resource_descriptors r) = []" using none by simp
      have f1: "f = last_fd (pcbs k1 (running k1))" using f by (simp add: 1(3,4))
      have room: "0 < pools_room (pools k1) descriptor_pool" using 1(7) assms(5) by simp
      have op: "opened = openResource_descriptor k1 r (res_type (resources k1 r)) mode"
        using 1(2,5) by (simp add: assms(6))
      obtain k2 k3 where "opened = Inr (set_retvalue f k2)" "closed k2 = Inr (set_retvalue 0 k3)"
        "kinv k3 ?L1" "resources k3 = resources k1"
        unfolding op assms(7) by (rule descriptor_open_close [OF 1(1) r m f1 assms(4) room])
      with 1(2) none show ?thesis
        by (intro exI [of _ r] exI [of _ k2] exI [of _ k3]) simp
    qed (use c in auto)
  qed
qed

theorem openResource_closeResource_witness:
  "(\<exists>k1 k2. internal_openResource (called DSOS_CALL_OPEN_RESOURCE (open_args 7 0 2) (demo_kernel False)) =
      Inr (set_retvalue 1 k1) \<and>
    internal_closeResource (called DSOS_CALL_CLOSE_RESOURCE (\<lambda>_. 1) (set_retvalue 1 k1)) =
      Inr (set_retvalue 0 k2) \<and> kinv k2 (demo_lists False)) \<and>
   (\<exists>r k1 k2. internal_openResource (called DSOS_CALL_OPEN_RESOURCE (open_args 9 5 1) (demo_kernel False)) =
      Inr (set_retvalue 1 k1) \<and>
    internal_closeResource (called DSOS_CALL_CLOSE_RESOURCE (\<lambda>_. 1) (set_retvalue 1 k1)) =
      Inr (set_retvalue 0 k2) \<and> kinv k2 ((demo_lists False)(resources_list := [400, 401, r])))"
proof -
  let ?k = "demo_kernel False"
  have h: "1 = last_fd (pcbs ?k (running ?k))" "in_int_range (1 + 1)" "0 < pools_room (pools ?k) descriptor_pool"
    by (simp_all add: in_int_range_def)
  note both = openResource_closeResource [OF demo_kinv refl h refl refl]
  have "400 \<in> set (demo_lists False resources_list)" by simp
  note exists = both [of 7 0 2, THEN conjunct1, THEN bspec, OF this, THEN mp]
  note creates = both [of 9 5 1, THEN conjunct2, THEN mp]
  have 1: "res_id (resources ?k 400) = int_of_long 7 \<and> res_type (resources ?k 400) = int_of_long 0 \<and>
      int_of_long 2 AND DSOS_CREATE = 0 \<and>
      (int_of_long 2 AND DSOS_EXCL = 0 \<or> demo_lists False (Resource_descriptors 400) = [])"
    by (simp add: small_id DSOS_CREATE_def DSOS_EXCL_def)
  have 2: "int_of_long 1 AND DSOS_CREATE \<noteq> 0 \<and>
      (\<forall>u \<in> set (demo_lists False resources_list). res_id (resources ?k u) \<noteq> int_of_long 9) \<and>
      0 < pools_room (pools ?k) resource_pool"
    by (simp add: small_id DSOS_CREATE_def)
  show ?thesis
  proof (rule conjI)
    show "\<exists>k1 k2.
        internal_openResource (called DSOS_CALL_OPEN_RESOURCE (open_args 7 0 2) ?k) = Inr (set_retvalue 1 k1) \<and>
        internal_closeResource (called DSOS_CALL_CLOSE_RESOURCE (\<lambda>_. 1) (set_retvalue 1 k1)) =
          Inr (set_retvalue 0 k2) \<and> kinv k2 (demo_lists False)"
      using exists [OF 1] by simp
    show "\<exists>r k1 k2.
        internal_openResource (called DSOS_CALL_OPEN_RESOURCE (open_args 9 5 1) ?k) = Inr (set_retvalue 1 k1) \<and>
        internal_closeResource (called DSOS_CALL_CLOSE_RESOURCE (\<lambda>_. 1) (set_retvalue 1 k1)) =
          Inr (set_retvalue 0 k2) \<and> kinv k2 ((demo_lists False)(resources_list := [400, 401, r]))"
      using creates [OF 2] by auto
  qed
qed

text \<open>
  C24: a resource can be destroyed exactly when no process has it open: then it leaves the system
  and its block is free; otherwise the call changes nothing and says \<open>DSOS_ERESOURCEINUSE\<close>.
\<close>

theorem destroyResource_destroys:
  assumes "kinv k L" and "r \<in> set (L resources_list)"
    and "int_of_long (syscall_arg k 0) = res_id (resources k r)"
  shows "if L (Resource_descriptors r) \<noteq> []
    then internal_destroyResource k = Inr (set_retvalue DSOS_ERESOURCEINUSE k)
    else \<exists>k'. internal_destroyResource k = Inr (set_retvalue 0 k') \<and>
      kinv k' (L(resources_list := remove1 r (L resources_list))) \<and>
      r \<notin> pools_live (pools k') resource_pool"
  by (rule destroyResource_exec [OF assms]) auto

theorem destroyResource_destroys_witness:
  "(\<exists>k' L'. internal_destroyResource (called DSOS_CALL_DESTROY_RESOURCE (\<lambda>_. 8) (demo_kernel False)) =
     Inr (set_retvalue 0 k') \<and> kinv k' L' \<and> L' resources_list = [400])"
proof -
  let ?k = "called DSOS_CALL_DESTROY_RESOURCE (\<lambda>_. 8) (demo_kernel False)"
  have "401 \<in> set (demo_lists False resources_list)"
    "int_of_long (syscall_arg ?k 0) = res_id (resources ?k 401)" by (simp_all add: small_id)
  from destroyResource_destroys [OF kinv_called [OF demo_kinv] this] obtain k' where
    "internal_destroyResource ?k = Inr (set_retvalue 0 k')"
    "kinv k' ((demo_lists False)(resources_list := remove1 401 (demo_lists False resources_list)))"
    by auto
  then show ?thesis by (intro exI conjI) (assumption, assumption, simp)
qed

text \<open>
  Closing a number the caller does not hold, and destroying a number that does not exist,
  return \<open>DSOS_ERESOURCECLOSE\<close> and change nothing else.
\<close>

theorem resource_calls_unknown:
  assumes "kinv k L"
    and "\<forall>d \<in> set (L (PCB_descriptors (running k))). d_fd (descriptors k d) \<noteq> int_of_long (syscall_arg k 0)"
    and "\<forall>r \<in> set (L resources_list). res_id (resources k r) \<noteq> int_of_long (syscall_arg k 0)"
  shows "internal_closeResource k = Inr (set_retvalue DSOS_ERESOURCECLOSE k) \<and>
    internal_destroyResource k = Inr (set_retvalue DSOS_ERESOURCECLOSE k)"
  using closeResource_missing [OF assms(1)] destroyResource_missing [OF assms(1)] assms(2,3) by blast

theorem resource_calls_unknown_witness:
  "internal_closeResource (called DSOS_CALL_CLOSE_RESOURCE (\<lambda>_. 3) (demo_kernel False)) =
     Inr (set_retvalue DSOS_ERESOURCECLOSE (called DSOS_CALL_CLOSE_RESOURCE (\<lambda>_. 3) (demo_kernel False)))"
proof -
  let ?k = "called DSOS_CALL_CLOSE_RESOURCE (\<lambda>_. 3) (demo_kernel False)"
  have "\<forall>d \<in> set (demo_lists False (PCB_descriptors (running ?k))).
      d_fd (descriptors ?k d) \<noteq> int_of_long (syscall_arg ?k 0)"
    "\<forall>r \<in> set (demo_lists False resources_list). res_id (resources ?k r) \<noteq> int_of_long (syscall_arg ?k 0)"
    by (simp_all add: small_id)
  from resource_calls_unknown [OF kinv_called [OF demo_kinv] this] show ?thesis by simp
qed

end
