(* ===== verification/Printing.thy ===== *)
theory Printing
  imports Semaphore Resource Pcb Timer Wait_Correct Demo
begin

text \<open>
  The printing of the kernel's state: the \<^verbatim>\<open>_print\<close> functions of \<^verbatim>\<open>disastrOS_pcb.c\<close>,
  \<^verbatim>\<open>disastrOS_timer.c\<close>, \<^verbatim>\<open>disastrOS_resource.c\<close>, \<^verbatim>\<open>disastrOS_descriptor.c\<close>,
  \<^verbatim>\<open>disastrOS_semaphore.c\<close> and \<^verbatim>\<open>disastrOS_semdescriptor.c\<close>, and
  \<open>disastrOS_printStatus\<close>. What is printed is a list of calls of \<open>printf\<close>, each the format and
  the values of its arguments.
\<close>

type_synonym printout = "(string \<times> int list) list"

definition printed :: "string \<Rightarrow> printout" where
  "printed s = [(s, [])]"

definition newline :: string where "newline = [CHR 0x0A]"

definition tabulator :: string where "tabulator = [CHR 0x09]"

text \<open>
  The loop all list printers share: each item is printed, then the separator unless it was the
  last, then what ends the item.
\<close>

partial_function (option) print_loop ::
    "(addr \<Rightarrow> ListItem) \<Rightarrow> (addr \<Rightarrow> printout res) \<Rightarrow> printout \<Rightarrow> printout \<Rightarrow> addr \<Rightarrow> printout \<Rightarrow>
       printout res option" where
  "print_loop lk item sep fin aux acc =
     (if aux = NULL then Some (Inr acc)
      else case item aux of
             Inl e \<Rightarrow> Some (Inl e)
           | Inr out \<Rightarrow>
               print_loop lk item sep fin (li_next (lk aux))
                 (acc @ out @ (if li_next (lk aux) \<noteq> NULL then sep else []) @ fin))"

declare print_loop.simps [code]

definition print_list ::
    "kernel \<Rightarrow> hloc \<Rightarrow> printout \<Rightarrow> (addr \<Rightarrow> printout res) \<Rightarrow> printout \<Rightarrow> printout \<Rightarrow> printout \<Rightarrow> printout res" where
  "print_list k h start item sep fin closing =
     andthen (loop_res (print_loop (links k) item sep fin (lh_first (heads k h)) start)) (\<lambda>out.
     Inr (out @ closing))"

section \<open>Processes and timers\<close>

definition PCBPtrList_print :: "kernel \<Rightarrow> hloc \<Rightarrow> printout res" where
  "PCBPtrList_print k h =
     print_list k h (printed ''('')
       (\<lambda>x. deref (pcb_ptrs k x) (Inr [(''%d'', [pid (pcbs k (pcb_ptrs k x))])]))
       (printed '', '') [] (printed '')'')"

definition PCB_print :: "kernel \<Rightarrow> addr \<Rightarrow> printout res" where
  "PCB_print k p =
     deref p
       (andthen (PCBPtrList_print k (PCB_children p)) (\<lambda>out.
        Inr ((''[pid: %d, child: '', [pid (pcbs k p)]) # out @ printed '']'')))"

definition PCBList_print :: "kernel \<Rightarrow> hloc \<Rightarrow> printout res" where
  "PCBList_print k h =
     print_list k h (printed (''{'' @ newline))
       (\<lambda>p. andthen (PCB_print k p) (\<lambda>out. Inr (printed tabulator @ out)))
       (printed '','') (printed newline) (printed (''}'' @ newline))"

definition TimerList_print :: "kernel \<Rightarrow> hloc \<Rightarrow> printout res" where
  "TimerList_print k h =
     print_list k h (printed ''['')
       (\<lambda>t. deref (t_pcb (timer_items k t))
          (Inr [(''(pid:%d, t:%d)'',
                 [pid (pcbs k (t_pcb (timer_items k t))), awakening_time (timer_items k t)])]))
       (printed '', '') [] (printed '']'')"

section \<open>Resources\<close>

definition DescriptorList_print :: "kernel \<Rightarrow> hloc \<Rightarrow> printout res" where
  "DescriptorList_print k h =
     print_list k h (printed ''['')
       (\<lambda>d. deref (d_resource (descriptors k d))
          (Inr [(''(fd: %d, rid:%d)'',
                 [d_fd (descriptors k d), res_id (resources k (d_resource (descriptors k d)))])]))
       (printed '', '') [] (printed '']'')"

definition DescriptorPtrList_print :: "kernel \<Rightarrow> hloc \<Rightarrow> printout res" where
  "DescriptorPtrList_print k h =
     print_list k h (printed ''['')
       (\<lambda>x. let d = descriptor_ptrs k x in
          deref d (deref (d_pcb (descriptors k d)) (deref (d_resource (descriptors k d))
            (Inr [(''(pid: %d, fd: %d, rid:%d)'',
                   [pid (pcbs k (d_pcb (descriptors k d))), d_fd (descriptors k d),
                    res_id (resources k (d_resource (descriptors k d)))])]))))
       (printed '', '') [] (printed '']'')"

definition Resource_print :: "kernel \<Rightarrow> addr \<Rightarrow> printout res" where
  "Resource_print k r =
     deref r
       (andthen (DescriptorPtrList_print k (Resource_descriptors r)) (\<lambda>out.
        Inr ((''id: %d, type:%d, pids:'', [res_id (resources k r), res_type (resources k r)]) # out)))"

definition ResourceList_print :: "kernel \<Rightarrow> hloc \<Rightarrow> printout res" where
  "ResourceList_print k h =
     print_list k h (printed (''{'' @ newline))
       (\<lambda>r. andthen (Resource_print k r) (\<lambda>out. Inr (printed tabulator @ out)))
       (printed '','') (printed newline) (printed (''}'' @ newline))"

section \<open>Semaphores\<close>

definition SemDescriptorList_print :: "kernel \<Rightarrow> hloc \<Rightarrow> printout res" where
  "SemDescriptorList_print k h =
     print_list k h (printed ''['')
       (\<lambda>d. deref (sd_semaphore (sem_descriptors k d))
          (Inr [(''(fd: %d, semnum:%d)'',
                 [sd_fd (sem_descriptors k d),
                  sem_id (semaphores k (sd_semaphore (sem_descriptors k d)))])]))
       (printed '', '') [] (printed '']'')"

definition SemDescriptorPtrList_print :: "kernel \<Rightarrow> hloc \<Rightarrow> printout res" where
  "SemDescriptorPtrList_print k h =
     print_list k h (printed ''['')
       (\<lambda>x. let d = sem_descriptor_ptrs k x in
          deref d (deref (sd_pcb (sem_descriptors k d)) (deref (sd_semaphore (sem_descriptors k d))
            (Inr [(''(pid: %d, fd: %d, semnum:%d)'',
                   [pid (pcbs k (sd_pcb (sem_descriptors k d))), sd_fd (sem_descriptors k d),
                    sem_id (semaphores k (sd_semaphore (sem_descriptors k d)))])]))))
       (printed '', '') [] (printed '']'')"

definition Semaphore_print :: "kernel \<Rightarrow> addr \<Rightarrow> printout res" where
  "Semaphore_print k s =
     deref s
       (andthen (SemDescriptorPtrList_print k (Semaphore_descriptors s)) (\<lambda>out1.
        andthen (SemDescriptorPtrList_print k (Semaphore_waiting s)) (\<lambda>out2.
        Inr ((''id: %d, count:%d, pids:'', [sem_id (semaphores k s), sem_count (semaphores k s)]) #
             out1 @ printed '', waiting: '' @ out2))))"

definition Semaphore_print_count :: "kernel \<Rightarrow> hloc \<Rightarrow> int \<Rightarrow> printout res" where
  "Semaphore_print_count k h semnum =
     andthen (SemaphoreList_byId k h semnum) (\<lambda>s.
     deref s (Inr [(''Count = %d'' @ newline, [sem_count (semaphores k s)])]))"

definition SemaphoreList_print :: "kernel \<Rightarrow> hloc \<Rightarrow> printout res" where
  "SemaphoreList_print k h =
     print_list k h (printed (''{'' @ newline))
       (\<lambda>s. andthen (Semaphore_print k s) (\<lambda>out. Inr (printed tabulator @ out)))
       (printed '','') (printed newline) (printed (''}'' @ newline))"

section \<open>The status of the system\<close>

definition disastrOS_printStatus :: "kernel \<Rightarrow> printout res" where
  "disastrOS_printStatus k =
     andthen (if running k \<noteq> NULL then PCB_print k (running k) else Inr []) (\<lambda>me.
     andthen (TimerList_print k timer_list) (\<lambda>timers.
     andthen (ResourceList_print k resources_list) (\<lambda>res.
     andthen (SemaphoreList_print k semaphores_list) (\<lambda>sems.
     andthen (PCBList_print k ready_list) (\<lambda>ready.
     andthen (PCBList_print k waiting_list) (\<lambda>waiting.
     andthen (PCBList_print k zombie_list) (\<lambda>zombie.
     Inr (printed (''****************** DisastrOS ******************'' @ newline) @
       printed ''Running: '' @ me @ printed newline @
       printed ''Timers: '' @ timers @
       printed (newline @ ''Resources: '') @ res @
       printed (newline @ ''Semaphores: '') @ sems @
       printed (newline @ ''Ready: '') @ ready @
       printed (newline @ ''Waiting: '') @ waiting @
       printed (newline @ ''Zombie: '') @ zombie @
       printed (newline @ ''***********************************************'' @ newline @ newline)))))))))"

section \<open>What is printed\<close>

text \<open>The printing of a list of items.\<close>

fun printed_items :: "('a \<Rightarrow> printout) \<Rightarrow> printout \<Rightarrow> printout \<Rightarrow> 'a list \<Rightarrow> printout" where
  "printed_items g sep fin [] = []"
| "printed_items g sep fin [x] = g x @ fin"
| "printed_items g sep fin (x # y # ys) = g x @ sep @ fin @ printed_items g sep fin (y # ys)"

lemma print_loop_seg:
  assumes "seg lk p xs NULL" and "\<And>x. x \<in> set xs \<Longrightarrow> item x = Inr (g x)"
  shows "print_loop lk item sep fin (first_of xs NULL) acc = Some (Inr (acc @ printed_items g sep fin xs))"
  using assms
proof (induction xs arbitrary: p acc)
  case Nil
  then show ?case by (simp add: print_loop.simps)
next
  case (Cons x xs)
  let ?acc = "acc @ g x @ (if li_next (lk x) \<noteq> NULL then sep else []) @ fin"
  have "print_loop lk item sep fin (first_of xs NULL) ?acc =
      Some (Inr (?acc @ printed_items g sep fin xs))"
    by (rule Cons.IH [of x]) (use Cons.prems in auto)
  with Cons.prems show ?case
    by (cases xs) (auto simp: print_loop.simps [of lk item sep fin x])
qed

lemma print_list_exec:
  assumes "list_rep (links k) (heads k) L" and "\<And>x. x \<in> set (L h) \<Longrightarrow> item x = Inr (g x)"
  shows "print_list k h start item sep fin closing =
    Inr (start @ printed_items g sep fin (L h) @ closing)"
proof -
  note D = dllD [OF list_repD(1) [OF assms(1)], of h]
  show ?thesis
    using print_loop_seg [OF D(2), where item = item and g = g and sep = sep and fin = fin and acc = start] assms(2) by (simp add: print_list_def D(3))
qed

text \<open>What is printed of a process, and of a list of processes.\<close>

definition shown_process :: "kernel \<Rightarrow> (hloc \<Rightarrow> addr list) \<Rightarrow> addr \<Rightarrow> printout" where
  "shown_process k L p =
     (''[pid: %d, child: '', [pid (pcbs k p)]) #
     printed ''('' @
     printed_items (\<lambda>x. [(''%d'', [pid (pcbs k (pcb_ptrs k x))])]) (printed '', '') []
       (L (PCB_children p)) @ printed '')'' @ printed '']''"

definition shown_processes :: "kernel \<Rightarrow> (hloc \<Rightarrow> addr list) \<Rightarrow> addr list \<Rightarrow> printout" where
  "shown_processes k L ps =
     printed (''{'' @ newline) @
     printed_items (\<lambda>p. printed tabulator @ shown_process k L p) (printed '','') (printed newline) ps @
     printed (''}'' @ newline)"

lemma PCB_print_exec:
  assumes inv: "kinv k L" and p: "p \<noteq> NULL"
  shows "PCB_print k p = Inr (shown_process k L p)"
proof -
  note K = kinvD [OF inv]
  have ptr: "pcb_ptrs k x \<noteq> NULL" if "x \<in> set (L (PCB_children p))" for x
    using kinv_process(1) [OF inv tree_okD(2) [OF K(3) that]] .
  have "PCBPtrList_print k (PCB_children p) = Inr (printed ''('' @
      printed_items (\<lambda>x. [(''%d'', [pid (pcbs k (pcb_ptrs k x))])]) (printed '', '') []
        (L (PCB_children p)) @ printed '')'')"
    unfolding PCBPtrList_print_def by (rule print_list_exec [OF K(7)]) (use ptr in simp)
  with p show ?thesis by (simp add: PCB_print_def shown_process_def)
qed

lemma PCBList_print_exec:
  assumes inv: "kinv k L"
  shows "PCBList_print k h = Inr (shown_processes k L (L h))"
  unfolding PCBList_print_def shown_processes_def
  by (rule print_list_exec [OF kinvD(7) [OF inv]])
    (simp add: PCB_print_exec [OF inv kinv_nonnull [OF inv]])

text \<open>The processes a printout shows.\<close>

definition processes_in :: "printout \<Rightarrow> int list" where
  "processes_in out = concat (map snd (filter (\<lambda>c. fst c = ''[pid: %d, child: '') out))"

lemma processes_in_append [simp]: "processes_in (xs @ ys) = processes_in xs @ processes_in ys"
  by (simp add: processes_in_def)

lemma processes_in_printed [simp]:
  "s \<noteq> ''[pid: %d, child: '' \<Longrightarrow> processes_in (printed s) = []"
  by (simp add: processes_in_def printed_def)

lemma processes_in_nil [simp]: "processes_in [] = []"
  by (simp add: processes_in_def)

lemma processes_in_items:
  assumes "processes_in sep = []" and "processes_in fin = []" and "\<And>x. processes_in (g x) = f x"
  shows "processes_in (printed_items g sep fin xs) = concat (map f xs)"
  by (induction xs rule: induct_list012) (simp_all add: assms)

lemma processes_in_shown [simp]: "processes_in (shown_process k L p) = [pid (pcbs k p)]"
proof -
  have "processes_in (printed_items (\<lambda>x. [(''%d'', [pid (pcbs k (pcb_ptrs k x))])]) (printed '', '') []
      (L (PCB_children p))) = concat (map (\<lambda>_. []) (L (PCB_children p)))"
    by (rule processes_in_items) (simp_all add: processes_in_def printed_def)
  then show ?thesis
    by (simp add: shown_process_def) (simp add: processes_in_def printed_def)
qed

lemma processes_in_shown_list [simp]:
  "processes_in (shown_processes k L ps) = map (\<lambda>p. pid (pcbs k p)) ps"
proof -
  have "processes_in (printed_items (\<lambda>p. printed tabulator @ shown_process k L p) (printed '','')
      (printed newline) ps) = concat (map (\<lambda>p. [pid (pcbs k p)]) ps)"
    by (rule processes_in_items) (simp_all add: tabulator_def newline_def)
  also have "\<dots> = map (\<lambda>p. pid (pcbs k p)) ps" by (induction ps) simp_all
  finally show ?thesis by (simp add: shown_processes_def newline_def)
qed

text \<open>
  What the printing of the descriptors relies on: the pointers of the descriptors in the lists of
  resources and semaphores are not null.
\<close>

definition descriptors_set :: "kernel \<Rightarrow> (hloc \<Rightarrow> addr list) \<Rightarrow> bool" where
  "descriptors_set k L \<longleftrightarrow>
     (\<forall>r \<in> set (L resources_list). \<forall>x \<in> set (L (Resource_descriptors r)).
        let d = descriptor_ptrs k x in
        d \<noteq> NULL \<and> d_pcb (descriptors k d) \<noteq> NULL \<and> d_resource (descriptors k d) \<noteq> NULL) \<and>
     (\<forall>s \<in> set (L semaphores_list).
        \<forall>x \<in> set (L (Semaphore_descriptors s)) \<union> set (L (Semaphore_waiting s)).
        let d = sem_descriptor_ptrs k x in
        d \<noteq> NULL \<and> sd_pcb (sem_descriptors k d) \<noteq> NULL \<and> sd_semaphore (sem_descriptors k d) \<noteq> NULL)"

lemma no_processes:
  assumes "list_rep (links k) (heads k) L" and "\<And>x. x \<in> set (L h) \<Longrightarrow> item x = Inr (g x)"
    and "\<And>x. processes_in (g x) = []" and "processes_in start = []" and "processes_in sep = []"
    and "processes_in fin = []" and "processes_in closing = []"
  shows "\<exists>out. print_list k h start item sep fin closing = Inr out \<and> processes_in out = []"
proof -
  have "processes_in (printed_items g sep fin (L h)) = concat (map (\<lambda>_. []) (L h))"
    by (rule processes_in_items) (use assms in simp_all)
  with print_list_exec [OF assms(1,2), where start = start and sep = sep and fin = fin and closing = closing] assms(4,7) show ?thesis by simp
qed

lemma one_chunk: "f \<noteq> ''[pid: %d, child: '' \<Longrightarrow> processes_in [(f, vs)] = []"
  by (simp add: processes_in_def)

lemma TimerList_print_exec:
  assumes inv: "kinv k L"
  shows "\<exists>out. TimerList_print k timer_list = Inr out \<and> processes_in out = []"
  unfolding TimerList_print_def
proof (rule no_processes [OF kinvD(7) [OF inv], where
      g = "\<lambda>t. [(''(pid:%d, t:%d)'',
        [pid (pcbs k (t_pcb (timer_items k t))), awakening_time (timer_items k t)])]"])
  show "deref (t_pcb (timer_items k t)) (Inr [(''(pid:%d, t:%d)'',
        [pid (pcbs k (t_pcb (timer_items k t))), awakening_time (timer_items k t)])]) =
      Inr [(''(pid:%d, t:%d)'', [pid (pcbs k (t_pcb (timer_items k t))), awakening_time (timer_items k t)])]"
    if "t \<in> set (L timer_list)" for t
    using kinv_nonnull [OF inv timer_okD(1) [OF kinvD(4) [OF inv] that]] by simp
qed (simp_all add: one_chunk)

lemma DescriptorPtrList_print_exec:
  assumes inv: "kinv k L" and d: "descriptors_set k L" and r: "r \<in> set (L resources_list)"
  shows "\<exists>out. DescriptorPtrList_print k (Resource_descriptors r) = Inr out \<and> processes_in out = []"
  unfolding DescriptorPtrList_print_def Let_def
  by (rule no_processes [OF kinvD(7) [OF inv], where
        g = "\<lambda>x. [(''(pid: %d, fd: %d, rid:%d)'',
          [pid (pcbs k (d_pcb (descriptors k (descriptor_ptrs k x)))), d_fd (descriptors k (descriptor_ptrs k x)),
           res_id (resources k (d_resource (descriptors k (descriptor_ptrs k x))))])]"])
    (use d r in \<open>simp_all add: one_chunk descriptors_set_def Let_def\<close>)

lemma SemDescriptorPtrList_print_exec:
  assumes inv: "kinv k L" and d: "descriptors_set k L" and s: "s \<in> set (L semaphores_list)"
    and h: "h \<in> {Semaphore_descriptors s, Semaphore_waiting s}"
  shows "\<exists>out. SemDescriptorPtrList_print k h = Inr out \<and> processes_in out = []"
  unfolding SemDescriptorPtrList_print_def Let_def
  by (rule no_processes [OF kinvD(7) [OF inv], where
        g = "\<lambda>x. [(''(pid: %d, fd: %d, semnum:%d)'',
          [pid (pcbs k (sd_pcb (sem_descriptors k (sem_descriptor_ptrs k x)))),
           sd_fd (sem_descriptors k (sem_descriptor_ptrs k x)),
           sem_id (semaphores k (sd_semaphore (sem_descriptors k (sem_descriptor_ptrs k x))))])]"])
    (use d s h in \<open>auto simp: one_chunk descriptors_set_def Let_def\<close>)

lemma item_list_exec:
  assumes inv: "kinv k L" and items: "\<And>x. x \<in> set (L h) \<Longrightarrow> \<exists>out. item x = Inr out \<and> processes_in out = []"
  shows "\<exists>out. print_list k h (printed (''{'' @ newline)) (\<lambda>x. andthen (item x) (\<lambda>out. Inr (printed tabulator @ out)))
      (printed '','') (printed newline) (printed (''}'' @ newline)) = Inr out \<and> processes_in out = []"
proof -
  let ?g = "\<lambda>x. printed tabulator @ (if x \<in> set (L h) then (case item x of Inr out \<Rightarrow> out) else [])"
  show ?thesis
  proof (rule no_processes [OF kinvD(7) [OF inv], where g = ?g])
    show "andthen (item x) (\<lambda>out. Inr (printed tabulator @ out)) = Inr (?g x)" if "x \<in> set (L h)" for x
      using items [OF that] that by auto
    show "processes_in (?g x) = []" for x using items [of x] by (auto simp: tabulator_def)
  qed (simp_all add: newline_def)
qed

lemma ResourceList_print_exec:
  assumes inv: "kinv k L" and d: "descriptors_set k L"
  shows "\<exists>out. ResourceList_print k resources_list = Inr out \<and> processes_in out = []"
  unfolding ResourceList_print_def
proof (rule item_list_exec [OF inv])
  fix r
  assume r: "r \<in> set (L resources_list)"
  then have "r \<noteq> NULL" by (rule kinv_nonnull [OF inv])
  with DescriptorPtrList_print_exec [OF inv d r]
  show "\<exists>out. Resource_print k r = Inr out \<and> processes_in out = []"
    by (auto simp: Resource_print_def) (simp add: processes_in_def)
qed

lemma SemaphoreList_print_exec:
  assumes inv: "kinv k L" and d: "descriptors_set k L"
  shows "\<exists>out. SemaphoreList_print k semaphores_list = Inr out \<and> processes_in out = []"
  unfolding SemaphoreList_print_def
proof (rule item_list_exec [OF inv])
  fix s
  assume s: "s \<in> set (L semaphores_list)"
  then have "s \<noteq> NULL" by (rule kinv_nonnull [OF inv])
  with SemDescriptorPtrList_print_exec [OF inv d s, of "Semaphore_descriptors s"]
    SemDescriptorPtrList_print_exec [OF inv d s, of "Semaphore_waiting s"]
  show "\<exists>out. Semaphore_print k s = Inr out \<and> processes_in out = []"
    by (auto simp: Semaphore_print_def) (simp add: processes_in_def printed_def)
qed

text \<open>
  Printing the status of the system ends without a fault, and shows every process once: first the
  running one, then the ready, the waiting and the zombie processes in the order of their lists.
\<close>

lemma printStatus_exec:
  assumes "kinv k L" and "descriptors_set k L"
  shows "\<exists>out. disastrOS_printStatus k = Inr out \<and>
    processes_in out =
      map (\<lambda>p. pid (pcbs k p)) (running k # L ready_list @ L waiting_list @ L zombie_list)"
proof -
  note z = sched_okD(3) [OF kinvD(2) [OF assms(1)]]
  obtain o1 o2 o3 where
    "TimerList_print k timer_list = Inr o1" "processes_in o1 = []"
    "ResourceList_print k resources_list = Inr o2" "processes_in o2 = []"
    "SemaphoreList_print k semaphores_list = Inr o3" "processes_in o3 = []"
    using TimerList_print_exec [OF assms(1)] ResourceList_print_exec [OF assms]
      SemaphoreList_print_exec [OF assms] by blast
  then show ?thesis
    using z by (simp add: disastrOS_printStatus_def PCBList_print_exec [OF assms(1)]
        PCB_print_exec [OF assms(1) z] newline_def)
qed

end
