(* ===== verification/Print_Reach.thy ===== *)
theory Print_Reach
  imports Printing Frames System_Theorems
begin

text \<open>
  Why \<open>disastrOS_printStatus\<close> never follows a null pointer: in every state the system reaches, an item
  that points to a descriptor points to one whose process and whose resource (or semaphore) are set.
  Items and descriptors are only written when they are allocated; all other operations release them or
  leave them alone.
\<close>

definition desc_good :: "kernel \<Rightarrow> addr \<Rightarrow> bool" where
  "desc_good k d \<longleftrightarrow>
     d \<noteq> NULL \<and> d_pcb (descriptors k d) \<noteq> NULL \<and> d_resource (descriptors k d) \<noteq> NULL"

definition semdesc_good :: "kernel \<Rightarrow> addr \<Rightarrow> bool" where
  "semdesc_good k d \<longleftrightarrow>
     d \<noteq> NULL \<and> sd_pcb (sem_descriptors k d) \<noteq> NULL \<and> sd_semaphore (sem_descriptors k d) \<noteq> NULL"

definition desc_ok :: "kernel \<Rightarrow> bool" where
  "desc_ok k \<longleftrightarrow>
     (\<forall>x \<in> pools_live (pools k) descriptor_ptr_pool. x \<noteq> NULL \<longrightarrow> desc_good k (descriptor_ptrs k x)) \<and>
     (\<forall>x \<in> pools_live (pools k) sem_descriptor_ptr_pool.
        x \<noteq> NULL \<longrightarrow> semdesc_good k (sem_descriptor_ptrs k x))"

lemma desc_upd [simp]:
  "desc_ok (upd_pcb p f k) = desc_ok k" "desc_ok (set_retvalue v k) = desc_ok k"
  "desc_ok (store_user r v k) = desc_ok k" "desc_ok (k\<lparr>running := q\<rparr>) = desc_ok k"
  "desc_ok (null_links p k) = desc_ok k" "desc_ok (List_init k h) = desc_ok k"
  "desc_ok (upd_sem s g k) = desc_ok k" "desc_ok (k\<lparr>disastrOS_time := t\<rparr>) = desc_ok k"
  "desc_ok (k\<lparr>links := lk, heads := hds\<rparr>) = desc_ok k" "desc_ok (k\<lparr>last_pid := n\<rparr>) = desc_ok k"
  "desc_ok (k\<lparr>shutdown_now := n\<rparr>) = desc_ok k" "desc_ok (k\<lparr>running := q, init_pcb := q\<rparr>) = desc_ok k"
  "desc_ok (k\<lparr>pcb_ptrs := ptrs\<rparr>) = desc_ok k" "desc_ok (k\<lparr>timer_items := ts\<rparr>) = desc_ok k"
  "desc_ok (k\<lparr>resources := rs\<rparr>) = desc_ok k" "desc_ok (k\<lparr>semaphores := ss\<rparr>) = desc_ok k"
  by (simp_all add: desc_ok_def desc_good_def semdesc_good_def store_user_def null_links_def List_init_def)

lemma good_upd [simp]:
  "desc_good (upd_pcb p f k) = desc_good k" "semdesc_good (upd_pcb p f k) = semdesc_good k"
  by (simp_all add: fun_eq_iff desc_good_def semdesc_good_def)

lemma desc_upd_desc [simp]:
  assumes "\<And>x. d_pcb (f x) = d_pcb x" and "\<And>x. d_resource (f x) = d_resource x"
  shows "desc_ok (upd_desc d f k) = desc_ok k"
  by (auto simp: desc_ok_def desc_good_def semdesc_good_def upd_desc_def assms)

lemma desc_upd_semdesc [simp]:
  assumes "\<And>x. sd_pcb (f x) = sd_pcb x" and "\<And>x. sd_semaphore (f x) = sd_semaphore x"
  shows "desc_ok (upd_semdesc d f k) = desc_ok k" "semdesc_good (upd_semdesc d f k) = semdesc_good k"
  by (auto simp: fun_eq_iff desc_ok_def desc_good_def semdesc_good_def upd_semdesc_def assms)

named_theorems desc_frames \<open>what keeps the descriptors of the items set\<close>

lemma desc_lists [desc_frames]:
  "List_insert k h p x = Inr (y, k') \<Longrightarrow>
     desc_ok k' = desc_ok k \<and> desc_good k' = desc_good k \<and> semdesc_good k' = semdesc_good k"
  "List_detach k h x = Inr (y, k') \<Longrightarrow> desc_ok k' = desc_ok k"
proof -
  have "desc_ok (list_put k h p x) = desc_ok k" "desc_good (list_put k h p x) = desc_good k"
    "semdesc_good (list_put k h p x) = semdesc_good k"
    by (subst list_put_shape, simp add: desc_ok_def desc_good_def semdesc_good_def fun_eq_iff)+
  then show "List_insert k h p x = Inr (y, k') \<Longrightarrow>
     desc_ok k' = desc_ok k \<and> desc_good k' = desc_good k \<and> semdesc_good k' = semdesc_good k"
    by (simp add: list_put_def)
  have "desc_ok (list_cut k h x) = desc_ok k"
    by (subst list_cut_shape, simp add: desc_ok_def desc_good_def semdesc_good_def)
  then show "List_detach k h x = Inr (y, k') \<Longrightarrow> desc_ok k' = desc_ok k"
    by (auto simp: list_cut_def)
qed

text \<open>A release takes no block into use, and an allocation only the one it returns.\<close>

lemma live_blocks_release:
  assumes "PoolAllocator_releaseBlock a b = Inr (r, a')"
  shows "live_blocks a' \<subseteq> live_blocks a"
  using assms unfolding PoolAllocator_releaseBlock_def arr_get_def arr_set_def
  by (auto simp: res_simps Let_def live_blocks_def block_at_def nth_list_update split: if_splits)

lemma live_blocks_get:
  assumes "PoolAllocator_getBlock a = Inr (b, a')"
  shows "live_blocks a' \<subseteq> insert b (live_blocks a)"
  using assms unfolding PoolAllocator_getBlock_def arr_get_def arr_set_def
  by (auto simp: res_simps Let_def live_blocks_def block_at_def nth_list_update nat_eq_iff split: if_splits)

lemma desc_release [desc_frames]: "pool_release k i b = Inr (r, k') \<Longrightarrow> desc_ok k \<longrightarrow> desc_ok k'"
  by (auto simp: pool_release_def res_simps desc_ok_def desc_good_def semdesc_good_def pools_live_def
      dest: subsetD [OF live_blocks_release] split: if_splits)

lemma desc_get:
  assumes "pool_get k i = Inr (b, k')"
  shows "desc_good k' = desc_good k" "semdesc_good k' = semdesc_good k"
    "i \<noteq> descriptor_ptr_pool \<Longrightarrow> i \<noteq> sem_descriptor_ptr_pool \<Longrightarrow> desc_ok k' = desc_ok k"
    "b = NULL \<Longrightarrow> desc_ok k \<longrightarrow> desc_ok k'"
    "i = descriptor_ptr_pool \<Longrightarrow> desc_good k d \<Longrightarrow> desc_ok k \<longrightarrow>
       desc_ok (k'\<lparr>descriptor_ptrs := (descriptor_ptrs k')(b := d)\<rparr>)"
    "i = sem_descriptor_ptr_pool \<Longrightarrow> semdesc_good k d \<Longrightarrow> desc_ok k \<longrightarrow>
       desc_ok (k'\<lparr>sem_descriptor_ptrs := (sem_descriptor_ptrs k')(b := d)\<rparr>)"
proof -
  obtain a where a: "PoolAllocator_getBlock (pools k i) = Inr (b, a)" "k' = k\<lparr>pools := (pools k)(i := a)\<rparr>"
    using assms by (auto simp: pool_get_def res_simps)
  note L = live_blocks_get [OF a(1)]
  show "desc_good k' = desc_good k" "semdesc_good k' = semdesc_good k"
    "i \<noteq> descriptor_ptr_pool \<Longrightarrow> i \<noteq> sem_descriptor_ptr_pool \<Longrightarrow> desc_ok k' = desc_ok k"
    by (simp_all add: a(2) fun_eq_iff desc_ok_def desc_good_def semdesc_good_def pools_live_def)
  show "b = NULL \<Longrightarrow> desc_ok k \<longrightarrow> desc_ok k'"
    using L by (auto simp: a(2) desc_ok_def desc_good_def semdesc_good_def pools_live_def)
  show "i = descriptor_ptr_pool \<Longrightarrow> desc_good k d \<Longrightarrow> desc_ok k \<longrightarrow>
       desc_ok (k'\<lparr>descriptor_ptrs := (descriptor_ptrs k')(b := d)\<rparr>)"
    using L by (auto simp: a(2) desc_ok_def desc_good_def semdesc_good_def pools_live_def)
  show "i = sem_descriptor_ptr_pool \<Longrightarrow> semdesc_good k d \<Longrightarrow> desc_ok k \<longrightarrow>
       desc_ok (k'\<lparr>sem_descriptor_ptrs := (sem_descriptor_ptrs k')(b := d)\<rparr>)"
    using L by (auto simp: a(2) desc_ok_def desc_good_def semdesc_good_def pools_live_def)
qed

lemma good_after_null_links [simp]:
  "desc_good (null_links p k) = desc_good k" "semdesc_good (null_links p k) = semdesc_good k"
  by (simp_all add: fun_eq_iff null_links_def desc_good_def semdesc_good_def)

section \<open>The allocations\<close>

lemma desc_allocs [desc_frames]:
  "PCB_alloc k = Inr (p, k') \<Longrightarrow> desc_ok k' = desc_ok k"
  "PCBPtr_alloc k p = Inr (x, k') \<Longrightarrow> desc_ok k' = desc_ok k"
  "TimerItem_alloc k w p = Inr (x, k') \<Longrightarrow> desc_ok k' = desc_ok k"
  "Resource_alloc k i ty = Inr (x, k') \<Longrightarrow> desc_ok k' = desc_ok k"
  "Semaphore_alloc k i n = Inr (x, k') \<Longrightarrow> desc_ok k' = desc_ok k"
  by (auto simp: PCB_alloc_def PCBPtr_alloc_def TimerItem_alloc_def Resource_alloc_def Semaphore_alloc_def
      res_simps Let_def split: if_splits dest!: desc_get(3))

lemma desc_frees [desc_frames]:
  "PCB_free k p = Inr (r, k') \<Longrightarrow> desc_ok k \<longrightarrow> desc_ok k'"
  "PCBPtr_free k x = Inr (r, k') \<Longrightarrow> desc_ok k \<longrightarrow> desc_ok k'"
  "TimerItem_free k x = Inr (r, k') \<Longrightarrow> desc_ok k \<longrightarrow> desc_ok k'"
  "Resource_free k x = Inr (r, k') \<Longrightarrow> desc_ok k \<longrightarrow> desc_ok k'"
  "Descriptor_free k x = Inr (r, k') \<Longrightarrow> desc_ok k \<longrightarrow> desc_ok k'"
  "DescriptorPtr_free k x = Inr (r, k') \<Longrightarrow> desc_ok k \<longrightarrow> desc_ok k'"
  "Semaphore_free k x = Inr (r, k') \<Longrightarrow> desc_ok k \<longrightarrow> desc_ok k'"
  "SemDescriptor_free k x = Inr (r, k') \<Longrightarrow> desc_ok k \<longrightarrow> desc_ok k'"
  "SemDescriptorPtr_free k x = Inr (r, k') \<Longrightarrow> desc_ok k \<longrightarrow> desc_ok k'"
  by (auto simp: PCB_free_def PCBPtr_free_def TimerItem_free_def Resource_free_def Descriptor_free_def
      DescriptorPtr_free_def Semaphore_free_def SemDescriptor_free_def SemDescriptorPtr_free_def
      c_assert_eq_Inr dest: desc_release)

lemma desc_Descriptor_alloc [desc_frames]:
  assumes "Descriptor_alloc k fd r p = Inr (d, k')" and "p \<noteq> NULL" and "r \<noteq> NULL"
  shows "(desc_ok k \<longrightarrow> desc_ok k') \<and> (d \<noteq> NULL \<longrightarrow> desc_good k' d)"
proof -
  obtain k1 where k1: "pool_get k descriptor_pool = Inr (d, k1)"
    using assms(1) by (auto simp: Descriptor_alloc_def res_simps split: if_splits)
  have "desc_ok k1 = desc_ok k" by (rule desc_get(3) [OF k1]) simp_all
  moreover have "desc_ok k1 \<longrightarrow> desc_ok (upd_desc d (\<lambda>x. x\<lparr>d_fd := fd, d_resource := r, d_pcb := p\<rparr>) k2)"
    if "k2 = null_links d k1" for k2
    using assms(2,3) that by (auto simp: desc_ok_def desc_good_def semdesc_good_def upd_desc_def null_links_def)
  ultimately show ?thesis
    using assms k1 by (auto simp: Descriptor_alloc_def res_simps desc_good_def upd_desc_def split: if_splits)
qed

lemma desc_SemDescriptor_alloc [desc_frames]:
  assumes "SemDescriptor_alloc k fd s p = Inr (d, k')" and "p \<noteq> NULL" and "s \<noteq> NULL"
  shows "(desc_ok k \<longrightarrow> desc_ok k') \<and> (d \<noteq> NULL \<longrightarrow> semdesc_good k' d)"
proof -
  obtain k1 where k1: "pool_get k sem_descriptor_pool = Inr (d, k1)"
    using assms(1) by (auto simp: SemDescriptor_alloc_def res_simps split: if_splits)
  have "desc_ok k1 = desc_ok k" by (rule desc_get(3) [OF k1]) simp_all
  moreover have "desc_ok k1 \<longrightarrow> desc_ok (upd_semdesc d (\<lambda>x. x\<lparr>sd_fd := fd, sd_semaphore := s, sd_pcb := p\<rparr>) k2)"
    if "k2 = null_links d k1" for k2
    using assms(2,3) that by (auto simp: desc_ok_def desc_good_def semdesc_good_def upd_semdesc_def null_links_def)
  ultimately show ?thesis
    using assms k1 by (auto simp: SemDescriptor_alloc_def res_simps semdesc_good_def upd_semdesc_def split: if_splits)
qed

lemma desc_DescriptorPtr_alloc [desc_frames]:
  assumes "DescriptorPtr_alloc k d = Inr (x, k')" and "desc_good k d"
  shows "desc_ok k \<longrightarrow> desc_ok k'"
proof -
  obtain k1 where k1: "pool_get k descriptor_ptr_pool = Inr (x, k1)"
    using assms(1) by (auto simp: DescriptorPtr_alloc_def res_simps Let_def split: if_splits)
  from desc_get(4) [OF k1] desc_get(5) [OF k1 refl assms(2)] assms(1) k1 show ?thesis
    by (auto simp: DescriptorPtr_alloc_def res_simps Let_def desc_ok_def desc_good_def semdesc_good_def
        null_links_def split: if_splits)
qed

lemma desc_SemDescriptorPtr_alloc [desc_frames]:
  assumes "SemDescriptorPtr_alloc k d = Inr (x, k')" and "semdesc_good k d"
  shows "(desc_ok k \<longrightarrow> desc_ok k') \<and> semdesc_good k' d"
proof -
  obtain k1 where k1: "pool_get k sem_descriptor_ptr_pool = Inr (x, k1)"
    using assms(1) by (auto simp: SemDescriptorPtr_alloc_def res_simps Let_def split: if_splits)
  have g: "semdesc_good k1 d" using assms(2) desc_get(2) [OF k1] by simp
  have "desc_ok k \<longrightarrow> desc_ok k'"
    using desc_get(4) [OF k1] desc_get(6) [OF k1 refl assms(2)] assms(1) k1
    by (auto simp: SemDescriptorPtr_alloc_def res_simps Let_def desc_ok_def desc_good_def semdesc_good_def
        null_links_def split: if_splits)
  moreover have "semdesc_good k' d"
    using g assms(1) k1 by (auto simp: SemDescriptorPtr_alloc_def res_simps Let_def semdesc_good_def
        null_links_def split: if_splits)
  ultimately show ?thesis ..
qed

section \<open>The calls\<close>

lemma desc_steps [desc_frames]:
  "TimerList_add k h w p = Inr (x, k') \<Longrightarrow> desc_ok k' = desc_ok k"
  "TimerList_removeCurrent k h = Inr (r, k') \<Longrightarrow> desc_ok k \<longrightarrow> desc_ok k'"
  "wake_one k t p = Inr (q, k') \<Longrightarrow> desc_ok k \<longrightarrow> desc_ok k'"
  "reparent_one k me = Inr k' \<Longrightarrow> desc_ok k' = desc_ok k"
  "release_descriptor k me = Inr k' \<Longrightarrow> desc_ok k \<longrightarrow> desc_ok k'"
  subgoal by (auto simp: TimerList_add_def res_simps split: if_splits dest!: desc_frames)
  subgoal by (auto simp: TimerList_removeCurrent_def res_simps split: if_splits dest!: desc_frames)
  subgoal by (auto simp: wake_one_def TimerList_removeCurrent_def res_simps Let_def split: if_splits dest!: desc_frames)
  subgoal by (auto simp: reparent_one_def res_simps Let_def dest!: desc_frames)
  subgoal by (auto simp: release_descriptor_def res_simps Let_def dest!: desc_frames)
  done

lemma desc_wake_elapsed: "wake_elapsed k p = Some r \<Longrightarrow> r = Inr k' \<Longrightarrow> desc_ok k \<longrightarrow> desc_ok k'"
proof (induct arbitrary: k' rule: wake_elapsed.raw_induct [rotated, consumes 1, case_names step])
  case (step f k p r)
  then show ?case by (auto simp: Let_def split: if_splits sum.splits dest!: desc_frames)
qed

lemma desc_reparent_children: "reparent_children k me = Some r \<Longrightarrow> r = Inr k' \<Longrightarrow> desc_ok k \<longrightarrow> desc_ok k'"
proof (induct arbitrary: k' rule: reparent_children.raw_induct [rotated, consumes 1, case_names step])
  case (step f k me r)
  then show ?case by (auto split: if_splits sum.splits dest!: desc_frames)
qed

lemma desc_release_timers: "release_timers k me aux = Some r \<Longrightarrow> r = Inr k' \<Longrightarrow> desc_ok k \<longrightarrow> desc_ok k'"
proof (induct arbitrary: k' rule: release_timers.raw_induct [rotated, consumes 1, case_names step])
  case (step f k me aux r)
  then show ?case by (auto simp: Let_def res_simps split: if_splits sum.splits dest!: desc_frames)
qed

lemma desc_release_descriptors: "release_descriptors k me = Some r \<Longrightarrow> r = Inr k' \<Longrightarrow> desc_ok k \<longrightarrow> desc_ok k'"
proof (induct arbitrary: k' rule: release_descriptors.raw_induct [rotated, consumes 1, case_names step])
  case (step f k me r)
  then show ?case by (auto split: if_splits sum.splits dest!: desc_frames)
qed

lemma desc_loops [desc_frames]:
  "wake_elapsed k p = Some (Inr k') \<Longrightarrow> desc_ok k \<longrightarrow> desc_ok k'"
  "reparent_children k me = Some (Inr k') \<Longrightarrow> desc_ok k \<longrightarrow> desc_ok k'"
  "release_timers k me aux = Some (Inr k') \<Longrightarrow> desc_ok k \<longrightarrow> desc_ok k'"
  "release_descriptors k me = Some (Inr k') \<Longrightarrow> desc_ok k \<longrightarrow> desc_ok k'"
  using desc_wake_elapsed desc_reparent_children desc_release_timers desc_release_descriptors by blast+

lemma desc_parts_of_calls [desc_frames]:
  "exit_to_next k = Inr k' \<Longrightarrow> desc_ok k \<longrightarrow> desc_ok k'"
  "exit_to_parent k me = Inr k' \<Longrightarrow> desc_ok k \<longrightarrow> desc_ok k'"
  "wait_block k = Inr k' \<Longrightarrow> desc_ok k \<longrightarrow> desc_ok k'"
  "wait_reap k x z res = Inr k' \<Longrightarrow> desc_ok k \<longrightarrow> desc_ok k'"
  "semWait_finish k s = Inr k' \<Longrightarrow> desc_ok k \<longrightarrow> desc_ok k'"
  "kernel_shutdown k = Inr k' \<Longrightarrow> desc_ok k \<longrightarrow> desc_ok k'"
  subgoal by (auto simp: exit_to_next_def res_simps Let_def dest!: desc_frames)
  subgoal by (auto simp: exit_to_parent_def res_simps Let_def dest!: desc_frames)
  subgoal by (auto simp: wait_block_def res_simps Let_def dest!: desc_frames)
  subgoal by (auto simp: wait_reap_def res_simps Let_def dest!: desc_frames)
  subgoal by (auto simp: semWait_finish_def res_simps)
  subgoal by (auto simp: kernel_shutdown_def internal_shutdown_def res_simps)
  done

text \<open>
  Once the descriptor has been allocated: what follows only links it and points an item to it.
\<close>

lemma desc_open_rest:
  assumes "andthen (DescriptorPtr_alloc k des) (\<lambda>(desptr, k3).
      andthen (List_insert k3 (PCB_descriptors me) (lh_last (heads k3 (PCB_descriptors me))) des) (\<lambda>(_, k4).
      let k5 = upd_desc des (\<lambda>d. d\<lparr>d_ptr := desptr\<rparr>) k4 in
      andthen (List_insert k5 (Resource_descriptors r) (lh_last (heads k5 (Resource_descriptors r))) desptr)
        (\<lambda>(_, k6). Inr (set_retvalue (d_fd (descriptors k6 des)) k6)))) = Inr k'"
    and "desc_good k des"
  shows "desc_ok k \<longrightarrow> desc_ok k'"
  using assms by (auto simp: res_simps Let_def dest!: desc_DescriptorPtr_alloc [OF _ assms(2)] desc_lists)

lemma desc_openResource_descriptor [desc_frames]:
  assumes ok: "openResource_descriptor k r ty m = Inr k'" and run: "running k \<noteq> NULL"
  shows "desc_ok k \<longrightarrow> desc_ok k'"
proof (cases "r = NULL \<or> res_type (resources k r) \<noteq> ty \<or>
    m AND DSOS_EXCL \<noteq> 0 \<and> lh_size (heads k (Resource_descriptors r)) \<noteq> 0")
  case True
  then show ?thesis using ok by (auto simp: openResource_descriptor_def Let_def split: if_splits)
next
  case False
  then obtain des k1 where a: "Descriptor_alloc k (last_fd (pcbs k (running k))) r (running k) = Inr (des, k1)"
    using ok by (auto simp: openResource_descriptor_def res_simps Let_def split: if_splits)
  have d: "(desc_ok k \<longrightarrow> desc_ok k1) \<and> (des \<noteq> NULL \<longrightarrow> desc_good k1 des)"
    using desc_Descriptor_alloc [OF a run] False by blast
  show ?thesis
  proof (cases "des = NULL")
    case True
    then show ?thesis using ok False a d by (auto simp: openResource_descriptor_def Let_def split: if_splits)
  next
    case des: False
    let ?k2 = "upd_pcb (running k) (\<lambda>p. p\<lparr>last_fd := last_fd (pcbs k1 (running k)) + 1\<rparr>) k1"
    have good: "desc_good ?k2 des" using d des by simp
    have "desc_ok ?k2 \<longrightarrow> desc_ok k'"
      by (rule desc_open_rest [OF _ good, where me = "running k" and r = r])
        (use ok False a des in \<open>auto simp: openResource_descriptor_def Let_def
            andthen_eq_Inr [where r = "c_int n" for n] c_int_eq_Inr split: if_splits\<close>)
    with d show ?thesis by simp
  qed
qed

lemma desc_semOpen_rest:
  assumes "andthen (SemDescriptorPtr_alloc k dsc) (\<lambda>(ptr, k3).
      if ptr = NULL then Inr (set_retvalue DSOS_ECREATEPTR k3)
      else let k4 = upd_semdesc dsc (\<lambda>d. d\<lparr>sd_ptr := ptr\<rparr>) k3 in
      andthen (SemDescriptorPtr_alloc k4 dsc) (\<lambda>(wait_ptr, k5).
      if wait_ptr = NULL then Inr (set_retvalue DSOS_ECREATEPTR k5)
      else let k6 = upd_semdesc dsc (\<lambda>d. d\<lparr>sd_wait_ptr := wait_ptr\<rparr>) k5 in
      andthen (List_insert k6 (PCB_sem_descriptors me)
                 (lh_last (heads k6 (PCB_sem_descriptors me))) dsc) (\<lambda>(_, k7).
      andthen (List_insert k7 (Semaphore_descriptors s)
                 (lh_last (heads k7 (Semaphore_descriptors s))) ptr) (\<lambda>(_, k8).
      Inr (set_retvalue (sd_fd (sem_descriptors k8 dsc)) k8))))) = Inr k'"
    and good: "semdesc_good k dsc"
  shows "desc_ok k \<longrightarrow> desc_ok k'"
proof -
  obtain ptr k3 where a: "SemDescriptorPtr_alloc k dsc = Inr (ptr, k3)"
    using assms(1) by (auto simp: res_simps)
  note A = desc_SemDescriptorPtr_alloc [OF a good]
  show ?thesis
  proof (cases "ptr = NULL")
    case True
    then show ?thesis using assms(1) a A by auto
  next
    case False
    let ?k4 = "upd_semdesc dsc (\<lambda>d. d\<lparr>sd_ptr := ptr\<rparr>) k3"
    obtain w k5 where b: "SemDescriptorPtr_alloc ?k4 dsc = Inr (w, k5)"
      using assms(1) a False by (auto simp: res_simps Let_def)
    have "semdesc_good ?k4 dsc" using A by simp
    note B = desc_SemDescriptorPtr_alloc [OF b this]
    show ?thesis
    proof (cases "w = NULL")
      case True
      then show ?thesis using assms(1) a b False A B by (auto simp: Let_def)
    next
      case w: False
      then show ?thesis using assms(1) a b False A B
        by (auto simp: Let_def andthen_eq_Inr dest!: desc_lists)
    qed
  qed
qed

lemma desc_semOpen_descriptor [desc_frames]:
  assumes ok: "semOpen_descriptor k s = Inr k'" and run: "running k \<noteq> NULL" and s: "s \<noteq> NULL"
  shows "desc_ok k \<longrightarrow> desc_ok k'"
proof -
  obtain dsc k1 where a: "SemDescriptor_alloc k (last_sem_fd (pcbs k (running k))) s (running k) = Inr (dsc, k1)"
    using ok by (auto simp: semOpen_descriptor_def res_simps Let_def)
  note d = desc_SemDescriptor_alloc [OF a run s]
  show ?thesis
  proof (cases "dsc = NULL")
    case True
    then show ?thesis using ok a d by (auto simp: semOpen_descriptor_def Let_def)
  next
    case False
    let ?k2 = "upd_pcb (running k) (\<lambda>p. p\<lparr>last_sem_fd := last_sem_fd (pcbs k1 (running k)) + 1\<rparr>) k1"
    have good: "semdesc_good ?k2 dsc" using d False by simp
    have "desc_ok ?k2 \<longrightarrow> desc_ok k'"
      by (rule desc_semOpen_rest [OF _ good, where me = "running k" and s = s])
        (use ok a False in \<open>simp add: semOpen_descriptor_def Let_def
            andthen_eq_Inr [where r = "c_int n" for n] c_int_eq_Inr\<close>)
    with d show ?thesis by simp
  qed
qed

lemma desc_exit_tell [desc_frames]: "exit_tell k me = Inr k' \<Longrightarrow> desc_ok k \<longrightarrow> desc_ok k'"
  by (auto simp: exit_tell_def res_simps Let_def split: if_splits dest!: desc_frames)

lemma desc_calls [desc_frames]:
  "internal_schedule k = Inr k' \<Longrightarrow> desc_ok k \<longrightarrow> desc_ok k'"
  "internal_preempt k = Inr k' \<Longrightarrow> desc_ok k \<longrightarrow> desc_ok k'"
  "internal_fork k = Inr k' \<Longrightarrow> desc_ok k \<longrightarrow> desc_ok k'"
  "internal_spawn k = Inr k' \<Longrightarrow> desc_ok k \<longrightarrow> desc_ok k'"
  "internal_wait k = Inr k' \<Longrightarrow> desc_ok k \<longrightarrow> desc_ok k'"
  "internal_exit k = Inr k' \<Longrightarrow> desc_ok k \<longrightarrow> desc_ok k'"
  "internal_sleep k = Inr k' \<Longrightarrow> desc_ok k \<longrightarrow> desc_ok k'"
  "internal_shutdown k = Inr k' \<Longrightarrow> desc_ok k \<longrightarrow> desc_ok k'"
  "internal_closeResource k = Inr k' \<Longrightarrow> desc_ok k \<longrightarrow> desc_ok k'"
  "internal_destroyResource k = Inr k' \<Longrightarrow> desc_ok k \<longrightarrow> desc_ok k'"
  "internal_semClose k = Inr k' \<Longrightarrow> desc_ok k \<longrightarrow> desc_ok k'"
  "internal_semPost k = Inr k' \<Longrightarrow> desc_ok k \<longrightarrow> desc_ok k'"
  "internal_semWait k = Inr k' \<Longrightarrow> desc_ok k \<longrightarrow> desc_ok k'"
  subgoal by (auto simp: internal_schedule_def res_simps Let_def split: if_splits dest!: desc_frames)
  subgoal by (auto simp: internal_preempt_def internal_schedule_def res_simps Let_def split: if_splits dest!: desc_frames)
  subgoal by (auto simp: internal_fork_def res_simps Let_def split: if_splits dest!: desc_frames)
  subgoal by (auto simp: internal_spawn_def res_simps Let_def split: if_splits dest!: desc_frames)
  subgoal by (auto simp: internal_wait_def res_simps Let_def split: if_splits dest!: desc_frames)
  subgoal by (auto simp: internal_exit_tell res_simps Let_def dest!: desc_frames)
  subgoal by (auto simp: internal_sleep_def res_simps Let_def split: if_splits dest!: desc_frames)
  subgoal by (auto simp: internal_shutdown_def res_simps)
  subgoal by (auto simp: internal_closeResource_def res_simps Let_def split: if_splits dest!: desc_frames)
  subgoal by (auto simp: internal_destroyResource_def res_simps Let_def split: if_splits dest!: desc_frames)
  subgoal by (auto simp: internal_semClose_def res_simps Let_def split: if_splits dest!: desc_frames)
  subgoal by (auto simp: internal_semPost_def res_simps Let_def split: if_splits dest!: desc_frames)
  subgoal by (auto simp: internal_semWait_def res_simps Let_def split: if_splits dest!: desc_frames)
  done

text \<open>The two calls that write descriptors need a process that runs.\<close>

lemma running_kept:
  "List_insert k h x y = Inr (z, k') \<Longrightarrow> running k' = running k"
  "Resource_alloc k i ty = Inr (r, k') \<Longrightarrow> running k' = running k"
  "Semaphore_alloc k i n = Inr (r, k') \<Longrightarrow> running k' = running k"
proof -
  have "running (list_put k h x y) = running k" by (subst list_put_shape) simp
  then show "List_insert k h x y = Inr (z, k') \<Longrightarrow> running k' = running k" by (simp add: list_put_def)
qed (auto simp: Resource_alloc_def Semaphore_alloc_def pool_get_def null_links_def List_init_def
    res_simps Let_def split: if_splits)

lemma made_kept:
  "List_insert k h x y = Inr (z, k') \<Longrightarrow> desc_ok k' = desc_ok k \<and> running k' = running k"
  "Resource_alloc k i ty = Inr (r, k') \<Longrightarrow> desc_ok k' = desc_ok k \<and> running k' = running k"
  "Semaphore_alloc k i n = Inr (r, k') \<Longrightarrow> desc_ok k' = desc_ok k \<and> running k' = running k"
  by (metis desc_lists(1) running_kept(1), metis desc_allocs(4) running_kept(2), metis desc_allocs(5) running_kept(3))

lemma desc_opens:
  assumes inv: "kinv k L"
  shows "internal_openResource k = Inr k' \<Longrightarrow> desc_ok k \<longrightarrow> desc_ok k'"
    and "internal_semOpen k = Inr k' \<Longrightarrow> desc_ok k \<longrightarrow> desc_ok k'"
proof -
  have run: "running k \<noteq> NULL" by (rule sched_okD(3) [OF kinvD(2) [OF inv]])
  show "internal_openResource k = Inr k' \<Longrightarrow> desc_ok k \<longrightarrow> desc_ok k'"
    using run by (auto simp: internal_openResource_def res_simps Let_def split: if_splits
        dest!: desc_openResource_descriptor made_kept)
  show "internal_semOpen k = Inr k' \<Longrightarrow> desc_ok k \<longrightarrow> desc_ok k'"
    using run by (auto simp: internal_semOpen_def res_simps Let_def split: if_splits
        dest!: desc_semOpen_descriptor made_kept)
qed

lemma desc_handler:
  assumes inv: "kinv k L" and "syscall_vector n = Some f" and "f k = Inr k'"
  shows "desc_ok k \<longrightarrow> desc_ok k'"
  using assms(2,3) desc_calls desc_opens [OF inv] by (auto simp: syscall_vector_def split: if_splits)

lemma desc_main_context:
  assumes "main_context_resumed k = Inr (c, k')"
  shows "desc_ok k \<longrightarrow> desc_ok k'"
  using assms by (auto simp: main_context_resumed_def res_simps Let_def split: if_splits dest!: desc_frames)

lemma desc_trap:
  assumes inv: "kinv k L" and "disastrOS_trap k = Inr (c, k')"
  shows "desc_ok k \<longrightarrow> desc_ok k'"
proof -
  let ?n = "syscall_num (pcbs k (running k))"
  obtain k1 where k1: "(if ?n < 0 \<or> DSOS_MAX_SYSCALLS < ?n then Inr (set_retvalue DSOS_ESYSCALL_OUT_OF_RANGE k)
      else if ?n = DSOS_MAX_SYSCALLS then Inl Out_of_bounds
      else case syscall_vector ?n of
             None \<Rightarrow> Inr (set_retvalue DSOS_ESYSCALL_NOT_IMPLEMENTED k)
           | Some my_syscall \<Rightarrow> my_syscall k) = Inr k1"
    "(if shutdown_now k1 \<noteq> 0 then main_context_resumed k1
      else if log_file k1 \<and> running k1 = NULL then Inl Null_deref
      else if running k1 \<noteq> NULL then Inr (Resume (running k1), k1)
      else main_context_resumed k1) = Inr (c, k')"
    using assms(2) unfolding disastrOS_trap_def Let_def deref_eq_Inr andthen_eq_Inr by blast
  have "desc_ok k \<longrightarrow> desc_ok k1"
    using k1(1) desc_handler [OF inv] by (auto split: if_splits option.splits)
  moreover have "desc_ok k1 \<longrightarrow> desc_ok k'"
    using k1(2) desc_main_context [of k1 c k'] by (auto split: if_splits)
  ultimately show ?thesis by blast
qed

lemma desc_step:
  assumes inv: "kinv k L" and "kernel_step k e = Inr (c, k')"
  shows "desc_ok k \<longrightarrow> desc_ok k'"
proof (cases e)
  case (Syscall n args)
  let ?f = "\<lambda>p. p\<lparr>syscall_args := (\<lambda>i. if i < syscall_numarg n then args i else syscall_args p i),
    syscall_num := n, cpu_state := Saved_context\<rparr>"
  have "kinv (upd_pcb (running k) ?f k) L" by (rule kinv_call [OF inv]) simp
  from desc_trap [OF this, of c k'] Syscall assms(2) show ?thesis
    by (auto simp: kernel_step_def disastrOS_syscall_def c_assert_eq_Inr Let_def split: if_splits)
next
  case Tick
  then show ?thesis using assms(2)
    by (auto simp: kernel_step_def timerInterrupt_def res_simps Let_def dest!: desc_calls(1))
qed

lemma desc_start:
  assumes "layout_ok ly" and "disastrOS_start ly f a logfile boot_kernel = Inr (c, k)"
  shows "desc_ok k"
proof (rule start_runs [OF assms(1), of f a logfile])
  fix ps
  assume ps: "\<And>i. fresh_pool ly i (ps i)" and run: "disastrOS_start ly f a logfile boot_kernel =
    main_context_resumed (boot_kernel\<lparr>pools := ps, start_f := f, start_args := a, log_file := logfile\<rparr>)"
  have "desc_ok (boot_kernel\<lparr>pools := ps, start_f := f, start_args := a, log_file := logfile\<rparr>)"
    by (simp add: desc_ok_def fresh_pools_ok(2) [OF assms(1) ps])
  with assms(2) run desc_main_context show ?thesis by simp
qed

section \<open>Printing in every reachable state\<close>

definition printable :: "kernel \<Rightarrow> bool" where
  "printable k \<longleftrightarrow> kernel_ok k \<and> desc_ok k"

interpretation printing: invariant_system kernel_trans kernel_run printable
proof unfold_locales
  show "k' = k" if "kernel_run k [] k'" for k k' using that by (rule kernel_run_nilE)
  show "\<exists>k1. kernel_trans k e k1 \<and> kernel_run k1 es k'" if "kernel_run k (e # es) k'" for k e es k'
    using that by (rule kernel_system.run_cons)
  show "printable k'" if "printable k" "kernel_trans k e k'" for k e k'
    using that kernel_system.trans_ok [of k e k'] desc_step
    unfolding printable_def kernel_ok_def kernel_trans_def by blast
qed

lemma descriptors_setI:
  assumes inv: "kinv k L" and ok: "desc_ok k"
  shows "descriptors_set k L"
proof -
  note T = typed_listsD [OF kinvD(9) [OF inv]] and N = kinv_nonnull [OF inv]
  have "desc_good k (descriptor_ptrs k x)" if "x \<in> set (L (Resource_descriptors r))" for x r
    using ok T [OF that] N [OF that] by (simp add: desc_ok_def)
  moreover have "semdesc_good k (sem_descriptor_ptrs k x)"
    if "x \<in> set (L (Semaphore_descriptors s)) \<union> set (L (Semaphore_waiting s))" for x s
    using ok that T [of x "Semaphore_descriptors s"] N [of x "Semaphore_descriptors s"]
      T [of x "Semaphore_waiting s"] N [of x "Semaphore_waiting s"] by (auto simp: desc_ok_def)
  ultimately show ?thesis
    unfolding descriptors_set_def Let_def desc_good_def semdesc_good_def by blast
qed

text \<open>
  C30: in every state the system reaches, printing the status of the system ends without a fault, and
  shows every process once: first the running one, then the ready, the waiting and the zombie
  processes in the order of their lists.
\<close>

theorem printStatus_shows_processes:
  assumes "layout_ok ly" and "disastrOS_start ly f args logfile boot_kernel = Inr (c, k)"
    and "kernel_run k es k'"
  shows "\<exists>L out. kinv k' L \<and> disastrOS_printStatus k' = Inr out \<and>
    processes_in out =
      map (\<lambda>p. pid (pcbs k' p)) (running k' # L ready_list @ L waiting_list @ L zombie_list)"
proof -
  have "printable k" using start_ok desc_start assms(1,2) unfolding printable_def by blast
  from printing.run_ok [OF this assms(3)] obtain L where "kinv k' L" "desc_ok k'"
    unfolding printable_def kernel_ok_def by blast
  with printStatus_exec [OF _ descriptors_setI] show ?thesis by blast
qed

theorem printStatus_shows_processes_witness:
  "\<exists>k k' out. kernel_run k [Tick] k' \<and> disastrOS_printStatus k' = Inr out \<and> processes_in out \<noteq> []"
proof -
  obtain c k k' where k: "disastrOS_start demo_layout 7 0 False boot_kernel = Inr (c, k)"
    "kernel_run k [Tick] k'"
    by (rule demo_tick_run) blast
  from printStatus_shows_processes [OF demo_layout_ok k] k(2) show ?thesis by (metis list.simps(3) list.simps(8,9))
qed

end
