(* ===== verification/Programs.thy ===== *)
theory Programs
  imports Dispatch Printing
begin

text \<open>
  The programs of the processes. A program is a tree of the actions a process makes one after
  another: a system call, whose result the rest of the program gets, an access to the shared
  memory, or an output. The functions take what follows them as an argument, as the statements
  of the C code do. What a process reads may have been written by another one since its last
  action.
\<close>

datatype prog =
    Sys int "nat \<Rightarrow> int" "int \<Rightarrow> prog"
  | Get_pid "int \<Rightarrow> prog"
  | Load addr "int \<Rightarrow> prog"
  | Store addr int prog
  | Printf string "int list" prog
  | Print_status prog
  | Return

section \<open>The calls\<close>

definition sem_open :: "int \<Rightarrow> int \<Rightarrow> (int \<Rightarrow> prog) \<Rightarrow> prog" where
  "sem_open semnum value rest = Sys DSOS_CALL_SEMOPEN (no_args(0 := semnum, 1 := value)) rest"

definition sem_close :: "int \<Rightarrow> (int \<Rightarrow> prog) \<Rightarrow> prog" where
  "sem_close fd rest = Sys DSOS_CALL_SEMCLOSE (no_args(0 := fd)) rest"

definition sem_wait :: "int \<Rightarrow> (int \<Rightarrow> prog) \<Rightarrow> prog" where
  "sem_wait fd rest = Sys DSOS_CALL_SEMWAIT (no_args(0 := fd)) rest"

definition sem_post :: "int \<Rightarrow> (int \<Rightarrow> prog) \<Rightarrow> prog" where
  "sem_post fd rest = Sys DSOS_CALL_SEMPOST (no_args(0 := fd)) rest"

definition spawn :: "addr \<Rightarrow> addr \<Rightarrow> prog \<Rightarrow> prog" where
  "spawn f args rest = Sys DSOS_CALL_SPAWN (no_args(0 := f, 1 := args)) (\<lambda>_. rest)"

definition wait_any :: "prog \<Rightarrow> prog" where
  "wait_any rest = Sys DSOS_CALL_WAIT (no_args(0 := 0, 1 := NULL)) (\<lambda>_. rest)"

definition shutdown :: "prog \<Rightarrow> prog" where
  "shutdown rest = Sys DSOS_CALL_SHUTDOWN no_args (\<lambda>_. rest)"

text \<open>\<open>disastrOS_exit(disastrOS_getpid()+1)\<close>; the call does not return.\<close>

definition exit_pid :: "prog \<Rightarrow> prog" where
  "exit_pid rest = Get_pid (\<lambda>p. Sys DSOS_CALL_EXIT (no_args(0 := p + 1)) (\<lambda>_. rest))"

fun repeat_prog :: "nat \<Rightarrow> (prog \<Rightarrow> prog) \<Rightarrow> prog \<Rightarrow> prog" where
  "repeat_prog 0 body rest = rest"
| "repeat_prog (Suc n) body rest = body (repeat_prog n body rest)"

end
