(* ===== verification/Test_Programs.thy ===== *)
theory Test_Programs
  imports Programs
begin

text \<open>
  The test of the semaphores, \<^verbatim>\<open>disastrOS_OurTest.c\<close>: producers and consumers over a circular
  buffer.

  A \<open>child_data\<close> is laid out as \<open>index_prod\<close>, \<open>index_cons\<close> and \<open>c_buffer\<close> at the offsets 0, 4
  and 8; the buffer is an array of \<open>int\<close>. The number the user types in is an argument of
  \<open>initFunction\<close>, as are the addresses of its local variables.
\<close>

definition SEMNUM_FILL :: int where "SEMNUM_FILL = 0"
definition SEMNUM_EMPTY :: int where "SEMNUM_EMPTY = 1"
definition SEMNUM_ME1 :: int where "SEMNUM_ME1 = 2"
definition SEMNUM_ME2 :: int where "SEMNUM_ME2 = 3"
definition BUFFER_LENGTH :: int where "BUFFER_LENGTH = 5"
definition ITERATIONS :: nat where "ITERATIONS = 10"
definition HOWMANY :: nat where "HOWMANY = 10"

definition ERROR_HELPER :: "bool \<Rightarrow> string \<Rightarrow> prog \<Rightarrow> prog" where
  "ERROR_HELPER cond msg rest =
     (if cond then
        Get_pid (\<lambda>p.
          if p \<noteq> 0 then Get_pid (\<lambda>q. Printf (msg @ '': %d '' @ newline) [q] (exit_pid rest))
          else Printf (msg @ '':'') [] (exit_pid rest))
      else rest)"

section \<open>The buffer\<close>

definition cell :: "addr \<Rightarrow> int \<Rightarrow> addr" where
  "cell buf i = buf + 4 * i"

fun print_cells :: "addr \<Rightarrow> nat list \<Rightarrow> prog \<Rightarrow> prog" where
  "print_cells buf [] rest = rest"
| "print_cells buf (i # is) rest =
     Load (cell buf (int i)) (\<lambda>v. Printf '' | %d'' [v] (print_cells buf is rest))"

definition PrintBuffer :: "addr \<Rightarrow> prog \<Rightarrow> prog" where
  "PrintBuffer buf rest =
     Load (cell buf 0) (\<lambda>v. Printf ''buffer : [ %d'' [v]
       (print_cells buf [1..<nat BUFFER_LENGTH] (Printf ('' ]'' @ newline) [] rest)))"

text \<open>
  The critical sections: the producers store their number at \<open>index_prod\<close>, the consumers 0 at
  \<open>index_cons\<close>, and advance the index.
\<close>

definition produce :: "addr \<Rightarrow> prog \<Rightarrow> prog" where
  "produce cd rest =
     Load cd (\<lambda>n. Get_pid (\<lambda>p. Load (cd + 8) (\<lambda>buf. Store (cell buf n) p
     (Load (cd + 8) (\<lambda>buf. PrintBuffer buf
     (Store cd ((n + 1) smod BUFFER_LENGTH) rest))))))"

definition consume :: "addr \<Rightarrow> prog \<Rightarrow> prog" where
  "consume cd rest =
     Load (cd + 4) (\<lambda>n. Load (cd + 8) (\<lambda>buf. Store (cell buf n) 0
     (Load (cd + 8) (\<lambda>buf. PrintBuffer buf
     (Store (cd + 4) ((n + 1) smod BUFFER_LENGTH) rest)))))"

section \<open>Producers and consumers\<close>

definition ProdFunction :: "addr \<Rightarrow> prog" where
  "ProdFunction args =
     Get_pid (\<lambda>p. Printf (''Starting producer with pid : %d'' @ newline) [p]
     (sem_open SEMNUM_FILL 0 (\<lambda>fd_fill.
      ERROR_HELPER (fd_fill < 0) ''Error semOpen fd_fill process ''
     (sem_open SEMNUM_EMPTY BUFFER_LENGTH (\<lambda>fd_empty.
      ERROR_HELPER (fd_fill < 0) ''Error semOpen fd_empty process ''
     (sem_open SEMNUM_ME1 1 (\<lambda>fd_me1.
      ERROR_HELPER (fd_fill < 0) ''Error semOpen fd_me1 process ''
     (repeat_prog ITERATIONS (\<lambda>next.
        sem_wait fd_empty (\<lambda>ret. ERROR_HELPER (ret \<noteq> 0) ''Error semWait fd_empty process ''
       (sem_wait fd_me1 (\<lambda>ret. ERROR_HELPER (ret \<noteq> 0) ''Error semWait fd_me1 process ''
       (Get_pid (\<lambda>p. Printf (''Hello, i am prod and i am in CS! Pid : %d'' @ newline) [p]
       (produce args
       (sem_post fd_me1 (\<lambda>ret. ERROR_HELPER (ret \<noteq> 0) ''Error semPost fd_me1 process ''
       (sem_post fd_fill (\<lambda>ret. ERROR_HELPER (ret \<noteq> 0) ''Error semPost fd_fill process ''
        next)))))))))))
     (sem_close fd_fill (\<lambda>ret. ERROR_HELPER (ret \<noteq> 0) ''Error semClose fd_fill process''
     (sem_close fd_empty (\<lambda>ret. ERROR_HELPER (ret \<noteq> 0) ''Error semClose fd_empty process''
     (sem_close fd_me1 (\<lambda>ret. ERROR_HELPER (ret \<noteq> 0) ''Error semClose fd_me1 process''
     (exit_pid Return)))))))))))))))"

definition ConsFunction :: "addr \<Rightarrow> prog" where
  "ConsFunction args =
     Get_pid (\<lambda>p. Printf (''Starting consumer with pid : %d'' @ newline) [p]
     (sem_open SEMNUM_FILL 0 (\<lambda>fd_fill.
      ERROR_HELPER (fd_fill < 0) ''Error semOpen fd_fill process ''
     (sem_open SEMNUM_EMPTY BUFFER_LENGTH (\<lambda>fd_empty.
      ERROR_HELPER (fd_empty < 0) ''Error semOpen fd_empty process ''
     (sem_open SEMNUM_ME2 1 (\<lambda>fd_me2.
      ERROR_HELPER (fd_me2 < 0) ''Error semOpen fd_me2 process ''
     (repeat_prog ITERATIONS (\<lambda>next.
        sem_wait fd_fill (\<lambda>ret. ERROR_HELPER (ret \<noteq> 0) ''Error semWait fd_fill process''
       (sem_wait fd_me2 (\<lambda>ret. ERROR_HELPER (ret \<noteq> 0) ''Error semWait fd_me2 process ''
       (Get_pid (\<lambda>p. Printf (''Hello,i am the cons and i am in CS! Pid : %d'' @ newline) [p]
       (consume args
       (sem_post fd_me2 (\<lambda>ret. ERROR_HELPER (ret \<noteq> 0) ''Error semPost fd_me2 process ''
       (sem_post fd_empty (\<lambda>ret. ERROR_HELPER (ret \<noteq> 0) ''Error semPost fd_empty process ''
        next)))))))))))
     (sem_close fd_fill (\<lambda>ret. ERROR_HELPER (ret \<noteq> 0) ''Error semClose fd_fill process ''
     (sem_close fd_empty (\<lambda>ret. ERROR_HELPER (ret \<noteq> 0) ''Error semClose fd_empty process ''
     (sem_close fd_me2 (\<lambda>ret. ERROR_HELPER (ret \<noteq> 0) ''Error semClose fd_me2 process ''
     (exit_pid Return)))))))))))))))"

definition ProdFunction2 :: "addr \<Rightarrow> prog" where
  "ProdFunction2 args =
     sem_open SEMNUM_FILL 0 (\<lambda>fd_fill.
      ERROR_HELPER (fd_fill < 0) ''Error semOpen fd_fill process ''
     (sem_open SEMNUM_EMPTY BUFFER_LENGTH (\<lambda>fd_empty.
      ERROR_HELPER (fd_empty < 0) ''Error semOpen fd_empty process ''
     (repeat_prog (ITERATIONS * 40) (\<lambda>next.
        sem_wait fd_empty (\<lambda>ret. ERROR_HELPER (ret \<noteq> 0) ''Error semWait fd_empty process ''
       (produce args
       (sem_post fd_fill (\<lambda>ret. ERROR_HELPER (ret \<noteq> 0) ''Error semPost fd_fill '' next)))))
     (sem_close fd_fill (\<lambda>ret. ERROR_HELPER (ret \<noteq> 0) ''Error semClose fd_fill process ''
     (sem_close fd_empty (\<lambda>ret. ERROR_HELPER (ret \<noteq> 0) ''Error semClose fd_empty process ''
     (exit_pid Return)))))))))"

definition ConsFunction2 :: "addr \<Rightarrow> prog" where
  "ConsFunction2 args =
     sem_open SEMNUM_FILL 0 (\<lambda>fd_fill.
      ERROR_HELPER (fd_fill < 0) ''Error semOpen fd_fill process ''
     (sem_open SEMNUM_EMPTY BUFFER_LENGTH (\<lambda>fd_empty.
      ERROR_HELPER (fd_empty < 0) ''Error semOpen fd_empty process ''
     (repeat_prog (ITERATIONS * 40) (\<lambda>next.
        sem_wait fd_fill (\<lambda>ret. ERROR_HELPER (ret \<noteq> 0) ''Error semWait fd_fill process ''
       (consume args
       (sem_post fd_empty (\<lambda>ret. ERROR_HELPER (ret \<noteq> 0) ''Error semPost fd_empty process '' next)))))
     (sem_close fd_fill (\<lambda>ret. ERROR_HELPER (ret \<noteq> 0) ''Error semClose fd_fill process ''
     (sem_close fd_empty (\<lambda>ret. ERROR_HELPER (ret \<noteq> 0) ''Error semClose fd_empty process ''
     (exit_pid Return)))))))))"

definition ConsSingleFunction :: "addr \<Rightarrow> prog" where
  "ConsSingleFunction args =
     Get_pid (\<lambda>p. Printf (''Starting consumer with pid : %d'' @ newline) [p]
     (sem_open SEMNUM_FILL 0 (\<lambda>fd_fill.
      ERROR_HELPER (fd_fill < 0) ''Error semOpen fd_fill process ''
     (sem_open SEMNUM_EMPTY BUFFER_LENGTH (\<lambda>fd_empty.
      ERROR_HELPER (fd_empty < 0) ''Error semOpen fd_empty process ''
     (repeat_prog (ITERATIONS * HOWMANY) (\<lambda>next.
        sem_wait fd_fill (\<lambda>ret. ERROR_HELPER (ret \<noteq> 0) ''Error semWait fd_fill process ''
       (Get_pid (\<lambda>p. Printf (''Hello,i am the cons and i am in CS! Pid : %d'' @ newline) [p]
       (consume args
       (sem_post fd_empty (\<lambda>ret. ERROR_HELPER (ret \<noteq> 0) ''Error semPost fd_empty process '' next)))))))
     (sem_close fd_fill (\<lambda>ret. ERROR_HELPER (ret \<noteq> 0) ''Error semClose fd_fill process ''
     (sem_close fd_empty (\<lambda>ret. ERROR_HELPER (ret \<noteq> 0) ''Error semClose fd_empty process ''
     (exit_pid Return)))))))))))"

definition ProdSingleFunction :: "addr \<Rightarrow> prog" where
  "ProdSingleFunction args =
     Get_pid (\<lambda>p. Printf (''Starting producer with pid : %d'' @ newline) [p]
     (sem_open SEMNUM_FILL 0 (\<lambda>fd_fill.
      ERROR_HELPER (fd_fill < 0) ''Error semOpen fd_fill process ''
     (sem_open SEMNUM_EMPTY BUFFER_LENGTH (\<lambda>fd_empty.
      ERROR_HELPER (fd_fill < 0) ''Error semOpen fd_empty process ''
     (repeat_prog (ITERATIONS * HOWMANY) (\<lambda>next.
        sem_wait fd_empty (\<lambda>ret. ERROR_HELPER (ret \<noteq> 0) ''Error semWait fd_empty process ''
       (Get_pid (\<lambda>p. Printf (''Hello, i am prod and i am in CS! Pid : %d'' @ newline) [p]
       (produce args
       (sem_post fd_fill (\<lambda>ret. ERROR_HELPER (ret \<noteq> 0) ''Error semPost fd_fill process '' next)))))))
     (sem_close fd_fill (\<lambda>ret. ERROR_HELPER (ret \<noteq> 0) ''Error semClose fd_fill process ''
     (sem_close fd_empty (\<lambda>ret. ERROR_HELPER (ret \<noteq> 0) ''Error semClose fd_empty process ''
     (exit_pid Return)))))))))))"

section \<open>The first process\<close>

text \<open>The functions of the test, and where the compiler has put them.\<close>

datatype test_function =
    Producer | Consumer | Producer2 | Consumer2 | Single_consumer | Single_producer
  | Init_function | Fun_function | Wrong_inputs

text \<open>
  \<open>initFunction\<close>: the chosen test, the address of the structure and of the buffer on its
  stack. \<open>init_tests\<close> is what it does once the structure is ready.
\<close>

fun clear_cells :: "addr \<Rightarrow> nat list \<Rightarrow> prog \<Rightarrow> prog" where
  "clear_cells buf [] rest = rest"
| "clear_cells buf (i # is) rest = Store (cell buf (int i)) 0 (clear_cells buf is rest)"

definition init_tests :: "(test_function \<Rightarrow> addr) \<Rightarrow> int \<Rightarrow> addr \<Rightarrow> prog" where
  "init_tests code input cd =
     sem_open SEMNUM_FILL 0 (\<lambda>fd_fill. ERROR_HELPER (fd_fill < 0) ''Error semOpen fd_fill Father''
     (sem_open SEMNUM_EMPTY BUFFER_LENGTH (\<lambda>fd_empty.
      ERROR_HELPER (fd_empty < 0) ''Error semOpen fd_empty Father''
     (sem_open SEMNUM_ME1 1 (\<lambda>fd_me1. ERROR_HELPER (fd_me1 < 0) ''Error semOpen fd_me1 Father''
     (sem_open SEMNUM_ME2 1 (\<lambda>fd_me2. ERROR_HELPER (fd_me2 < 0) ''Error semClose fd_me2 Father''
     (let finish =
        sem_close fd_fill (\<lambda>ret. ERROR_HELPER (ret \<noteq> 0) ''Error semClose fd_fill Father''
       (sem_close fd_empty (\<lambda>ret. ERROR_HELPER (ret \<noteq> 0) ''Error semClose fd_empty Father''
       (sem_close fd_me1 (\<lambda>ret. ERROR_HELPER (ret \<noteq> 0) ''Error semClose fd_me1 Father''
       (sem_close fd_me2 (\<lambda>ret. ERROR_HELPER (ret \<noteq> 0) ''Error semClose fd_me2 Father''
       (Printf (''shutdown!'' @ newline) [] (shutdown Return)))))))))
      in
      if input = 1 then
        Printf (''1 producer,1 consumer'' @ newline) []
          (spawn (code Producer2) cd (spawn (code Consumer2) cd (wait_any (wait_any finish))))
      else if input = 2 then
        repeat_prog HOWMANY (\<lambda>next. spawn (code Producer) cd (spawn (code Consumer) cd next))
          (repeat_prog (2 * HOWMANY) wait_any finish)
      else if input = 3 then
        repeat_prog HOWMANY (spawn (code Producer) cd)
          (spawn (code Single_consumer) cd (repeat_prog (HOWMANY + 1) wait_any finish))
      else if input = 4 then
        repeat_prog HOWMANY (spawn (code Consumer) cd)
          (spawn (code Single_producer) cd (repeat_prog (HOWMANY + 1) wait_any finish))
      else
        Printf (''Unrecognized case...shutting down!'' @ newline) [] (shutdown finish)))))))))"

definition initFunction :: "(test_function \<Rightarrow> addr) \<Rightarrow> int \<Rightarrow> addr \<Rightarrow> addr \<Rightarrow> prog" where
  "initFunction code input cd buf =
     Printf (''Hello there!We are going to test our Semaphores.'' @ newline @
             ''There are 4 possible tests right now:'' @ newline) []
     (Printf (''1)One consumer,one producer,looping until it is manageable.'' @ newline @
              ''2)Multiple consumers,multiple producers,working a fixed number of iterations.'' @ newline) []
     (Printf (''3)One consumer,multiple producers,working a fixed number of iterations.'' @ newline @
              ''4)Multiple consumers,one producer,working a fixed number of iterations.'' @ newline @
              ''Please insert the number of the test you want to execute: '') []
     (clear_cells buf [0..<nat BUFFER_LENGTH]
     (Store (cd + 8) buf (Store cd 0 (Store (cd + 4) 0 (init_tests code input cd)))))))"

text \<open>The functions that make calls with wrong numbers; \<open>fun\<close> is a keyword here.\<close>

definition show_result :: "int \<Rightarrow> prog \<Rightarrow> prog" where
  "show_result ret rest = Printf (''%d'' @ newline) [ret] rest"

definition fun_function :: "addr \<Rightarrow> prog" where
  "fun_function fd =
     Load fd (\<lambda>v. sem_post v (\<lambda>ret. show_result ret
     (Load fd (\<lambda>v. sem_wait v (\<lambda>ret. show_result ret
     (Load fd (\<lambda>v. sem_close v (\<lambda>ret. show_result ret
     (sem_post 7 (\<lambda>ret. show_result ret
     (sem_wait 7 (\<lambda>ret. show_result ret
     (sem_close 7 (\<lambda>ret. show_result ret
     (Sys DSOS_CALL_EXIT no_args (\<lambda>_. Return))))))))))))))))"

definition wrongInputs :: "(test_function \<Rightarrow> addr) \<Rightarrow> addr \<Rightarrow> prog" where
  "wrongInputs code ret_var =
     sem_post 6 (\<lambda>ret. show_result ret
    (sem_wait 6 (\<lambda>ret. show_result ret
    (sem_close 6 (\<lambda>ret. show_result ret
    (sem_open 7 1 (\<lambda>ret. Store ret_var ret (show_result ret
    (spawn (code Fun_function) ret_var
    (wait_any
    (Printf (''shutdown!'' @ newline) [] (shutdown Return))))))))))))"

text \<open>
  \<open>main\<close> prints a line and starts the system with \<open>initFunction\<close>; a first argument on the command
  line names the log file.
\<close>

definition test_main ::
    "layout \<Rightarrow> (test_function \<Rightarrow> addr) \<Rightarrow> int \<Rightarrow> printout \<times> (control \<times> kernel) res" where
  "test_main ly code argc =
     (printed (''DisastrOS starting!'' @ newline),
      disastrOS_start ly (code Init_function) NULL (argc > 1) boot_kernel)"

end
