(* ===== verification/Ownership_Steps.thy ===== *)
theory Ownership_Steps
  imports Sem_Runs
begin

text \<open>
  What each call of the test programs, and a tick, changes of the processes and of the semaphores
  they have open.
\<close>

section \<open>Calls that open and close nothing\<close>

lemma steady_frame:
  assumes "kinv k L" and "kinv k' L'" and "sem_part k' = sem_part k"
    and "\<And>q. q \<noteq> running k \<Longrightarrow> alive k' L' q = alive k L q"
    and "set (L' waiting_list) \<subseteq> insert (running k) (set (L waiting_list))"
    and "\<And>q. L' (PCB_sem_descriptors q) = L (PCB_sem_descriptors q)"
    and "L' semaphores_list = L semaphores_list"
  shows "steady k L k' L'"
  by (rule steadyI [OF assms(1,2,4-7)]) (use assms(3) in \<open>simp_all add: sem_part_def\<close>)

lemma woken_waiting: "kinv k L \<Longrightarrow> set (woken k L) \<subseteq> set (L waiting_list)"
  using timer_okD(1) [OF kinvD(4)] by (fastforce simp: woken_def dest: set_takeWhileD)

lemma schedule_steady:
  assumes inv: "kinv k L" and ok: "internal_schedule k = Inr k'"
  shows "\<exists>L'. steady k L k' L' \<and> alive k' L' (running k) \<and> running k \<notin> set (L' waiting_list)"
proof (rule schedule_exec [OF inv], goal_cases)
  case (1 k1)
  have me: "running k \<notin> set (after_wake k L waiting_list)"
    using sched_okD(4) [OF kinvD(2) [OF inv], of waiting_list] by (auto simp: after_wake_def)
  have same: "sem_part k' = sem_part k" using schedule_frame [OF ok] by (simp add: parts_eq)
  have k': "k' = k1" using 1(1) ok by simp
  have "steady k L k' (after_wake k L)"
    using 1 woken_waiting [OF inv] unfolding k'
    by (intro steady_frame [OF inv _ same [unfolded k']])
      (auto simp: alive_def after_wake_def)
  moreover have "alive k' (after_wake k L) (running k)" using 1(3) by (simp add: alive_def k')
  ultimately show ?case using me by blast
next
  case (2 r rs k1)
  have me: "running k \<notin> set (((after_wake k L)(ready_list := rs @ [running k])) waiting_list)"
    using sched_okD(4) [OF kinvD(2) [OF inv], of waiting_list] by (auto simp: after_wake_def)
  have same: "sem_part k' = sem_part k" using schedule_frame [OF ok] by (simp add: parts_eq)
  have k': "k' = k1" using 2(1) ok by simp
  have "set (after_wake k L ready_list) = insert r (set rs)" by (simp add: 2(2))
  then have r: "q \<in> set (woken k L) \<or> q \<in> set (L ready_list) \<longleftrightarrow> q = r \<or> q \<in> set rs" for q
    by (auto simp: after_wake_def)
  let ?L' = "(after_wake k L)(ready_list := rs @ [running k])"
  have "steady k L k' ?L'"
  proof (rule steady_frame [OF inv _ same])
    show "kinv k' ?L'" unfolding k' by (rule 2(3))
    show "alive k' ?L' q = alive k L q" if "q \<noteq> running k" for q
      using r [of q] woken_waiting [OF inv] that 2(4)
      by (auto simp: alive_def after_wake_def k')
  qed (use woken_waiting [OF inv] in \<open>auto simp: after_wake_def\<close>)
  moreover have "alive k' ?L' (running k)" by (simp add: alive_def)
  ultimately show ?case using me by blast
qed

lemma wait_steady:
  assumes inv: "kinv k L" and ok: "internal_wait k = Inr k'"
  shows "\<exists>L'. steady k L k' L' \<and> alive k' L' (running k)"
proof -
  have same: "sem_part k' = sem_part k" using wait_frame [OF ok] by simp
  show ?thesis
  proof (rule internal_wait_cases [OF inv refl refl refl], goal_cases)
    case 1
    then show ?case using ok steady_refl [OF inv] by (auto simp: alive_def)
  next
    case 2
    show ?case
    proof (rule wait_reap_exec [OF inv 2(1) refl 2(2), of "syscall_arg k 1"], goal_cases)
      case (1 k1)
      let ?x = "wait_choice k (int_of_long (syscall_arg k 0)) NULL (L (PCB_children (running k)))"
      let ?L' = "L(PCB_children (running k) := remove1 ?x (L (PCB_children (running k))),
         zombie_list := remove1 (pcb_ptrs k ?x) (L zombie_list))"
      have k': "k' = store_user (syscall_arg k 1) (return_value (pcbs k (pcb_ptrs k ?x)))
          (set_retvalue (pid (pcbs k (pcb_ptrs k ?x))) k1)"
        using 1(1) 2(3) ok by simp
      have inv': "kinv k' ?L'" unfolding k' using 1(2) by simp
      have "running k' = running k" unfolding k' using 1(3) by (simp add: store_user_def)
      then have "steady k L k' ?L'"
        by (intro steady_frame [OF inv inv' same]) (auto simp: alive_def)
      with \<open>running k' = running k\<close> show ?case by (auto simp: alive_def)
    qed
  next
    case 3
    show ?case
    proof (rule wait_block_exec [OF inv], goal_cases)
      case 1
      then show ?case using 3(3) ok by simp
    next
      case (2 r rs k1)
      then have k': "k' = k1" using 3(3) ok by simp
      have "steady k L k' (L(ready_list := rs, waiting_list := L waiting_list @ [running k]))"
        using 2(1,3,4) unfolding k'
        by (intro steady_frame [OF inv _ same [unfolded k']]) (auto simp: alive_def)
      moreover have "alive k' (L(ready_list := rs, waiting_list := L waiting_list @ [running k])) (running k)"
        by (simp add: alive_def)
      ultimately show ?case by blast
    qed
  qed
qed

lemma alive_live:
  assumes "kinv k L" and "alive k L q"
  shows "q \<in> pools_live (pools k) pcb_pool" "q \<notin> set (L zombie_list)"
proof -
  note K = kinvD [OF assms(1)]
  note S = sched_okD [OF K(2)]
  show "q \<in> pools_live (pools k) pcb_pool"
    using assms(2) S(1) typed_listsD [OF K(9), of q] unfolding alive_def by fastforce
  show "q \<notin> set (L zombie_list)"
    using assms(2) S(4) [of zombie_list] list_repD(2) [OF K(7)] unfolding alive_def by blast
qed

lemma exit_steady:
  assumes inv: "kinv k L" and ok: "internal_exit k = Inr k'"
  shows "\<exists>L'. steady k L k' L' \<and> \<not> alive k' L' (running k)"
proof -
  have same: "sem_part k' = sem_part k" by (rule exit_frame(1) [OF ok])
  have me: "running k \<noteq> init_pcb k" using internal_exit_init [OF inv] ok by auto
  let ?me = "running k" and ?par = "parent (pcbs k (running k))"
  have par: "?par \<noteq> NULL" using internal_exit_orphan [OF inv me] ok by auto
  obtain k4 L4 g where
    4: "kinv_idle k4 L4"
      "internal_exit k = (if awaited_by_parent k ?me then exit_to_parent k4 ?me else exit_to_next k4)"
      "L4 = L(PCB_children ?me := [],
         PCB_children (init_pcb k) := L (PCB_children (init_pcb k)) @ L (PCB_children ?me),
         zombie_list := L zombie_list @ [?me])"
      "pcbs k4 = (\<lambda>p. (pcbs k p)\<lparr>signals := g p\<rparr>)
         (?me := (pcbs k ?me)\<lparr>signals := g ?me, return_value := int_of_long (syscall_arg k 0),
            status := Zombie\<rparr>)"
    by (rule exit_prefix_exec [OF inv refl me refl refl par]) blast
  show ?thesis
  proof (cases "awaited_by_parent k ?me")
    case True
    then have w: "status (pcbs k ?par) = Waiting" "syscall_num (pcbs k ?par) = DSOS_CALL_WAIT"
      by (simp_all add: awaited_by_parent_def Let_def)
    then have p: "?me \<in> set (L4 zombie_list)" "?par = parent (pcbs k4 ?me)"
      "?par \<in> set (L4 waiting_list)" "syscall_num (pcbs k4 ?par) = DSOS_CALL_WAIT"
      using awaited_facts [OF inv w(1)] by (simp_all add: 4(3,4))
    have run: "exit_to_parent k4 ?me = Inr k'" using 4(2) True ok by simp
    show ?thesis
    proof (rule exit_to_parent_exec [OF 4(1) p], goal_cases)
      case 1
      then show ?case using run by simp
    next
      case (2 x k1 L1)
      then have k': "k' = k1" using run by simp
      have "steady k L k' L1"
        using 2(4,5,7,8,16,17) p(3) unfolding k'
        by (intro steady_frame [OF inv _ same [unfolded k']])
          (auto simp: alive_def 4(3) dest: in_set_remove1D)
      moreover have "\<not> alive k' L1 ?me"
        using alive_live(1) [of k' L1 ?me] 2(4,12) by (auto simp: k')
      ultimately show ?case by blast
    qed
  next
    case False
    then have run: "exit_to_next k4 = Inr k'" using 4(2) ok by simp
    show ?thesis
    proof (rule exit_to_next_exec [OF 4(1)], goal_cases)
      case 1
      then show ?case using run by simp
    next
      case (2 r rs k1)
      then have k': "k' = k1" using run by simp
      have "steady k L k' (L4(ready_list := rs))"
        using 2(1,3,4) unfolding k'
        by (intro steady_frame [OF inv _ same [unfolded k']]) (auto simp: alive_def 4(3))
      moreover have "\<not> alive k' (L4(ready_list := rs)) ?me"
        using alive_live(2) [of k' "L4(ready_list := rs)" ?me] 2(4) by (auto simp: k' 4(3))
      ultimately show ?case by blast
    qed
  qed
qed

section \<open>A new process\<close>

definition makes :: "kernel \<Rightarrow> (hloc \<Rightarrow> addr list) \<Rightarrow> addr \<Rightarrow> kernel \<Rightarrow> (hloc \<Rightarrow> addr list) \<Rightarrow> bool" where
  "makes k L p k' L' \<longleftrightarrow> kinv k' L' \<and> running k' = running k \<and> \<not> alive k L p \<and>
     (\<forall>q. alive k' L' q \<longleftrightarrow> q = p \<or> alive k L q) \<and> L' waiting_list = L waiting_list \<and>
     opened k' L' p = {} \<and> (\<forall>q. q \<noteq> p \<longrightarrow> opened k' L' q = opened k L q) \<and>
     L' semaphores_list = L semaphores_list \<and> semaphores k' = semaphores k \<and>
     cpu_state (pcbs k' p) = Fresh_context (syscall_arg k 0) (syscall_arg k 1) \<and>
     (\<forall>q. q \<noteq> p \<longrightarrow> cpu_state (pcbs k' q) = cpu_state (pcbs k q))"

lemma spawn_makes:
  assumes inv: "kinv k L" and ok: "internal_spawn k = Inr k'"
  shows "\<exists>p L'. makes k L p k' L'"
proof (rule make_child_exec [OF inv], goal_cases)
  case 1
  then show ?case using ok by simp
next
  case (2 p x k1 L1)
  let ?k6 = "set_retvalue (pid (pcbs k1 p)) k1"
  have k': "k' = upd_pcb p (\<lambda>q. q\<lparr>cpu_state := Fresh_context (syscall_arg ?k6 0) (syscall_arg ?k6 1)\<rparr>) ?k6"
    using 2(2) ok by (simp add: Let_def)
  have arg: "syscall_arg ?k6 i = syscall_arg k i" for i
    using 2(8) [of "running k"] 2(13,15) by (auto simp: syscall_arg_def)
  have same: "sem_part k' = sem_part k" by (rule spawn_frame(1) [OF ok])
  have inv': "kinv k' L1" using 2(3) by (simp add: k' kinv_irrelevant)
  have new: "\<not> alive k L p" using alive_live(1) [OF inv] 2(4) by blast
  have ops: "opened k' L1 q = opened k L q" if "q \<noteq> p" for q
    by (rule opened_cong [OF inv]) (use same that in \<open>simp_all add: 2(6) sem_part_def\<close>)
  have "makes k L p k' L1"
    unfolding makes_def
  proof (intro conjI allI impI)
    show "cpu_state (pcbs k' p) = Fresh_context (syscall_arg k 0) (syscall_arg k 1)"
      by (simp add: k' arg)
    show "cpu_state (pcbs k' q) = cpu_state (pcbs k q)" if "q \<noteq> p" for q
      using that 2(8) by (simp add: k')
    show "alive k' L1 q \<longleftrightarrow> q = p \<or> alive k L q" for q
      using 2(13) by (auto simp: alive_def k' 2(6))
  qed (use inv' new ops same 2(13) in \<open>simp_all add: k' 2(6) opened_def sem_part_def\<close>)
  then show ?case by blast
qed

section \<open>Opening and closing\<close>

definition open_errors :: "int set" where
  "open_errors = {DSOS_ECREATEFD, DSOS_ECREATESEM, DSOS_ECREATEPTR}"

definition opens :: "int \<Rightarrow> kernel \<Rightarrow> (hloc \<Rightarrow> addr list) \<Rightarrow> kernel \<Rightarrow> (hloc \<Rightarrow> addr list) \<Rightarrow> bool" where
  "opens n k L k' L' \<longleftrightarrow> kinv k' L' \<and> running k' = running k \<and>
     L' ready_list = L ready_list \<and> L' waiting_list = L waiting_list \<and>
     (\<forall>q. q \<noteq> running k \<longrightarrow> opened k' L' q = opened k L q) \<and>
     (let r = syscall_retvalue (pcbs k' (running k)); old = opened k L (running k);
          new = opened k' L' (running k) in
      r \<in> open_errors \<and> new = old \<or>
      0 \<le> r \<and> (in_int_range r \<or> (r, n) \<in> old) \<and> new = insert (r, n) old)"

lemma kept_opened:
  assumes inv: "kinv k L" and "kept k k'" and "L' (PCB_sem_descriptors q) = L (PCB_sem_descriptors q)"
  shows "opened k' L' q = opened k L q"
proof (rule opened_cong [OF inv])
  show "L' (PCB_sem_descriptors q) = L (PCB_sem_descriptors q)" by (rule assms(3))
  show "sem_descriptors k' d = sem_descriptors k d" if "d \<in> set (L (PCB_sem_descriptors q))" for d
    using assms(2) typed_listsD [OF kinvD(9) [OF inv] that] by (simp add: kept_def)
  show "sem_id (semaphores k' s) = sem_id (semaphores k s)" if "s \<in> set (L semaphores_list)" for s
    using assms(2) typed_listsD [OF kinvD(9) [OF inv] that] by (simp add: kept_def)
qed

lemma semOpen_descriptor_opens:
  assumes inv: "kinv k L" and s: "s \<in> set (L semaphores_list)" "sem_id (semaphores k s) = n"
    and new: "\<And>e. e \<in> set (L (PCB_sem_descriptors (running k))) \<Longrightarrow>
      sd_semaphore (sem_descriptors k e) \<noteq> s"
    and ok: "semOpen_descriptor k s = Inr k'"
  shows "\<exists>L'. opens n k L k' L' \<and> L' semaphores_list = L semaphores_list \<and>
    (\<forall>u. L' (Semaphore_waiting u) = L (Semaphore_waiting u))"
proof -
  have "kept k k" using kinvD(8) [OF inv] by (simp add: kept_def)
  then have kept: "kept k k'" using kept_semOpen_descriptor [OF ok] by blast
  show ?thesis
  proof (rule semOpen_descriptor_exec [OF inv s(1) new refl], goal_cases)
    case (1 e)
    then show ?case by simp
  next
    case (2 c k1)
    then have k': "k' = set_retvalue c k1" using ok by simp
    have "opened k' L q = opened k L q" for q by (rule kept_opened [OF inv kept]) simp
    then have "opens n k L k' L"
      using 2 by (auto simp: opens_def k' open_errors_def)
    then show ?case by blast
  next
    case 3
    then show ?case using ok by simp
  next
    case (4 d x k1)
    let ?f = "last_sem_fd (pcbs k (running k))"
    let ?L' = "L(PCB_sem_descriptors (running k) := L (PCB_sem_descriptors (running k)) @ [d],
         Semaphore_descriptors s := L (Semaphore_descriptors s) @ [x])"
    have k': "k' = set_retvalue ?f k1" using 4(1) ok by simp
    have inv': "kinv k' ?L'" using 4(2) by (simp add: k')
    have others: "opened k' ?L' q = opened k L q" if "q \<noteq> running k" for q
      by (rule kept_opened [OF inv kept]) (use that in simp)
    have mine: "opened k' ?L' (running k) = insert (?f, n) (opened k L (running k))"
    proof -
      have "opened k' L (running k) = opened k L (running k)"
        by (rule kept_opened [OF inv kept]) simp
      moreover have "opened k' ?L' (running k) = insert (?f, n) (opened k' L (running k))"
        using 4(3,4,6) s(2) by (simp add: opened_def k')
      ultimately show ?thesis by simp
    qed
    have "0 \<le> ?f" using sem_okD(3) [OF kinvD(5) [OF inv]] by (simp add: sem_fds_ok_def)
    with 4(8) have range: "0 \<le> ?f" "in_int_range ?f" by (simp_all add: in_int_range_def)
    have "opens n k L k' ?L'"
      using inv' others mine range 4(5) by (simp add: opens_def k')
    then show ?case by (intro exI [of _ ?L']) simp
  qed
qed

lemma semOpen_opens_number:
  assumes inv: "kinv k L" and ok: "internal_semOpen k = Inr k'"
    and n: "n = int_of_long (syscall_arg k 0)" and v: "v = int_of_long (syscall_arg k 1)"
  shows "\<exists>L'. opens n k L k' L' \<and>
    (\<forall>u \<in> set (L' semaphores_list).
       u \<in> set (L semaphores_list) \<and> semaphores k' u = semaphores k u \<or>
       sem_view k' L' u = \<lparr>cs_count = v, cs_queue = []\<rparr> \<and> sem_id (semaphores k' u) = n \<and>
       (\<forall>w \<in> set (L semaphores_list). sem_id (semaphores k w) \<noteq> n))"
proof -
  have live: "u \<in> pools_live (pools k) semaphore_pool" if "u \<in> set (L semaphores_list)" for u
    using typed_listsD [OF kinvD(9) [OF inv] that] by simp
  have kept: "kept k k'" by (rule kept_semOpen [OF kinvD(8) [OF inv] ok])
  have old: "semaphores k' u = semaphores k u" if "u \<in> set (L semaphores_list)" for u
    using kept live [OF that] by (simp add: kept_def)
  show ?thesis
  proof (rule semOpen_cases [OF inv n v], goal_cases)
    case (1 d)
    have k': "k' = set_retvalue (sd_fd (sem_descriptors k d)) k" using 1(3) ok by simp
    have m: "(sd_fd (sem_descriptors k d), n) \<in> opened k L (running k)"
      using 1(1,2) by (auto simp: opened_def)
    have "opened k' L q = opened k L q" for q by (simp add: k' opened_def)
    then have "opens n k L k' L"
      using inv m opened_unique(3) [OF inv m] by (simp add: opens_def k' Let_def insert_absorb)
    then show ?case using old by blast
  next
    case (2 s)
    have "semOpen_descriptor k s = Inr k'" using 2(4) ok by simp
    from semOpen_descriptor_opens [OF inv 2(1,2,3) this] obtain L' where
      L': "opens n k L k' L'" "L' semaphores_list = L semaphores_list" by blast
    then show ?case using old by auto
  next
    case 3
    then have k': "k' = set_retvalue DSOS_ECREATESEM k" using ok by simp
    have "opened k' L q = opened k L q" for q by (simp add: k' opened_def)
    then have "opens n k L k' L" using inv by (simp add: opens_def k' open_errors_def)
    then show ?case using old by blast
  next
    case (4 s k1 L1)
    have run: "semOpen_descriptor k1 s = Inr k'" using 4(8) ok by simp
    have s: "s \<in> set (L1 semaphores_list)" "sem_id (semaphores k1 s) = n" by (simp_all add: 4(1,3))
    have new: "sd_semaphore (sem_descriptors k1 e) \<noteq> s"
      if "e \<in> set (L1 (PCB_sem_descriptors (running k1)))" for e
      using that 4(1,4,6,7) by simp
    from semOpen_descriptor_opens [OF 4(2) s new run] obtain L' where
      L': "opens n k1 L1 k' L'" "L' semaphores_list = L1 semaphores_list"
        "\<And>u. L' (Semaphore_waiting u) = L1 (Semaphore_waiting u)" by blast
    have "opened k1 L1 q = opened k L q" for q
      by (rule opened_cong [OF inv]) (use 4(10) in \<open>auto simp: 4(1,3,6)\<close>)
    then have "opens n k L k' L'"
      using L'(1) 4(4,5) by (simp add: opens_def 4(1))
    moreover have "sem_view k' L' s = \<lparr>cs_count = v, cs_queue = []\<rparr> \<and> sem_id (semaphores k' s) = n"
    proof -
      have "L (Semaphore_waiting s) = []"
      proof (rule ccontr)
        assume "L (Semaphore_waiting s) \<noteq> []"
        then obtain y where "y \<in> set (L (Semaphore_waiting s))" by (cases "L (Semaphore_waiting s)") auto
        note W = sem_waitingD [OF kinvD(5) [OF inv] this refl refl]
        from sem_descriptorD(1) [OF kinvD(5) [OF inv] W(1) refl] W(3) 4(10) show False by simp
      qed
      moreover have "kept k1 k1" using kinvD(8) [OF 4(2)] by (simp add: kept_def)
      then have "kept k1 k'" using kept_semOpen_descriptor [OF run] by blast
      then have "semaphores k' s = semaphores k1 s"
        using typed_listsD [OF kinvD(9) [OF 4(2)] s(1)] by (simp add: kept_def)
      ultimately show ?thesis by (simp add: sem_view_def L'(3) 4(1,3))
    qed
    ultimately show ?case using old 4(9) L'(2) by (intro exI [of _ L']) (auto simp: 4(1))
  qed
qed

lemma semClose_closes_number:
  assumes inv: "kinv k L" and ok: "internal_semClose k = Inr k'"
    and fd: "fd = int_of_long (syscall_arg k 0)"
  shows "\<exists>L'. kinv k' L' \<and> running k' = running k \<and> L' ready_list = L ready_list \<and>
    L' waiting_list = L waiting_list \<and> (\<forall>q. q \<noteq> running k \<longrightarrow> opened k' L' q = opened k L q) \<and>
    opened k' L' (running k) = opened k L (running k) - {fd} \<times> UNIV \<and>
    set (L' semaphores_list) \<subseteq> set (L semaphores_list) \<and> semaphores k' = semaphores k"
proof (cases "\<exists>d \<in> set (L (PCB_sem_descriptors (running k))). fd = sd_fd (sem_descriptors k d)")
  case False
  then have "\<forall>d \<in> set (L (PCB_sem_descriptors (running k))).
      sd_fd (sem_descriptors k d) \<noteq> int_of_long (syscall_arg k 0)" by (auto simp: fd)
  from sem_missing(3) [OF inv this] ok have k': "k' = set_retvalue DSOS_ENOTMYSEM k" by simp
  have "opened k L (running k) - {fd} \<times> UNIV = opened k L (running k)"
    using False by (auto simp: opened_def)
  then show ?thesis using inv by (intro exI [of _ L]) (simp add: k' opened_def)
next
  case True
  then obtain d where d: "d \<in> set (L (PCB_sem_descriptors (running k)))"
    and f: "int_of_long (syscall_arg k 0) = sd_fd (sem_descriptors k d)" by (auto simp: fd)
  let ?s = "sd_semaphore (sem_descriptors k d)" and ?x = "sd_ptr (sem_descriptors k d)"
  have "sem_descriptors k' = sem_descriptors k"
    using call_frames(8) [OF ok] by (simp add: parts_eq sem_part_def)
  note same = this
  show ?thesis
  proof (rule semClose_exec [OF inv d f refl refl], goal_cases)
    case (1 k1)
    then have k': "k' = set_retvalue 0 k1" using ok by simp
    have data: "sem_descriptors k1 = sem_descriptors k" "semaphores k1 = semaphores k"
      using same 1(3) by (simp_all add: k')
    let ?L' = "L(PCB_sem_descriptors (running k) := remove1 d (L (PCB_sem_descriptors (running k))),
      Semaphore_descriptors ?s := remove1 ?x (L (Semaphore_descriptors ?s)),
      semaphores_list := (if remove1 ?x (L (Semaphore_descriptors ?s)) = []
                          then remove1 ?s (L semaphores_list) else L semaphores_list))"
    have dist: "distinct (L (PCB_sem_descriptors (running k)))"
      by (rule list_repD(3) [OF kinvD(7) [OF inv]])
    have "opened k' ?L' (running k) = opened k L (running k) - {fd} \<times> UNIV"
      using dist sem_fdD(1) [OF kinvD(5) [OF inv] _ d] f
      by (auto simp: opened_def k' data fd)
    then show ?case
      using 1 by (intro exI [of _ ?L']) (auto simp: k' opened_def data dest: in_set_remove1D)
  qed
qed

end
