(* ===== verification/Test_Theorems.thy ===== *)
theory Test_Theorems
  imports Test_Programs Ownership_Steps
begin

text \<open>
  What the test programs do when a semaphore could not be opened.
\<close>

section \<open>The calls of a program\<close>

text \<open>
  The calls a program makes, each with all its arguments, when a call is answered by \<open>ans\<close>; the
  other processes are not running.
\<close>

primrec calls_of ::
    "prog \<Rightarrow> (int \<Rightarrow> int list \<Rightarrow> int) \<Rightarrow> int \<Rightarrow> (addr \<Rightarrow> int) \<Rightarrow> (int \<times> int list) list" where
  "calls_of (Sys n args f) ans p m =
     (n, map args [0..<syscall_numarg n]) #
       (if n = DSOS_CALL_EXIT then [] else calls_of (f (ans n (map args [0..<syscall_numarg n]))) ans p m)"
| "calls_of (Get_pid f) ans p m = calls_of (f p) ans p m"
| "calls_of (Load a f) ans p m = calls_of (f (m a)) ans p m"
| "calls_of (Store a v q) ans p m = calls_of q ans p (m(a := v))"
| "calls_of (Printf s vs q) ans p m = calls_of q ans p m"
| "calls_of (Print_status q) ans p m = calls_of q ans p m"
| "calls_of Return ans p m = []"

lemma numbers_of_args:
  "map (no_args(0 := n, 1 := v)) [0..<syscall_numarg DSOS_CALL_SEMOPEN] = [n, v]"
  "map (no_args(0 := n)) [0..<syscall_numarg DSOS_CALL_SEMWAIT] = [n]"
  "map (no_args(0 := n)) [0..<syscall_numarg DSOS_CALL_EXIT] = [n]"
  by (simp_all add: syscall_numarg_def call_numbers upt_rec)

lemma calls_of_sems [simp]:
  "calls_of (sem_open n v f) ans p m =
     (DSOS_CALL_SEMOPEN, [n, v]) # calls_of (f (ans DSOS_CALL_SEMOPEN [n, v])) ans p m"
  "calls_of (sem_wait n f) ans p m =
     (DSOS_CALL_SEMWAIT, [n]) # calls_of (f (ans DSOS_CALL_SEMWAIT [n])) ans p m"
  "calls_of (exit_pid q) ans p m = [(DSOS_CALL_EXIT, [p + 1])]"
  unfolding sem_open_def sem_wait_def exit_pid_def calls_of.simps numbers_of_args
  by (simp_all add: call_numbers)

lemma calls_of_ERROR_HELPER [simp]:
  "calls_of (ERROR_HELPER c msg q) ans p m =
     (if c then [(DSOS_CALL_EXIT, [p + 1])] else calls_of q ans p m)"
  by (simp add: ERROR_HELPER_def)


section \<open>Semaphores that could not be opened\<close>




end
