(* ===== verification/Machine.thy ===== *)
theory Machine
  imports Programs
begin

text \<open>
  The whole machine: the kernel and the programs of the processes. The process that is running
  makes the actions of its program one after another; between any two of them the timer may tick.
  A system call and a tick save the context of the process, and the kernel resumes a process:
  it starts a fresh context at its function, or goes on where the process was, in its program
  or inside \<open>disastrOS_syscall\<close>, which then returns the \<open>syscall_retvalue\<close> of the process.

  The memory the programs share is the \<open>user_mem\<close> of the kernel. What is at the address of a
  function is a parameter: \<open>code f a\<close> is the program of the function at \<open>f\<close> with the argument \<open>a\<close>.
\<close>

text \<open>Where a process is: at a point of its program, or inside a call.\<close>

datatype thread = At prog | In_call "int \<Rightarrow> prog"

record machine =
  kern :: kernel
  threads :: "addr \<Rightarrow> thread"

text \<open>What is left of a process when its context is resumed.\<close>

fun resumed :: "thread \<Rightarrow> int \<Rightarrow> thread" where
  "resumed (At p) v = At p"
| "resumed (In_call f) v = At (f v)"

text \<open>
  The end of a trap or of the timer interrupt: \<open>setcontext(&running->cpu_state)\<close>. A call that
  returns without a trap goes on with its caller. \<open>None\<close> is the end of the run: the system has
  exited, or the context of the process was never made.
\<close>

definition resume :: "(addr \<Rightarrow> addr \<Rightarrow> prog) \<Rightarrow> control \<Rightarrow> kernel \<Rightarrow> (addr \<Rightarrow> thread) \<Rightarrow> machine option" where
  "resume code c k ts =
     (case c of
        Resume q \<Rightarrow>
          (case cpu_state (pcbs k q) of
             Fresh_context f a \<Rightarrow> Some \<lparr>kern = k, threads = ts(q := At (code f a))\<rparr>
           | Saved_context \<Rightarrow>
               Some \<lparr>kern = k, threads = ts(q := resumed (ts q) (syscall_retvalue (pcbs k q)))\<rparr>
           | Zero_context \<Rightarrow> None)
      | Returned v \<Rightarrow> Some \<lparr>kern = k, threads = ts(running k := resumed (ts (running k)) v)\<rparr>
      | Exited \<Rightarrow> None)"

text \<open>The running process goes on with its program \<open>p\<close>.\<close>

definition goes_on :: "machine \<Rightarrow> prog \<Rightarrow> machine" where
  "goes_on m p = m\<lparr>threads := (threads m)(running (kern m) := At p)\<rparr>"

definition poke :: "addr \<Rightarrow> int \<Rightarrow> machine \<Rightarrow> machine" where
  "poke a v m = m\<lparr>kern := (kern m)\<lparr>user_mem := (user_mem (kern m))(a := v)\<rparr>\<rparr>"

text \<open>
  One action of the running process. A function that returns leaves by the \<open>uc_link\<close> of its
  context, in the main context.
\<close>

fun act :: "(addr \<Rightarrow> addr \<Rightarrow> prog) \<Rightarrow> machine \<Rightarrow> prog \<Rightarrow> machine option" where
  "act code m (Get_pid f) = Some (goes_on m (f (pid (pcbs (kern m) (running (kern m))))))"
| "act code m (Load a f) = Some (goes_on m (f (user_mem (kern m) a)))"
| "act code m (Store a v p) = Some (goes_on (poke a v m) p)"
| "act code m (Printf s vs p) = Some (goes_on m p)"
| "act code m (Print_status p) =
     (case disastrOS_printStatus (kern m) of Inl e \<Rightarrow> None | Inr out \<Rightarrow> Some (goes_on m p))"
| "act code m (Sys n args f) =
     (case disastrOS_syscall (kern m) n args of
        Inl e \<Rightarrow> None
      | Inr (c, k) \<Rightarrow> resume code c k ((threads m)(running (kern m) := In_call f)))"
| "act code m Return =
     (case main_context_resumed (kern m) of
        Inl e \<Rightarrow> None
      | Inr (c, k) \<Rightarrow> resume code c k (threads m))"

datatype occurrence = Action | Timer_tick

definition machine_step :: "(addr \<Rightarrow> addr \<Rightarrow> prog) \<Rightarrow> machine \<Rightarrow> occurrence \<Rightarrow> machine option" where
  "machine_step code m e =
     (case e of
        Action \<Rightarrow>
          (case threads m (running (kern m)) of At p \<Rightarrow> act code m p | In_call f \<Rightarrow> None)
      | Timer_tick \<Rightarrow>
          (case kernel_step (kern m) Tick of
             Inl e \<Rightarrow> None
           | Inr (c, k) \<Rightarrow> resume code c k (threads m)))"

inductive machine_run :: "(addr \<Rightarrow> addr \<Rightarrow> prog) \<Rightarrow> machine \<Rightarrow> occurrence list \<Rightarrow> machine \<Rightarrow> bool"
  for code :: "addr \<Rightarrow> addr \<Rightarrow> prog"
where
  machine_nil: "machine_run code m [] m"
| machine_cons: "machine_step code m e = Some m1 \<Longrightarrow> machine_run code m1 es m2 \<Longrightarrow>
    machine_run code m (e # es) m2"

text \<open>The runs in which each occurrence is one that \<open>P\<close> allows.\<close>

inductive machine_run_while ::
    "(machine \<Rightarrow> occurrence \<Rightarrow> bool) \<Rightarrow> (addr \<Rightarrow> addr \<Rightarrow> prog) \<Rightarrow> machine \<Rightarrow> occurrence list \<Rightarrow> machine \<Rightarrow> bool"
  for P :: "machine \<Rightarrow> occurrence \<Rightarrow> bool" and code :: "addr \<Rightarrow> addr \<Rightarrow> prog"
where
  while_nil: "machine_run_while P code m [] m"
| while_cons: "P m e \<Longrightarrow> machine_step code m e = Some m1 \<Longrightarrow> machine_run_while P code m1 es m2 \<Longrightarrow>
    machine_run_while P code m (e # es) m2"

lemma machine_run_while_all:
  "machine_run code m es m' \<Longrightarrow> machine_run_while (\<lambda>_ _. True) code m es m'"
  by (induction rule: machine_run.induct) (auto intro: machine_run_while.intros)

text \<open>The machine after \<open>main\<close> has started the system: the first process is at its function.\<close>

definition boot_machine ::
    "(addr \<Rightarrow> addr \<Rightarrow> prog) \<Rightarrow> (control \<times> kernel) res \<Rightarrow> machine option" where
  "boot_machine code r =
     (case r of Inl e \<Rightarrow> None | Inr (c, k) \<Rightarrow> resume code c k (\<lambda>_. At Return))"

section \<open>Invariants of the machine\<close>

lemma machine_invariant:
  assumes "\<And>m e m'. I m \<Longrightarrow> machine_step code m e = Some m' \<Longrightarrow> I m'"
  shows "machine_run code m es m' \<Longrightarrow> I m \<Longrightarrow> I m'"
proof (induction rule: machine_run.induct)
  case (machine_cons m e m1 es m2)
  from assms [OF machine_cons.prems machine_cons.hyps(1)] show ?case by (rule machine_cons.IH)
qed

text \<open>
  A step of the machine is a private action of the running process, or an event of the kernel
  after which a process is resumed.
\<close>

lemma act_cases:
  assumes "act code m p = Some m'"
  obtains (pid) f where "p = Get_pid f" "m' = goes_on m (f (pid (pcbs (kern m) (running (kern m)))))"
  | (load) a f where "p = Load a f" "m' = goes_on m (f (user_mem (kern m) a))"
  | (store) a v r where "p = Store a v r" "m' = goes_on (poke a v m) r"
  | (out) s vs r where "p = Printf s vs r" "m' = goes_on m r"
  | (status) r where "p = Print_status r" "m' = goes_on m r"
  | (call) n args f c k where "p = Sys n args f" "disastrOS_syscall (kern m) n args = Inr (c, k)"
      "resume code c k ((threads m)(running (kern m) := In_call f)) = Some m'"
  | (return) c k where "p = Return" "main_context_resumed (kern m) = Inr (c, k)"
      "resume code c k (threads m) = Some m'"
  using assms by (cases p) (auto split: sum.splits prod.splits)

lemma machine_step_cases:
  assumes "machine_step code m e = Some m'"
  obtains (tick) c k where "e = Timer_tick" "kernel_step (kern m) Tick = Inr (c, k)"
      "resume code c k (threads m) = Some m'"
  | (action) p where "e = Action" "threads m (running (kern m)) = At p" "act code m p = Some m'"
  using assms by (auto simp: machine_step_def split: occurrence.splits sum.splits prod.splits thread.splits)

lemma resume_cases:
  assumes "resume code c k ts = Some m'"
  obtains (fresh) q f a where "c = Resume q" "cpu_state (pcbs k q) = Fresh_context f a"
      "m' = \<lparr>kern = k, threads = ts(q := At (code f a))\<rparr>"
  | (saved) q where "c = Resume q" "cpu_state (pcbs k q) = Saved_context"
      "m' = \<lparr>kern = k, threads = ts(q := resumed (ts q) (syscall_retvalue (pcbs k q)))\<rparr>"
  | (returned) v where "c = Returned v"
      "m' = \<lparr>kern = k, threads = ts(running k := resumed (ts (running k)) v)\<rparr>"
  using assms by (auto simp: resume_def split: control.splits ucontext.splits)

lemma resume_mem: "resume code c k ts = Some m' \<Longrightarrow> kern m' = k"
  by (auto elim: resume_cases)

end
