(* ===== verification/Contexts.thy ===== *)
theory Contexts
  imports Frames Machine
begin

text \<open>
  What the kernel does to the contexts and to the memory of the programs: a fresh context is the one
  the system was started with or the one of a \<open>spawn\<close>, and the kernel writes to the memory of a
  program only the result a \<open>wait\<close> has asked for. From it: programs that keep to a discipline on
  the shared memory do so however the machine interleaves them.
\<close>

section \<open>The contexts the kernel makes\<close>

definition ctx_ok :: "(addr \<Rightarrow> addr \<Rightarrow> bool) \<Rightarrow> kernel \<Rightarrow> bool" where
  "ctx_ok St k \<longleftrightarrow> no_results k \<and> St (start_f k) (start_args k) \<and>
     (\<forall>q f a. cpu_state (pcbs k q) = Fresh_context f a \<longrightarrow> St f a)"

lemma ctx_ok_cong: "ctx_part k' = ctx_part k \<Longrightarrow> ctx_ok St k' = ctx_ok St k"
  unfolding ctx_ok_def no_results_cong by (simp add: ctx_part_def fun_eq_iff)

lemma ctx_ok_fresh:
  assumes "ctx_ok St k" and "St f a"
    and "ctx_part k' = ctx_part k \<or> ctx_part k' = ctx_part (upd_pcb p (\<lambda>x. x\<lparr>cpu_state := Fresh_context f a\<rparr>) k)"
  shows "ctx_ok St k'"
proof -
  have "ctx_ok St (upd_pcb p (\<lambda>x. x\<lparr>cpu_state := Fresh_context f a\<rparr>) k)"
    using assms(1,2) by (auto simp: ctx_ok_def no_results_def)
  then show ?thesis using assms(1,3) ctx_ok_cong by blast
qed

lemma ctx_ok_other:
  "ctx_ok St k \<Longrightarrow> ctx_part k' = ctx_part k \<and> user_mem k' = user_mem k \<Longrightarrow>
     ctx_ok St k' \<and> user_mem k' = user_mem k"
  using ctx_ok_cong by blast

lemma ctx_main_context:
  assumes "ctx_ok St k" and "main_context_resumed k = Inr (c, k')"
  shows "ctx_ok St k' \<and> user_mem k' = user_mem k"
proof -
  have "St (start_f k) (start_args k)" using assms(1) by (simp add: ctx_ok_def)
  with main_context_frame(2,3) [OF assms(2)] ctx_ok_fresh [OF assms(1)] show ?thesis by blast
qed

text \<open>What a program may ask for.\<close>

definition call_ok :: "(addr \<Rightarrow> addr \<Rightarrow> bool) \<Rightarrow> int \<Rightarrow> (nat \<Rightarrow> int) \<Rightarrow> bool" where
  "call_ok St n args \<longleftrightarrow> (n = DSOS_CALL_WAIT \<longrightarrow> args 1 = NULL) \<and>
     (n = DSOS_CALL_SPAWN \<longrightarrow> St (args 0) (args 1))"

lemma ctx_handler:
  assumes ok: "ctx_ok St k"
    and call: "call_ok St (syscall_num (pcbs k (running k))) (syscall_args (pcbs k (running k)))"
    and handler: "syscall_vector (syscall_num (pcbs k (running k))) = Some h"
    and run: "h k = Inr k'" and up: "shutdown_now k' = 0"
  shows "ctx_ok St k' \<and> user_mem k' = user_mem k"
proof -
  let ?n = "syscall_num (pcbs k (running k))"
  consider (spawn) "?n = DSOS_CALL_SPAWN" "h = internal_spawn"
    | (wait) "?n = DSOS_CALL_WAIT" "h = internal_wait" | (exit) "h = internal_exit"
    | (sem_wait) "h = internal_semWait"
    | (sem) "h = internal_semOpen \<or> h = internal_semPost"
    | (other) "h \<in> {internal_preempt, internal_fork, internal_sleep, internal_openResource,
        internal_closeResource, internal_destroyResource, internal_shutdown, internal_semClose}"
    using handler unfolding syscall_vector_def
    by (simp split: if_splits)
  then show ?thesis
  proof cases
    case spawn
    have "St (syscall_arg k 0) (syscall_arg k 1)"
      using call spawn(1) by (simp add: call_ok_def syscall_arg_def)
    with spawn_frame [of k k'] run spawn(2) ctx_ok_fresh [OF ok] show ?thesis by blast
  next
    case wait
    have "syscall_arg k 1 = NULL" using call wait(1) by (simp add: call_ok_def syscall_arg_def)
    then show ?thesis using run wait(2) wait_frame [of k k'] ctx_ok_other [OF ok] by blast
  next
    case exit
    have "no_results k" using ok by (simp add: ctx_ok_def)
    then show ?thesis using run exit exit_frame [of k k'] ctx_ok_other [OF ok] by blast
  next
    case sem_wait
    with semWait_frame [of k k'] run up have "proc_part k' = proc_part k" by blast
    then show ?thesis by (intro ctx_ok_other [OF ok]) (simp add: proc_part_eq)
  next
    case sem
    with semOpen_frame(2) [of k k'] semPost_frame [of k k'] run have "proc_part k' = proc_part k"
      by blast
    then show ?thesis by (intro ctx_ok_other [OF ok]) (simp add: proc_part_eq)
  next
    case other
    with call_frames [of k k'] run have "parts k' = parts k" by blast
    then show ?thesis by (intro ctx_ok_other [OF ok]) (simp add: parts_eq)
  qed
qed

lemma ctx_trap:
  assumes ok: "ctx_ok St k"
    and call: "call_ok St (syscall_num (pcbs k (running k))) (syscall_args (pcbs k (running k)))"
    and run: "disastrOS_trap k = Inr (c, k')" and c: "c \<noteq> Exited"
  shows "ctx_ok St k' \<and> user_mem k' = user_mem k"
proof -
  let ?n = "syscall_num (pcbs k (running k))"
  obtain k1 where
    1: "(if ?n < 0 \<or> DSOS_MAX_SYSCALLS < ?n then Inr (set_retvalue DSOS_ESYSCALL_OUT_OF_RANGE k)
         else if ?n = DSOS_MAX_SYSCALLS then Inl Out_of_bounds
         else case syscall_vector ?n of
                None \<Rightarrow> Inr (set_retvalue DSOS_ESYSCALL_NOT_IMPLEMENTED k)
              | Some my_syscall \<Rightarrow> my_syscall k) = Inr k1"
    and 2: "(if shutdown_now k1 \<noteq> 0 then main_context_resumed k1
        else if log_file k1 \<and> running k1 = NULL then Inl Null_deref
        else if running k1 \<noteq> NULL then Inr (Resume (running k1), k1)
        else main_context_resumed k1) = Inr (c, k')"
    using run unfolding disastrOS_trap_def by (auto simp: res_simps Let_def)
  have up: "shutdown_now k1 = 0" using 2 c by (auto simp: main_context_resumed_def split: if_splits)
  have "ctx_ok St k1 \<and> user_mem k1 = user_mem k"
  proof (cases "?n < 0 \<or> DSOS_MAX_SYSCALLS < ?n \<or> syscall_vector ?n = None")
    case True
    then have "\<exists>v. k1 = set_retvalue v k" using 1 by (auto split: if_splits)
    then show ?thesis by (auto intro!: ctx_ok_other [OF ok])
  next
    case False
    then obtain h where "syscall_vector ?n = Some h" "h k = Inr k1" using 1 by (auto split: if_splits)
    from ctx_handler [OF ok call this up] show ?thesis .
  qed
  with 2 ctx_main_context [of St k1 c k'] up show ?thesis by (auto split: if_splits)
qed

lemma ctx_syscall:
  assumes ok: "ctx_ok St k" and call: "call_ok St n args"
    and run: "disastrOS_syscall k n args = Inr (c, k')" and c: "c \<noteq> Exited"
  shows "ctx_ok St k' \<and> user_mem k' = user_mem k"
proof (cases "n < 0 \<or> DSOS_MAX_SYSCALLS < n")
  case True
  then show ?thesis using ok run by (auto simp: disastrOS_syscall_def res_simps)
next
  case False
  let ?k = "upd_pcb (running k)
      (\<lambda>p. p\<lparr>syscall_args := (\<lambda>i. if i < syscall_numarg n then args i else syscall_args p i),
             syscall_num := n, cpu_state := Saved_context\<rparr>) k"
  from False run have trap: "disastrOS_trap ?k = Inr (c, k')"
    by (auto simp: disastrOS_syscall_def res_simps Let_def split: if_splits)
  have args: "syscall_args (pcbs ?k (running ?k)) i = args i"
    if "i < 2" "n = DSOS_CALL_WAIT \<or> n = DSOS_CALL_SPAWN" for i
    using that by (auto simp: syscall_numarg_def syscall_numbers)
  have "ctx_ok St ?k"
    using ok call args [of 1] by (auto simp: ctx_ok_def no_results_def call_ok_def)
  moreover have "call_ok St (syscall_num (pcbs ?k (running ?k))) (syscall_args (pcbs ?k (running ?k)))"
    using call args [of 0] args [of 1] by (auto simp: call_ok_def)
  ultimately show ?thesis using ctx_trap [OF _ _ trap c] by simp
qed

lemma ctx_tick:
  assumes ok: "ctx_ok St k" and run: "kernel_step k Tick = Inr (c, k')"
  shows "ctx_ok St k' \<and> user_mem k' = user_mem k"
proof -
  let ?k = "(upd_pcb (running k) (\<lambda>p. p\<lparr>cpu_state := Saved_context\<rparr>) k)
    \<lparr>disastrOS_time := disastrOS_time k + 1\<rparr>"
  have "internal_schedule ?k = Inr k'"
    using run by (auto simp: kernel_step_def timerInterrupt_def res_simps Let_def)
  from schedule_frame [OF this] have same: "ctx_part k' = ctx_part ?k" "user_mem k' = user_mem k"
    by (simp_all add: parts_eq)
  have "ctx_ok St ?k" using ok by (auto simp: ctx_ok_def no_results_def)
  with same ctx_ok_cong show ?thesis by blast
qed

lemma kinv_user_mem [simp]: "kinv (k\<lparr>user_mem := u\<rparr>) L = kinv k L"
  unfolding kinv_def lists_ok_def sched_ok_def place_ok_def init_ok_def tree_ok_def timer_ok_def
    sem_ok_def sem_links_ok_def wait_ptrs_ok_def sem_fds_ok_def sem_queues_ok_def waiters_ok_def
    owners_ok_def queue_lengths_ok_def sem_ids_ok_def res_ok_def
  by simp

section \<open>Programs that keep to a discipline\<close>

text \<open>
  The contract between the programs: \<open>start f a\<close> says which functions run with which argument,
  \<open>ok p\<close> what a process may still do, and \<open>fits a v\<close> what the others rely on at the addresses
  \<open>cells\<close>, the only ones a program may use.
\<close>

locale memory_discipline =
  fixes code :: "addr \<Rightarrow> addr \<Rightarrow> prog" and start :: "addr \<Rightarrow> addr \<Rightarrow> bool"
    and ok :: "prog \<Rightarrow> bool" and cells :: "addr set" and fits :: "addr \<Rightarrow> int \<Rightarrow> bool"
  assumes code_ok: "start f a \<Longrightarrow> ok (code f a)"
    and call: "ok (Sys n args g) \<Longrightarrow> call_ok start n args \<and> ok (g v)"
    and get_pid: "ok (Get_pid g) \<Longrightarrow> ok (g v)"
    and load: "ok (Load a g) \<Longrightarrow> a \<in> cells \<and> (fits a v \<longrightarrow> ok (g v))"
    and store: "ok (Store a v p) \<Longrightarrow> a \<in> cells \<and> fits a v \<and> ok p"
    and out: "ok (Printf s vs p) \<Longrightarrow> ok p"
    and status: "ok (Print_status p) \<Longrightarrow> ok p"
    and return: "ok Return"
begin

definition "thread_ok t \<longleftrightarrow> (case t of At p \<Rightarrow> ok p | In_call g \<Rightarrow> \<forall>v. ok (g v))"

definition "disciplined m \<longleftrightarrow> ctx_ok start (kern m) \<and> (\<forall>q. thread_ok (threads m q)) \<and>
  (\<forall>a \<in> cells. fits a (user_mem (kern m) a))"

lemma thread_ok_simps [simp]:
  "thread_ok (At p) = ok p" "thread_ok (In_call g) = (\<forall>v. ok (g v))"
  by (simp_all add: thread_ok_def)

lemma resumed_ok: "thread_ok t \<Longrightarrow> thread_ok (resumed t v)"
  by (cases t) simp_all

lemma resume_ok:
  assumes "resume code c k ts = Some m'" and "ctx_ok start k" and "\<And>q. thread_ok (ts q)"
    and "\<forall>a \<in> cells. fits a (user_mem k a)"
  shows "disciplined m'"
  using assms(1)
  by (cases rule: resume_cases)
    (use assms(2-4) in \<open>auto simp: disciplined_def ctx_ok_def resumed_ok intro!: code_ok\<close>)

lemma goes_on_mem: "user_mem (kern (goes_on m p)) = user_mem (kern m)"
  by (simp add: goes_on_def)

lemma goes_on_ok: "disciplined m \<Longrightarrow> ok p \<Longrightarrow> disciplined (goes_on m p)"
  by (simp add: disciplined_def goes_on_def)

lemma poke_ok: "disciplined m \<Longrightarrow> fits a v \<Longrightarrow> disciplined (poke a v m)"
  by (simp add: disciplined_def poke_def ctx_ok_def no_results_def)

lemma resume_not_exited: "resume code c k ts = Some m' \<Longrightarrow> c \<noteq> Exited"
  by (auto simp: resume_def)

lemma act_disciplined:
  assumes d: "disciplined m" and p: "ok p" and run: "act code m p = Some m'"
  shows "disciplined m'" "a \<notin> cells \<Longrightarrow> user_mem (kern m') a = user_mem (kern m) a"
proof -
  have k: "ctx_ok start (kern m)" "\<forall>a \<in> cells. fits a (user_mem (kern m) a)" "\<And>q. thread_ok (threads m q)"
    using d by (simp_all add: disciplined_def)
  note L = memory_discipline_axioms [unfolded memory_discipline_def]
  have "disciplined m' \<and> (a \<notin> cells \<longrightarrow> user_mem (kern m') a = user_mem (kern m) a)"
    using run
  proof (cases rule: act_cases)
    case (pid f)
    then have "ok (f v)" for v using p L by blast
    then show ?thesis using goes_on_ok [OF d] pid(2) by (simp add: goes_on_mem)
  next
    case (load b f)
    then have "ok (f (user_mem (kern m) b))" using p L k(2) by blast
    then show ?thesis using goes_on_ok [OF d] load(2) by (simp add: goes_on_mem)
  next
    case (store b v r)
    then have b: "b \<in> cells" "fits b v" "ok r" using p L by blast+
    then have "disciplined m'" using goes_on_ok poke_ok [OF d] store(2) by blast
    then show ?thesis using b(1) store(2) by (auto simp: goes_on_mem poke_def)
  next
    case (out s vs r)
    then have "ok r" using p L by blast
    then show ?thesis using goes_on_ok [OF d] out(2) by (simp add: goes_on_mem)
  next
    case (status r)
    then have "ok r" using p L by blast
    then show ?thesis using goes_on_ok [OF d] status(2) by (simp add: goes_on_mem)
  next
    case (call n args f c k')
    have args: "call_ok start n args" "\<forall>v. ok (f v)" using p call(1) L by blast+
    from ctx_syscall [OF k(1) args(1) call(2) resume_not_exited [OF call(3)]]
    have same: "ctx_ok start k'" "user_mem k' = user_mem (kern m)" by blast+
    have "disciplined m'"
      by (rule resume_ok [OF call(3) same(1)]) (use k(2,3) args(2) same(2) in simp_all)
    then show ?thesis using resume_mem [OF call(3)] same(2) by simp
  next
    case (return c k')
    from ctx_main_context [OF k(1) return(2)]
    have same: "ctx_ok start k'" "user_mem k' = user_mem (kern m)" by blast+
    have "disciplined m'"
      by (rule resume_ok [OF return(3) same(1)]) (use k(2,3) same(2) in simp_all)
    then show ?thesis using resume_mem [OF return(3)] same(2) by simp
  qed
  then show "disciplined m'" "a \<notin> cells \<Longrightarrow> user_mem (kern m') a = user_mem (kern m) a" by blast+
qed

lemma step_disciplined:
  assumes d: "disciplined m" and run: "machine_step code m e = Some m'"
  shows "disciplined m' \<and> (\<forall>a. a \<notin> cells \<longrightarrow> user_mem (kern m') a = user_mem (kern m) a)"
proof -
  have k: "ctx_ok start (kern m)" "\<forall>a \<in> cells. fits a (user_mem (kern m) a)" "\<And>q. thread_ok (threads m q)"
    using d by (simp_all add: disciplined_def)
  show ?thesis using run
  proof (cases rule: machine_step_cases)
    case (tick c k')
    from ctx_tick [OF k(1) tick(2)] have "ctx_ok start k'" "user_mem k' = user_mem (kern m)" by blast+
    then show ?thesis using resume_ok [OF tick(3)] k(2,3) resume_mem [OF tick(3)] by auto
  next
    case (action p)
    have "ok p" using k(3) [of "running (kern m)"] action(2) by simp
    from act_disciplined [OF d this action(3)] show ?thesis by blast
  qed
qed

text \<open>So all accesses the machine makes are to the cells, and what is there fits.\<close>

lemma run_disciplined:
  "machine_run code m es m' \<Longrightarrow> disciplined m \<Longrightarrow>
     disciplined m' \<and> (\<forall>a. a \<notin> cells \<longrightarrow> user_mem (kern m') a = user_mem (kern m) a)"
  by (induction rule: machine_run.induct) (simp, metis step_disciplined)

lemma disciplined_access:
  assumes "disciplined m"
  shows "threads m q = At (Load a g) \<Longrightarrow> a \<in> cells"
    "threads m q = At (Store a v p) \<Longrightarrow> a \<in> cells \<and> fits a v"
    "a \<in> cells \<Longrightarrow> fits a (user_mem (kern m) a)"
  using assms load store unfolding disciplined_def by (metis thread_ok_simps(1))+

end

end
