(* ===== verification/Test_Memory.thy ===== *)
theory Test_Memory
  imports Test_Programs Contexts System_Theorems
begin

text \<open>
  Memory safety of the test: however the machine interleaves the processes of the test, and
  whatever number the user types in, every access is to the structure and the buffer, inside its
  bounds.
\<close>

section \<open>The functions in memory\<close>

text \<open>
  The program at an address: the function that the linker has put there. \<open>cd\<close>, \<open>buf\<close> and
  \<open>ret_var\<close> are where the local variables of \<open>initFunction\<close> and \<open>wrongInputs\<close> lie.
\<close>

definition test_code ::
    "(test_function \<Rightarrow> addr) \<Rightarrow> int \<Rightarrow> addr \<Rightarrow> addr \<Rightarrow> addr \<Rightarrow> addr \<Rightarrow> addr \<Rightarrow> prog" where
  "test_code loc input cd buf ret_var f a =
     (if f = loc Producer then ProdFunction a
      else if f = loc Consumer then ConsFunction a
      else if f = loc Producer2 then ProdFunction2 a
      else if f = loc Consumer2 then ConsFunction2 a
      else if f = loc Single_consumer then ConsSingleFunction a
      else if f = loc Single_producer then ProdSingleFunction a
      else if f = loc Init_function then initFunction loc input cd buf
      else if f = loc Wrong_inputs then wrongInputs loc ret_var
      else if f = loc Fun_function then fun_function a
      else Return)"

text \<open>The structure and the buffer are different objects on the stack of the first process.\<close>

definition apart :: "addr \<Rightarrow> addr \<Rightarrow> bool" where
  "apart cd buf \<longleftrightarrow> buf + 20 \<le> cd \<or> cd + 16 \<le> buf"

text \<open>What runs in the test: the first process, and the children on the structure of the first.\<close>

definition test_start ::
    "(test_function \<Rightarrow> addr) \<Rightarrow> addr \<Rightarrow> addr \<Rightarrow> addr \<Rightarrow> addr \<Rightarrow> bool" where
  "test_start loc cd buf f a \<longleftrightarrow> inj loc \<and> apart cd buf \<and>
     (f = loc Init_function \<and> a = NULL \<or>
      a = cd \<and> f \<in> loc ` {Producer, Consumer, Producer2, Consumer2, Single_consumer, Single_producer})"

section \<open>Safe programs\<close>

text \<open>The cells the programs share, and what they hold: the indices are in range.\<close>

definition shared_cells :: "addr \<Rightarrow> addr \<Rightarrow> addr set" where
  "shared_cells cd buf = {cd, cd + 4, cd + 8} \<union> cell buf ` {0..<BUFFER_LENGTH}"

definition cell_ok :: "addr \<Rightarrow> addr \<Rightarrow> addr \<Rightarrow> int \<Rightarrow> bool" where
  "cell_ok cd buf a v \<longleftrightarrow>
     (a = cd \<or> a = cd + 4 \<longrightarrow> 0 \<le> v \<and> v < BUFFER_LENGTH) \<and> (a = cd + 8 \<longrightarrow> v = buf)"

text \<open>
  The programs whose accesses are to the shared cells as long as the others keep these in
  order, who do so themselves, and who start only what \<open>St\<close> allows.
\<close>

inductive safe :: "(addr \<Rightarrow> addr \<Rightarrow> bool) \<Rightarrow> addr \<Rightarrow> addr \<Rightarrow> prog \<Rightarrow> bool"
  for St :: "addr \<Rightarrow> addr \<Rightarrow> bool" and cd buf :: addr
where
  safe_Sys: "call_ok St n args \<Longrightarrow> (\<And>v. safe St cd buf (f v)) \<Longrightarrow> safe St cd buf (Sys n args f)"
| safe_Get_pid: "(\<And>v. safe St cd buf (f v)) \<Longrightarrow> safe St cd buf (Get_pid f)"
| safe_Load: "a \<in> shared_cells cd buf \<Longrightarrow> (\<And>v. cell_ok cd buf a v \<Longrightarrow> safe St cd buf (f v)) \<Longrightarrow>
    safe St cd buf (Load a f)"
| safe_Store: "a \<in> shared_cells cd buf \<Longrightarrow> cell_ok cd buf a v \<Longrightarrow> safe St cd buf p \<Longrightarrow>
    safe St cd buf (Store a v p)"
| safe_Printf: "safe St cd buf p \<Longrightarrow> safe St cd buf (Printf s vs p)"
| safe_Print_status: "safe St cd buf p \<Longrightarrow> safe St cd buf (Print_status p)"
| safe_Return: "safe St cd buf Return"

inductive_simps safe_simps:
  "safe St cd buf (Sys n args f)" "safe St cd buf (Get_pid f)" "safe St cd buf (Load a f)"
  "safe St cd buf (Store a v p)" "safe St cd buf (Printf s vs p)" "safe St cd buf (Print_status p)"

text \<open>The parts of the programs.\<close>

lemma safe_calls:
  "(\<And>v. safe St cd buf (f v)) \<Longrightarrow> safe St cd buf (sem_open n i f)"
  "(\<And>v. safe St cd buf (f v)) \<Longrightarrow> safe St cd buf (sem_close n f)"
  "(\<And>v. safe St cd buf (f v)) \<Longrightarrow> safe St cd buf (sem_wait n f)"
  "(\<And>v. safe St cd buf (f v)) \<Longrightarrow> safe St cd buf (sem_post n f)"
  by (simp_all add: sem_open_def sem_close_def sem_wait_def sem_post_def safe_Sys call_ok_def
      syscall_numbers)

lemma safe_other_calls:
  "St f a \<Longrightarrow> safe St cd buf p \<Longrightarrow> safe St cd buf (spawn f a p)"
  "safe St cd buf p \<Longrightarrow> safe St cd buf (wait_any p)"
  "safe St cd buf p \<Longrightarrow> safe St cd buf (shutdown p)"
  by (simp_all add: spawn_def wait_any_def shutdown_def safe_Sys call_ok_def syscall_numbers)

lemma safe_exit_pid: "safe St cd buf p \<Longrightarrow> safe St cd buf (exit_pid p)"
  by (simp add: exit_pid_def safe_Sys safe_Get_pid call_ok_def syscall_numbers)

lemma safe_ERROR_HELPER: "safe St cd buf p \<Longrightarrow> safe St cd buf (ERROR_HELPER c msg p)"
  by (simp add: ERROR_HELPER_def safe_Get_pid safe_Printf safe_exit_pid)

lemma safe_repeat_prog:
  "(\<And>p. safe St cd buf p \<Longrightarrow> safe St cd buf (body p)) \<Longrightarrow> safe St cd buf rest \<Longrightarrow>
     safe St cd buf (repeat_prog n body rest)"
  by (induction n) simp_all

lemma cell_shared: "0 \<le> n \<Longrightarrow> n < BUFFER_LENGTH \<Longrightarrow> cell buf n \<in> shared_cells cd buf"
  by (simp add: shared_cells_def)

lemma cell_apart:
  "apart cd buf \<Longrightarrow> 0 \<le> n \<Longrightarrow> n < BUFFER_LENGTH \<Longrightarrow> cell_ok cd buf (cell buf n) v"
  by (auto simp: cell_ok_def apart_def cell_def BUFFER_LENGTH_def)

lemma safe_print_cells:
  "\<forall>i \<in> set is. int i < BUFFER_LENGTH \<Longrightarrow> safe St cd buf p \<Longrightarrow> safe St cd buf (print_cells buf is p)"
  by (induction "is") (simp_all add: safe_Load safe_Printf cell_shared)

lemma safe_PrintBuffer: "safe St cd buf p \<Longrightarrow> safe St cd buf (PrintBuffer buf p)"
  unfolding PrintBuffer_def
  by (intro safe_Load safe_Printf safe_print_cells cell_shared) (simp_all add: BUFFER_LENGTH_def)

lemma next_index:
  "0 \<le> n \<Longrightarrow> n < BUFFER_LENGTH \<Longrightarrow>
     0 \<le> (n + 1) smod BUFFER_LENGTH \<and> (n + 1) smod BUFFER_LENGTH < BUFFER_LENGTH"
  by (simp add: BUFFER_LENGTH_def signed_modulo_int_def sgn_if)

lemma index_cells:
  "cd \<in> shared_cells cd buf" "cd + 4 \<in> shared_cells cd buf" "cd + 8 \<in> shared_cells cd buf"
  "cell_ok cd buf cd v \<longleftrightarrow> 0 \<le> v \<and> v < BUFFER_LENGTH"
  "cell_ok cd buf (cd + 4) v \<longleftrightarrow> 0 \<le> v \<and> v < BUFFER_LENGTH" "cell_ok cd buf (cd + 8) v \<longleftrightarrow> v = buf"
  by (auto simp: shared_cells_def cell_ok_def)

lemma safe_produce:
  assumes "apart cd buf" and "safe St cd buf p"
  shows "safe St cd buf (produce cd p)"
  unfolding produce_def using assms
  by (intro safe_Load safe_Get_pid safe_Store)
    (simp_all add: index_cells next_index cell_shared cell_apart safe_PrintBuffer safe_Store)

lemma safe_consume:
  assumes "apart cd buf" and "safe St cd buf p"
  shows "safe St cd buf (consume cd p)"
  unfolding consume_def using assms
  by (intro safe_Load safe_Get_pid safe_Store)
    (simp_all add: index_cells next_index cell_shared cell_apart safe_PrintBuffer safe_Store)

lemmas safe_parts = safe_calls safe_other_calls safe_exit_pid safe_ERROR_HELPER safe_repeat_prog safe_produce safe_consume
  safe_Get_pid safe_Printf safe_Return

lemma safe_functions:
  assumes "apart cd buf"
  shows "safe St cd buf (ProdFunction cd)" "safe St cd buf (ConsFunction cd)"
    "safe St cd buf (ProdFunction2 cd)" "safe St cd buf (ConsFunction2 cd)"
    "safe St cd buf (ProdSingleFunction cd)" "safe St cd buf (ConsSingleFunction cd)"
  unfolding ProdFunction_def ConsFunction_def ProdFunction2_def ConsFunction2_def
    ProdSingleFunction_def ConsSingleFunction_def
  by (intro safe_parts assms; assumption)+

section \<open>The first process\<close>

text \<open>
  Until \<open>initFunction\<close> has prepared the structure it is the only process, and it only writes:
  \<open>b\<close> says whether it has stored the address of the buffer, and \<open>Q\<close> holds of what it does
  afterwards.
\<close>

inductive initial :: "addr \<Rightarrow> addr \<Rightarrow> (prog \<Rightarrow> bool) \<Rightarrow> bool \<Rightarrow> prog \<Rightarrow> bool"
  for cd buf :: addr and Q :: "prog \<Rightarrow> bool"
where
  initial_Printf: "initial cd buf Q b p \<Longrightarrow> initial cd buf Q b (Printf s vs p)"
| initial_Store: "a \<in> shared_cells cd buf \<Longrightarrow> cell_ok cd buf a v \<Longrightarrow> (a \<noteq> cd + 8 \<longrightarrow> v = 0) \<Longrightarrow>
    initial cd buf Q (b \<or> a = cd + 8) p \<Longrightarrow> initial cd buf Q b (Store a v p)"
| initial_done: "Q p \<Longrightarrow> initial cd buf Q True p"

lemma initial_clear_cells:
  assumes "apart cd buf" and "\<forall>i \<in> set is. int i < BUFFER_LENGTH" and "initial cd buf Q b p"
  shows "initial cd buf Q b (clear_cells buf is p)"
  using assms(2)
proof (induction "is")
  case (Cons i "is")
  then have i: "0 \<le> int i" "int i < BUFFER_LENGTH" by simp_all
  have "cell buf (int i) \<noteq> cd + 8"
    using i assms(1) by (auto simp: apart_def cell_def BUFFER_LENGTH_def)
  then have "(b \<or> cell buf (int i) = cd + 8) = b" by simp
  then show ?case
    using initial_Store [OF cell_shared [OF i] cell_apart [OF assms(1) i], of 0 Q b] Cons by simp
qed (use assms(3) in simp)

lemma safe_clear_cells:
  assumes "apart cd buf" and "\<forall>i \<in> set is. int i < BUFFER_LENGTH" and "safe St cd buf p"
  shows "safe St cd buf (clear_cells buf is p)"
  using assms(2)
  by (induction "is") (use assms(1,3) in \<open>simp_all add: safe_Store cell_shared cell_apart\<close>)

lemma test_starts:
  assumes "inj loc" "apart cd buf"
  shows "test_start loc cd buf (loc Producer) cd" "test_start loc cd buf (loc Consumer) cd"
    "test_start loc cd buf (loc Producer2) cd" "test_start loc cd buf (loc Consumer2) cd"
    "test_start loc cd buf (loc Single_producer) cd" "test_start loc cd buf (loc Single_consumer) cd"
    "test_start loc cd buf (loc Init_function) NULL"
  using assms by (simp_all add: test_start_def)

lemma safe_init_tests:
  assumes "inj loc" and "apart cd buf"
  shows "safe (test_start loc cd buf) cd buf (init_tests loc input cd)"
  unfolding init_tests_def Let_def
  by (intro safe_parts conjI impI allI test_starts [OF assms] | simp only: if_split)+

lemma buffer_cells: "\<forall>i \<in> set [0..<nat BUFFER_LENGTH]. int i < BUFFER_LENGTH"
  by (simp add: BUFFER_LENGTH_def)

lemma first_cells:
  "cell_ok cd buf cd 0" "cell_ok cd buf (cd + 4) 0" "cell_ok cd buf (cd + 8) buf"
  by (simp_all add: index_cells BUFFER_LENGTH_def)

lemma initial_initFunction:
  assumes ap: "apart cd buf" and Q: "Q (init_tests loc input cd)"
  shows "initial cd buf Q False (initFunction loc input cd buf)"
proof -
  have "initial cd buf Q True (init_tests loc input cd)" by (rule initial_done, rule Q)
  then show ?thesis
    unfolding initFunction_def
    by (intro initial_Printf initial_clear_cells [OF ap buffer_cells] initial_Store index_cells(1-3)
        first_cells) simp_all
qed

lemma safe_initFunction:
  assumes loc: "inj loc" and ap: "apart cd buf"
  shows "safe (test_start loc cd buf) cd buf (initFunction loc input cd buf)"
  unfolding initFunction_def
  by (intro safe_clear_cells [OF ap buffer_cells] safe_Store safe_Printf index_cells(1-3) first_cells
      safe_init_tests [OF loc ap])

section \<open>The discipline of the test\<close>

interpretation test: memory_discipline "test_code loc input cd buf ret_var"
  "test_start loc cd buf" "safe (test_start loc cd buf) cd buf" "shared_cells cd buf" "cell_ok cd buf"
  for loc input cd buf ret_var
proof unfold_locales
  fix f a
  assume st: "test_start loc cd buf f a"
  then have "inj loc" "apart cd buf" by (simp_all add: test_start_def)
  then show "safe (test_start loc cd buf) cd buf (test_code loc input cd buf ret_var f a)"
    using st safe_initFunction safe_functions
    by (auto simp: test_start_def test_code_def inj_eq)
qed (auto simp: safe_simps safe_Return)

section \<open>The start\<close>

text \<open>The timer ticks while there is one process.\<close>

lemma empty_heads: "kinv k (\<lambda>_. []) \<Longrightarrow> lh_first (heads k h) = NULL"
  using kinvD(1) [of k "\<lambda>_. []"] by (auto simp: lists_ok_def list_rep_def dll_def)

lemma lone_tick:
  assumes inv: "kinv k (\<lambda>_. [])" and run: "kernel_step k Tick = Inr (c, k')"
  shows "c = Resume (running k)" "kinv k' (\<lambda>_. [])" "running k' = running k"
    "cpu_state (pcbs k' (running k)) = Saved_context" "pid (pcbs k' q) = pid (pcbs k q)"
proof -
  let ?k = "(upd_pcb (running k) (\<lambda>p. p\<lparr>cpu_state := Saved_context\<rparr>) k)
    \<lparr>disastrOS_time := disastrOS_time k + 1\<rparr>"
  have "wake_elapsed ?k NULL = Some (Inr ?k)"
    by (subst wake_elapsed.simps) (simp add: TimerList_current_def empty_heads [OF inv])
  then have "internal_schedule ?k = Inr ?k"
    by (simp add: internal_schedule_def empty_heads [OF inv])
  then have "k' = ?k \<and> c = Resume (running k)"
    using run by (auto simp: kernel_step_def timerInterrupt_def res_simps Let_def)
  then show "c = Resume (running k)" "kinv k' (\<lambda>_. [])" "running k' = running k"
    "cpu_state (pcbs k' (running k)) = Saved_context" "pid (pcbs k' q) = pid (pcbs k q)"
    using inv by (simp_all add: kinv_irrelevant)
qed

text \<open>The first process prepares the structure; nobody else runs.\<close>

definition alone :: "(prog \<Rightarrow> bool) \<Rightarrow> machine \<Rightarrow> bool" where
  "alone Q m \<longleftrightarrow> kinv (kern m) (\<lambda>_. []) \<and> pid (pcbs (kern m) (running (kern m))) = 0 \<and>
     (\<exists>p. threads m = (\<lambda>_. At Return)(running (kern m) := At p) \<and> Q p)"

definition booting :: "(test_function \<Rightarrow> addr) \<Rightarrow> addr \<Rightarrow> addr \<Rightarrow> (prog \<Rightarrow> bool) \<Rightarrow> machine \<Rightarrow> bool" where
  "booting loc cd buf Q m \<longleftrightarrow> ctx_ok (test_start loc cd buf) (kern m) \<and>
     (\<exists>b. alone (initial cd buf Q b) m \<and>
        (\<forall>a \<in> shared_cells cd buf. a = cd + 8 \<longrightarrow> b \<longrightarrow> cell_ok cd buf a (user_mem (kern m) a)) \<and>
        (\<forall>a \<in> shared_cells cd buf. a \<noteq> cd + 8 \<longrightarrow> user_mem (kern m) a = 0))"

lemma cell_ok_0: "a \<noteq> cd + 8 \<Longrightarrow> cell_ok cd buf a 0"
  by (simp add: cell_ok_def BUFFER_LENGTH_def)

text \<open>It goes on preparing, or it has done so.\<close>

definition ready_test where
  "ready_test loc cd buf Q m \<longleftrightarrow> test.disciplined loc cd buf m \<and> alone Q m \<and>
     (\<forall>a \<in> shared_cells cd buf. a \<noteq> cd + 8 \<longrightarrow> user_mem (kern m) a = 0)"

lemma booting_step:
  assumes b: "booting loc cd buf Q m" and run: "machine_step (test_code loc input cd buf rv) m e = Some m'"
    and Q: "\<And>p. Q p \<Longrightarrow> safe (test_start loc cd buf) cd buf p"
  shows "ready_test loc cd buf Q m \<or> booting loc cd buf Q m' \<and>
    (\<forall>a. a \<notin> shared_cells cd buf \<longrightarrow> user_mem (kern m') a = user_mem (kern m) a)"
proof -
  let ?St = "test_start loc cd buf"
  obtain p b where p: "threads m = (\<lambda>_. At Return)(running (kern m) := At p)" "initial cd buf Q b p"
    and inv: "kinv (kern m) (\<lambda>_. [])" "pid (pcbs (kern m) (running (kern m))) = 0" and ctx: "ctx_ok ?St (kern m)"
    and mem: "\<forall>a \<in> shared_cells cd buf. a = cd + 8 \<longrightarrow> b \<longrightarrow> cell_ok cd buf a (user_mem (kern m) a)"
      "\<forall>a \<in> shared_cells cd buf. a \<noteq> cd + 8 \<longrightarrow> user_mem (kern m) a = 0"
    using b unfolding booting_def alone_def by blast
  show ?thesis using run
  proof (cases rule: machine_step_cases)
    case (tick c k)
    note T = lone_tick [OF inv(1) tick(2)]
    have m': "m' = \<lparr>kern = k, threads = threads m\<rparr>"
      using tick(3) T(1,4) p(1) by (auto simp: resume_def fun_eq_iff)
    have "alone (initial cd buf Q b) m'" using p T(2,3,5) inv(2) by (auto simp: alone_def m')
    with ctx_tick [OF ctx tick(2)] mem show ?thesis by (auto simp: booting_def m')
  next
    case (action q)
    then have act: "act (test_code loc input cd buf rv) m p = Some m'" using p(1) by simp
    from p(2) show ?thesis
    proof (cases rule: initial.cases)
      case (initial_Printf r s vs)
      with act have m': "m' = goes_on m r" by simp
      have "alone (initial cd buf Q b) m'"
        using initial_Printf(2) p(1) inv by (auto simp: alone_def m' goes_on_def)
      with ctx mem show ?thesis by (auto simp: booting_def m' goes_on_def)
    next
      case (initial_Store a v r)
      with act have m': "m' = goes_on (poke a v m) r" by simp
      have k': "kern m' = (kern m)\<lparr>user_mem := (user_mem (kern m))(a := v)\<rparr>"
        by (simp add: m' goes_on_def poke_def)
      have "threads m' = (\<lambda>_. At Return)(running (kern m) := At r)"
        using p(1) by (simp add: m' goes_on_def poke_def)
      then have "alone (initial cd buf Q (b \<or> a = cd + 8)) m'"
        using initial_Store(5) inv by (auto simp: alone_def k')
      moreover have "ctx_ok ?St (kern m')" using ctx by (simp add: k' ctx_ok_def no_results_def)
      ultimately show ?thesis
        using mem initial_Store(2-4) unfolding booting_def k'
        by (intro disjI2 conjI exI [of _ "b \<or> a = cd + 8"]) auto
    next
      case initial_done
      then have "alone Q m" using p(1) inv by (auto simp: alone_def)
      moreover have "\<forall>a \<in> shared_cells cd buf. cell_ok cd buf a (user_mem (kern m) a)"
      proof
        fix a assume "a \<in> shared_cells cd buf"
        with mem initial_done(1) cell_ok_0 [of a cd buf]
        show "cell_ok cd buf a (user_mem (kern m) a)" by (cases "a = cd + 8") simp_all
      qed
      then have "test.disciplined loc cd buf m"
        using Q [OF initial_done(2)] p(1) ctx
        by (simp add: test.disciplined_def safe_Return)
      ultimately show ?thesis using mem(2) by (simp add: ready_test_def)
    qed
  qed
qed

lemma test_run:
  assumes J: "\<And>m. ready_test loc cd buf Q m \<Longrightarrow> J m"
    "\<And>m e m'. test.disciplined loc cd buf m \<Longrightarrow> J m \<Longrightarrow> P m e \<Longrightarrow>
       machine_step (test_code loc input cd buf rv) m e = Some m' \<Longrightarrow> J m'"
    and Q: "\<And>p. Q p \<Longrightarrow> safe (test_start loc cd buf) cd buf p"
  shows "machine_run_while P (test_code loc input cd buf rv) m es m' \<Longrightarrow>
     booting loc cd buf Q m \<or> test.disciplined loc cd buf m \<and> J m \<Longrightarrow>
     (booting loc cd buf Q m' \<or> test.disciplined loc cd buf m' \<and> J m') \<and>
     (\<forall>a. a \<notin> shared_cells cd buf \<longrightarrow> user_mem (kern m') a = user_mem (kern m) a)"
proof (induction rule: machine_run_while.induct)
  case (while_cons m e m1 es m2)
  note step = while_cons.hyps(2)
  have "(booting loc cd buf Q m1 \<or> test.disciplined loc cd buf m1 \<and> J m1) \<and>
    (\<forall>a. a \<notin> shared_cells cd buf \<longrightarrow> user_mem (kern m1) a = user_mem (kern m) a)"
  proof (cases "test.disciplined loc cd buf m \<and> J m")
    case True
    then show ?thesis using test.step_disciplined [OF _ step] J(2) step while_cons.hyps(1) by blast
  next
    case no: False
    then have b: "booting loc cd buf Q m" using while_cons.prems by blast
    from no J(1) have "\<not> ready_test loc cd buf Q m" by (auto simp: ready_test_def)
    with booting_step [OF b step Q] show ?thesis by blast
  qed
  with while_cons.IH show ?case by simp
qed simp

lemma booting_access:
  assumes "booting loc cd buf Q m" and Q: "\<And>p. Q p \<Longrightarrow> safe (test_start loc cd buf) cd buf p"
  shows "threads m (running (kern m)) = At (Load a f) \<Longrightarrow> a \<in> shared_cells cd buf"
    "threads m (running (kern m)) = At (Store a v p) \<Longrightarrow> a \<in> shared_cells cd buf"
    "cell_ok cd buf cd (user_mem (kern m) cd)" "cell_ok cd buf (cd + 4) (user_mem (kern m) (cd + 4))"
proof -
  obtain p b where p: "threads m (running (kern m)) = At p" "initial cd buf Q b p"
    using assms(1) by (auto simp: booting_def alone_def)
  have "(case p of Load a f \<Rightarrow> a \<in> shared_cells cd buf | Store a v r \<Rightarrow> a \<in> shared_cells cd buf | _ \<Rightarrow> True)"
    using p(2)
  proof (cases rule: initial.cases)
    case initial_done
    from Q [OF this(2)] show ?thesis by (auto simp: safe_simps split: prog.splits)
  qed simp_all
  then show "threads m (running (kern m)) = At (Load a f) \<Longrightarrow> a \<in> shared_cells cd buf"
    "threads m (running (kern m)) = At (Store a v r) \<Longrightarrow> a \<in> shared_cells cd buf" for r
    using p(1) by auto
  show "cell_ok cd buf cd (user_mem (kern m) cd)" "cell_ok cd buf (cd + 4) (user_mem (kern m) (cd + 4))"
    using assms(1) by (auto simp: booting_def shared_cells_def intro!: cell_ok_0)
qed

lemma start_contexts:
  assumes ly: "layout_ok ly" and run: "disastrOS_start ly f a logfile boot_kernel = Inr (c, k)"
    and St: "St f a"
  shows "ctx_ok St k" "user_mem k = (\<lambda>_. 0)" "c = Resume (running k)" "kinv k (\<lambda>_. [])"
    "cpu_state (pcbs k (running k)) = Fresh_context f a" "pid (pcbs k (running k)) = 0"
proof -
  obtain ps where main: "main_context_resumed
      (boot_kernel\<lparr>pools := ps, start_f := f, start_args := a, log_file := logfile\<rparr>) = Inr (c, k)"
    using run by (metis start_runs [OF ly])
  let ?k = "boot_kernel\<lparr>pools := ps, start_f := f, start_args := a, log_file := logfile\<rparr>"
  have "ctx_ok St ?k" using St by (simp add: ctx_ok_def no_results_def boot_kernel_def syscall_numbers)
  from ctx_main_context [OF this main] show "ctx_ok St k" "user_mem k = (\<lambda>_. 0)"
    by (simp_all add: boot_kernel_def)
  show "c = Resume (running k)" "kinv k (\<lambda>_. [])" "pid (pcbs k (running k)) = 0"
    by (rule start_exec [OF ly, of f a logfile], use run in simp)+
  obtain p k1 where alloc: "PCB_alloc ?k = Inr (p, k1)"
    and k: "k = upd_pcb p (\<lambda>x. x\<lparr>status := Running, cpu_state := Fresh_context (start_f k1) (start_args k1)\<rparr>)
        (k1\<lparr>running := p, init_pcb := p\<rparr>)"
    using main by (auto simp: main_context_resumed_def andthen_eq_Inr Let_def boot_kernel_def)
  have "ctx_part k1 = ctx_part ?k" using block_frames(1) [OF alloc] by (simp add: parts_eq)
  then have "start_f k1 = f" "start_args k1 = a" by (simp_all add: ctx_part_def)
  then show "cpu_state (pcbs k (running k)) = Fresh_context f a" by (simp add: k)
qed

lemma boot_test:
  assumes ly: "layout_ok ly" and loc: "inj loc" and ap: "apart cd buf"
    and boot: "boot_machine (test_code loc input cd buf rv) (snd (test_main ly loc argc)) = Some m"
  shows "Q (init_tests loc input cd) \<Longrightarrow> booting loc cd buf Q m" "user_mem (kern m) = (\<lambda>_. 0)"
    "threads m (running (kern m)) = At (initFunction loc input cd buf)"
proof -
  obtain c k where run: "disastrOS_start ly (loc Init_function) NULL (argc > 1) boot_kernel = Inr (c, k)"
    and m: "resume (test_code loc input cd buf rv) c k (\<lambda>_. At Return) = Some m"
    using boot by (auto simp: boot_machine_def test_main_def split: sum.splits)
  note S = start_contexts [where St = "test_start loc cd buf", OF ly run test_starts(7) [OF loc ap]]
  have code: "test_code loc input cd buf rv (loc Init_function) NULL = initFunction loc input cd buf"
    using loc by (simp add: test_code_def inj_eq)
  have m': "m = \<lparr>kern = k, threads = (\<lambda>_. At Return)(running k := At (initFunction loc input cd buf))\<rparr>"
    using m S(3,5) by (simp add: resume_def code)
  show "user_mem (kern m) = (\<lambda>_. 0)" "threads m (running (kern m)) = At (initFunction loc input cd buf)"
    using S(2) by (simp_all add: m')
  have "alone (initial cd buf Q False) m" if "Q (init_tests loc input cd)"
    using S(4,6) initial_initFunction [OF ap, of Q loc input, OF that] by (auto simp: alone_def m')
  then show "booting loc cd buf Q m" if "Q (init_tests loc input cd)"
    using S(1,2) that by (auto simp: booting_def m')
qed

section \<open>Memory safety\<close>

text \<open>
  C31: the test never leaves its memory: started in any layout, with any number typed in, and
  however its processes and the timer are interleaved by the kernel, the running process only
  ever reads and writes the structure and the \<open>BUFFER_LENGTH\<close> elements of the buffer, all other
  memory is as it was, and the two indices are always inside the buffer.
\<close>

theorem test_stays_in_buffer:
  assumes "layout_ok ly" and "inj loc" and "apart cd buf"
    and "boot_machine (test_code loc input cd buf rv) (snd (test_main ly loc argc)) = Some m"
    and "machine_run (test_code loc input cd buf rv) m es m'"
  shows "(\<forall>a f. threads m' (running (kern m')) = At (Load a f) \<longrightarrow> a \<in> shared_cells cd buf) \<and>
    (\<forall>a v p. threads m' (running (kern m')) = At (Store a v p) \<longrightarrow> a \<in> shared_cells cd buf) \<and>
    (\<forall>a. a \<notin> shared_cells cd buf \<longrightarrow> user_mem (kern m') a = user_mem (kern m) a) \<and>
    user_mem (kern m') cd \<in> {0..<BUFFER_LENGTH} \<and> user_mem (kern m') (cd + 4) \<in> {0..<BUFFER_LENGTH}"
proof -
  let ?Q = "safe (test_start loc cd buf) cd buf"
  have run: "booting loc cd buf ?Q m' \<or> test.disciplined loc cd buf m'"
    "\<forall>a. a \<notin> shared_cells cd buf \<longrightarrow> user_mem (kern m') a = user_mem (kern m) a"
    using test_run [where J = "\<lambda>_. True" and Q = ?Q, OF _ _ _ machine_run_while_all [OF assms(5)]]
      boot_test(1) [where Q = ?Q, OF assms(1-4) safe_init_tests [OF assms(2,3)]] by blast+
  have shared: "cd \<in> shared_cells cd buf" "cd + 4 \<in> shared_cells cd buf"
    by (simp_all add: shared_cells_def)
  from run(1) have "(\<forall>a f. threads m' (running (kern m')) = At (Load a f) \<longrightarrow> a \<in> shared_cells cd buf) \<and>
    (\<forall>a v p. threads m' (running (kern m')) = At (Store a v p) \<longrightarrow> a \<in> shared_cells cd buf) \<and>
    cell_ok cd buf cd (user_mem (kern m') cd) \<and> cell_ok cd buf (cd + 4) (user_mem (kern m') (cd + 4))"
  proof
    assume b: "booting loc cd buf ?Q m'"
    show ?thesis using booting_access [OF b] by blast
  next
    assume d: "test.disciplined loc cd buf m'"
    then show ?thesis using test.disciplined_access [OF d] shared by blast
  qed
  with run(2) show ?thesis by (simp add: index_cells)
qed

lemma test_boots:
  assumes ly: "layout_ok ly"
  shows "\<exists>m. boot_machine (test_code loc input cd buf rv) (snd (test_main ly loc argc)) = Some m"
proof -
  obtain p k where "disastrOS_start ly (loc Init_function) NULL (argc > 1) boot_kernel = Inr (Resume p, k)"
    "running k = p" by (rule start_exec [OF ly])
  with start_contexts(5) [where St = "\<lambda>_ _. True", OF ly this(1)] show ?thesis
    by (simp add: boot_machine_def test_main_def resume_def)
qed

fun demo_loc :: "test_function \<Rightarrow> addr" where
  "demo_loc Producer = 1" | "demo_loc Consumer = 2" | "demo_loc Producer2 = 3"
| "demo_loc Consumer2 = 4" | "demo_loc Single_consumer = 5" | "demo_loc Single_producer = 6"
| "demo_loc Init_function = 7" | "demo_loc Fun_function = 8" | "demo_loc Wrong_inputs = 9"

lemma demo_loc_inj: "inj demo_loc"
proof (rule injI)
  show "x = y" if "demo_loc x = demo_loc y" for x y using that by (cases x; cases y) simp_all
qed

lemma printf_step:
  "threads m (running (kern m)) = At (Printf s v p) \<Longrightarrow>
     machine_step code m Action = Some (goes_on m p)"
  by (simp add: machine_step_def)

lemma goes_on_at: "threads (goes_on m p) (running (kern (goes_on m p))) = At p"
  by (simp add: goes_on_def)

lemma demo_start:
  assumes boot: "boot_machine (test_code demo_loc input 500 600 rv)
      (snd (test_main demo_layout demo_loc argc)) = Some m"
    and ap: "apart 500 600"
  shows "\<exists>m' p. machine_run (test_code demo_loc input 500 600 rv) m [Action, Action, Action] m' \<and>
    threads m' (running (kern m')) = At (Store 600 0 p)"
proof -
  let ?code = "test_code demo_loc input 500 600 rv"
  obtain s1 s2 s3 v1 v2 v3 p where p: "initFunction demo_loc input 500 600 =
      Printf s1 v1 (Printf s2 v2 (Printf s3 v3 (Store 600 0 p)))"
    by (simp add: initFunction_def BUFFER_LENGTH_def upt_rec cell_def)
  have M: "threads m (running (kern m)) = At (Printf s1 v1 (Printf s2 v2 (Printf s3 v3 (Store 600 0 p))))"
    using boot_test(3) [OF demo_layout_ok demo_loc_inj ap boot] p by simp
  let ?m = "goes_on (goes_on (goes_on m (Printf s2 v2 (Printf s3 v3 (Store 600 0 p))))
    (Printf s3 v3 (Store 600 0 p))) (Store 600 0 p)"
  have run: "machine_run ?code m [Action, Action, Action] ?m"
    by (rule machine_cons, rule printf_step, rule M, rule machine_cons, rule printf_step,
        rule goes_on_at, rule machine_cons, rule printf_step, rule goes_on_at, rule machine_nil)
  have "threads ?m (running (kern ?m)) = At (Store 600 0 p)" by (simp add: goes_on_def)
  with run show ?thesis by blast
qed

theorem test_stays_in_buffer_witness:
  "\<exists>m m' p. machine_run (test_code demo_loc 1 500 600 700) m [Action, Action, Action] m' \<and>
     threads m' (running (kern m')) = At (Store 600 0 p) \<and> 600 \<in> shared_cells 500 600"
proof -
  let ?code = "test_code demo_loc 1 500 600 700"
  obtain m where boot: "boot_machine ?code (snd (test_main demo_layout demo_loc 1)) = Some m"
    using test_boots [OF demo_layout_ok] by blast
  have ap: "apart 500 600" by (simp add: apart_def)
  obtain m' p where run: "machine_run ?code m [Action, Action, Action] m'"
    "threads m' (running (kern m')) = At (Store 600 0 p)"
    using demo_start [OF boot ap] by blast
  from test_stays_in_buffer [OF demo_layout_ok demo_loc_inj ap boot run(1)] run(2)
  have "600 \<in> shared_cells 500 600" by blast
  with run show ?thesis by blast
qed

end
