(* ===== verification/Ghosts.thy ===== *)
theory Ghosts
  imports Ownership_Steps Contexts
begin

text \<open>
  What a process has done so far and may still do, along the runs of the machine: each process has a
  ghost value \<open>x\<close>, and \<open>goes D x t\<close> says what a process with the ghost \<open>x\<close> that has open what is in
  \<open>D\<close> may be at. The lemmas say for each call, for a tick and for the actions without a call how
  this is kept, when the process that makes the call gets a new ghost.
\<close>

section \<open>A call and its handler\<close>

text \<open>The kernel when the trap is entered.\<close>

definition entered :: "int \<Rightarrow> (nat \<Rightarrow> int) \<Rightarrow> kernel \<Rightarrow> kernel" where
  "entered n args k = upd_pcb (running k)
     (\<lambda>p. p\<lparr>syscall_args := (\<lambda>i. if i < syscall_numarg n then args i else syscall_args p i),
            syscall_num := n, cpu_state := Saved_context\<rparr>) k"

lemma entered_sel [simp]:
  "running (entered n args k) = running k" "alive (entered n args k) L q = alive k L q"
  "opened (entered n args k) L q = opened k L q" "semaphores (entered n args k) = semaphores k"
  "syscall_num (pcbs (entered n args k) (running k)) = n"
  "cpu_state (pcbs (entered n args k) q) = (if q = running k then Saved_context else cpu_state (pcbs k q))"
  by (simp_all add: entered_def alive_def opened_def)

lemma entered_kinv: "kinv k L \<Longrightarrow> kinv (entered n args k) L"
  unfolding entered_def by (rule kinv_call) simp_all

lemma entered_arg: "i < syscall_numarg n \<Longrightarrow> syscall_arg (entered n args k) i = args i"
  by (simp add: entered_def syscall_arg_def)

lemma entered_handler:
  assumes inv: "kinv k L" and ok: "disastrOS_syscall k n args = Inr (c, k')" and c: "c \<noteq> Exited"
    and vec: "syscall_vector n = Some h" and n: "n \<noteq> DSOS_CALL_SLEEP"
  shows "h (entered n args k) = Inr k'" "c = Resume (running k')" "shutdown_now k' = 0"
proof -
  let ?k = "entered n args k"
  have inv1: "kinv ?k L" by (rule entered_kinv [OF inv])
  have r: "0 \<le> n" "n < DSOS_MAX_SYSCALLS"
    using vec by (auto simp: syscall_vector_def call_numbers DSOS_MAX_SYSCALLS_def split: if_splits)
  then have "disastrOS_trap ?k = Inr (c, k')"
    using ok by (simp add: disastrOS_syscall_def entered_def Let_def c_assert_eq_Inr)
  then obtain k1 where
    1: "h ?k = Inr k1" "(if shutdown_now k1 \<noteq> 0 then main_context_resumed k1
        else if log_file k1 \<and> running k1 = NULL then Inl Null_deref
        else if running k1 \<noteq> NULL then Inr (Resume (running k1), k1)
        else main_context_resumed k1) = Inr (c, k')"
    using vec r by (auto simp: disastrOS_trap_def res_simps)
  have up: "shutdown_now k1 = 0"
    using 1(2) c by (cases "shutdown_now k1 = 0") (auto simp: main_context_resumed_def)
  then obtain L1 where "kinv k1 L1" using handler_runs [OF inv1 vec n _ 1(1)] by auto
  then have "running k1 \<noteq> NULL" by (rule sched_okD(3) [OF kinvD(2)])
  with 1 up show "h ?k = Inr k'" "c = Resume (running k')" "shutdown_now k' = 0" by auto
qed

text \<open>A call on a semaphore, by the numbers the caller has open.\<close>

lemma calls_on_opened:
  assumes inv: "kinv k L" and s: "s \<in> set (L semaphores_list)"
  shows "calls_on (called n args k) L s \<longleftrightarrow>
    (int_of_long (args 0), sem_id (semaphores k s)) \<in> opened k L (running k)"
proof
  assume "calls_on (called n args k) L s"
  then show "(int_of_long (args 0), sem_id (semaphores k s)) \<in> opened k L (running k)"
    by (auto simp: calls_on_def opened_def called_def syscall_arg_def)
next
  assume "(int_of_long (args 0), sem_id (semaphores k s)) \<in> opened k L (running k)"
  then obtain d where d: "d \<in> set (L (PCB_sem_descriptors (running k)))"
    "sd_fd (sem_descriptors k d) = int_of_long (args 0)"
    "sem_id (semaphores k (sd_semaphore (sem_descriptors k d))) = sem_id (semaphores k s)"
    by (rule openedE)
  have "sd_semaphore (sem_descriptors k d) = s"
    using sem_okD(5) [OF kinvD(5) [OF inv]] d(3) s sem_descriptorD(1) [OF kinvD(5) [OF inv] d(1) refl]
    by (auto simp: sem_ids_ok_def inj_on_def)
  then show "calls_on (called n args k) L s"
    using d(1,2) by (auto simp: calls_on_def called_def syscall_arg_def intro!: bexI [of _ d])
qed

lemma op_of_call:
  assumes "kinv k L" and "s \<in> set (L semaphores_list)"
  shows "sem_op_of k L s (Syscall n args) =
    (if (int_of_long (args 0), sem_id (semaphores k s)) \<in> opened k L (running k) then
       if n = DSOS_CALL_SEMWAIT then Wait_by (running k)
       else if n = DSOS_CALL_SEMPOST then Post_by (running k) else Other
     else Other)"
  unfolding sem_op_of_def event.case calls_on_opened [OF assms] by simp

lemma call_handler:
  assumes inv: "kinv k L" and run: "disastrOS_syscall k n args = Inr (c, k')" and c: "c \<noteq> Exited"
    and call: "n \<in> {DSOS_CALL_SEMOPEN, DSOS_CALL_SEMCLOSE, DSOS_CALL_SEMWAIT, DSOS_CALL_SEMPOST,
      DSOS_CALL_SPAWN, DSOS_CALL_WAIT, DSOS_CALL_EXIT, DSOS_CALL_SHUTDOWN}"
  shows "syscall_vector n = Some h \<Longrightarrow> h (entered n args k) = Inr k'" "c = Resume (running k')"
    "shutdown_now k' = 0" "n \<noteq> DSOS_CALL_SHUTDOWN"
proof -
  have n: "n \<noteq> DSOS_CALL_SLEEP" using call by (auto simp: call_numbers)
  obtain g where g: "syscall_vector n = Some g"
    using call by (auto simp: syscall_vector_def call_numbers)
  note E = entered_handler [OF inv run c g n]
  show "c = Resume (running k')" and up: "shutdown_now k' = 0" using E(2,3) by blast+
  show "h (entered n args k) = Inr k'" if "syscall_vector n = Some h" using that g E(1) by simp
  show "n \<noteq> DSOS_CALL_SHUTDOWN"
  proof
    assume "n = DSOS_CALL_SHUTDOWN"
    then have "g = internal_shutdown" using g by (simp add: syscall_vector_def call_numbers)
    then show False using E(1) up by (auto simp: internal_shutdown_def)
  qed
qed

lemma vectors:
  "syscall_vector DSOS_CALL_SEMOPEN = Some internal_semOpen"
  "syscall_vector DSOS_CALL_SEMCLOSE = Some internal_semClose"
  "syscall_vector DSOS_CALL_SEMWAIT = Some internal_semWait"
  "syscall_vector DSOS_CALL_SEMPOST = Some internal_semPost"
  "syscall_vector DSOS_CALL_SPAWN = Some internal_spawn"
  "syscall_vector DSOS_CALL_WAIT = Some internal_wait"
  "syscall_vector DSOS_CALL_EXIT = Some internal_exit"
  by (simp_all add: syscall_vector_def call_numbers)

lemma numargs:
  "syscall_numarg DSOS_CALL_SEMOPEN = 2" "syscall_numarg DSOS_CALL_SEMCLOSE = 1"
  "syscall_numarg DSOS_CALL_SEMWAIT = 1" "syscall_numarg DSOS_CALL_SEMPOST = 1"
  "syscall_numarg DSOS_CALL_SPAWN = 2"
  by (simp_all add: syscall_numarg_def call_numbers)

text \<open>The calls that open and close nothing.\<close>

lemma call_steady:
  assumes inv: "kinv k L" and run: "disastrOS_syscall k n args = Inr (c, k')" and c: "c \<noteq> Exited"
    and n: "n \<in> {DSOS_CALL_SEMWAIT, DSOS_CALL_SEMPOST, DSOS_CALL_WAIT, DSOS_CALL_EXIT}"
  shows "\<exists>L'. steady (entered n args k) L k' L' \<and> alive k' L' (running k) = (n \<noteq> DSOS_CALL_EXIT)"
    and "ctx_part k' = ctx_part (entered n args k)"
proof -
  let ?e = "entered n args k"
  have inv': "kinv ?e L" by (rule entered_kinv [OF inv])
  have handler: "h ?e = Inr k'" if "syscall_vector n = Some h" for h
    by (rule call_handler(1) [OF inv run c _ that]) (use n in auto)
  have up: "shutdown_now k' = 0"
    by (rule call_handler(3) [OF inv run c]) (use n in auto)
  consider (sem_wait) "n = DSOS_CALL_SEMWAIT" | (sem_post) "n = DSOS_CALL_SEMPOST"
    | (wait) "n = DSOS_CALL_WAIT" | (exit) "n = DSOS_CALL_EXIT" using n by blast
  then have "(\<exists>L'. steady ?e L k' L' \<and> alive k' L' (running k) = (n \<noteq> DSOS_CALL_EXIT)) \<and>
    ctx_part k' = ctx_part ?e"
  proof cases
    case sem_wait
    then have h: "internal_semWait ?e = Inr k'" using handler by (simp add: vectors)
    have num: "syscall_num (pcbs ?e (running ?e)) = DSOS_CALL_SEMWAIT" by (simp add: sem_wait)
    have "\<exists>L'. steady ?e L k' L' \<and> alive k' L' (running ?e)"
      by (rule semWait_steady [OF inv' num h]) (use up in auto)
    then show ?thesis using semWait_frame [OF h up] by (simp add: proc_part_eq sem_wait call_numbers)
  next
    case sem_post
    then have h: "internal_semPost ?e = Inr k'" using handler by (simp add: vectors)
    obtain L' where "steady ?e L k' L'" "running k' = running ?e" by (rule semPost_steady [OF inv' h])
    then have "steady ?e L k' L' \<and> alive k' L' (running k)" by (simp add: alive_def)
    then show ?thesis using semPost_frame [OF h] by (auto simp: proc_part_eq sem_post call_numbers)
  next
    case wait
    then have h: "internal_wait ?e = Inr k'" using handler by (simp add: vectors)
    from wait_steady [OF inv' h] wait_frame [OF h] show ?thesis by (simp add: wait call_numbers)
  next
    case exit
    then have h: "internal_exit ?e = Inr k'" using handler by (simp add: vectors)
    from exit_steady [OF inv' h] exit_frame(2) [OF h] show ?thesis by (simp add: exit)
  qed
  then show "\<exists>L'. steady (entered n args k) L k' L' \<and> alive k' L' (running k) = (n \<noteq> DSOS_CALL_EXIT)"
    "ctx_part k' = ctx_part (entered n args k)" by blast+
qed

lemma semWait_refused:
  assumes inv: "kinv k L" and run: "disastrOS_syscall k DSOS_CALL_SEMWAIT args = Inr (c, k')"
    and c: "c \<noteq> Exited" and no: "int_of_long (args 0) \<notin> Domain (opened k L (running k))"
  shows "k' = set_retvalue DSOS_ENOTMYSEM (entered DSOS_CALL_SEMWAIT args k)"
proof -
  let ?e = "entered DSOS_CALL_SEMWAIT args k"
  have h: "internal_semWait ?e = Inr k'"
    by (rule call_handler(1) [OF inv run c]) (simp_all add: vectors)
  have "int_of_long (syscall_arg ?e 0) = int_of_long (args 0)" by (simp add: entered_arg numargs)
  moreover have "sem_descriptors ?e = sem_descriptors k" by (simp add: entered_def)
  ultimately have "\<forall>d \<in> set (L (PCB_sem_descriptors (running ?e))).
      sd_fd (sem_descriptors ?e d) \<noteq> int_of_long (syscall_arg ?e 0)"
    using no by (metis (no_types, lifting) DomainI entered_sel(1) image_eqI opened_def)
  from sem_missing(1) [OF entered_kinv [OF inv] this] h show ?thesis by simp
qed

section \<open>The machine\<close>

text \<open>The semaphores and their numbers are the same as before.\<close>

definition same_sems :: "kernel \<Rightarrow> (hloc \<Rightarrow> addr list) \<Rightarrow> kernel \<Rightarrow> (hloc \<Rightarrow> addr list) \<Rightarrow> bool" where
  "same_sems k L k' L' \<longleftrightarrow> set (L' semaphores_list) = set (L semaphores_list) \<and>
     (\<forall>s \<in> set (L semaphores_list). sem_id (semaphores k' s) = sem_id (semaphores k s))"

lemma sem_view_poke: "sem_view (kern (poke a v m)) L s = sem_view (kern m) L s"
  by (simp add: poke_def sem_view_def waiter_def fun_eq_iff)

locale ghost_discipline = memory_discipline code start ok cells fits
  for code start ok cells fits +
  fixes St :: "addr \<Rightarrow> addr \<Rightarrow> bool" and goes :: "(int \<times> int) set \<Rightarrow> 'x \<Rightarrow> thread \<Rightarrow> bool"
    and idle :: 'x and needs :: "'x \<Rightarrow> int set" and busy :: "thread \<Rightarrow> bool"
  assumes code_goes: "St f a \<Longrightarrow> goes {} idle (At (code f a))"
    and resumed_goes: "goes D x t \<Longrightarrow> goes D x (resumed t v)"
    and call_quiet: "\<not> busy (In_call g)"
    and idle_needs: "needs idle = {}"
begin

text \<open>
  The processes other than the running one. A process that is not idle is alive, and has the
  semaphores open that it needs.
\<close>

definition "others k L x ts \<longleftrightarrow> kinv k L \<and> finite {q. x q \<noteq> idle} \<and>
  (\<forall>q. x q \<noteq> idle \<longrightarrow> alive k L q \<and> (q \<noteq> running k \<longrightarrow> cpu_state (pcbs k q) = Saved_context)) \<and>
  (\<forall>q. needs (x q) \<subseteq> snd ` opened k L q) \<and>
  (\<forall>q f a. alive k L q \<longrightarrow> q \<noteq> running k \<longrightarrow> cpu_state (pcbs k q) = Fresh_context f a \<longrightarrow>
     St f a \<and> opened k L q = {} \<and> x q = idle) \<and>
  (\<forall>q. alive k L q \<longrightarrow> q \<noteq> running k \<longrightarrow> cpu_state (pcbs k q) = Saved_context \<longrightarrow>
     goes (opened k L q) (x q) (ts q)) \<and>
  (\<forall>q. \<not> alive k L q \<or> q \<noteq> running k \<and> cpu_state (pcbs k q) \<noteq> Saved_context \<longrightarrow> \<not> busy (ts q)) \<and>
  (\<forall>q \<in> set (L waiting_list). \<exists>g. ts q = In_call g) \<and>
  (\<forall>q. alive k L q \<longrightarrow> (\<forall>y \<in> opened k L q. in_int_range (fst y)))"

text \<open>The running process as well; or the process that is about to be resumed.\<close>

definition "held L x m \<longleftrightarrow> others (kern m) L x (threads m) \<and>
  goes (opened (kern m) L (running (kern m))) (x (running (kern m))) (threads m (running (kern m)))"

definition "chosen k L x ts \<longleftrightarrow> others k L x ts \<and>
  (\<forall>f a. cpu_state (pcbs k (running k)) = Fresh_context f a \<longrightarrow>
     St f a \<and> opened k L (running k) = {} \<and> x (running k) = idle) \<and>
  (cpu_state (pcbs k (running k)) = Saved_context \<longrightarrow>
     goes (opened k L (running k)) (x (running k))
       (resumed (ts (running k)) (syscall_retvalue (pcbs k (running k)))))"

lemma othersD:
  assumes "others k L x ts"
  shows "kinv k L" "finite {q. x q \<noteq> idle}" "x q \<noteq> idle \<Longrightarrow> alive k L q \<and> (q \<noteq> running k \<longrightarrow> cpu_state (pcbs k q) = Saved_context)"
    "needs (x q) \<subseteq> snd ` opened k L q"
    "alive k L q \<Longrightarrow> q \<noteq> running k \<Longrightarrow> cpu_state (pcbs k q) = Fresh_context f a \<Longrightarrow>
       St f a \<and> opened k L q = {} \<and> x q = idle"
    "alive k L q \<Longrightarrow> q \<noteq> running k \<Longrightarrow> cpu_state (pcbs k q) = Saved_context \<Longrightarrow>
       goes (opened k L q) (x q) (ts q)"
    "\<not> alive k L q \<or> q \<noteq> running k \<and> cpu_state (pcbs k q) \<noteq> Saved_context \<Longrightarrow> \<not> busy (ts q)"
    "q \<in> set (L waiting_list) \<Longrightarrow> \<exists>g. ts q = In_call g"
    "alive k L q \<Longrightarrow> y \<in> opened k L q \<Longrightarrow> in_int_range (fst y)"
  using assms unfolding others_def by blast+

lemma chosen_kinv: "chosen k L x ts \<Longrightarrow> kinv k L"
  by (simp add: chosen_def others_def)

lemma others_running:
  assumes "others k L x ts" and v: "needs v \<subseteq> snd ` opened k L (running k)"
  shows "others k L (x(running k := v)) (ts(running k := t))"
proof -
  note O = othersD [OF assms(1)]
  let ?x = "x(running k := v)" and ?ts = "ts(running k := t)"
  have out: "running k \<notin> set (L waiting_list)" by (rule sched_okD(4) [OF kinvD(2) [OF O(1)]])
  have me: "alive k L (running k)" by (simp add: alive_def)
  have "{q. ?x q \<noteq> idle} \<subseteq> insert (running k) {q. x q \<noteq> idle}" by auto
  then have fin: "finite {q. ?x q \<noteq> idle}" by (rule finite_subset) (simp add: O(2))
  show ?thesis
    unfolding others_def
  proof (intro conjI allI ballI impI)
    show "kinv k L" "finite {q. ?x q \<noteq> idle}" by (rule O(1), rule fin)
    show "alive k L q" if "?x q \<noteq> idle" for q
      using that me O(3) [of q] by (cases "q = running k") simp_all
    show "cpu_state (pcbs k q) = Saved_context" if "?x q \<noteq> idle" "q \<noteq> running k" for q
      using that O(3) [of q] by simp
    show "needs (?x q) \<subseteq> snd ` opened k L q" for q
      using v O(4) [of q] by (cases "q = running k") simp_all
    show "St f a" "opened k L q = {}" "?x q = idle"
      if "alive k L q" "q \<noteq> running k" "cpu_state (pcbs k q) = Fresh_context f a" for q f a
      using O(5) [OF that] that(2) by simp_all
    show "goes (opened k L q) (?x q) (?ts q)"
      if "alive k L q" "q \<noteq> running k" "cpu_state (pcbs k q) = Saved_context" for q
      using O(6) [OF that] that(2) by simp
    show "\<not> busy (?ts q)"
      if "\<not> alive k L q \<or> q \<noteq> running k \<and> cpu_state (pcbs k q) \<noteq> Saved_context" for q
      using O(7) [OF that] that me by (cases "q = running k") simp_all
    show "\<exists>g. ?ts q = In_call g" if "q \<in> set (L waiting_list)" for q
      using O(8) [OF that] that out by (cases "q = running k") simp_all
    show "in_int_range (fst y)" if "alive k L q" "y \<in> opened k L q" for q y by (rule O(9) [OF that])
  qed
qed

lemma resume_held:
  assumes c: "chosen k L x ts" and run: "resume code (Resume (running k)) k ts = Some m'"
  shows "kern m' = k \<and> held L x m'"
proof -
  have o: "others k L x ts" using c by (simp add: chosen_def)
  have "needs (x (running k)) \<subseteq> snd ` opened k L (running k)" by (rule othersD(4) [OF o])
  note on = others_running [OF o this]
  show ?thesis
    using run
  proof (cases rule: resume_cases)
    case (fresh q f a)
    then have f: "q = running k" "St f a" "opened k L q = {}" "x q = idle"
      using c by (auto simp: chosen_def)
    with code_goes [OF f(2)] on show ?thesis by (simp add: held_def fresh(3))
  next
    case (saved q)
    then have s: "q = running k" "goes (opened k L q) (x q) (resumed (ts q) (syscall_retvalue (pcbs k q)))"
      using c by (auto simp: chosen_def)
    with on show ?thesis by (simp add: held_def saved(3))
  qed simp
qed

text \<open>An event after which the caller \<open>me\<close> is at \<open>t\<close> with the ghost \<open>v\<close>.\<close>

lemma event_chosen:
  fixes k k' L L' ts t
  defines "me \<equiv> running k"
  assumes o: "others k L x ts" and inv': "kinv k' L'"
    and procs: "\<And>q. q \<noteq> me \<Longrightarrow> alive k L q \<Longrightarrow>
      alive k' L' q \<and> opened k' L' q = opened k L q \<and> cpu_state (pcbs k' q) = cpu_state (pcbs k q)"
    and new: "\<And>q. q \<noteq> me \<Longrightarrow> alive k' L' q \<Longrightarrow> \<not> alive k L q \<Longrightarrow>
      q \<noteq> running k' \<and> opened k' L' q = {} \<and>
      (\<exists>f a. cpu_state (pcbs k' q) = Fresh_context f a \<and> St f a)"
    and waits: "set (L' waiting_list) \<subseteq> insert me (set (L waiting_list))"
    and cpu: "cpu_state (pcbs k' me) = Saved_context"
    and waiting: "me \<in> set (L' waiting_list) \<Longrightarrow> \<exists>g. t = In_call g"
    and gone: "\<not> alive k' L' me \<Longrightarrow> v = idle \<and> \<not> busy t"
    and go: "alive k' L' me \<Longrightarrow>
      goes (opened k' L' me) v (if running k' = me then resumed t (syscall_retvalue (pcbs k' me)) else t)"
    and mine: "needs v \<subseteq> snd ` opened k' L' me"
    and range: "\<And>y. y \<in> opened k' L' me \<Longrightarrow> in_int_range (fst y)"
  shows "chosen k' L' (x(me := v)) (ts(me := t))"
proof -
  note O = othersD [OF o]
  let ?x = "x(me := v)"
  have "{q. ?x q \<noteq> idle} \<subseteq> insert me {q. x q \<noteq> idle}" by auto
  then have fin: "finite {q. ?x q \<noteq> idle}" by (rule finite_subset) (simp add: O(2))
  have dead: "\<not> busy (ts q)" "x q = idle" if "\<not> alive k L q" for q using O(3,7) that by blast+
  have "others k' L' ?x (ts(me := t))"
    unfolding others_def
  proof (intro conjI allI ballI impI)
    show "kinv k' L'" "finite {q. ?x q \<noteq> idle}" using inv' fin by simp_all
    show "alive k' L' q" if q: "?x q \<noteq> idle" for q
      using gone q procs [of q] O(3) [of q] by (cases "q = me") auto
    show "cpu_state (pcbs k' q) = Saved_context" if q: "?x q \<noteq> idle" for q
    proof (cases "q = me")
      case True
      then show ?thesis using cpu by simp
    next
      case False
      then have "x q \<noteq> idle" using q by simp
      then have "alive k L q" "cpu_state (pcbs k q) = Saved_context"
        using O(3) [of q] False by (blast, simp add: me_def)
      then show ?thesis using procs [OF False] by simp
    qed
    show "needs (?x q) \<subseteq> snd ` opened k' L' q" for q
    proof (cases "q = me \<or> \<not> alive k L q")
      case True
      then show ?thesis using mine dead(2) [of q] idle_needs by auto
    next
      case False
      then show ?thesis using procs [of q] O(4) [of q] by simp
    qed
    show "St f a" "opened k' L' q = {}" "?x q = idle"
      if q: "alive k' L' q" "q \<noteq> running k'" "cpu_state (pcbs k' q) = Fresh_context f a" for q f a
    proof -
      have "q \<noteq> me" using q(3) cpu by auto
      then have "St f a \<and> opened k' L' q = {} \<and> x q = idle"
        using q procs [of q] new [of q] O(5) [of q] dead(2) [of q]
        by (cases "alive k L q") (auto simp: me_def)
      with \<open>q \<noteq> me\<close> show "St f a" "opened k' L' q = {}" "?x q = idle" by simp_all
    qed
    show "goes (opened k' L' q) (?x q) ((ts(me := t)) q)"
      if q: "alive k' L' q" "q \<noteq> running k'" "cpu_state (pcbs k' q) = Saved_context" for q
    proof (cases "q = me")
      case True
      then show ?thesis using go q by auto
    next
      case False
      then have "alive k L q" using new [of q] q by auto
      then show ?thesis using procs [of q] O(6) [of q] False q(3) by (simp add: me_def)
    qed
    show "\<not> busy ((ts(me := t)) q)"
      if q: "\<not> alive k' L' q \<or> q \<noteq> running k' \<and> cpu_state (pcbs k' q) \<noteq> Saved_context" for q
    proof (cases "q = me")
      case True
      then show ?thesis using gone q cpu by auto
    next
      case False
      show ?thesis
      proof (cases "alive k L q")
        case True
        then show ?thesis using q procs [OF False True] O(7) [of q] False by (auto simp: me_def)
      next
        case no: False
        with dead False show ?thesis by simp
      qed
    qed
    show "\<exists>g. (ts(me := t)) q = In_call g" if "q \<in> set (L' waiting_list)" for q
      using that waits waiting O(8) [of q] by auto
    show "in_int_range (fst y)" if q: "alive k' L' q" "y \<in> opened k' L' q" for q y
      using q range procs [of q] new [of q] O(9) [of q y] by (cases "q = me"; cases "alive k L q") auto
  qed
  moreover have "(\<forall>f a. cpu_state (pcbs k' (running k')) = Fresh_context f a \<longrightarrow>
      St f a \<and> opened k' L' (running k') = {} \<and> ?x (running k') = idle) \<and>
    (cpu_state (pcbs k' (running k')) = Saved_context \<longrightarrow>
      goes (opened k' L' (running k')) (?x (running k'))
        (resumed ((ts(me := t)) (running k')) (syscall_retvalue (pcbs k' (running k')))))"
  proof (cases "running k' = me")
    case True
    then show ?thesis using go cpu by (simp add: alive_def)
  next
    case False
    have "alive k' L' (running k')" by (simp add: alive_def)
    then have a: "alive k L (running k')" using new [OF False] by auto
    then show ?thesis
      using procs [OF False a] O(5) [OF a] O(6) [OF a] False
      by (auto simp: me_def intro!: resumed_goes)
  qed
  ultimately show ?thesis unfolding chosen_def by blast
qed

text \<open>The timer.\<close>

lemma tick_held:
  assumes l: "held L x m" and run: "kernel_step (kern m) Tick = Inr (c, k')"
    and res: "resume code c k' (threads m) = Some m'"
  shows "\<exists>L'. kern m' = k' \<and> held L' x m' \<and> same_sems (kern m) L k' L' \<and>
    (\<forall>q. opened k' L' q = opened (kern m) L q) \<and> (\<forall>q. alive k' L' q = alive (kern m) L q)"
proof -
  define k where "k = kern m"
  define me where "me = running k"
  define k0 where "k0 = (upd_pcb me (\<lambda>p. p\<lparr>cpu_state := Saved_context\<rparr>) k)\<lparr>disastrOS_time := disastrOS_time k + 1\<rparr>"
  have o: "others k L x (threads m)" and g: "goes (opened k L me) (x me) (threads m me)"
    using l by (simp_all add: held_def k_def me_def)
  note O = othersD [OF o]
  have run: "kernel_step k Tick = Inr (c, k')" using run by (simp add: k_def)
  have inv0: "kinv k0 L" using O(1) by (simp add: kinv_irrelevant k0_def)
  have sched: "internal_schedule k0 = Inr k'" and c: "c = Resume (running k')"
    using run by (auto simp: kernel_step_def timerInterrupt_def res_simps Let_def k0_def me_def)
  have me0: "running k0 = me" by (simp add: k0_def me_def)
  obtain L' where st: "steady k0 L k' L'" "alive k' L' me" "me \<notin> set (L' waiting_list)"
    using schedule_steady [OF inv0 sched] me0 by auto
  note S = steadyD [OF st(1)]
  have cpu: "cpu_state (pcbs k' q) = cpu_state (pcbs k0 q)" for q
    using schedule_frame [OF sched] by (simp add: parts_eq ctx_args [of k' k0])
  have cpu0: "cpu_state (pcbs k0 q) = (if q = me then Saved_context else cpu_state (pcbs k q))" for q
    by (simp add: k0_def)
  have same: "alive k0 L q = alive k L q" "opened k0 L q = opened k L q" "semaphores k0 = semaphores k" for q
    by (simp_all add: alive_def opened_def k0_def me_def)
  have ops: "opened k' L' q = opened k L q" for q using S(4) same(2) by simp
  have me: "alive k L me" by (simp add: alive_def me_def)
  have alive: "alive k' L' q = alive k L q" for q
    using S(2) [of q] me0 same(1) st(2) me by (cases "q = me") simp_all
  have "chosen k' L' (x(me := x me)) ((threads m)(me := threads m me))"
    unfolding me_def
  proof (rule event_chosen [OF o S(1)], unfold me_def [symmetric])
    show "goes (opened k' L' me) (x me)
        (if running k' = me then resumed (threads m me) (syscall_retvalue (pcbs k' me)) else threads m me)"
      using g ops by (simp add: resumed_goes)
    show "needs (x me) \<subseteq> snd ` opened k' L' me" using O(4) ops by simp
    show "in_int_range (fst y)" if "y \<in> opened k' L' me" for y
      using O(9) [OF me] that ops by simp
    show "set (L' waiting_list) \<subseteq> insert me (set (L waiting_list))" using S(3) me0 by simp
    show "cpu_state (pcbs k' me) = Saved_context" by (simp add: cpu cpu0)
  qed (use alive ops cpu cpu0 st(2,3) in auto)
  then have "kern m' = k' \<and> held L' x m'" using resume_held [of k' L' x "threads m" m'] res c by simp
  moreover have "same_sems k L k' L'" using S(5,6) same(3) by (simp add: same_sems_def)
  ultimately show ?thesis using ops alive by (auto simp: k_def)
qed

text \<open>The calls that open and close nothing.\<close>

lemma call_chosen:
  fixes k k' L ts f n args
  defines "me \<equiv> running k"
  assumes o: "others k L x ts" and run: "disastrOS_syscall k n args = Inr (c, k')" and c: "c \<noteq> Exited"
    and n: "n \<in> {DSOS_CALL_SEMWAIT, DSOS_CALL_SEMPOST, DSOS_CALL_WAIT, DSOS_CALL_EXIT}"
    and dead: "n = DSOS_CALL_EXIT \<Longrightarrow> v = idle"
    and mine: "needs v \<subseteq> snd ` opened k L me"
    and go: "n \<noteq> DSOS_CALL_EXIT \<Longrightarrow> goes (opened k L me) v
      (if running k' = me then At (f (syscall_retvalue (pcbs k' me))) else In_call f)"
  shows "\<exists>L'. chosen k' L' (x(me := v)) (ts(me := In_call f)) \<and> same_sems k L k' L' \<and>
    (\<forall>q. opened k' L' q = opened k L q) \<and>
    (\<forall>q. alive k' L' q = (alive k L q \<and> (q = me \<longrightarrow> n \<noteq> DSOS_CALL_EXIT)))"
proof -
  note O = othersD [OF o]
  let ?e = "entered n args k"
  obtain L' where st: "steady ?e L k' L'" and alive: "alive k' L' me = (n \<noteq> DSOS_CALL_EXIT)"
    using call_steady(1) [OF O(1) run c n] by (auto simp: me_def)
  note S = steadyD [OF st]
  have cpu: "cpu_state (pcbs k' q) = cpu_state (pcbs ?e q)" for q
    by (rule ctx_args(3) [OF call_steady(2) [OF O(1) run c n]])
  have ops: "opened k' L' q = opened k L q" for q using S(4) by simp
  have same: "alive k' L' q = alive k L q" if "q \<noteq> me" for q using S(2) [of q] that by (simp add: me_def)
  have me: "alive k L me" by (simp add: alive_def me_def)
  have "chosen k' L' (x(me := v)) (ts(me := In_call f))"
    unfolding me_def
  proof (rule event_chosen [OF o S(1)], unfold me_def [symmetric])
    show "goes (opened k' L' me) v
        (if running k' = me then resumed (In_call f) (syscall_retvalue (pcbs k' me)) else In_call f)"
      if "alive k' L' me"
      using go that alive by (simp add: ops split: if_splits)
    show "set (L' waiting_list) \<subseteq> insert me (set (L waiting_list))" using S(3) by (simp add: me_def)
    show "in_int_range (fst y)" if "y \<in> opened k' L' me" for y
      using O(9) [OF me, of y] that by (simp add: ops)
    show "cpu_state (pcbs k' me) = Saved_context" by (simp add: cpu me_def)
    show "\<not> alive k' L' me \<Longrightarrow> v = idle \<and> \<not> busy (In_call f)" using alive dead call_quiet by simp
    show "alive k' L' q \<and> opened k' L' q = opened k L q \<and>
        cpu_state (pcbs k' q) = cpu_state (pcbs k q)" if "q \<noteq> me" "alive k L q" for q
      using that same ops by (simp add: cpu me_def)
  qed (use mine same ops in auto)
  moreover have "same_sems k L k' L'" using S(5,6) by (simp add: same_sems_def)
  moreover have "alive k' L' q = (alive k L q \<and> (q = me \<longrightarrow> n \<noteq> DSOS_CALL_EXIT))" for q
    using same [of q] alive me by (cases "q = me") simp_all
  ultimately show ?thesis using ops by blast
qed

lemma open_chosen:
  fixes k k' L ts f args
  defines "me \<equiv> running k"
  assumes o: "others k L x ts" and c: "c \<noteq> Exited"
    and run: "disastrOS_syscall k DSOS_CALL_SEMOPEN args = Inr (c, k')"
    and n: "n = int_of_long (args 0)"
    and fails: "\<And>v. v \<in> open_errors \<Longrightarrow> goes (opened k L me) (x me) (At (f v))"
    and opens: "\<And>v. 0 \<le> v \<Longrightarrow> in_int_range v \<Longrightarrow> \<forall>m. (v, m) \<in> opened k L me \<longrightarrow> m = n \<Longrightarrow>
      \<forall>w. (w, n) \<in> opened k L me \<longrightarrow> w = v \<Longrightarrow>
      goes (insert (v, n) (opened k L me)) (x me) (At (f v))"
  shows "\<exists>L'. chosen k' L' x (ts(me := In_call f)) \<and>
    (\<forall>q. opened k L q \<subseteq> opened k' L' q) \<and> (\<forall>q. alive k' L' q = alive k L q) \<and>
    (\<forall>u \<in> set (L' semaphores_list).
       u \<in> set (L semaphores_list) \<and> semaphores k' u = semaphores k u \<or>
       sem_view k' L' u = \<lparr>cs_count = int_of_long (args 1), cs_queue = []\<rparr> \<and> sem_id (semaphores k' u) = n \<and>
       (\<forall>w \<in> set (L semaphores_list). sem_id (semaphores k w) \<noteq> n))"
proof -
  note O = othersD [OF o]
  let ?e = "entered DSOS_CALL_SEMOPEN args k"
  have inv': "kinv ?e L" by (rule entered_kinv [OF O(1)])
  have h: "internal_semOpen ?e = Inr k'"
    by (rule call_handler(1) [OF O(1) run c]) (simp_all add: vectors)
  have args: "n = int_of_long (syscall_arg ?e 0)" by (simp add: n entered_arg numargs)
  obtain L' where op: "opens n ?e L k' L'" and sems: "\<forall>u \<in> set (L' semaphores_list).
       u \<in> set (L semaphores_list) \<and> semaphores k' u = semaphores k u \<or>
       sem_view k' L' u = \<lparr>cs_count = int_of_long (args 1), cs_queue = []\<rparr> \<and> sem_id (semaphores k' u) = n \<and>
       (\<forall>w \<in> set (L semaphores_list). sem_id (semaphores k w) \<noteq> n)"
    using semOpen_opens_number [OF inv' h args refl] by (auto simp: entered_arg numargs)
  define r where "r = syscall_retvalue (pcbs k' me)"
  have P: "kinv k' L'" "running k' = me" "L' ready_list = L ready_list" "L' waiting_list = L waiting_list"
    "\<And>q. q \<noteq> me \<Longrightarrow> opened k' L' q = opened k L q"
    "r \<in> open_errors \<and> opened k' L' me = opened k L me \<or>
      0 \<le> r \<and> (in_int_range r \<or> (r, n) \<in> opened k L me) \<and>
      opened k' L' me = insert (r, n) (opened k L me)"
    using op by (simp_all add: opens_def Let_def me_def r_def)
  have alive: "alive k' L' q = alive k L q" for q using P(2-4) by (simp add: alive_def me_def)
  have me: "alive k L me" by (simp add: alive_def me_def)
  have cpu: "cpu_state (pcbs k' q) = cpu_state (pcbs ?e q)" for q
    using semOpen_frame(2) [OF h] unfolding proc_part_eq by (blast dest: ctx_args(3))
  have range: "in_int_range (fst y)" if "y \<in> opened k' L' me" for y
  proof -
    have "y \<in> opened k L me \<or> y = (r, n) \<and> (in_int_range r \<or> y \<in> opened k L me)"
      using P(6) that by auto
    with O(9) [OF me, of y] show ?thesis by auto
  qed
  have old: "opened k L q \<subseteq> opened k' L' q" for q using P(5,6) by (cases "q = me") auto
  have goes: "goes (opened k' L' me) (x me) (At (f r))"
    using P(6)
  proof
    assume "r \<in> open_errors \<and> opened k' L' me = opened k L me"
    then show ?thesis using fails by simp
  next
    assume a: "0 \<le> r \<and> (in_int_range r \<or> (r, n) \<in> opened k L me) \<and>
      opened k' L' me = insert (r, n) (opened k L me)"
    then have new: "(r, n) \<in> opened k' L' me" by simp
    have "\<forall>m. (r, m) \<in> opened k L me \<longrightarrow> m = n" "\<forall>w. (w, n) \<in> opened k L me \<longrightarrow> w = r"
      using opened_unique(1,2) [OF P(1) new] old [of me] by blast+
    moreover have "in_int_range r" using range [OF new] by simp
    ultimately have "goes (insert (r, n) (opened k L me)) (x me) (At (f r))"
      using a by (intro opens) blast+
    then show ?thesis using a by simp
  qed
  have "chosen k' L' (x(me := x me)) (ts(me := In_call f))"
    unfolding me_def
  proof (rule event_chosen [OF o P(1)], unfold me_def [symmetric])
    show "goes (opened k' L' me) (x me)
        (if running k' = me then resumed (In_call f) (syscall_retvalue (pcbs k' me)) else In_call f)"
      using goes by (simp add: P(2) r_def)
    show "set (L' waiting_list) \<subseteq> insert me (set (L waiting_list))" using P(4) by auto
    show "in_int_range (fst y)" if "y \<in> opened k' L' me" for y by (rule range [OF that])
    show "cpu_state (pcbs k' me) = Saved_context" by (simp add: cpu me_def)
    show "needs (x me) \<subseteq> snd ` opened k' L' me" using O(4) [of me] old [of me] by blast
    show "alive k' L' q \<and> opened k' L' q = opened k L q \<and>
        cpu_state (pcbs k' q) = cpu_state (pcbs k q)" if "q \<noteq> me" "alive k L q" for q
      using that P(5) alive by (simp add: cpu me_def)
  qed (use me alive in auto)
  then show ?thesis using old alive sems by auto
qed

lemma close_chosen:
  fixes k k' L ts f args
  defines "me \<equiv> running k"
  assumes o: "others k L x ts" and c: "c \<noteq> Exited"
    and run: "disastrOS_syscall k DSOS_CALL_SEMCLOSE args = Inr (c, k')"
    and free: "\<And>m. (int_of_long (args 0), m) \<in> opened k L me \<Longrightarrow> m \<notin> needs (x me)"
    and go: "\<And>v. goes (opened k L me - {int_of_long (args 0)} \<times> UNIV) (x me) (At (f v))"
  shows "\<exists>L'. chosen k' L' x (ts(me := In_call f)) \<and> (\<forall>q. q \<noteq> me \<longrightarrow> opened k' L' q = opened k L q) \<and>
    (\<forall>q. alive k' L' q = alive k L q) \<and> set (L' semaphores_list) \<subseteq> set (L semaphores_list) \<and>
    semaphores k' = semaphores k"
proof -
  note O = othersD [OF o]
  let ?e = "entered DSOS_CALL_SEMCLOSE args k"
  have inv': "kinv ?e L" by (rule entered_kinv [OF O(1)])
  have h: "internal_semClose ?e = Inr k'"
    by (rule call_handler(1) [OF O(1) run c]) (simp_all add: vectors)
  have args: "int_of_long (args 0) = int_of_long (syscall_arg ?e 0)" by (simp add: entered_arg numargs)
  obtain L' where P: "kinv k' L'" "running k' = me" "L' ready_list = L ready_list"
    "L' waiting_list = L waiting_list" "\<And>q. q \<noteq> me \<Longrightarrow> opened k' L' q = opened k L q"
    "opened k' L' me = opened k L me - {int_of_long (args 0)} \<times> UNIV"
    "set (L' semaphores_list) \<subseteq> set (L semaphores_list)" "semaphores k' = semaphores k"
    using semClose_closes_number [OF inv' h args] by (auto simp: me_def)
  have alive: "alive k' L' q = alive k L q" for q using P(2-4) by (simp add: alive_def me_def)
  have me: "alive k L me" by (simp add: alive_def me_def)
  have cpu: "cpu_state (pcbs k' q) = cpu_state (pcbs ?e q)" for q
    using call_frames(8) [OF h] unfolding parts_eq by (blast dest: ctx_args(3))
  have "chosen k' L' (x(me := x me)) (ts(me := In_call f))"
    unfolding me_def
  proof (rule event_chosen [OF o P(1)], unfold me_def [symmetric])
    show "goes (opened k' L' me) (x me)
        (if running k' = me then resumed (In_call f) (syscall_retvalue (pcbs k' me)) else In_call f)"
      using go by (simp add: P(2,6))
    show "set (L' waiting_list) \<subseteq> insert me (set (L waiting_list))" using P(4) by auto
    show "in_int_range (fst y)" if "y \<in> opened k' L' me" for y
      using O(9) [OF me] that P(6) by blast
    show "cpu_state (pcbs k' me) = Saved_context" by (simp add: cpu me_def)
    show "needs (x me) \<subseteq> snd ` opened k' L' me"
    proof
      fix m assume m: "m \<in> needs (x me)"
      then obtain fd where fd: "(fd, m) \<in> opened k L me" using O(4) [of me] by force
      then have "fd \<noteq> int_of_long (args 0)" using free m by blast
      with fd have "(fd, m) \<in> opened k' L' me" by (simp add: P(6))
      then show "m \<in> snd ` opened k' L' me" by (rule image_eqI [rotated]) simp
    qed
    show "alive k' L' q \<and> opened k' L' q = opened k L q \<and>
        cpu_state (pcbs k' q) = cpu_state (pcbs k q)" if "q \<noteq> me" "alive k L q" for q
      using that P(5) alive by (simp add: cpu me_def)
  qed (use me alive in auto)
  then show ?thesis using P(5,7,8) alive by auto
qed

lemma spawn_chosen:
  fixes k k' L ts f args
  defines "me \<equiv> running k"
  assumes o: "others k L x ts" and c: "c \<noteq> Exited"
    and run: "disastrOS_syscall k DSOS_CALL_SPAWN args = Inr (c, k')"
    and child: "St (args 0) (args 1)"
    and go: "\<And>v. goes (opened k L me) (x me) (At (f v))"
  shows "\<exists>L'. chosen k' L' x (ts(me := In_call f)) \<and>
    (\<forall>q. alive k L q \<longrightarrow> alive k' L' q \<and> opened k' L' q = opened k L q) \<and>
    L' semaphores_list = L semaphores_list \<and> semaphores k' = semaphores k"
proof -
  note O = othersD [OF o]
  let ?e = "entered DSOS_CALL_SPAWN args k"
  have inv': "kinv ?e L" by (rule entered_kinv [OF O(1)])
  have h: "internal_spawn ?e = Inr k'"
    by (rule call_handler(1) [OF O(1) run c]) (simp_all add: vectors)
  obtain p L' where "makes ?e L p k' L'" using spawn_makes [OF inv' h] by blast
  then have P: "kinv k' L'" "running k' = me" "\<not> alive k L p"
    "\<And>q. alive k' L' q \<longleftrightarrow> q = p \<or> alive k L q" "L' waiting_list = L waiting_list"
    "opened k' L' p = {}" "\<And>q. q \<noteq> p \<Longrightarrow> opened k' L' q = opened k L q"
    "L' semaphores_list = L semaphores_list" "semaphores k' = semaphores k"
    "cpu_state (pcbs k' p) = Fresh_context (args 0) (args 1)"
    "\<And>q. q \<noteq> p \<Longrightarrow> cpu_state (pcbs k' q) = cpu_state (pcbs ?e q)"
    by (simp_all add: makes_def me_def entered_arg numargs del: entered_sel(6))
  have me: "alive k L me" by (simp add: alive_def me_def)
  with P(3) have new: "me \<noteq> p" by auto
  have kept: "alive k' L' q \<and> opened k' L' q = opened k L q" if "alive k L q" for q
  proof -
    have "q \<noteq> p" using that P(3) by auto
    then show ?thesis using that P(4,7) by simp
  qed
  have "chosen k' L' (x(me := x me)) (ts(me := In_call f))"
    unfolding me_def
  proof (rule event_chosen [OF o P(1)], unfold me_def [symmetric])
    show "goes (opened k' L' me) (x me)
        (if running k' = me then resumed (In_call f) (syscall_retvalue (pcbs k' me)) else In_call f)"
      using go by (simp add: P(2) P(7) [OF new])
    show "set (L' waiting_list) \<subseteq> insert me (set (L waiting_list))" using P(5) by auto
    show "in_int_range (fst y)" if "y \<in> opened k' L' me" for y
      using O(9) [OF me] that P(7) [OF new] by blast
    show "cpu_state (pcbs k' me) = Saved_context" using P(11) [OF new] by (simp add: me_def)
    show "needs (x me) \<subseteq> snd ` opened k' L' me" using O(4) [of me] P(7) [OF new] by simp
    show "alive k' L' q \<and> opened k' L' q = opened k L q \<and>
        cpu_state (pcbs k' q) = cpu_state (pcbs k q)" if q: "q \<noteq> me" "alive k L q" for q
    proof -
      have "q \<noteq> p" using q(2) P(3) by auto
      then show ?thesis using q kept P(11) by (simp add: me_def)
    qed
    show "q \<noteq> running k' \<and> opened k' L' q = {} \<and>
        (\<exists>f a. cpu_state (pcbs k' q) = Fresh_context f a \<and> St f a)"
      if q: "q \<noteq> me" "alive k' L' q" "\<not> alive k L q" for q
      using that P(2,4,6,10) child by auto
  qed (use me P(4) in auto)
  then show ?thesis using kept P(8,9) by auto
qed

text \<open>The actions without a call.\<close>

lemma goes_on_held:
  assumes "others (kern m) L x (threads m)" and "needs v \<subseteq> snd ` opened (kern m) L (running (kern m))"
    and "goes (opened (kern m) L (running (kern m))) v (At p)"
  shows "held L (x(running (kern m) := v)) (goes_on m p)"
  using others_running [OF assms(1,2), of "At p"] assms(3) by (simp add: held_def goes_on_def)

lemma poke_others:
  assumes "others (kern m) L x ts"
  shows "others (kern (poke a v m)) L x ts"
proof -
  let ?k = "kern m" and ?k' = "kern (poke a v m)"
  have same: "running ?k' = running ?k" "pcbs ?k' = pcbs ?k" "kinv ?k' L = kinv ?k L"
    by (simp_all add: poke_def)
  have alive: "alive ?k' L = alive ?k L" and ops: "opened ?k' L = opened ?k L"
    by (simp_all add: poke_def alive_def opened_def fun_eq_iff)
  show ?thesis using assms unfolding others_def same alive ops .
qed

text \<open>A lone process with nothing open.\<close>

lemma lone_held:
  assumes "kinv (kern m) (\<lambda>_. [])" and "threads m = (\<lambda>_. t)(running (kern m) := At p)"
    and "\<not> busy t" and "needs v = {}" and "goes {} v (At p)"
  shows "held (\<lambda>_. []) ((\<lambda>_. idle)(running (kern m) := v)) m"
proof -
  have "finite {q. ((\<lambda>_. idle)(running (kern m) := v)) q \<noteq> idle}"
    by (rule finite_subset [of _ "{running (kern m)}"]) auto
  then show ?thesis
    using assms by (simp add: held_def others_def alive_def opened_def idle_needs)
qed

text \<open>A process that is not idle is where its ghost says.\<close>

lemma ghost_goes:
  assumes "held L x m" and "x q \<noteq> idle"
  shows "goes (opened (kern m) L q) (x q) (threads m q)"
proof (cases "q = running (kern m)")
  case True
  then show ?thesis using assms(1) by (simp add: held_def)
next
  case False
  have o: "others (kern m) L x (threads m)" using assms(1) by (simp add: held_def)
  note O = othersD [OF o]
  from O(3) [OF assms(2)] False have "alive (kern m) L q" "cpu_state (pcbs (kern m) q) = Saved_context"
    by simp_all
  then show ?thesis by (rule O(6) [OF _ False])
qed

text \<open>A process that is busy goes on where it is.\<close>

lemma busy_goes:
  assumes "held L x m" and "busy (threads m q)"
  shows "goes (opened (kern m) L q) (x q) (threads m q)" "alive (kern m) L q"
    "q \<notin> set (L waiting_list)"
proof -
  have o: "others (kern m) L x (threads m)" using assms(1) by (simp add: held_def)
  note O = othersD [OF o]
  show alive: "alive (kern m) L q" using O(7) [of q] assms(2) by blast
  show "goes (opened (kern m) L q) (x q) (threads m q)"
  proof (cases "q = running (kern m)")
    case True
    then show ?thesis using assms(1) by (simp add: held_def)
  next
    case False
    then have "cpu_state (pcbs (kern m) q) = Saved_context" using O(7) [of q] assms(2) by blast
    from O(6) [OF alive False this] show ?thesis .
  qed
  show "q \<notin> set (L waiting_list)" using O(8) [of q] assms(2) call_quiet by auto
qed

end

end
