(* ===== verification/Permits.thy ===== *)
theory Permits
  imports Ghosts
begin

text \<open>
  What a semaphore is used for: a process that waits on it gets a permit, and the permits that are
  free, handed out or waited for are bounded.
\<close>

section \<open>The queue of a semaphore\<close>

lemma queue_waits:
  assumes "kinv k L" and "q \<in> set (cs_queue (sem_view k L s))"
  shows "q \<in> set (L waiting_list)" "q \<noteq> running k"
proof -
  show w: "q \<in> set (L waiting_list)"
    using assms(2) sem_waitingD(4) [OF kinvD(5) [OF assms(1)] _ refl refl]
    by (auto simp: sem_view_def waiter_def)
  then show "q \<noteq> running k" using sched_okD(4) [OF kinvD(2) [OF assms(1)], of waiting_list] by auto
qed

lemma queue_distinct:
  assumes "kinv k L"
  shows "distinct (cs_queue (sem_view k L s))"
proof -
  have "inj_on (waiter k) (set (L (Semaphore_waiting s)))"
    using sem_waitingD(6) [OF kinvD(5) [OF assms] _ refl refl]
    by (intro inj_onI) (auto simp: waiter_def)
  then show ?thesis
    using list_repD(3) [OF kinvD(7) [OF assms], of "Semaphore_waiting s"]
    by (simp add: sem_view_def distinct_map)
qed

section \<open>Permits\<close>

text \<open>
  \<open>permits n b A B k L\<close>: \<open>B\<close> are the processes that have a permit of the semaphore with the number
  \<open>n\<close> or wait for one, \<open>A\<close> those that may be waiting for it, and \<open>b\<close> bounds the permits.
\<close>

definition permits ::
    "int \<Rightarrow> int \<Rightarrow> addr set \<Rightarrow> addr set \<Rightarrow> kernel \<Rightarrow> (hloc \<Rightarrow> addr list) \<Rightarrow> bool" where
  "permits n b A B k L \<longleftrightarrow>
     (\<forall>s \<in> set (L semaphores_list). sem_id (semaphores k s) = n \<longrightarrow>
        cs_balanced (sem_view k L s) \<and> set (cs_queue (sem_view k L s)) \<subseteq> A \<and>
        cs_count (sem_view k L s) + int (card B) \<le> b)"

lemma permits_poke: "permits n b A B (kern (poke a v m)) L = permits n b A B (kern m) L"
  unfolding permits_def sem_view_poke by (simp add: poke_def)

text \<open>Those that have a permit and do not wait are no more than the bound.\<close>

lemma permits_bound:
  assumes inv: "kinv k L" and st: "permits n b A B k L" and fin: "finite B" and sub: "A \<subseteq> B"
    and s: "s \<in> set (L semaphores_list)" "sem_id (semaphores k s) = n"
    and C: "C \<subseteq> B" "\<And>p. p \<in> C \<Longrightarrow> p \<notin> set (L waiting_list)"
  shows "int (card C) \<le> b"
proof -
  let ?a = "sem_view k L s"
  have a: "cs_balanced ?a" "set (cs_queue ?a) \<subseteq> A" "cs_count ?a + int (card B) \<le> b"
    using st s by (auto simp: permits_def)
  have disj: "set (cs_queue ?a) \<inter> C = {}" using C(2) queue_waits(1) [OF inv] by blast
  have "card (set (cs_queue ?a)) + card C = card (set (cs_queue ?a) \<union> C)"
    by (rule card_Un_disjoint [symmetric, OF _ _ disj]) (use finite_subset [OF C(1) fin] in simp_all)
  also have "\<dots> \<le> card B" using a(2) sub C(1) by (intro card_mono [OF fin]) auto
  finally have "length (cs_queue ?a) + card C \<le> card B"
    using distinct_card [OF queue_distinct [OF inv], of s] by simp
  then show ?thesis using a(1,3) by (auto simp: cs_balanced_def max_def split: if_splits)
qed

text \<open>How the events of the kernel change the permits.\<close>

lemma permits_event:
  assumes inv: "kinv k L" and st: "permits n b A B k L"
    and ok: "kernel_step k e = Inr (c, k')" "c \<noteq> Exited" and inv': "kinv k' L'"
    and old: "\<And>s. s \<in> set (L' semaphores_list) \<Longrightarrow> sem_id (semaphores k' s) = n \<Longrightarrow>
      s \<in> set (L semaphores_list) \<and> sem_id (semaphores k s) = n \<or>
      cs_balanced (sem_view k' L' s) \<and> cs_queue (sem_view k' L' s) = [] \<and>
      cs_count (sem_view k' L' s) + int (card B') \<le> b'"
    and op: "\<And>s. s \<in> set (L semaphores_list) \<Longrightarrow> sem_id (semaphores k s) = n \<Longrightarrow>
      (case sem_op_of k L s e of
         Wait_by p \<Rightarrow> insert p (A - {running k}) \<subseteq> A' \<and> int (card B') - b' \<le> int (card B) - b + 1
       | Post_by p \<Rightarrow> A - {running k} \<subseteq> A' \<and> int (card B') - b' \<le> int (card B) - b - 1
       | Other \<Rightarrow> A - {running k} \<subseteq> A' \<and> int (card B') - b' \<le> int (card B) - b)"
  shows "permits n b' A' B' k' L'"
  unfolding permits_def
proof (intro ballI impI)
  fix s
  assume s': "s \<in> set (L' semaphores_list)" "sem_id (semaphores k' s) = n"
  let ?a = "sem_view k L s"
  from old [OF s']
  show "cs_balanced (sem_view k' L' s) \<and> set (cs_queue (sem_view k' L' s)) \<subseteq> A' \<and>
      cs_count (sem_view k' L' s) + int (card B') \<le> b'"
  proof
    assume s: "s \<in> set (L semaphores_list) \<and> sem_id (semaphores k s) = n"
    have a: "cs_balanced ?a" "set (cs_queue ?a) \<subseteq> A" "cs_count ?a + int (card B) \<le> b"
      using st s by (auto simp: permits_def)
    have me: "set (cs_queue ?a) \<subseteq> A - {running k}" using a(2) queue_waits(2) [OF inv] by blast
    have view: "sem_view k' L' s = op_view (sem_op_of k L s e) ?a"
      by (rule step_view [OF inv _ ok inv']) (use s in simp)
    show ?thesis
    proof (cases "sem_op_of k L s e")
      case (Wait_by p)
      with op [of s] s have p: "insert p (A - {running k}) \<subseteq> A'"
        "int (card B') - b' \<le> int (card B) - b + 1" by auto
      have "set (cs_queue (cs_wait p ?a)) \<subseteq> insert p (set (cs_queue ?a))"
        "cs_count (cs_wait p ?a) = cs_count ?a - 1" by (auto simp: cs_wait_def)
      moreover have "insert p (set (cs_queue ?a)) \<subseteq> A'" using me p(1) by blast
      ultimately show ?thesis
        using a(3) p(2) cs_balanced_wait [OF a(1), of p] by (auto simp: view Wait_by)
    next
      case (Post_by p)
      with op [of s] s have p: "A - {running k} \<subseteq> A'" "int (card B') - b' \<le> int (card B) - b - 1" by auto
      have "set (tl ys) \<subseteq> set ys" for ys :: "addr list" by (cases ys) auto
      then have "set (cs_queue (cs_post ?a)) \<subseteq> set (cs_queue ?a)" by (auto simp: cs_post_def)
      moreover have "cs_count (cs_post ?a) = cs_count ?a + 1" by (simp add: cs_post_def)
      ultimately show ?thesis
        using a(3) me p cs_balanced_post [OF a(1)] by (auto simp: view Post_by)
    next
      case Other
      with op [of s] s have "A - {running k} \<subseteq> A'" "int (card B') - b' \<le> int (card B) - b" by auto
      then show ?thesis using a(1,3) me by (auto simp: view Other)
    qed
  qed auto
qed

text \<open>An action without a call.\<close>

lemma permits_private:
  assumes inv: "kinv k L" and st: "permits n b A B k L"
    and A: "A - {running k} \<subseteq> A'" and B: "int (card B') - b' \<le> int (card B) - b"
  shows "permits n b' A' B' k L"
  unfolding permits_def
proof (intro ballI impI)
  fix s
  assume "s \<in> set (L semaphores_list)" "sem_id (semaphores k s) = n"
  then have a: "cs_balanced (sem_view k L s)" "set (cs_queue (sem_view k L s)) \<subseteq> A"
    "cs_count (sem_view k L s) + int (card B) \<le> b"
    using st by (auto simp: permits_def)
  moreover have "set (cs_queue (sem_view k L s)) \<subseteq> A'" using a(2) A queue_waits(2) [OF inv] by blast
  ultimately show "cs_balanced (sem_view k L s) \<and> set (cs_queue (sem_view k L s)) \<subseteq> A' \<and>
      cs_count (sem_view k L s) + int (card B') \<le> b'" using B by simp
qed

end
