(* ===== verification/Locks.thy ===== *)
theory Locks
  imports Ghosts Permits
begin

text \<open>
  Mutual exclusion: processes that guard some cells of the shared memory by a semaphore that
  starts at 1. What such a program does is \<open>guarded\<close>; whatever the kernel does with it, at most one
  process is in its section on the guarded cells.
\<close>

section \<open>Guarded programs\<close>

text \<open>
  \<open>guarded St lock crit fits D h p\<close>: a process that has open what is in \<open>D\<close>, and holds the lock if \<open>h\<close>,
  may go on with \<open>p\<close>. It starts only what is in \<open>St\<close>, opens the semaphore \<open>lock\<close> with the count 1,
  waits for it only if it does not hold it, posts only if it does, does not close it while it
  holds it, and accesses the cells \<open>crit\<close> only when it holds it. The result of a wait can be anything;
  a wait on a number that is not open is refused.
\<close>

inductive guarded :: "(addr \<Rightarrow> addr \<Rightarrow> bool) \<Rightarrow> int \<Rightarrow> addr set \<Rightarrow> (addr \<Rightarrow> int \<Rightarrow> bool) \<Rightarrow>
    (int \<times> int) set \<Rightarrow> bool \<Rightarrow> prog \<Rightarrow> bool"
  for St :: "addr \<Rightarrow> addr \<Rightarrow> bool" and lock :: int and crit :: "addr set"
    and fits :: "addr \<Rightarrow> int \<Rightarrow> bool"
where
  guarded_open: "n = int_of_long (args 0) \<Longrightarrow> (n = lock \<longrightarrow> int_of_long (args 1) = 1) \<Longrightarrow>
    (\<And>v. v \<in> open_errors \<Longrightarrow> guarded St lock crit fits D h (f v)) \<Longrightarrow>
    (\<And>v. 0 \<le> v \<Longrightarrow> in_int_range v \<Longrightarrow> \<forall>m. (v, m) \<in> D \<longrightarrow> m = n \<Longrightarrow> \<forall>w. (w, n) \<in> D \<longrightarrow> w = v \<Longrightarrow>
       guarded St lock crit fits (insert (v, n) D) h (f v)) \<Longrightarrow>
    guarded St lock crit fits D h (Sys DSOS_CALL_SEMOPEN args f)"
| guarded_close: "((int_of_long (args 0), lock) \<in> D \<longrightarrow> \<not> h) \<Longrightarrow>
    (\<And>v. guarded St lock crit fits (D - {int_of_long (args 0)} \<times> UNIV) h (f v)) \<Longrightarrow>
    guarded St lock crit fits D h (Sys DSOS_CALL_SEMCLOSE args f)"
| guarded_take: "(int_of_long (args 0), lock) \<in> D \<Longrightarrow> \<not> h \<Longrightarrow>
    (\<And>v. guarded St lock crit fits D True (f v)) \<Longrightarrow>
    guarded St lock crit fits D h (Sys DSOS_CALL_SEMWAIT args f)"
| guarded_sem_wait: "(int_of_long (args 0), lock) \<notin> D \<Longrightarrow> int_of_long (args 0) \<in> Domain D \<Longrightarrow>
    (\<And>v. guarded St lock crit fits D h (f v)) \<Longrightarrow>
    guarded St lock crit fits D h (Sys DSOS_CALL_SEMWAIT args f)"
| guarded_refused: "int_of_long (args 0) \<notin> Domain D \<Longrightarrow>
    guarded St lock crit fits D h (f DSOS_ENOTMYSEM) \<Longrightarrow>
    guarded St lock crit fits D h (Sys DSOS_CALL_SEMWAIT args f)"
| guarded_release: "(int_of_long (args 0), lock) \<in> D \<Longrightarrow> h \<Longrightarrow>
    (\<And>v. guarded St lock crit fits D False (f v)) \<Longrightarrow>
    guarded St lock crit fits D h (Sys DSOS_CALL_SEMPOST args f)"
| guarded_sem_post: "(int_of_long (args 0), lock) \<notin> D \<Longrightarrow>
    (\<And>v. guarded St lock crit fits D h (f v)) \<Longrightarrow>
    guarded St lock crit fits D h (Sys DSOS_CALL_SEMPOST args f)"
| guarded_spawn: "St (args 0) (args 1) \<Longrightarrow> (\<And>v. guarded St lock crit fits D h (f v)) \<Longrightarrow>
    guarded St lock crit fits D h (Sys DSOS_CALL_SPAWN args f)"
| guarded_wait: "(\<And>v. guarded St lock crit fits D h (f v)) \<Longrightarrow>
    guarded St lock crit fits D h (Sys DSOS_CALL_WAIT args f)"
| guarded_exit: "guarded St lock crit fits D h (Sys DSOS_CALL_EXIT args f)"
| guarded_shutdown: "guarded St lock crit fits D h (Sys DSOS_CALL_SHUTDOWN args f)"
| guarded_Get_pid: "(\<And>v. guarded St lock crit fits D h (f v)) \<Longrightarrow> guarded St lock crit fits D h (Get_pid f)"
| guarded_Load: "(a \<in> crit \<longrightarrow> h) \<Longrightarrow> (\<And>v. fits a v \<Longrightarrow> guarded St lock crit fits D h (f v)) \<Longrightarrow>
    guarded St lock crit fits D h (Load a f)"
| guarded_Store: "(a \<in> crit \<longrightarrow> h) \<Longrightarrow> guarded St lock crit fits D h p \<Longrightarrow>
    guarded St lock crit fits D h (Store a v p)"
| guarded_Printf: "guarded St lock crit fits D h p \<Longrightarrow> guarded St lock crit fits D h (Printf s vs p)"
| guarded_Print_status: "guarded St lock crit fits D h p \<Longrightarrow> guarded St lock crit fits D h (Print_status p)"

inductive_simps guarded_simps:
  "guarded St lock crit fits D h (Get_pid f)" "guarded St lock crit fits D h (Load a f)"
  "guarded St lock crit fits D h (Store a v p)" "guarded St lock crit fits D h (Printf s vs p)"
  "guarded St lock crit fits D h (Print_status p)" "guarded St lock crit fits D h Return"

text \<open>
  A process that is in its section: before its next call it can access the guarded cells, if what it
  reads fits.
\<close>

inductive nears :: "addr set \<Rightarrow> (addr \<Rightarrow> int \<Rightarrow> bool) \<Rightarrow> prog \<Rightarrow> bool"
  for crit :: "addr set" and fits :: "addr \<Rightarrow> int \<Rightarrow> bool"
where
  nears_Load: "a \<in> crit \<Longrightarrow> nears crit fits (Load a f)"
| nears_Store: "a \<in> crit \<Longrightarrow> nears crit fits (Store a v p)"
| nears_after_Load: "fits a v \<Longrightarrow> nears crit fits (f v) \<Longrightarrow> nears crit fits (Load a f)"
| nears_after_Store: "nears crit fits p \<Longrightarrow> nears crit fits (Store a v p)"
| nears_Get_pid: "nears crit fits (f v) \<Longrightarrow> nears crit fits (Get_pid f)"
| nears_Printf: "nears crit fits p \<Longrightarrow> nears crit fits (Printf s vs p)"
| nears_Print_status: "nears crit fits p \<Longrightarrow> nears crit fits (Print_status p)"

inductive_simps nears_simps [simp]: "nears crit fits Return" "nears crit fits (Sys n args f)"

fun in_section :: "addr set \<Rightarrow> (addr \<Rightarrow> int \<Rightarrow> bool) \<Rightarrow> thread \<Rightarrow> bool" where
  "in_section crit fits (At p) = nears crit fits p"
| "in_section crit fits (In_call f) = False"

lemma guarded_nears:
  "nears crit fits p \<Longrightarrow> guarded St lock crit fits D h p \<Longrightarrow> h"
  by (induction rule: nears.induct) (auto simp: guarded_simps)

section \<open>The lock\<close>

text \<open>The semaphore starts at 1, and no more than one permit is handed out or free.\<close>

definition lock_state :: "int \<Rightarrow> kernel \<Rightarrow> (hloc \<Rightarrow> addr list) \<Rightarrow> addr set \<Rightarrow> bool" where
  "lock_state lock k L H \<longleftrightarrow> permits lock 1 H H k L"

lemma lock_event:
  assumes inv: "kinv k L" and st: "lock_state lock k L H" and fin: "finite H"
    and ok: "kernel_step k e = Inr (c, k')" "c \<noteq> Exited" and inv': "kinv k' L'"
    and old: "\<And>s. s \<in> set (L' semaphores_list) \<Longrightarrow> sem_id (semaphores k' s) = lock \<Longrightarrow>
      s \<in> set (L semaphores_list) \<and> sem_id (semaphores k s) = lock \<or>
      H' = {} \<and> sem_view k' L' s = \<lparr>cs_count = 1, cs_queue = []\<rparr>"
    and op: "\<And>s. s \<in> set (L semaphores_list) \<Longrightarrow> sem_id (semaphores k s) = lock \<Longrightarrow>
      (case sem_op_of k L s e of
         Wait_by p \<Rightarrow> p \<notin> H \<and> H' = insert p H
       | Post_by p \<Rightarrow> p \<in> H \<and> p = running k \<and> H' = H - {p}
       | Other \<Rightarrow> H' = H \<or> H' = H - {running k})"
  shows "lock_state lock k' L' H'"
  unfolding lock_state_def
proof (rule permits_event [OF inv st [unfolded lock_state_def] ok inv'], goal_cases)
  case (1 s)
  then show ?case using old [OF 1] by (elim disjE) (simp_all add: cs_balanced_def)
next
  case (2 s)
  have out: "int (card (H - {p})) = int (card H) - 1" if "p \<in> H" for p
    using that fin card_gt_0_iff [of H] by (auto simp: card_Diff_singleton)
  have less: "card (H - {p}) \<le> card H" for p by (rule card_mono [OF fin]) blast
  show ?case
  proof (cases "sem_op_of k L s e")
    case Other
    with op [OF 2] less [of "running k"] show ?thesis by auto
  next
    case (Post_by p)
    with op [OF 2] out [of p] show ?thesis by auto
  qed (use op [OF 2] fin in auto)
qed

section \<open>The machine\<close>

text \<open>The ghost of a process is whether it holds the lock or waits for it.\<close>

definition lock_goes :: "(addr \<Rightarrow> addr \<Rightarrow> bool) \<Rightarrow> int \<Rightarrow> addr set \<Rightarrow> (addr \<Rightarrow> int \<Rightarrow> bool) \<Rightarrow>
    (int \<times> int) set \<Rightarrow> bool \<Rightarrow> thread \<Rightarrow> bool" where
  "lock_goes St lock crit fits D h t \<longleftrightarrow>
     (case t of At p \<Rightarrow> guarded St lock crit fits D h p
      | In_call g \<Rightarrow> \<forall>v. guarded St lock crit fits D h (g v))"

lemma lock_goes_simps [simp]:
  "lock_goes St lock crit fits D h (At p) = guarded St lock crit fits D h p"
  "lock_goes St lock crit fits D h (In_call g) = (\<forall>v. guarded St lock crit fits D h (g v))"
  by (simp_all add: lock_goes_def)

lemma lock_goes_section:
  "lock_goes St lock crit fits D h t \<Longrightarrow> in_section crit fits t \<Longrightarrow> h"
  using guarded_nears [of crit fits _ St lock D h] by (cases t) simp_all

locale lock_discipline = memory_discipline code start ok cells fits
  for code start ok cells fits +
  fixes St :: "addr \<Rightarrow> addr \<Rightarrow> bool" and lock :: int and crit :: "addr set"
  assumes code_guarded: "St f a \<Longrightarrow> guarded St lock crit fits {} False (code f a)"

sublocale lock_discipline \<subseteq> ghost: ghost_discipline code start ok cells fits St
  "lock_goes St lock crit fits" False "\<lambda>h. if h then {lock} else {}" "in_section crit fits"
proof unfold_locales
  show "lock_goes St lock crit fits D h (resumed t v)" if "lock_goes St lock crit fits D h t" for D h t v
    using that by (cases t) simp_all
qed (simp_all add: code_guarded)

context lock_discipline
begin

definition "locked m \<longleftrightarrow>
  (\<exists>L x. ghost.held L x m \<and> lock_state lock (kern m) L {q. x q})"

lemma call_locked:
  fixes k k' L L' ts f n args
  defines "me \<equiv> running k"
  assumes o: "ghost.others k L x ts" and st: "lock_state lock k L {q. x q}"
    and run: "disastrOS_syscall k n args = Inr (c, k')" and c: "c \<noteq> Exited"
    and n: "n \<in> {DSOS_CALL_SEMWAIT, DSOS_CALL_SEMPOST, DSOS_CALL_WAIT, DSOS_CALL_EXIT}"
    and op: "\<And>s. s \<in> set (L semaphores_list) \<Longrightarrow> sem_id (semaphores k s) = lock \<Longrightarrow>
      (case sem_op_of k L s (Syscall n args) of
         Wait_by p \<Rightarrow> p = me \<and> \<not> x p \<and> v
       | Post_by p \<Rightarrow> p = me \<and> x p \<and> \<not> v
       | Other \<Rightarrow> v \<longrightarrow> x me)"
    and dead: "n = DSOS_CALL_EXIT \<Longrightarrow> \<not> v"
    and mine: "v \<Longrightarrow> lock \<in> snd ` opened k L me"
    and go: "n \<noteq> DSOS_CALL_EXIT \<Longrightarrow> lock_goes St lock crit fits (opened k L me) v
      (if running k' = me then At (f (syscall_retvalue (pcbs k' me))) else In_call f)"
  shows "\<exists>L' x'. ghost.chosen k' L' x' (ts(me := In_call f)) \<and> lock_state lock k' L' {q. x' q}"
proof -
  note O = ghost.othersD [OF o]
  have "\<exists>L'. ghost.chosen k' L' (x(me := v)) (ts(me := In_call f)) \<and> same_sems k L k' L' \<and>
    (\<forall>q. opened k' L' q = opened k L q) \<and>
    (\<forall>q. alive k' L' q = (alive k L q \<and> (q = me \<longrightarrow> n \<noteq> DSOS_CALL_EXIT)))"
    unfolding me_def
    by (rule ghost.call_chosen [OF o run c n], unfold me_def [symmetric])
      (use dead mine go in \<open>simp_all split: if_splits\<close>)
  then obtain L' where L': "ghost.chosen k' L' (x(me := v)) (ts(me := In_call f))" "same_sems k L k' L'"
    by blast
  have step: "kernel_step k (Syscall n args) = Inr (c, k')" using run by (simp add: kernel_step_def)
  have fin: "finite {q. x q}" using O(2) by simp
  have H: "{q. (x(me := v)) q} = (if v then insert me {q. x q} else {q. x q} - {me})" by auto
  have "lock_state lock k' L' {q. (x(me := v)) q}"
  proof (rule lock_event [OF O(1) st fin step c ghost.chosen_kinv [OF L'(1)]], goal_cases)
    case (1 s)
    then show ?case using L'(2) by (auto simp: same_sems_def)
  next
    case (2 s)
    from op [OF 2] show ?case
      unfolding H by (auto simp: me_def insert_absorb split: sem_op.splits)
  qed
  with L'(1) show ?thesis by blast
qed

lemma syscall_locked:
  assumes l: "locked m" and at: "threads m (running (kern m)) = At (Sys n args f)"
    and run: "disastrOS_syscall (kern m) n args = Inr (c, k')"
    and res: "resume code c k' ((threads m)(running (kern m) := In_call f)) = Some m'"
  shows "locked m'"
proof -
  define k where "k = kern m"
  define me where "me = running k"
  define ts where "ts = threads m"
  obtain L x where o: "ghost.others k L x ts" and st: "lock_state lock k L {q. x q}"
    and g: "guarded St lock crit fits (opened k L me) (x me) (Sys n args f)"
    using l at by (auto simp: locked_def ghost.held_def k_def me_def ts_def)
  note O = ghost.othersD [OF o]
  have run: "disastrOS_syscall k n args = Inr (c, k')" using run by (simp add: k_def)
  have c: "c \<noteq> Exited" by (rule resume_not_exited [OF res])
  have step: "kernel_step k (Syscall n args) = Inr (c, k')" using run by (simp add: kernel_step_def)
  have fin: "finite {q. x q}" using O(2) by simp
  have mine: "x me \<Longrightarrow> lock \<in> snd ` opened k L me" using O(4) [of me] by simp
  note event = lock_event [OF O(1) st fin step c ghost.chosen_kinv]
  have other: "case sem_op_of k L s (Syscall n args) of Wait_by p \<Rightarrow> P p | Post_by p \<Rightarrow> P' p
      | Other \<Rightarrow> {q. x q} = {q. x q} \<or> {q. x q} = {q. x q} - {running k}"
    if "n \<notin> {DSOS_CALL_SEMWAIT, DSOS_CALL_SEMPOST}" "s \<in> set (L semaphores_list)" for s P P'
    using that by (simp add: op_of_call [OF O(1) that(2)])
  have "\<exists>L' x'. ghost.chosen k' L' x' (ts(running k := In_call f)) \<and> lock_state lock k' L' {q. x' q}"
    using g
  proof (cases rule: guarded.cases)
    case (guarded_open n')
    have "\<exists>L'. ghost.chosen k' L' x (ts(running k := In_call f)) \<and>
      (\<forall>q. opened k L q \<subseteq> opened k' L' q) \<and> (\<forall>q. alive k' L' q = alive k L q) \<and>
      (\<forall>u \<in> set (L' semaphores_list).
         u \<in> set (L semaphores_list) \<and> semaphores k' u = semaphores k u \<or>
         sem_view k' L' u = \<lparr>cs_count = int_of_long (args 1), cs_queue = []\<rparr> \<and>
         sem_id (semaphores k' u) = n' \<and> (\<forall>w \<in> set (L semaphores_list). sem_id (semaphores k w) \<noteq> n'))"
      by (rule ghost.open_chosen [OF o c run [unfolded guarded_open(1)] guarded_open(2)];
          fold me_def, unfold lock_goes_simps, rule guarded_open(4,5); assumption)
    then obtain L' where L': "ghost.chosen k' L' x (ts(running k := In_call f))"
      "\<forall>u \<in> set (L' semaphores_list).
         u \<in> set (L semaphores_list) \<and> semaphores k' u = semaphores k u \<or>
         sem_view k' L' u = \<lparr>cs_count = int_of_long (args 1), cs_queue = []\<rparr> \<and>
         sem_id (semaphores k' u) = n' \<and> (\<forall>w \<in> set (L semaphores_list). sem_id (semaphores k w) \<noteq> n')"
      by blast
    have fresh: "{q. x q} = {}" if "\<forall>w \<in> set (L semaphores_list). sem_id (semaphores k w) \<noteq> lock"
    proof (rule ccontr)
      assume "{q. x q} \<noteq> {}"
      then obtain q where "x q" by blast
      then have "lock \<in> snd ` opened k L q" using O(4) [of q] by simp
      then obtain fd where "(fd, lock) \<in> opened k L q" by (auto simp: image_iff)
      from opened_unique(4) [OF O(1) this] that show False by blast
    qed
    have "lock_state lock k' L' {q. x q}"
    proof (rule event [OF L'(1)], goal_cases)
      case (1 s)
      then show ?case using bspec [OF L'(2) 1(1)] guarded_open(3) fresh by auto
    qed (rule other, simp add: guarded_open(1) call_numbers)
    with L'(1) show ?thesis by blast
  next
    case guarded_close
    have "\<exists>L'. ghost.chosen k' L' x (ts(running k := In_call f)) \<and>
      (\<forall>q. q \<noteq> running k \<longrightarrow> opened k' L' q = opened k L q) \<and> (\<forall>q. alive k' L' q = alive k L q) \<and>
      set (L' semaphores_list) \<subseteq> set (L semaphores_list) \<and> semaphores k' = semaphores k"
      by (rule ghost.close_chosen [OF o c run [unfolded guarded_close(1)]])
        (use guarded_close(2,3) in \<open>auto simp: me_def split: if_splits\<close>)
    then obtain L' where L': "ghost.chosen k' L' x (ts(running k := In_call f))"
      "set (L' semaphores_list) \<subseteq> set (L semaphores_list)" "semaphores k' = semaphores k" by blast
    have "lock_state lock k' L' {q. x q}"
      by (rule event [OF L'(1)], use L'(2,3) in auto)
        (rule other, simp add: guarded_close(1) call_numbers)
    with L'(1) show ?thesis by blast
  next
    case guarded_spawn
    have "\<exists>L'. ghost.chosen k' L' x (ts(running k := In_call f)) \<and>
      (\<forall>q. alive k L q \<longrightarrow> alive k' L' q \<and> opened k' L' q = opened k L q) \<and>
      L' semaphores_list = L semaphores_list \<and> semaphores k' = semaphores k"
      by (rule ghost.spawn_chosen [OF o c run [unfolded guarded_spawn(1)] guarded_spawn(2)])
        (use guarded_spawn(3) in \<open>simp add: me_def\<close>)
    then obtain L' where L': "ghost.chosen k' L' x (ts(running k := In_call f))"
      "L' semaphores_list = L semaphores_list" "semaphores k' = semaphores k" by blast
    have "lock_state lock k' L' {q. x q}"
      by (rule event [OF L'(1)], use L'(2,3) in auto)
        (rule other, simp add: guarded_spawn(1) call_numbers)
    with L'(1) show ?thesis by blast
  next
    case guarded_take
    have "lock \<in> snd ` opened k L me" using guarded_take(2) by (rule image_eqI [rotated]) simp
    then show ?thesis
      by (intro call_locked [where v = True, OF o st run c])
        (use guarded_take in \<open>auto simp: op_of_call [OF O(1)] me_def call_numbers\<close>)
  next
    case guarded_sem_wait
    show ?thesis
      by (rule call_locked [where v = "x me", OF o st run c])
        (use guarded_sem_wait mine in \<open>auto simp: op_of_call [OF O(1)] me_def call_numbers\<close>)
  next
    case guarded_refused
    have k': "k' = set_retvalue DSOS_ENOTMYSEM (entered DSOS_CALL_SEMWAIT args k)"
      by (rule semWait_refused [OF O(1) run [unfolded guarded_refused(1)] c])
        (use guarded_refused(2) in \<open>simp add: me_def\<close>)
    show ?thesis
      by (rule call_locked [where v = "x me", OF o st run c])
        (use guarded_refused mine in
          \<open>auto simp: op_of_call [OF O(1)] me_def call_numbers k' intro: DomainI\<close>)
  next
    case guarded_release
    show ?thesis
      by (rule call_locked [where v = False, OF o st run c])
        (use guarded_release in \<open>auto simp: op_of_call [OF O(1)] me_def call_numbers\<close>)
  next
    case guarded_sem_post
    show ?thesis
      by (rule call_locked [where v = "x me", OF o st run c])
        (use guarded_sem_post mine in \<open>auto simp: op_of_call [OF O(1)] me_def call_numbers\<close>)
  next
    case guarded_wait
    show ?thesis
      by (rule call_locked [where v = "x me", OF o st run c])
        (use guarded_wait mine in \<open>auto simp: op_of_call [OF O(1)] me_def call_numbers\<close>)
  next
    case guarded_exit
    show ?thesis
      by (rule call_locked [where v = False, OF o st run c])
        (use guarded_exit in \<open>auto simp: op_of_call [OF O(1)] me_def call_numbers\<close>)
  next
    case guarded_shutdown
    then show ?thesis using call_handler(4) [OF O(1) run c] by simp
  qed
  then obtain L' x' where chosen: "ghost.chosen k' L' x' (ts(running k := In_call f))"
    and st': "lock_state lock k' L' {q. x' q}" by blast
  have "c = Resume (running k')"
    using g call_handler(2) [OF O(1) run c] by (cases rule: guarded.cases) simp_all
  then have "kern m' = k' \<and> ghost.held L' x' m'"
    using ghost.resume_held [OF chosen] res by (simp add: ts_def k_def)
  with st' show ?thesis unfolding locked_def by blast
qed

lemma tick_locked:
  assumes l: "locked m" and run: "kernel_step (kern m) Tick = Inr (c, k')"
    and res: "resume code c k' (threads m) = Some m'"
  shows "locked m'"
proof -
  obtain L x where h: "ghost.held L x m" and st: "lock_state lock (kern m) L {q. x q}"
    using l by (auto simp: locked_def)
  have o: "ghost.others (kern m) L x (threads m)" using h by (simp add: ghost.held_def)
  note O = ghost.othersD [OF o]
  obtain L' where L': "kern m' = k'" "ghost.held L' x m'" "same_sems (kern m) L k' L'"
    using ghost.tick_held [OF h run res] by blast
  have inv': "kinv k' L'" using L'(1,2) by (simp add: ghost.held_def ghost.others_def)
  have fin: "finite {q. x q}" using O(2) by simp
  have "lock_state lock k' L' {q. x q}"
    by (rule lock_event [OF O(1) st fin run resume_not_exited [OF res] inv'])
      (use L'(3) in \<open>auto simp: same_sems_def sem_op_of_def\<close>)
  with L'(1,2) show ?thesis unfolding locked_def by blast
qed

text \<open>The actions without a call.\<close>

lemma lock_state_poke: "lock_state lock (kern (poke a v m)) L H = lock_state lock (kern m) L H"
  by (simp add: lock_state_def permits_poke)

lemma goes_on_locked:
  assumes "ghost.others (kern m) L x (threads m)" and "lock_state lock (kern m) L {q. x q}"
    and "guarded St lock crit fits (opened (kern m) L (running (kern m))) (x (running (kern m))) p"
  shows "locked (goes_on m p)"
proof -
  have "ghost.held L (x(running (kern m) := x (running (kern m)))) (goes_on m p)"
    by (rule ghost.goes_on_held [OF assms(1) ghost.othersD(4) [OF assms(1)]])
      (use assms(3) in simp)
  then show ?thesis using assms(2) unfolding locked_def by (auto simp: goes_on_def)
qed

lemma act_locked:
  assumes d: "disciplined m" and l: "locked m" and p: "threads m (running (kern m)) = At p"
    and run: "act code m p = Some m'"
  shows "locked m'"
proof -
  obtain L x where o: "ghost.others (kern m) L x (threads m)" and st: "lock_state lock (kern m) L {q. x q}"
    and g: "guarded St lock crit fits (opened (kern m) L (running (kern m))) (x (running (kern m))) p"
    using l p by (auto simp: locked_def ghost.held_def)
  note on = goes_on_locked [OF o st]
  from run show ?thesis
  proof (cases rule: act_cases)
    case (pid f)
    then show ?thesis using on g by (simp add: guarded_simps)
  next
    case (load a f)
    have "a \<in> cells" using disciplined_access(1) [OF d] p load(1) by blast
    then have "fits a (user_mem (kern m) a)" by (rule disciplined_access(3) [OF d])
    then show ?thesis using on g load by (simp add: guarded_simps)
  next
    case (store a v r)
    have "ghost.others (kern (poke a v m)) L x (threads (poke a v m))"
      using ghost.poke_others [OF o] by (simp add: poke_def)
    then show ?thesis
      unfolding store(2)
      by (rule goes_on_locked) (use g store(1) st in \<open>simp_all add: lock_state_poke guarded_simps,
        simp add: poke_def opened_def\<close>)
  next
    case (out s vs r)
    then show ?thesis using on g by (simp add: guarded_simps)
  next
    case (status r)
    then show ?thesis using on g by (simp add: guarded_simps)
  next
    case (call n args f c k')
    from syscall_locked [OF l p [unfolded call(1)] call(2,3)] show ?thesis .
  next
    case (return c k')
    then show ?thesis using g by (simp add: guarded_simps)
  qed
qed

lemma step_locked:
  assumes d: "disciplined m" and l: "locked m" and run: "machine_step code m e = Some m'"
  shows "locked m'"
  using run
proof (cases rule: machine_step_cases)
  case (tick c k)
  from tick_locked [OF l tick(2,3)] show ?thesis .
next
  case (action p)
  from act_locked [OF d l action(2,3)] show ?thesis .
qed

text \<open>A lone process with nothing open.\<close>

lemma lone_locked:
  assumes "kinv (kern m) (\<lambda>_. [])" and "threads m = (\<lambda>_. At Return)(running (kern m) := At p)"
    and "guarded St lock crit fits {} False p"
  shows "locked m"
proof -
  have "ghost.held (\<lambda>_. []) ((\<lambda>_. False)(running (kern m) := False)) m"
    by (rule ghost.lone_held [OF assms(1,2)]) (simp_all add: assms(3))
  then have "ghost.held (\<lambda>_. []) (\<lambda>_. False) m" by (simp add: fun_upd_idem)
  then show ?thesis unfolding locked_def
    by (intro exI [of _ "\<lambda>_. []"] exI [of _ "\<lambda>_. False"]) (simp add: lock_state_def permits_def)
qed

text \<open>A process in its section holds the lock and does not wait for it; so there is one at most.\<close>

lemma locked_exclusive:
  assumes l: "locked m" and p: "in_section crit fits (threads m p)" and q: "in_section crit fits (threads m q)"
  shows "p = q"
proof -
  obtain L x where h: "ghost.held L x m" and st: "lock_state lock (kern m) L {q. x q}"
    using l by (auto simp: locked_def)
  have o: "ghost.others (kern m) L x (threads m)" using h by (simp add: ghost.held_def)
  note O = ghost.othersD [OF o]
  have fin: "finite {q. x q}" using O(2) by simp
  have holder: "x r" "r \<notin> set (L waiting_list)" if r: "in_section crit fits (threads m r)" for r
    using lock_goes_section [OF ghost.busy_goes(1) [OF h r] r] ghost.busy_goes(3) [OF h r] by simp_all
  have "lock \<in> snd ` opened (kern m) L p" using O(4) [of p] holder(1) [OF p] by simp
  then obtain fd where "(fd, lock) \<in> opened (kern m) L p" by (auto simp: image_iff)
  from opened_unique(4) [OF O(1) this] obtain s
    where s: "s \<in> set (L semaphores_list)" "sem_id (semaphores (kern m) s) = lock" by blast
  have "int (card {p, q}) \<le> 1"
    by (rule permits_bound [OF O(1) st [unfolded lock_state_def] fin subset_refl s])
      (use holder [OF p] holder [OF q] in auto)
  then show ?thesis by (auto simp: card_insert_if split: if_splits)
qed

end

end
