(* ===== verification/Test_Exclusion.thy ===== *)
theory Test_Exclusion
  imports Test_Memory Locks
begin

text \<open>
  Mutual exclusion in the test: two producers are never at an access to the index of the producers,
  and two consumers never at an access to that of the consumers, whatever the scheduling is.
\<close>

section \<open>Numbers a process has got\<close>

text \<open>
  \<open>knows D K\<close>: for each \<open>(fd, n)\<close> in \<open>K\<close>, what the process has stored as the number of the semaphore
  \<open>n\<close> stands for this semaphore, unless the call has failed; the test does not always look.
\<close>

definition names :: "(int \<times> int) set \<Rightarrow> int \<Rightarrow> int \<Rightarrow> bool" where
  "names D fd n \<longleftrightarrow> in_int_range fd \<and> (fd < 0 \<or> (fd, n) \<in> D) \<and> (\<forall>m. (fd, m) \<in> D \<longrightarrow> m = n)"

definition knows :: "(int \<times> int) set \<Rightarrow> (int \<times> int) list \<Rightarrow> bool" where
  "knows D K \<longleftrightarrow> (\<forall>x \<in> D. 0 \<le> fst x) \<and> (\<forall>x \<in> set K. names D (fst x) (snd x))"

lemma knows_none: "knows {} []"
  by (simp add: knows_def)

lemma knowsD:
  assumes "knows D K" and "(fd, n) \<in> set K"
  shows "int_of_long fd = fd" "(fd, m) \<in> D \<Longrightarrow> m = n" "fd \<in> Domain D \<Longrightarrow> (fd, n) \<in> D"
proof -
  have n: "names D fd n" and pos: "\<And>m. (fd, m) \<in> D \<Longrightarrow> 0 \<le> fd"
    using assms by (fastforce simp: knows_def)+
  show "int_of_long fd = fd" "(fd, m) \<in> D \<Longrightarrow> m = n" using n by (simp_all add: names_def int_of_long_id)
  show "(fd, n) \<in> D" if dom: "fd \<in> Domain D"
  proof -
    obtain m where "(fd, m) \<in> D" using dom by (rule DomainE)
    from pos [OF this] n show ?thesis by (simp add: names_def)
  qed
qed

lemma int_of_long_1: "int_of_long 1 = 1"
  by (simp add: int_of_long_id in_int_range_def)

lemma knows_failed:
  assumes D: "knows D K" and v: "v \<in> open_errors"
  shows "knows D ((v, n) # K)"
proof -
  have "v < 0" "in_int_range v" using v
    by (auto simp: open_errors_def DSOS_ECREATEFD_def DSOS_ECREATESEM_def DSOS_ECREATEPTR_def
        in_int_range_def)
  moreover have "(v, m) \<notin> D" for m using D \<open>v < 0\<close> by (force simp: knows_def)
  ultimately show ?thesis using D by (simp add: knows_def names_def)
qed

lemma knows_new:
  assumes D: "knows D K" and v: "0 \<le> v" "in_int_range v" "\<forall>m. (v, m) \<in> D \<longrightarrow> m = n"
  shows "knows (insert (v, n) D) ((v, n) # K)"
proof -
  have "names (insert (v, n) D) fd m" if "names D fd m" for fd m
    using that v(1,3) by (auto simp: names_def)
  moreover have "names (insert (v, n) D) v n" using v(2,3) by (auto simp: names_def)
  ultimately show ?thesis using D v(1) by (simp add: knows_def)
qed

lemma guarded_sem_open:
  assumes D: "knows D K" and n: "in_int_range n" "n = lock \<longrightarrow> i = 1"
    and f: "\<And>v D'. knows D' ((v, n) # K) \<Longrightarrow> guarded St lock crit fits D' h (f v)"
  shows "guarded St lock crit fits D h (sem_open n i f)"
  unfolding sem_open_def
proof (rule guarded_open [where n = n])
  show "n = int_of_long ((no_args(0 := n, 1 := i)) 0)" using n by (simp add: int_of_long_id)
  show "n = lock \<longrightarrow> int_of_long ((no_args(0 := n, 1 := i)) 1) = 1" using n by (simp add: int_of_long_1)
qed (rule f, erule knows_failed [OF D], rule f, rule knows_new [OF D])

section \<open>The parts of the programs\<close>

lemma guarded_exit_pid: "guarded St lock crit fits D h (exit_pid p)"
  unfolding exit_pid_def by (intro guarded_Get_pid guarded_exit)

lemma guarded_ERROR_HELPER:
  "(\<not> c \<Longrightarrow> guarded St lock crit fits D h p) \<Longrightarrow> guarded St lock crit fits D h (ERROR_HELPER c msg p)"
  by (simp add: ERROR_HELPER_def guarded_Get_pid guarded_Printf guarded_exit_pid)

lemma guarded_checked_open:
  assumes "knows D K" and "in_int_range n" "n = lock \<longrightarrow> i = 1"
    and "\<And>v D'. knows D' ((v, n) # K) \<Longrightarrow> guarded St lock crit fits D' h (f v)"
  shows "guarded St lock crit fits D h (sem_open n i (\<lambda>v. ERROR_HELPER (c v) msg (f v)))"
  by (rule guarded_sem_open [OF assms(1-3)], rule guarded_ERROR_HELPER, rule assms(4))

lemma guarded_sem_close:
  "(\<And>v D'. guarded St lock crit fits D' False (f v)) \<Longrightarrow> guarded St lock crit fits D False (sem_close fd f)"
  unfolding sem_close_def by (rule guarded_close) simp_all

lemma guarded_closes:
  "(\<And>D'. guarded St lock crit fits D' False p) \<Longrightarrow>
     guarded St lock crit fits D False (sem_close fd (\<lambda>v. ERROR_HELPER (c v) msg p))"
  by (rule guarded_sem_close, rule guarded_ERROR_HELPER)

lemma guarded_other_wait:
  assumes "knows D K" and "\<exists>n. (fd, n) \<in> set K \<and> n \<noteq> lock" and p: "guarded St lock crit fits D h p"
  shows "guarded St lock crit fits D h (sem_wait fd (\<lambda>v. ERROR_HELPER (c v) msg p))"
proof -
  obtain n where n: "(fd, n) \<in> set K" "n \<noteq> lock" using assms(2) by blast
  note K = knowsD [OF assms(1) n(1)]
  have "(fd, lock) \<notin> D" using K(2) n(2) by blast
  show ?thesis
  proof (cases "fd \<in> Domain D")
    case True
    then show ?thesis
      unfolding sem_wait_def using \<open>(fd, lock) \<notin> D\<close> K(1)
      by (intro guarded_sem_wait guarded_ERROR_HELPER p) simp_all
  next
    case False
    then show ?thesis
      unfolding sem_wait_def using K(1) by (intro guarded_refused guarded_ERROR_HELPER p) simp_all
  qed
qed

lemma guarded_lock:
  assumes "knows D K" and "(fd, lock) \<in> set K"
    and p: "(fd, lock) \<in> D \<Longrightarrow> guarded St lock crit fits D True p"
  shows "guarded St lock crit fits D False (sem_wait fd (\<lambda>v. ERROR_HELPER (v \<noteq> 0) msg p))"
proof (cases "fd \<in> Domain D")
  case True
  with knowsD [OF assms(1,2)] have "(fd, lock) \<in> D" "int_of_long fd = fd" by blast+
  then show ?thesis
    unfolding sem_wait_def by (intro guarded_take guarded_ERROR_HELPER p) simp_all
next
  case False
  then show ?thesis
    unfolding sem_wait_def using knowsD(1) [OF assms(1,2)]
    by (intro guarded_refused guarded_ERROR_HELPER) (simp_all add: DSOS_ENOTMYSEM_def)
qed

lemma guarded_unlock:
  assumes "knows D K" and "(fd, lock) \<in> set K" and "(fd, lock) \<in> D"
    and p: "guarded St lock crit fits D False p"
  shows "guarded St lock crit fits D True (sem_post fd (\<lambda>v. ERROR_HELPER (c v) msg p))"
  unfolding sem_post_def using assms(3) knowsD(1) [OF assms(1,2)]
  by (intro guarded_release guarded_ERROR_HELPER p) simp_all

lemma guarded_other_post:
  assumes "knows D K" and "\<exists>n. (fd, n) \<in> set K \<and> n \<noteq> lock" and p: "guarded St lock crit fits D h p"
  shows "guarded St lock crit fits D h (sem_post fd (\<lambda>v. ERROR_HELPER (c v) msg p))"
proof -
  obtain n where n: "(fd, n) \<in> set K" "n \<noteq> lock" using assms(2) by blast
  note K = knowsD [OF assms(1) n(1)]
  have "(fd, lock) \<notin> D" using K(2) n(2) by blast
  then show ?thesis
    unfolding sem_post_def using K(1) by (intro guarded_sem_post guarded_ERROR_HELPER p) simp_all
qed

lemma guarded_simple_calls:
  "St f a \<Longrightarrow> guarded St lock crit fits D h p \<Longrightarrow> guarded St lock crit fits D h (spawn f a p)"
  "guarded St lock crit fits D h p \<Longrightarrow> guarded St lock crit fits D h (wait_any p)"
  "guarded St lock crit fits D h (shutdown p)"
  unfolding spawn_def wait_any_def shutdown_def
  by (auto intro: guarded_spawn guarded_wait guarded_shutdown)

lemma guarded_repeat_prog:
  "(\<And>p. guarded St lock crit fits D h p \<Longrightarrow> guarded St lock crit fits D h (body p)) \<Longrightarrow>
     guarded St lock crit fits D h rest \<Longrightarrow> guarded St lock crit fits D h (repeat_prog n body rest)"
  by (induction n) simp_all

text \<open>The accesses: with the lock, or to other cells than the guarded ones.\<close>

lemma guarded_print_cells:
  assumes "h \<or> crit \<inter> cell buf ` {0..<BUFFER_LENGTH} = {}" and "\<forall>i \<in> set is. int i < BUFFER_LENGTH"
    and "guarded St lock crit fits D h p"
  shows "guarded St lock crit fits D h (print_cells buf is p)"
  using assms(2)
proof (induction "is")
  case (Cons i "is")
  then have "h \<or> cell buf (int i) \<notin> crit" using assms(1) by auto
  then show ?case using Cons by (auto intro!: guarded_Load guarded_Printf)
qed (use assms(3) in simp)

lemma guarded_PrintBuffer:
  assumes "h \<or> crit \<inter> cell buf ` {0..<BUFFER_LENGTH} = {}" and "guarded St lock crit fits D h p"
  shows "guarded St lock crit fits D h (PrintBuffer buf p)"
proof -
  have "h \<or> cell buf 0 \<notin> crit" using assms(1) by (auto simp: BUFFER_LENGTH_def)
  then show ?thesis
    unfolding PrintBuffer_def
    by (intro guarded_Load guarded_Printf guarded_print_cells assms) (auto simp: BUFFER_LENGTH_def)
qed

lemma guarded_produce:
  assumes c: "h \<or> crit \<inter> ({cd, cd + 8} \<union> cell buf ` {0..<BUFFER_LENGTH}) = {}"
    and p: "guarded St lock crit (cell_ok cd buf) D h p"
  shows "guarded St lock crit (cell_ok cd buf) D h (produce cd p)"
proof -
  have c': "h \<or> crit \<inter> cell buf ` {0..<BUFFER_LENGTH} = {}" using c by blast
  have "h \<or> cd \<notin> crit" "h \<or> cd + 8 \<notin> crit" using c by blast+
  moreover have "h \<or> cell buf n \<notin> crit" if "0 \<le> n" "n < BUFFER_LENGTH" for n
    using c' that by (auto simp: disjoint_iff)
  ultimately show ?thesis
    unfolding produce_def
    by (intro guarded_Load guarded_Get_pid guarded_Store)
      (auto simp: index_cells guarded_PrintBuffer [OF c'] intro!: guarded_Store guarded_PrintBuffer [OF c'] p)
qed

lemma guarded_consume:
  assumes c: "h \<or> crit \<inter> ({cd + 4, cd + 8} \<union> cell buf ` {0..<BUFFER_LENGTH}) = {}"
    and p: "guarded St lock crit (cell_ok cd buf) D h p"
  shows "guarded St lock crit (cell_ok cd buf) D h (consume cd p)"
proof -
  have c': "h \<or> crit \<inter> cell buf ` {0..<BUFFER_LENGTH} = {}" using c by blast
  have "h \<or> cd + 4 \<notin> crit" "h \<or> cd + 8 \<notin> crit" using c by blast+
  moreover have "h \<or> cell buf n \<notin> crit" if "0 \<le> n" "n < BUFFER_LENGTH" for n
    using c' that by (auto simp: disjoint_iff)
  ultimately show ?thesis
    unfolding consume_def
    by (intro guarded_Load guarded_Store)
      (auto simp: index_cells intro!: guarded_Store guarded_PrintBuffer [OF c'] p)
qed

lemma apart_crit:
  assumes "apart cd buf"
  shows "{cd} \<inter> ({cd + 4, cd + 8} \<union> cell buf ` {0..<BUFFER_LENGTH}) = {}"
    "{cd + 4} \<inter> ({cd, cd + 8} \<union> cell buf ` {0..<BUFFER_LENGTH}) = {}"
  using assms by (auto simp: apart_def cell_def BUFFER_LENGTH_def)

lemma semnum_facts:
  "in_int_range SEMNUM_FILL" "in_int_range SEMNUM_EMPTY" "in_int_range SEMNUM_ME1" "in_int_range SEMNUM_ME2"
  "SEMNUM_FILL \<noteq> SEMNUM_ME1" "SEMNUM_EMPTY \<noteq> SEMNUM_ME1" "SEMNUM_ME2 \<noteq> SEMNUM_ME1"
  "SEMNUM_FILL \<noteq> SEMNUM_ME2" "SEMNUM_EMPTY \<noteq> SEMNUM_ME2" "SEMNUM_ME1 \<noteq> SEMNUM_ME2"
  by (simp_all add: SEMNUM_FILL_def SEMNUM_EMPTY_def SEMNUM_ME1_def SEMNUM_ME2_def in_int_range_def)

lemmas guarded_parts = guarded_checked_open guarded_closes guarded_simple_calls guarded_repeat_prog
  guarded_exit_pid guarded_Get_pid guarded_Printf guarded_produce guarded_consume

lemma guarded_functions:
  assumes ap: "apart cd buf"
  shows "guarded St SEMNUM_ME1 {cd} (cell_ok cd buf) {} False (ProdFunction cd)"
    "guarded St SEMNUM_ME1 {cd} (cell_ok cd buf) {} False (ConsFunction cd)"
    "guarded St SEMNUM_ME1 {cd} (cell_ok cd buf) {} False (ConsSingleFunction cd)"
    "guarded St SEMNUM_ME2 {cd + 4} (cell_ok cd buf) {} False (ProdFunction cd)"
    "guarded St SEMNUM_ME2 {cd + 4} (cell_ok cd buf) {} False (ConsFunction cd)"
    "guarded St SEMNUM_ME2 {cd + 4} (cell_ok cd buf) {} False (ProdSingleFunction cd)"
  unfolding ProdFunction_def ConsFunction_def ConsSingleFunction_def ProdSingleFunction_def
  by (assumption | rule knows_none apart_crit [OF ap, THEN disjI2] guarded_parts |
      (rule guarded_lock guarded_unlock, assumption, (simp; fail)) |
      (rule guarded_other_wait guarded_other_post, assumption, (fastforce simp: semnum_facts)) |
      simp add: semnum_facts)+

text \<open>Which functions run in the tests with more than one producer, or consumer.\<close>

definition lock_start ::
    "test_function set \<Rightarrow> (test_function \<Rightarrow> addr) \<Rightarrow> addr \<Rightarrow> addr \<Rightarrow> addr \<Rightarrow> addr \<Rightarrow> bool" where
  "lock_start F loc cd buf f a \<longleftrightarrow> inj loc \<and> apart cd buf \<and> a = cd \<and> f \<in> loc ` F"

abbreviation "producer_start \<equiv> lock_start {Producer, Consumer, Single_consumer}"
abbreviation "consumer_start \<equiv> lock_start {Producer, Consumer, Single_producer}"

lemma guarded_init_tests:
  assumes "inj loc" and "apart cd buf"
  shows "input \<noteq> 1 \<Longrightarrow> input \<noteq> 4 \<Longrightarrow>
      guarded (producer_start loc cd buf) SEMNUM_ME1 {cd} (cell_ok cd buf) {} False (init_tests loc input cd)"
    "input \<noteq> 1 \<Longrightarrow> input \<noteq> 3 \<Longrightarrow>
      guarded (consumer_start loc cd buf) SEMNUM_ME2 {cd + 4} (cell_ok cd buf) {} False (init_tests loc input cd)"
  unfolding init_tests_def Let_def
  by (assumption | rule knows_none guarded_parts conjI impI |
      simp add: semnum_facts lock_start_def assms | simp only: if_split)+

interpretation prod: lock_discipline "test_code loc input cd buf ret_var"
  "test_start loc cd buf" "safe (test_start loc cd buf) cd buf" "shared_cells cd buf" "cell_ok cd buf"
  "producer_start loc cd buf" SEMNUM_ME1 "{cd}"
  for loc input cd buf ret_var
proof unfold_locales
  fix f a
  assume "producer_start loc cd buf f a"
  then show "guarded (producer_start loc cd buf) SEMNUM_ME1 {cd} (cell_ok cd buf) {} False
      (test_code loc input cd buf ret_var f a)"
    using guarded_functions by (auto simp: lock_start_def test_code_def inj_eq)
qed

interpretation cons: lock_discipline "test_code loc input cd buf ret_var"
  "test_start loc cd buf" "safe (test_start loc cd buf) cd buf" "shared_cells cd buf" "cell_ok cd buf"
  "consumer_start loc cd buf" SEMNUM_ME2 "{cd + 4}"
  for loc input cd buf ret_var
proof unfold_locales
  fix f a
  assume "consumer_start loc cd buf f a"
  then show "guarded (consumer_start loc cd buf) SEMNUM_ME2 {cd + 4} (cell_ok cd buf) {} False
      (test_code loc input cd buf ret_var f a)"
    using guarded_functions by (auto simp: lock_start_def test_code_def inj_eq)
qed

text \<open>
  The sections are as long as they should be: a producer that has read its index is in its section
  up to the point where it has stored the next one, and so is a consumer.
\<close>

lemma nears_print_cells:
  assumes "apart cd buf" and "\<forall>i \<in> set is. int i < BUFFER_LENGTH" and "nears crit (cell_ok cd buf) p"
  shows "nears crit (cell_ok cd buf) (print_cells buf is p)"
  using assms(2)
  by (induction "is")
    (use assms(1,3) in \<open>auto intro!: nears_after_Load [of _ _ 0] nears_Printf cell_apart\<close>)

lemma nears_PrintBuffer:
  assumes "apart cd buf" and "nears crit (cell_ok cd buf) p"
  shows "nears crit (cell_ok cd buf) (PrintBuffer buf p)"
  unfolding PrintBuffer_def
  by (rule nears_after_Load [of _ _ 0], rule cell_apart [OF assms(1)])
    (auto simp: BUFFER_LENGTH_def intro!: nears_Printf nears_print_cells assms)

lemma whole_sections:
  assumes "apart cd buf"
  shows "produce cd p = Load cd f \<Longrightarrow> nears {cd} (cell_ok cd buf) (f n)"
    "consume cd p = Load (cd + 4) f \<Longrightarrow> nears {cd + 4} (cell_ok cd buf) (f n)"
proof -
  have load: "nears crit (cell_ok cd buf) (g buf) \<Longrightarrow> nears crit (cell_ok cd buf) (Load (cd + 8) g)" for crit g
    by (rule nears_after_Load [of _ _ buf]) (simp_all add: index_cells)
  show "nears {cd} (cell_ok cd buf) (f n)" if "produce cd p = Load cd f"
    using that unfolding produce_def prog.inject
    by (elim conjE, hypsubst)
      (rule nears_Get_pid [of _ _ _ 0] load nears_Store [of cd "{cd}", OF singletonI] nears_after_Store
        nears_PrintBuffer [OF assms])+
  show "nears {cd + 4} (cell_ok cd buf) (f n)" if "consume cd p = Load (cd + 4) f"
    using that unfolding consume_def prog.inject
    by (elim conjE, hypsubst)
      (rule load nears_Store [of "cd + 4" "{cd + 4}", OF singletonI] nears_after_Store
        nears_PrintBuffer [OF assms])+
qed

section \<open>Mutual exclusion\<close>

lemma run_exclusive:
  assumes "layout_ok ly" and "inj loc" and "apart cd buf"
    and "boot_machine (test_code loc input cd buf rv) (snd (test_main ly loc argc)) = Some m"
    and "machine_run (test_code loc input cd buf rv) m es m'"
    and Q: "Q (init_tests loc input cd)" "\<And>p. Q p \<Longrightarrow> safe (test_start loc cd buf) cd buf p"
    and J: "\<And>m. ready_test loc cd buf Q m \<Longrightarrow> J m"
      "\<And>m e m'. test.disciplined loc cd buf m \<Longrightarrow> J m \<Longrightarrow>
         machine_step (test_code loc input cd buf rv) m e = Some m' \<Longrightarrow> J m'"
    and excl: "\<And>m p q. J m \<Longrightarrow> in_section crit (cell_ok cd buf) (threads m p) \<Longrightarrow>
      in_section crit (cell_ok cd buf) (threads m q) \<Longrightarrow> p = q"
  shows "\<exists>q. {p. in_section crit (cell_ok cd buf) (threads m' p)} \<subseteq> {q}"
proof -
  have b: "booting loc cd buf Q m" by (rule boot_test(1) [where Q = Q, OF assms(1-4) Q(1)])
  have "(booting loc cd buf Q m' \<or> test.disciplined loc cd buf m' \<and> J m') \<and>
      (\<forall>a. a \<notin> shared_cells cd buf \<longrightarrow> user_mem (kern m') a = user_mem (kern m) a)"
  proof (rule test_run [where Q = Q and J = J, OF _ _ _ machine_run_while_all [OF assms(5)]])
    show "J m1" if "ready_test loc cd buf Q m1" for m1 by (rule J(1) [OF that])
    show "J m2" if "test.disciplined loc cd buf m1" "J m1"
      "machine_step (test_code loc input cd buf rv) m1 e = Some m2" for m1 e m2
      by (rule J(2) [OF that])
  qed (use Q(2) b in blast)+
  then have "booting loc cd buf Q m' \<or> J m'" by blast
  then show ?thesis
  proof
    assume "booting loc cd buf Q m'"
    then obtain p where "threads m' = (\<lambda>_. At Return)(running (kern m') := At p)"
      by (auto simp: booting_def alone_def)
    then have "{q. in_section crit (cell_ok cd buf) (threads m' q)} \<subseteq> {running (kern m')}"
      by (auto split: if_splits)
    then show ?thesis by blast
  next
    assume "J m'"
    then show ?thesis using excl by blast
  qed
qed

text \<open>
  C5: mutual exclusion: in the tests with more than one producer, at most one process is between
  the point where it has got the lock of the producers and its last access to their index, and in
  the tests with more than one consumer the same holds of the consumers: whatever the layout is,
  however the timer interrupts the processes, and also when a process has failed to open one of
  its semaphores.
\<close>

theorem test_mutual_exclusion:
  assumes "layout_ok ly" and "inj loc" and "apart cd buf"
    and "boot_machine (test_code loc input cd buf rv) (snd (test_main ly loc argc)) = Some m"
    and "machine_run (test_code loc input cd buf rv) m es m'"
  shows "(input \<in> {2, 3} \<longrightarrow> (\<exists>q. {p. in_section {cd} (cell_ok cd buf) (threads m' p)} \<subseteq> {q})) \<and>
    (input \<in> {2, 4} \<longrightarrow> (\<exists>q. {p. in_section {cd + 4} (cell_ok cd buf) (threads m' p)} \<subseteq> {q}))"
proof (intro conjI impI)
  let ?G = "guarded (producer_start loc cd buf) SEMNUM_ME1 {cd} (cell_ok cd buf) {} False"
  assume "input \<in> {2, 3}"
  then have Q: "safe (test_start loc cd buf) cd buf (init_tests loc input cd) \<and> ?G (init_tests loc input cd)"
    using safe_init_tests [OF assms(2,3)] guarded_init_tests(1) [OF assms(2,3), of input] by auto
  show "\<exists>q. {p. in_section {cd} (cell_ok cd buf) (threads m' p)} \<subseteq> {q}"
    by (rule run_exclusive [where Q = "\<lambda>p. safe (test_start loc cd buf) cd buf p \<and> ?G p", OF assms Q,
          where J = "prod.locked cd buf loc"])
      (use prod.lone_locked prod.step_locked prod.locked_exclusive in
        \<open>auto simp: ready_test_def alone_def\<close>)
next
  let ?G = "guarded (consumer_start loc cd buf) SEMNUM_ME2 {cd + 4} (cell_ok cd buf) {} False"
  assume "input \<in> {2, 4}"
  then have Q: "safe (test_start loc cd buf) cd buf (init_tests loc input cd) \<and> ?G (init_tests loc input cd)"
    using safe_init_tests [OF assms(2,3)] guarded_init_tests(2) [OF assms(2,3), of input] by auto
  show "\<exists>q. {p. in_section {cd + 4} (cell_ok cd buf) (threads m' p)} \<subseteq> {q}"
    by (rule run_exclusive [where Q = "\<lambda>p. safe (test_start loc cd buf) cd buf p \<and> ?G p", OF assms Q,
          where J = "cons.locked cd buf loc"])
      (use cons.lone_locked cons.step_locked cons.locked_exclusive in
        \<open>auto simp: ready_test_def alone_def\<close>)
qed

theorem test_mutual_exclusion_witness:
  "\<exists>m m' p q. machine_run (test_code demo_loc 2 500 600 700) m [Action, Action, Action] m' \<and>
     threads m' (running (kern m')) = At (Store 600 0 p) \<and>
     {p. in_section {500} (cell_ok 500 600) (threads m' p)} \<subseteq> {q}"
proof -
  let ?code = "test_code demo_loc 2 500 600 700"
  obtain m where boot: "boot_machine ?code (snd (test_main demo_layout demo_loc 1)) = Some m"
    using test_boots [OF demo_layout_ok] by blast
  have ap: "apart 500 600" by (simp add: apart_def)
  obtain m' p where run: "machine_run ?code m [Action, Action, Action] m'"
    "threads m' (running (kern m')) = At (Store 600 0 p)"
    using demo_start [OF boot ap] by blast
  from test_mutual_exclusion [OF demo_layout_ok demo_loc_inj ap boot run(1)]
  have "\<exists>q. {p. in_section {500} (cell_ok 500 600) (threads m' p)} \<subseteq> {q}" by simp
  with run show ?thesis by blast
qed

end
