(* ===== verification/Handshake.thy ===== *)
theory Handshake
  imports Programs
begin

text \<open>
  The earlier test of the semaphores, \<^verbatim>\<open>disastrOS_test.c\<close>: the first process and a child wait for
  each other on two semaphores. \<open>childFunction\<close> belongs to a test of the resources that is commented
  out; \<open>sleeperFunction\<close>, which reads characters for ever, is not modelled.
\<close>

definition open_resource :: "int \<Rightarrow> int \<Rightarrow> int \<Rightarrow> (int \<Rightarrow> prog) \<Rightarrow> prog" where
  "open_resource resource_id ty mode rest =
     Sys DSOS_CALL_OPEN_RESOURCE (no_args(0 := resource_id, 1 := ty, 2 := mode)) rest"

definition sleep_prog :: "int \<Rightarrow> prog \<Rightarrow> prog" where
  "sleep_prog sleep_time rest = Sys DSOS_CALL_SLEEP (no_args(0 := sleep_time)) (\<lambda>_. rest)"

definition wait_child :: "int \<Rightarrow> addr \<Rightarrow> (int \<Rightarrow> prog) \<Rightarrow> prog" where
  "wait_child n retval rest = Sys DSOS_CALL_WAIT (no_args(0 := n, 1 := retval)) rest"

text \<open>
  The loop of \<open>childFunction\<close>, from round \<open>i\<close> and with \<open>n\<close> rounds to go: the number of a process
  does not change, so the bound of the loop is read once.
\<close>

fun child_iterate :: "nat \<Rightarrow> int \<Rightarrow> prog \<Rightarrow> prog" where
  "child_iterate 0 i rest = rest"
| "child_iterate (Suc n) i rest =
     Get_pid (\<lambda>p. Printf (''PID: %d, iterate %d'' @ newline) [p, i]
     (Get_pid (\<lambda>p. sleep_prog ((20 - p) * 5) (child_iterate n (i + 1) rest))))"

definition childFunction :: "addr \<Rightarrow> prog" where
  "childFunction args =
     Get_pid (\<lambda>p. Printf (''Hello, I am the child function %d'' @ newline) [p]
     (Printf (''I will iterate a bit, before terminating'' @ newline) []
     (Get_pid (\<lambda>p. open_resource p 0 0 (\<lambda>fd.
      Printf (''fd=%d'' @ newline) [fd]
     (Get_pid (\<lambda>p. Printf (''PID: %d, terminating'' @ newline) [p]
     (Get_pid (\<lambda>p. child_iterate (nat (p + 1)) 0
     (exit_pid Return))))))))))"

definition semaphore_testing :: "addr \<Rightarrow> prog" where
  "semaphore_testing args =
     sem_open 10 0 (\<lambda>fd1. sem_open 30 0 (\<lambda>fd2.
      Printf (''*******************************START SEMPOST IN CHILD***********************************'' @ newline) []
     (Print_status
     (sem_post fd1 (\<lambda>ret.
      Printf (''*******************************END SEMPOST IN CHILD***********************************'' @ newline) []
     (Print_status
     (Printf (''*******************************START SEMWAIT IN CHILD***********************************'' @ newline) []
     (sem_wait fd2 (\<lambda>ret.
      Printf (''*******************************END SEMWAIT IN CHILD***********************************'' @ newline) []
     (Printf (''Value ret of semWait: %d'' @ newline) [ret]
     (Print_status
     (sem_close fd1 (\<lambda>ret. sem_close fd2 (\<lambda>ret.
      exit_pid Return))))))))))))))"

text \<open>\<open>spawned\<close> is where the linker has put \<open>semaphore_testing\<close>, \<open>retval\<close> where the local variable lies.\<close>

definition handshake_init :: "addr \<Rightarrow> addr \<Rightarrow> prog" where
  "handshake_init spawned retval =
     sem_open 10 0 (\<lambda>fd1. Printf (''Value ret of semopen: %d'' @ newline) [fd1]
     (sem_open 30 0 (\<lambda>fd2. Printf (''Value ret of semopen: %d'' @ newline) [fd2]
     (spawn spawned 0
     (Printf (''^^^^^^^^^^^^^^^^^^^^^^^^^^^START SEMWAIT IN FATHER^^^^^^^^^^^^^^^^^^^^^^^^^^^^^^'' @ newline) []
     (Print_status
     (sem_wait fd1 (\<lambda>ret.
      Printf (''^^^^^^^^^^^^^^^^^^^^^^^^^^^END SEMWAIT IN FATHER^^^^^^^^^^^^^^^^^^^^^^^^^^^^^^'' @ newline) []
     (Print_status
     (Printf (''^^^^^^^^^^^^^^^^^^^^^^^^^^^START SEMPOST IN FATHER^^^^^^^^^^^^^^^^^^^^^^^^^^^^^^'' @ newline) []
     (sem_post fd2 (\<lambda>ret.
      Printf (''^^^^^^^^^^^^^^^^^^^^^^^^^^^END SEMPOST IN FATHER^^^^^^^^^^^^^^^^^^^^^^^^^^^^^^'' @ newline) []
     (Print_status
     (Printf (''Value ret of semPost: %d'' @ newline) [ret]
     (wait_child 0 retval (\<lambda>pid. Load retval (\<lambda>v. Printf (''Pid: %d, Retval: %d'' @ newline) [pid, v]
     (sem_close fd1 (\<lambda>ret. sem_close fd2 (\<lambda>ret.
      Printf (''shutdown!'' @ newline) [] (shutdown Return)))))))))))))))))))))"

text \<open>\<open>main\<close> prints the address of \<open>childFunction\<close> and starts the system.\<close>

definition handshake_main :: "layout \<Rightarrow> addr \<Rightarrow> addr \<Rightarrow> int \<Rightarrow> printout \<times> (control \<times> kernel) res" where
  "handshake_main ly child_f init_f argc =
     ([(''the function pointer is: %p'', [child_f]), (''start'' @ newline, [])],
      disastrOS_start ly init_f NULL (argc > 1) boot_kernel)"

end
