(* ===== verification/Spec2Isabelle.thy ===== *)
theory Spec2Isabelle
  imports System_Theorems Sched_Theorems Process_Theorems Sem_Theorems Resource_Theorems Print_Reach
    Test_Theorems Test_Exclusion Handshake
begin

text \<open>
  A verification of disastrOS, a simulated operating system whose kernel runs in one Unix process:
  processes are contexts, system calls are a trap into a handler, the timer is a signal, and the
  version in \<^verbatim>\<open>src/disastrOS_semaphores\<close> adds counting semaphores. Every state the model reaches is
  a \<open>kernel\<close> record of theory \<open>Kernel_State\<close>: the pools, one map per kind of struct from addresses to
  records, the link fields and list heads, and the global variables. On top of it, a \<open>machine\<close> of
  theory \<open>Machine\<close> is a kernel together with what is left of the program of every process.

  \<^bold>\<open>The model.\<close> The theories follow the files, from the libraries to the test programs.

  \<^item> \<open>Prelude\<close>: addresses, faults, the result type \<open>'a res = fault + 'a\<close> with \<open>andthen\<close>, C integers,
    \<open>first_of\<close>, \<open>last_of\<close> and the lemma collections shared by all.
  \<^item> \<open>Linked_List\<close> (\<^verbatim>\<open>linked_list.h/.c\<close>): \<open>List_insert\<close>, \<open>List_detach\<close>, \<open>List_find\<close> on the link
    fields themselves; the abstraction \<open>list_rep\<close> to lists of addresses, one for every list head
    of the kernel at once.
  \<^item> \<open>Pool_Allocator\<close> (\<^verbatim>\<open>pool_allocator.h/.c\<close>): the free list as an array of \<open>int\<close>, with the
    narrowings of the code; the abstraction to the sequence of free blocks and the set of used ones.
  \<^item> \<open>Kernel_State\<close> (\<^verbatim>\<open>disastrOS_constants.h\<close>, the structs of the headers, \<^verbatim>\<open>disastrOS_globals.h\<close>);
    \<open>Pcb\<close>, \<open>Timer\<close>, \<open>Resource\<close>, \<open>Semaphore\<close>: allocation, release and search of each kind
    of struct (the files of the same names, and \<^verbatim>\<open>disastrOS_descriptor.c\<close>,
    \<^verbatim>\<open>disastrOS_semdescriptor.c\<close>).
  \<^item> \<open>Scheduler\<close> (\<^verbatim>\<open>disastrOS_schedule.c\<close>, \<^verbatim>\<open>_preempt.c\<close>, \<^verbatim>\<open>_sleep.c\<close>, the timer interrupt),
    \<open>Process\<close> (\<^verbatim>\<open>_fork.c\<close>, \<^verbatim>\<open>_spawn.c\<close>, \<^verbatim>\<open>_wait.c\<close>, \<^verbatim>\<open>_exit.c\<close>), \<open>Resource_Syscalls\<close>
    (\<^verbatim>\<open>_open_resource.c\<close>, \<^verbatim>\<open>_close_resource.c\<close>, \<^verbatim>\<open>_destroy_resource.c\<close>), \<open>Sem_Syscalls\<close>
    (\<^verbatim>\<open>_semopen.c\<close>, \<^verbatim>\<open>_semclose.c\<close>, \<^verbatim>\<open>_semwait.c\<close>, \<^verbatim>\<open>_sempost.c\<close>, \<^verbatim>\<open>_shutdown.c\<close>): one definition per
    handler, every branch.
  \<^item> \<open>Dispatch\<close> (\<^verbatim>\<open>disastrOS.c\<close>): the tables, the trap, the start, the calls a process makes, and
    \<open>kernel_step\<close>, the transition relation: the running process makes a call, or the timer ticks.
    What happens next is the \<open>control\<close> a trap ends with: a process is resumed, or the system exits.
  \<^item> \<open>Printing\<close>: the print functions of all files and \<open>disastrOS_printStatus\<close>, as the list of
    the calls of \<open>printf\<close> they make.
  \<^item> \<open>Programs\<close> (the calls of \<^verbatim>\<open>disastrOS.c\<close> as a program sees them), \<open>Test_Programs\<close>
    (\<^verbatim>\<open>disastrOS_OurTest.c\<close>) and \<open>Handshake\<close> (\<^verbatim>\<open>disastrOS_test.c\<close>): the programs of the processes, as
    trees of their actions. A program gets the result of each call, and what it reads of the
    shared memory, as an argument of the rest.
  \<^item> \<open>Machine\<close>: \<open>machine_step\<close> is one action of the running process, or a tick of the timer between
    two of its actions; a call goes through \<open>disastrOS_syscall\<close>, and \<open>resume\<close> is the end of a trap,
    where a process starts at its function, or goes on with the \<open>syscall_retvalue\<close> the kernel has
    left for it.

  \<^bold>\<open>Interfaces.\<close> The locales \<open>block_store\<close> and \<open>located_store\<close> of \<open>Pool_Allocator\<close> state what the kernel
  relies on in an allocator, \<open>invariant_system\<close> of \<open>Boot\<close> what carries an invariant along the runs
  of a system, \<open>counting_semaphore\<close> of \<open>Sem_Abstract\<close> what calls must do to be those of a
  semaphore, \<open>memory_discipline\<close> of \<open>Contexts\<close> the contract of programs that share cells of memory,
  \<open>ghost_discipline\<close> of \<open>Ghosts\<close>, which extends it, what a ghost value of each process must satisfy
  to be carried along the steps of the machine, and \<open>lock_discipline\<close> of \<open>Locks\<close> the contract of
  programs that guard some of the cells by a semaphore, a sublocale of it: the ghost of a process is
  whether it holds or waits for the lock. Each is interpreted on the definitions of the model; the
  last ones on the programs of the test, for the locks of the producers and of the consumers.

  \<^bold>\<open>The results.\<close>

  \<^item> \<open>Kernel_Inv\<close> defines the invariant \<open>kinv k L\<close>, where \<open>L\<close> gives the contents of every list: all
    lists are well linked and disjoint, their items are live blocks of the right pool, the
    pointers between processes, timers, resources, semaphores and descriptors agree, the running
    process and the processes of the three queues are all processes and each is in one place,
    the timers are sorted, and numbers are unique. \<open>Kernel_Idle\<close> is the variant in the middle of a
    handler.
  \<^item> The theories \<open>_Correct\<close>, \<open>Sem_Open\<close>, \<open>Sem_Close\<close>, \<open>Resource_Open\<close> hold, for each handler, its execution
    on a kernel that satisfies the invariant, and that it keeps it. \<open>Boot\<close> establishes it at the
    start. \<open>System_Correct\<close> puts them together: the invariant holds in every reachable state.
  \<^item> \<open>Safety\<close>: which faults each call can run into. A fault is a null pointer dereferenced, a
    signed overflow, a failed assertion, an access outside an array, or a loop that never ends.
  \<^item> \<open>Frames\<close> and \<open>Sem_Frame\<close>: what each operation leaves alone. \<open>Sem_Runs\<close>: every event of the
    kernel is, for each semaphore, a wait or a post of the abstract semaphore of \<open>Sem_Abstract\<close>, or
    nothing; so the bounds of a counting semaphore hold over whole runs.
  \<^item> \<open>Ownership\<close> and \<open>Ownership_Steps\<close>: which semaphores each process has open under which numbers,
    and what every call changes of it. \<open>Ghosts\<close>: how each call, tick and action of the machine
    changes what a process may still do. \<open>Permits\<close>: the permits of a semaphore that are free, handed
    out or waited for. \<open>Locks\<close>: programs that are \<open>guarded\<close> never are in their sections at the same
    time, whatever the kernel does with them.
  \<^item> The theories \<open>_Theorems\<close> hold the properties, each with an instance on the kernel of \<open>Demo\<close>:
    what every call does on each of its branches, the order of waking and scheduling, the
    refinement of the counting semaphore, and where the code does not do what it is meant to.
  \<^item> \<open>Print_Reach\<close>: no descriptor the lists lead to has a null pointer, so the printing of the status
    never faults in a reachable state.
  \<^item> \<open>Test_Theorems\<close>: what the producers do when a semaphore cannot be opened. \<open>Test_Memory\<close>: the test, started by \<open>main\<close> and
    run by the kernel, never leaves its buffer. \<open>Test_Exclusion\<close>: its producers exclude each
    other, and so do its consumers.

  \<^bold>\<open>Conventions and bounds.\<close> Pointers and C integers are \<open>int\<close>; where the code adds, \<open>c_int\<close> makes a
  signed overflow a fault, and the narrowings of \<open>long\<close> to \<open>int\<close> and of pointer differences are
  written out by \<open>signed_take_bit\<close>. Loops over lists are \<open>partial_function (option)\<close> without fuel:
  \<open>None\<close> is a loop that never ends and becomes the fault \<open>Diverges\<close>, so every theorem that gives a
  result also says that the loops end. The sizes of the structs and the addresses of the static
  buffers are those of a \<open>layout\<close>, which only has to satisfy \<open>layout_ok\<close>: sizes are positive and
  buffers disjoint. A call keeps its arguments as \<open>long\<close> values, as \<open>va_arg\<close> reads them. Where the
  functions of the test lie (\<open>loc\<close>) and where the compiler puts the local variables of the first
  process (\<open>cd\<close>, \<open>buf\<close>) are parameters; the functions lie at different addresses and the variables do
  not overlap.

  \<^bold>\<open>Not modelled.\<close> The saved registers and stacks: a context is fresh, saved, or as it was found in
  the block. The set-up of the signals and the blocking of the timer during a trap: a tick comes
  between two actions of a process, never inside a call, and the handler of the tick is one step,
  although its own context does not block the signal and a second tick could come inside it. The
  output of the kernel: the log file, of which only the dereference of \<open>running\<close> is kept, and the
  calls of \<open>printf\<close> and \<open>disastrOS_printStatus\<close> inside \<open>internal_sleep\<close>, \<open>disastrOS_trap\<close> and other
  handlers; they change nothing. The memory of the programs (\<open>user_mem\<close>) is apart from that of the
  kernel, so a result pointer that leads into a structure of the kernel is outside the model. Overflow
  in the programs of the test. Of \<^verbatim>\<open>disastrOS_test.c\<close> the function \<open>sleeperFunction\<close>, which only
  reads characters and is never started. \<^verbatim>\<open>disastrOS_semops.c\<close>, an earlier copy of
  \<^verbatim>\<open>disastrOS_semaphore.c\<close> that is not built. Build files and notes.

  \<^bold>\<open>What is left.\<close> The number of full and empty cells of the buffer is not tied to the counts of the
  semaphores, so that a producer never overwrites a cell that was not consumed is not stated.
\<close>

end
